(* ===== verification/Prelude.thy ===== *)
theory Prelude
  imports Main "HOL-Library.Word" "HOL-Library.Multiset"
begin

text \<open>
  What every component of the development shares: the collections of facts the proofs draw
  on, sequencing over results that can fail, keyed lists (the rows of a table, a JavaScript
  object used as a dictionary), and bytes with their hexadecimal text.

  A call that can throw returns \<open>'e + 'a\<close>, \<open>Inl\<close> for the thrown value. An awaited call of a
  third-party service is a function argument of the definitions that use it.
\<close>

named_theorems wf_intros \<open>operations that keep the schema of the database\<close>
named_theorems frame \<open>tables and fields an operation leaves alone\<close>

section \<open>Results\<close>

definition bindE :: "'e + 'a \<Rightarrow> ('a \<Rightarrow> 'e + 'b) \<Rightarrow> 'e + 'b" where
  "bindE r f = (case r of Inl e \<Rightarrow> Inl e | Inr a \<Rightarrow> f a)"

lemma bindE_simps [simp]: "bindE (Inl e) f = Inl e" "bindE (Inr a) f = f a"
  by (simp_all add: bindE_def)

lemma bindE_Inr_iff: "bindE r f = Inr b \<longleftrightarrow> (\<exists>a. r = Inr a \<and> f a = Inr b)"
  by (cases r) auto

text \<open>A loop whose body can throw: the first throw ends it.\<close>

fun foldE :: "('s \<Rightarrow> 'x \<Rightarrow> 'e + 's) \<Rightarrow> 's \<Rightarrow> 'x list \<Rightarrow> 'e + 's" where
  "foldE f s [] = Inr s"
| "foldE f s (x # xs) = (case f s x of Inl e \<Rightarrow> Inl e | Inr s' \<Rightarrow> foldE f s' xs)"

lemma foldE_append:
  "foldE f s (xs @ ys) = bindE (foldE f s xs) (\<lambda>s'. foldE f s' ys)"
  by (induction xs arbitrary: s) (auto split: sum.splits)

lemma foldE_inv:
  assumes "foldE f s xs = Inr t" and "P s"
    and "\<And>s x s'. \<lbrakk>x \<in> set xs; P s; f s x = Inr s'\<rbrakk> \<Longrightarrow> P s'"
  shows "P t"
  using assms
proof (induction xs arbitrary: s)
  case Nil
  then show ?case by simp
next
  case (Cons x xs)
  then obtain s' where s': "f s x = Inr s'" "foldE f s' xs = Inr t"
    by (auto split: sum.splits)
  moreover have "P s'"
    using Cons.prems(2,3) s'(1) by auto
  ultimately show ?case
    using Cons.IH Cons.prems(3) by (metis list.set_intros(2))
qed

text \<open>\<open>Promise.all\<close> of calls that run one after another: all the results, or the first failure.\<close>

fun mapE :: "('x \<Rightarrow> 'e + 'y) \<Rightarrow> 'x list \<Rightarrow> 'e + 'y list" where
  "mapE f [] = Inr []"
| "mapE f (x # xs) = bindE (f x) (\<lambda>y. bindE (mapE f xs) (\<lambda>ys. Inr (y # ys)))"

lemma mapE_append: "mapE f (xs @ ys) = bindE (mapE f xs) (\<lambda>us. bindE (mapE f ys) (\<lambda>vs. Inr (us @ vs)))"
  by (induction xs) (auto simp: bindE_def split: sum.splits)

lemma mapE_Inr_iff: "mapE f xs = Inr ys \<longleftrightarrow> list_all2 (\<lambda>x y. f x = Inr y) xs ys"
  by (induction xs arbitrary: ys) (auto simp: bindE_Inr_iff list_all2_Cons1)

lemma mapE_total: "(\<And>x. x \<in> set xs \<Longrightarrow> f x = Inr (g x)) \<Longrightarrow> mapE f xs = Inr (map g xs)"
  by (induction xs) auto

lemma mapE_cong [fundef_cong]:
  "\<lbrakk>xs = ys; \<And>x. x \<in> set ys \<Longrightarrow> f x = g x\<rbrakk> \<Longrightarrow> mapE f xs = mapE g ys"
  by (induction xs arbitrary: ys) auto

lemma fold_inv:
  assumes "P s" and "\<And>x s. \<lbrakk>x \<in> set xs; P s\<rbrakk> \<Longrightarrow> P (f x s)"
  shows "P (fold f xs s)"
  using assms by (induction xs arbitrary: s) auto

section \<open>Keyed lists\<close>

text \<open>The first element with a given key; keys that are unique make it the only one.\<close>

definition find_by :: "('r \<Rightarrow> 'k) \<Rightarrow> 'k \<Rightarrow> 'r list \<Rightarrow> 'r option" where
  "find_by key k rows = find (\<lambda>r. key r = k) rows"

lemma find_by_Nil [simp]: "find_by key k [] = None"
  by (simp add: find_by_def)

lemma find_by_Cons [simp]:
  "find_by key k (r # rows) = (if key r = k then Some r else find_by key k rows)"
  by (simp add: find_by_def)

lemma find_by_append:
  "find_by key k (xs @ ys) = (case find_by key k xs of None \<Rightarrow> find_by key k ys | Some r \<Rightarrow> Some r)"
  by (induction xs) auto

lemma find_by_None_iff: "find_by key k rows = None \<longleftrightarrow> k \<notin> key ` set rows"
  by (induction rows) auto

lemma find_by_SomeD: "find_by key k rows = Some r \<Longrightarrow> r \<in> set rows \<and> key r = k"
  by (induction rows) (auto split: if_splits)

lemma find_by_Some_iff:
  assumes "distinct (map key rows)"
  shows "find_by key k rows = Some r \<longleftrightarrow> r \<in> set rows \<and> key r = k"
  using assms by (induction rows) (auto simp: rev_image_eqI)

lemma distinct_map_inj: "\<lbrakk>distinct (map f xs); x \<in> set xs; y \<in> set xs; f x = f y\<rbrakk> \<Longrightarrow> x = y"
  by (metis distinct_map inj_onD)

lemma distinct_map_filter [intro]: "distinct (map f xs) \<Longrightarrow> distinct (map f (filter P xs))"
  by (induction xs) auto

lemma map_key_update [simp]:
  assumes "\<And>r. f (u r) = f r"
  shows "map f (map (\<lambda>r. if P r then u r else r) rows) = map f rows"
  using assms by (induction rows) auto

text \<open>A join on a unique key finds at most one row.\<close>

lemma join_unique:
  assumes "distinct (map key rows)"
  shows "concat (map (\<lambda>r. if key r = k then f r else []) rows) =
    (case find_by key k rows of None \<Rightarrow> [] | Some r \<Rightarrow> f r)"
  using assms
proof (induction rows)
  case (Cons r rows)
  show ?case
  proof (cases "key r = k")
    case True
    then have "\<forall>q\<in>set rows. key q \<noteq> k" using Cons.prems by (metis distinct.simps(2) imageI list.simps(9) set_map)
    then have "concat (map (\<lambda>r. if key r = k then f r else []) rows) = []" by (auto simp: concat_eq_Nil_conv)
    then show ?thesis using True by simp
  next
    case False
    then show ?thesis using Cons by simp
  qed
qed simp

lemma join_unique':
  assumes "distinct (map key rows)"
  shows "concat (map (\<lambda>r. if key r = k \<and> Q r then f r else []) rows) =
    (case find_by key k rows of None \<Rightarrow> [] | Some r \<Rightarrow> if Q r then f r else [])"
proof -
  have "(\<lambda>r. if key r = k \<and> Q r then f r else []) = (\<lambda>r. if key r = k then (if Q r then f r else []) else [])"
    by auto
  then show ?thesis using join_unique [OF assms, of k "\<lambda>r. if Q r then f r else []"] by simp
qed

lemma concat_if_filter: "concat (map (\<lambda>x. if P x then [f x] else []) xs) = map f (filter P xs)"
  by (induction xs) auto

text \<open>
  A JavaScript object or \<open>Map\<close> filled by assignment: keys keep the place of their first
  assignment, a later assignment replaces the value.
\<close>

fun js_set :: "'k \<Rightarrow> 'v \<Rightarrow> ('k \<times> 'v) list \<Rightarrow> ('k \<times> 'v) list" where
  "js_set k v [] = [(k, v)]"
| "js_set k v ((k', v') # m) = (if k' = k then (k', v) # m else (k', v') # js_set k v m)"

lemma map_of_js_set [simp]: "map_of (js_set k v m) = (map_of m)(k \<mapsto> v)"
  by (induction m) (auto simp: fun_upd_twist)

lemma keys_js_set: "fst ` set (js_set k v m) = insert k (fst ` set m)"
  by (induction k v m rule: js_set.induct) (auto simp: insert_commute)

lemma distinct_js_set [intro]: "distinct (map fst m) \<Longrightarrow> distinct (map fst (js_set k v m))"
proof (induction m)
  case (Cons p m)
  then show ?case
    using keys_js_set [of k v m] by (cases p) (auto simp: image_iff)
qed simp

text \<open>A dictionary of arrays: \<open>if (!d[k]) d[k] = []; d[k].push(v)\<close>.\<close>

definition js_push :: "'k \<Rightarrow> 'v \<Rightarrow> ('k \<times> 'v list) list \<Rightarrow> ('k \<times> 'v list) list" where
  "js_push k v m = js_set k ((case map_of m k of None \<Rightarrow> [] | Some vs \<Rightarrow> vs) @ [v]) m"

lemma map_of_js_push:
  "map_of (js_push k v m) = (map_of m)(k \<mapsto> (case map_of m k of None \<Rightarrow> [] | Some vs \<Rightarrow> vs) @ [v])"
  by (simp add: js_push_def)

lemma keys_js_push: "fst ` set (js_push k v m) = insert k (fst ` set m)"
  by (simp add: js_push_def keys_js_set)

lemma map_of_fold_js_set:
  assumes "distinct (map k rs)"
  shows "map_of (fold (\<lambda>r m. js_set (k r) (v r) m) rs m) a =
    (case find_by k a rs of Some r \<Rightarrow> Some (v r) | None \<Rightarrow> map_of m a)"
  using assms by (induction rs arbitrary: m) (auto simp: find_by_None_iff dest!: find_by_SomeD split: option.splits)

lemma find_by_filter_key: "find_by k a (filter (\<lambda>r. k r \<in> A) rs) = (if a \<in> A then find_by k a rs else None)"
  by (induction rs) auto

section \<open>Array reads\<close>

text \<open>An array read out of range gives \<open>undefined\<close> in JavaScript: \<open>None\<close>.\<close>

definition js_nth :: "'a list \<Rightarrow> nat \<Rightarrow> 'a option" where
  "js_nth xs i = (if i < length xs then Some (xs ! i) else None)"

lemma js_nth_Some_iff: "js_nth xs i = Some x \<longleftrightarrow> i < length xs \<and> xs ! i = x"
  by (simp add: js_nth_def)

section \<open>Bytes\<close>

type_synonym byte = "8 word"

definition hex_digit :: "nat \<Rightarrow> char" where
  "hex_digit n = ''0123456789abcdef'' ! n"

definition hex_of_byte :: "byte \<Rightarrow> string" where
  "hex_of_byte b = [hex_digit (unat b div 16), hex_digit (unat b mod 16)]"

text \<open>\<open>Buffer.toString("hex")\<close>.\<close>

definition hex_of_bytes :: "byte list \<Rightarrow> string" where
  "hex_of_bytes bs = concat (map hex_of_byte bs)"

lemma length_hex_of_bytes: "length (hex_of_bytes bs) = 2 * length bs"
  by (induction bs) (simp_all add: hex_of_bytes_def hex_of_byte_def)

section \<open>Transition systems\<close>

text \<open>
  A component that reacts to events is a step relation: the event loop of JavaScript runs one
  handler at a time up to its next \<open>await\<close>, so a step is such an uninterrupted stretch and the
  order of steps is not determined.
\<close>

inductive reach :: "('s \<Rightarrow> bool) \<Rightarrow> ('s \<Rightarrow> 's \<Rightarrow> bool) \<Rightarrow> 's \<Rightarrow> bool"
  for init :: "'s \<Rightarrow> bool" and step :: "'s \<Rightarrow> 's \<Rightarrow> bool" where
  reach_init: "init s \<Longrightarrow> reach init step s"
| reach_step: "\<lbrakk>reach init step s; step s t\<rbrakk> \<Longrightarrow> reach init step t"

text \<open>An invariant: true at the start and kept by every step.\<close>

locale step_invariant =
  fixes init :: "'s \<Rightarrow> bool" and step :: "'s \<Rightarrow> 's \<Rightarrow> bool" and inv :: "'s \<Rightarrow> bool"
  assumes inv_init: "init s \<Longrightarrow> inv s"
    and inv_step: "\<lbrakk>inv s; step s t\<rbrakk> \<Longrightarrow> inv t"
begin

lemma inv_reach: "reach init step s \<Longrightarrow> inv s"
  by (induction rule: reach.induct) (auto intro: inv_init inv_step)

lemma inv_steps: "\<lbrakk>step\<^sup>*\<^sup>* s t; inv s\<rbrakk> \<Longrightarrow> inv t"
  by (induction rule: rtranclp_induct) (auto intro: inv_step)

end

section \<open>Numbering keys\<close>

text \<open>
  A store that gives every key a number the first time it is asked for: what the wrapper of the
  database promises to the trackers for addresses, transactions and accounts.
\<close>

locale id_store =
  fixes inv :: "'s \<Rightarrow> bool"
    and lookup :: "'k \<Rightarrow> 's \<Rightarrow> nat option"
    and ensure :: "'k \<Rightarrow> 's \<Rightarrow> nat \<times> 's"
  assumes ensure_inv: "inv s \<Longrightarrow> inv (snd (ensure k s))"
    and ensure_known: "\<lbrakk>inv s; lookup k s = Some i\<rbrakk> \<Longrightarrow> ensure k s = (i, s)"
    and ensure_lookup: "inv s \<Longrightarrow> lookup k (snd (ensure k s)) = Some (fst (ensure k s))"
    and ensure_other: "\<lbrakk>inv s; k' \<noteq> k\<rbrakk> \<Longrightarrow> lookup k' (snd (ensure k s)) = lookup k' s"
    and lookup_inj: "\<lbrakk>inv s; lookup k s = Some i; lookup k' s = Some i\<rbrakk> \<Longrightarrow> k = k'"
begin

definition ensure_all :: "'k list \<Rightarrow> 's \<Rightarrow> 's" where
  "ensure_all ks s = fold (\<lambda>k s. snd (ensure k s)) ks s"

lemma ensure_twice: "inv s \<Longrightarrow> ensure k (snd (ensure k s)) = (fst (ensure k s), snd (ensure k s))"
  by (intro ensure_known ensure_inv ensure_lookup)

lemma ensure_keeps: "\<lbrakk>inv s; lookup k' s = Some i\<rbrakk> \<Longrightarrow> lookup k' (snd (ensure k s)) = Some i"
  by (cases "k' = k") (simp_all add: ensure_known ensure_other)

lemma ensure_all_inv: "inv s \<Longrightarrow> inv (ensure_all ks s)"
  unfolding ensure_all_def by (rule fold_inv) (auto intro: ensure_inv)

lemma ensure_all_keeps: "\<lbrakk>inv s; lookup k s = Some i\<rbrakk> \<Longrightarrow> lookup k (ensure_all ks s) = Some i"
  unfolding ensure_all_def
  by (induction ks arbitrary: s) (auto intro: ensure_inv ensure_keeps)

lemma ensure_all_knows:
  assumes "inv s"
  shows "lookup k (ensure_all ks s) \<noteq> None \<longleftrightarrow> k \<in> set ks \<or> lookup k s \<noteq> None"
  using assms unfolding ensure_all_def
proof (induction ks arbitrary: s)
  case (Cons x ks)
  have "lookup k (snd (ensure x s)) \<noteq> None \<longleftrightarrow> k = x \<or> lookup k s \<noteq> None"
    using Cons.prems by (cases "k = x") (simp_all add: ensure_lookup ensure_other)
  then show ?case using Cons.IH [of "snd (ensure x s)"] Cons.prems ensure_inv by auto
qed simp

text \<open>Whatever the order, each key gets one number and no two keys share it.\<close>

lemma ensure_all_inj:
  "\<lbrakk>inv s; lookup k (ensure_all ks s) = Some i; lookup k' (ensure_all ks s) = Some i\<rbrakk> \<Longrightarrow> k = k'"
  using lookup_inj [OF ensure_all_inv] by blast

lemma ensure_all_again:
  assumes "inv s" and "\<And>k. k \<in> set ks \<Longrightarrow> lookup k s \<noteq> None"
  shows "ensure_all ks s = s"
  using assms unfolding ensure_all_def
proof (induction ks)
  case (Cons k ks)
  then obtain i where "lookup k s = Some i" by auto
  then have "snd (ensure k s) = s" using Cons.prems(1) by (simp add: ensure_known)
  then show ?case using Cons by simp
qed simp

end

end
