(* ===== verification/Errors.thy ===== *)
theory Errors
  imports Prelude
begin

text \<open>
  \<^verbatim>\<open>lib/errors.ts\<close>: the dictionary of error codes. The code throws the strings of this
  dictionary and compares what it catches with \<open>===\<close>; the model throws constructors. The two
  agree because no two codes carry the same string (\<open>err_msg_inj\<close>). The last constructors are
  the other things the modelled code throws: an \<open>Error\<close> object with a message, a string of its
  own, a rejected call of a third-party service, and the exit of the process.
\<close>

datatype (plugins only: code size) err =
    Get_UNKNXPUB | Get_DISALLOWED
  | Params_INVALID
  | Body_NODATA | Body_NOXPUB | Body_NOTYPE | Body_NOADDR | Body_NOMSG | Body_NOSIG
  | Body_NOSCRIPT | Body_SCRIPTSIZE | Body_NOTX | Body_INVTYPE | Body_INVDATA
  | Sig_INVSIG | Sig_INVMSG | Sig_INVADDR
  | Tx_PARSE | Tx_SEND | Tx_TXID
  | Address_INVALID
  | Xpub_INVALID | Xpub_CHAIN | Xpub_PRIVKEY | Xpub_CREATE | Xpub_RESTORE | Xpub_OVERLAP
  | Xpub_SEGWIT | Xpub_LOCKED
  | Txout_VOUT | Txout_NOTFOUND
  | Multiaddr_NOACT | Multiaddr_INVALID | Multiaddr_AMBIG | Multiaddr_NO_IMPORTER
  | Generic_GEN | Generic_DB
  | Auth_INVALID_CONF | Auth_INVALID_JWT | Auth_INVALID_PRF | Auth_MISSING_JWT
  | Auth_TECH_ISSUE | Auth_INVALID_API_KEY
  | Db_NO_ADDRESS | Db_NO_HD_ACCOUNT
  | Pushtx_NLOCK_MISMATCH | Pushtx_SCHEDULED_TOO_FAR | Pushtx_SCHEDULED_BAD_ORDER
  | Pushtx_VIOLATION_STRICT_MODE_VOUTS
  | Estimator_NOT_AVAILABLE

primrec err_msg :: "err \<Rightarrow> string" where
  "err_msg Get_UNKNXPUB = ''Unknown xpub. Create with POST /xpub''"
| "err_msg Get_DISALLOWED = ''GET not allowed. Use POST''"
| "err_msg Params_INVALID = ''Invalid request params''"
| "err_msg Body_NODATA = ''No body data''"
| "err_msg Body_NOXPUB = ''Missing body parameter \"xpub\"''"
| "err_msg Body_NOTYPE = ''Missing body parameter \"type\"''"
| "err_msg Body_NOADDR = ''Missing body parameter \"address\"''"
| "err_msg Body_NOMSG = ''Missing body parameter \"message\"''"
| "err_msg Body_NOSIG = ''Missing body parameter \"signature\"''"
| "err_msg Body_NOSCRIPT = ''Missing body parameter \"script\"''"
| "err_msg Body_SCRIPTSIZE = ''Too many entries in the script''"
| "err_msg Body_NOTX = ''Missing body parameter \"tx\"''"
| "err_msg Body_INVTYPE = ''Invalid value for parameter \"type\"''"
| "err_msg Body_INVDATA = ''Invalid request arguments''"
| "err_msg Sig_INVSIG = ''Invalid bitcoin signature''"
| "err_msg Sig_INVMSG = ''Invalid message content''"
| "err_msg Sig_INVADDR = ''Incorrect bitcoin address used for signature''"
| "err_msg Tx_PARSE = ''Unable to parse transaction hex''"
| "err_msg Tx_SEND = ''Unable to broadcast transaction''"
| "err_msg Tx_TXID = ''Malformed txid''"
| "err_msg Address_INVALID = ''Invalid address''"
| "err_msg Xpub_INVALID = ''Invalid xpub''"
| "err_msg Xpub_CHAIN = ''Invalid chain''"
| "err_msg Xpub_PRIVKEY = ''No private keys''"
| "err_msg Xpub_CREATE = ''Unable to create new HD account''"
| "err_msg Xpub_RESTORE = ''Unable to restore HD account''"
| "err_msg Xpub_OVERLAP = ''Import in progress''"
| "err_msg Xpub_SEGWIT = ''Invalid value for SegWit support type''"
| "err_msg Xpub_LOCKED = ''Unable to complete operation (locked xpub)''"
| "err_msg Txout_VOUT = ''Invalid vout''"
| "err_msg Txout_NOTFOUND = ''Unspent output not found''"
| "err_msg Multiaddr_NOACT = ''Missing parameter \"active\"''"
| "err_msg Multiaddr_INVALID = ''No valid active entries''"
| "err_msg Multiaddr_AMBIG = ''Ambiguous \"new\" parameter: pass only one xpub''"
| "err_msg Multiaddr_NO_IMPORTER = ''Cannot use bitcoind as an importer''"
| "err_msg Generic_GEN = ''Error''"
| "err_msg Generic_DB = ''Database Error''"
| "err_msg Auth_INVALID_CONF = ''Missing configuration parameter''"
| "err_msg Auth_INVALID_JWT = ''Invalid JSON Web Token''"
| "err_msg Auth_INVALID_PRF = ''Your current access rights do not allow this operation''"
| "err_msg Auth_MISSING_JWT = ''Missing JSON Web Token''"
| "err_msg Auth_TECH_ISSUE = ''A technical problem was encountered. Unable to authenticate the user''"
| "err_msg Auth_INVALID_API_KEY = ''Invalid API key''"
| "err_msg Db_NO_ADDRESS = ''ERROR_NO_ADDRESS''"
| "err_msg Db_NO_HD_ACCOUNT = ''ERROR_NO_HD_ACCOUNT''"
| "err_msg Pushtx_NLOCK_MISMATCH = ''nLockTime in script does not match nLockTime in transaction''"
| "err_msg Pushtx_SCHEDULED_TOO_FAR = ''nLockTime is set to far in the future''"
| "err_msg Pushtx_SCHEDULED_BAD_ORDER = ''Order of hop and nLockTime values must be consistent''"
| "err_msg Pushtx_VIOLATION_STRICT_MODE_VOUTS = ''VIOLATION_STRICT_MODE_VOUTS''"
| "err_msg Estimator_NOT_AVAILABLE = ''FeeEstimator not available''"

text \<open>What the modelled code can throw.\<close>

datatype exn =
    Err err             \<comment> \<open>\<open>throw errors.x.Y\<close>\<close>
  | Str string          \<comment> \<open>\<open>throw "..."\<close>\<close>
  | Exn string          \<comment> \<open>\<open>throw new Error("...")\<close>\<close>
  | Rejected            \<comment> \<open>a third-party call (RPC, indexer) rejected\<close>
  | Sql                 \<comment> \<open>the database refused a statement\<close>
  | Exit                \<comment> \<open>\<open>process.exit()\<close>\<close>
  | Faults "(string \<times> int \<times> int) list" \<comment> \<open>the object with the outputs refused in strict mode\<close>

type_synonym 'a result = "exn + 'a"

text \<open>The codes in the order of the dictionary.\<close>

definition all_errs :: "err list" where
  "all_errs =
     [Get_UNKNXPUB, Get_DISALLOWED, Params_INVALID, Body_NODATA, Body_NOXPUB, Body_NOTYPE,
      Body_NOADDR, Body_NOMSG, Body_NOSIG, Body_NOSCRIPT, Body_SCRIPTSIZE, Body_NOTX,
      Body_INVTYPE, Body_INVDATA, Sig_INVSIG, Sig_INVMSG, Sig_INVADDR, Tx_PARSE, Tx_SEND,
      Tx_TXID, Address_INVALID, Xpub_INVALID, Xpub_CHAIN, Xpub_PRIVKEY, Xpub_CREATE,
      Xpub_RESTORE, Xpub_OVERLAP, Xpub_SEGWIT, Xpub_LOCKED, Txout_VOUT, Txout_NOTFOUND,
      Multiaddr_NOACT, Multiaddr_INVALID, Multiaddr_AMBIG, Multiaddr_NO_IMPORTER, Generic_GEN,
      Generic_DB, Auth_INVALID_CONF, Auth_INVALID_JWT, Auth_INVALID_PRF, Auth_MISSING_JWT,
      Auth_TECH_ISSUE, Auth_INVALID_API_KEY, Db_NO_ADDRESS, Db_NO_HD_ACCOUNT,
      Pushtx_NLOCK_MISMATCH, Pushtx_SCHEDULED_TOO_FAR, Pushtx_SCHEDULED_BAD_ORDER,
      Pushtx_VIOLATION_STRICT_MODE_VOUTS, Estimator_NOT_AVAILABLE]"

lemma all_errs_complete: "e \<in> set all_errs"
  by (cases e) (simp_all add: all_errs_def)

lemma err_msgs_distinct: "distinct (map err_msg all_errs)"
  unfolding all_errs_def by code_simp

text \<open>
  No two entries of the dictionary carry the same string, so comparing the thrown strings
  with \<open>===\<close>, as the handlers do, is comparing the codes.
\<close>

theorem err_msg_inj: "err_msg e = err_msg e' \<longleftrightarrow> e = e'"
  using distinct_map_inj [OF err_msgs_distinct all_errs_complete all_errs_complete] by blast

end
