(* ===== verification/Util.thy ===== *)
theory Util
  imports Errors
begin

text \<open>
  \<^verbatim>\<open>lib/util.ts\<close>: the list helpers the other modules call. \<open>splitList\<close> is the source's loop,
  which does not end for a limit of zero or less; \<open>chunks\<close> is what it computes for a positive
  limit, and is what the callers of the model use, all of whose limits are positive constants.
  \<open>range_step\<close> is \<open>range\<close> with its third argument, \<open>range\<close> the call without it.
  Numbers that are counts or indices are integers; the rounding of doubles above \<open>2 ^ 53\<close> is not
  modelled.
\<close>

section \<open>Splitting a list\<close>

text \<open>\<open>Array.prototype.slice\<close>: negative positions count from the end.\<close>

definition js_slice :: "'a list \<Rightarrow> int \<Rightarrow> int \<Rightarrow> 'a list" where
  "js_slice xs a b =
     (let n = int (length xs);
          pos = (\<lambda>i. if i < 0 then max (n + i) 0 else min i n);
          s = pos a; e = pos b
      in take (nat (e - s)) (drop (nat s) xs))"

partial_function (option) splitList_loop ::
  "'a list \<Rightarrow> int \<Rightarrow> int \<Rightarrow> 'a list list \<Rightarrow> 'a list list option" where
  "splitList_loop xs limit i acc =
     (if i < int (length xs)
      then splitList_loop xs limit (i + limit) (acc @ [js_slice xs i (i + limit)])
      else Some acc)"

definition splitList :: "'a list \<Rightarrow> int \<Rightarrow> 'a list list option" where
  "splitList xs limit = splitList_loop xs limit 0 []"

fun chunks :: "nat \<Rightarrow> 'a list \<Rightarrow> 'a list list" where
  "chunks n xs = (if n = 0 \<or> xs = [] then [] else take n xs # chunks n (drop n xs))"

declare chunks.simps [simp del]

lemma chunks_Nil [simp]: "chunks n [] = []"
  by (simp add: chunks.simps)

lemma chunks_rec: "\<lbrakk>0 < n; xs \<noteq> []\<rbrakk> \<Longrightarrow> chunks n xs = take n xs # chunks n (drop n xs)"
  by (simp add: chunks.simps)

lemma concat_chunks [simp]: "0 < n \<Longrightarrow> concat (chunks n xs) = xs"
  by (induction n xs rule: chunks.induct) (subst chunks.simps, simp)

lemma chunks_size: "c \<in> set (chunks n xs) \<Longrightarrow> 0 < length c \<and> length c \<le> n"
proof (induction n xs rule: chunks.induct)
  case (1 n xs)
  then show ?case
    by (cases "n = 0 \<or> xs = []") (auto simp: chunks.simps [of n xs])
qed

lemma set_chunks: "0 < n \<Longrightarrow> (\<Union>c\<in>set (chunks n xs). set c) = set xs"
  using concat_chunks [of n xs] by (metis set_concat)

lemma chunks_full:
  "\<lbrakk>0 < n; k < length (chunks n xs) - 1\<rbrakk> \<Longrightarrow> length (chunks n xs ! k) = n"
proof (induction n xs arbitrary: k rule: chunks.induct)
  case (1 n xs)
  show ?case
  proof (cases "n < length xs")
    case True
    then have rec: "chunks n xs = take n xs # chunks n (drop n xs)"
      using "1.prems" by (intro chunks_rec) auto
    show ?thesis
    proof (cases k)
      case 0
      then show ?thesis using rec True by simp
    next
      case (Suc j)
      then show ?thesis using "1.IH" [of j] "1.prems" rec True by (cases "xs = []") auto
    qed
  next
    case False
    then have "length (chunks n xs) \<le> 1"
      using "1.prems"(1) by (cases "xs = []") (auto simp: chunks_rec)
    then show ?thesis using "1.prems" by simp
  qed
qed

text \<open>Mapping every chunk and joining the results is mapping the list.\<close>

lemma concat_map_chunks: "0 < n \<Longrightarrow> concat (map (map f) (chunks n xs)) = map f xs"
  by (metis concat_chunks map_concat)

lemma splitList_loop_eq:
  assumes "0 < n" and "i \<le> length xs"
  shows "splitList_loop xs (int n) (int i) acc = Some (acc @ chunks n (drop i xs))"
  using assms
proof (induction "length xs - i" arbitrary: i acc rule: less_induct)
  case less
  show ?case
  proof (cases "i < length xs")
    case False
    then show ?thesis using less.prems by (simp add: splitList_loop.simps)
  next
    case True
    have slice: "js_slice xs (int i) (int i + int n) = take n (drop i xs)"
      using True by (simp add: js_slice_def Let_def min_def)
    show ?thesis
    proof (cases "i + n \<le> length xs")
      case True
      then have "splitList_loop xs (int n) (int (i + n)) (acc @ [take n (drop i xs)])
          = Some ((acc @ [take n (drop i xs)]) @ chunks n (drop (i + n) xs))"
        using less.prems \<open>i < length xs\<close> by (intro less.hyps) auto
      then show ?thesis
        using \<open>i < length xs\<close> less.prems slice
        by (subst splitList_loop.simps) (simp add: chunks_rec add.commute)
    next
      case False
      then have "splitList_loop xs (int n) (int i + int n) (acc @ [take n (drop i xs)])
          = Some (acc @ [take n (drop i xs)])"
        by (simp add: splitList_loop.simps)
      then show ?thesis
        using \<open>i < length xs\<close> less.prems slice False
        by (subst splitList_loop.simps) (simp add: chunks_rec)
    qed
  qed
qed

lemma splitList_chunks: "0 < n \<Longrightarrow> splitList xs (int n) = Some (chunks n xs)"
  using splitList_loop_eq [of n 0 xs "[]"] by (simp add: splitList_def)

text \<open>For a limit of zero or less the loop is left only if it is never entered.\<close>

lemma splitList_loop_diverges:
  assumes "splitList_loop xs limit i acc = Some r" and "limit \<le> 0"
  shows "int (length xs) \<le> i"
proof -
  have "limit \<le> 0 \<longrightarrow> int (length xs) \<le> i"
    using assms(1)
  proof (rule splitList_loop.raw_induct
      [where P = "\<lambda>xs limit i acc r. limit \<le> 0 \<longrightarrow> int (length xs) \<le> i", rotated])
    fix f :: "'a list \<Rightarrow> int \<Rightarrow> int \<Rightarrow> 'a list list \<Rightarrow> 'a list list option" and xs limit i acc r
    assume IH: "\<And>xs limit i acc r. f xs limit i acc = Some r \<Longrightarrow>
        limit \<le> 0 \<longrightarrow> int (length xs) \<le> i"
      and eq: "(if i < int (length xs)
        then f xs limit (i + limit) (acc @ [js_slice xs i (i + limit)]) else Some acc) = Some r"
    show "limit \<le> 0 \<longrightarrow> int (length xs) \<le> i"
    proof (cases "i < int (length xs)")
      case True
      then have "limit \<le> 0 \<longrightarrow> int (length xs) \<le> i + limit"
        using eq IH [of xs limit "i + limit"] by simp
      then show ?thesis using True by auto
    qed simp
  qed
  then show ?thesis using assms(2) by blast
qed

text \<open>
  \<open>splitList\<close> with a positive limit returns, the pieces joined give the list back, every piece
  but the last has exactly the limit's length and the last one is not empty; with a limit of zero
  or less on a non-empty list it never returns.
\<close>

theorem splitList_spec:
  "splitList xs limit =
     (if 0 < limit then Some (chunks (nat limit) xs) else if xs = [] then Some [] else None)
   \<and> (0 < n \<longrightarrow> concat (chunks n xs) = xs \<and> (\<forall>c\<in>set (chunks n xs). 0 < length c \<and> length c \<le> n)
        \<and> (\<forall>k<length (chunks n xs) - 1. length (chunks n xs ! k) = n))"
proof (intro conjI impI ballI allI)
  show "splitList xs limit =
     (if 0 < limit then Some (chunks (nat limit) xs) else if xs = [] then Some [] else None)"
  proof (cases "0 < limit")
    case True
    then show ?thesis using splitList_chunks [of "nat limit" xs] by simp
  next
    case False
    show ?thesis
    proof (cases "splitList xs limit")
      case None
      then show ?thesis using False
        by (cases "xs = []") (auto simp: splitList_def splitList_loop.simps)
    next
      case (Some r)
      then have "int (length xs) \<le> 0"
        using False splitList_loop_diverges [of xs limit 0 "[]" r] by (simp add: splitList_def)
      then show ?thesis using False by (simp add: splitList_def splitList_loop.simps)
    qed
  qed
qed (auto dest: chunks_size intro: chunks_full)

text \<open>Concrete splits: seven entries by three, and a limit of zero.\<close>

lemma splitList_spec_witness:
  "splitList [1, 2, 3, 4, 5, 6, 7 :: int] 3 = Some [[1, 2, 3], [4, 5, 6], [7]]
   \<and> splitList [1 :: int] 0 = None
   \<and> concat (chunks 3 [1, 2, 3, 4, 5, 6, 7 :: int]) = [1, 2, 3, 4, 5, 6, 7]"
proof -
  have "chunks 3 [1, 2, 3, 4, 5, 6, 7 :: int] = [[1, 2, 3], [4, 5, 6], [7]]"
    by (simp add: chunks.simps)
  then show ?thesis
    using splitList_spec [of "[1, 2, 3, 4, 5, 6, 7 :: int]" 3 3] splitList_spec [of "[1 :: int]" 0 1]
    by simp
qed

section \<open>Ranges\<close>

text \<open>
  \<open>Array.from({ length: Math.ceil((stop - start) / step) })\<close>: a negative length counts as zero, one
  above \<open>2 ^ 32 - 1\<close> (and the infinite quotient of a zero step) is a \<open>RangeError\<close>, here \<open>None\<close>.
\<close>

definition range_step :: "int \<Rightarrow> int \<Rightarrow> int \<Rightarrow> int list option" where
  "range_step start stop step =
     (if step = 0 then (if start < stop then None else Some [])
      else let len = - ((start - stop) div step)
           in if 2 ^ 32 \<le> len then None
              else Some (map (\<lambda>y. start + y * step) [0..len - 1]))"

definition range :: "int \<Rightarrow> int \<Rightarrow> int list" where
  "range start stop = [start..stop - 1]"

lemma set_range [simp]: "set (range a b) = {a..<b}"
  by (auto simp: range_def)

lemma distinct_range [simp]: "distinct (range a b)"
  by (simp add: range_def)

lemma length_range [simp]: "length (range a b) = nat (b - a)"
  by (simp add: range_def)

lemma map_shift_upto: "map (\<lambda>y. a + y) [0..n - 1] = [a..a + n - 1]"
proof (cases "0 \<le> n")
  case True
  have "map (\<lambda>y. a + y) [0..int k - 1] = [a..a + int k - 1]" for k :: nat
  proof (induction k)
    case (Suc k)
    have "[0..int (Suc k) - 1] = [0..int k - 1] @ [int k]"
      using upto_rec2 [of 0 "int k"] by simp
    moreover have "[a..a + int (Suc k) - 1] = [a..a + int k - 1] @ [a + int k]"
      using upto_rec2 [of a "a + int k"] by simp
    ultimately show ?case using Suc by simp
  qed simp
  from this [of "nat n"] show ?thesis using True by simp
qed simp

lemma range_step_one: "stop - start < 2 ^ 32 \<Longrightarrow> range_step start stop 1 = Some (range start stop)"
  using map_shift_upto [of start "stop - start"] by (simp add: range_step_def range_def Let_def)

section \<open>Largest element\<close>

text \<open>\<open>truthy\<close> tells which values JavaScript takes as true; every object is one.\<close>

definition maxBy :: "('a \<Rightarrow> bool) \<Rightarrow> ('a \<Rightarrow> int) \<Rightarrow> 'a list \<Rightarrow> 'a option" where
  "maxBy truthy fn arr =
     foldl (\<lambda>prev current. case prev of
              None \<Rightarrow> Some current
            | Some p \<Rightarrow> if \<not> truthy p then Some current
                        else if fn p < fn current then Some current else Some p)
       None arr"

lemma maxBy_snoc:
  "maxBy truthy fn (xs @ [x]) =
     (case maxBy truthy fn xs of
        None \<Rightarrow> Some x
      | Some p \<Rightarrow> if \<not> truthy p then Some x else if fn p < fn x then Some x else Some p)"
  by (simp add: maxBy_def)

lemma maxBy_None_iff: "maxBy truthy fn xs = None \<longleftrightarrow> xs = []"
proof (induction xs rule: rev_induct)
  case (snoc x xs)
  show ?case by (simp add: maxBy_snoc split: option.splits)
qed (simp add: maxBy_def)

lemma maxBy_max:
  assumes "\<forall>x\<in>set xs. truthy x" and "maxBy truthy fn xs = Some m"
  shows "m \<in> set xs \<and> (\<forall>x\<in>set xs. fn x \<le> fn m)"
  using assms
proof (induction xs arbitrary: m rule: rev_induct)
  case (snoc x xs)
  then show ?case
    by (auto simp: maxBy_snoc maxBy_None_iff split: option.splits if_splits)
qed (simp add: maxBy_def)

section \<open>Hashes\<close>

definition is_hex_char :: "char \<Rightarrow> bool" where
  "is_hex_char c \<longleftrightarrow> c \<in> set ''0123456789abcdefABCDEF''"

definition isHashStr :: "string option \<Rightarrow> bool" where
  "isHashStr hash = (case hash of Some s \<Rightarrow> list_all is_hex_char s | None \<Rightarrow> False)"

definition is256Hash :: "string option \<Rightarrow> bool" where
  "is256Hash hash = (case hash of Some s \<Rightarrow> isHashStr (Some s) \<and> length s = 64 | None \<Rightarrow> False)"

lemma hex_of_bytes_isHashStr: "isHashStr (Some (hex_of_bytes bs))"
proof (induction bs)
  case (Cons b bs)
  have digit: "is_hex_char (hex_digit n)" if "n < 16" for n
  proof -
    have "n \<in> set [0..<16]" using that by simp
    then show ?thesis by (auto simp: is_hex_char_def hex_digit_def upt_rec)
  qed
  have "unat b < 2 ^ LENGTH(8)" by (rule unsigned_less)
  then have "unat b div 16 < 16" by simp
  then show ?case using Cons digit by (simp add: isHashStr_def hex_of_bytes_def hex_of_byte_def)
qed (simp add: isHashStr_def hex_of_bytes_def)

section \<open>Conditions\<close>

text \<open>The value of an option in a condition: missing, zero and empty are false.\<close>

definition truthy_int :: "int option \<Rightarrow> int option" where
  "truthy_int x = (case x of None \<Rightarrow> None | Some n \<Rightarrow> if n = 0 then None else Some n)"

definition truthy_str :: "string option \<Rightarrow> string option" where
  "truthy_str x = (case x of None \<Rightarrow> None | Some t \<Rightarrow> if t = '''' then None else Some t)"

end
