(* ===== verification/Fifo_Queue.thy ===== *)
theory Fifo_Queue
  imports Prelude
begin

text \<open>
  \<^verbatim>\<open>lib/queue.ts\<close>: a queue whose items an asynchronous function processes one after another.

  The state is the object's fields; \<open>current\<close> is the item whose \<open>processingFn\<close> is awaited. An item
  is an \<open>option\<close> because the loop of \<open>onPush\<close> skips \<open>undefined\<close>. A step is what the event loop runs
  without interruption: a call of \<open>push\<close> or of one of the two waiting methods, or the continuation
  of \<open>onPush\<close> when the awaited call returns. The promises handed to waiting callers are numbers;
  \<open>resolved\<close>, \<open>processed\<close> and \<open>pushed\<close> are histories no code reads.
\<close>

record 'a fifo =
  items :: "'a option list"
  current :: "'a option"
  isProcessing :: bool
  isWaterMarkExceeded :: bool
  highWaterMark :: "nat option"       \<comment> \<open>\<open>None\<close> is \<open>Number.POSITIVE_INFINITY\<close>\<close>
  finishedEmitterQueue :: "nat list"
  waterMarkQueue :: "nat list"
  resolved :: "nat list"
  processed :: "'a list"
  pushed :: "'a list"

text \<open>The constructor: \<open>highWaterMark || Number.POSITIVE_INFINITY\<close>, so 0 means no mark.\<close>

definition new_fifo :: "nat option \<Rightarrow> 'a fifo" where
  "new_fifo mark =
     \<lparr>items = [], current = None, isProcessing = False, isWaterMarkExceeded = False,
      highWaterMark = (case mark of Some h \<Rightarrow> if h = 0 then None else Some h | None \<Rightarrow> None),
      finishedEmitterQueue = [], waterMarkQueue = [], resolved = [], processed = [], pushed = []\<rparr>"

definition below_mark :: "'a fifo \<Rightarrow> nat \<Rightarrow> bool" where
  "below_mark q len = (case highWaterMark q of None \<Rightarrow> True | Some h \<Rightarrow> len < h)"

definition onFinished :: "'a fifo \<Rightarrow> 'a fifo" where
  "onFinished q =
     q\<lparr>isProcessing := False,
       resolved := resolved q @ finishedEmitterQueue q,
       finishedEmitterQueue := []\<rparr>"

definition checkWaterMark :: "'a fifo \<Rightarrow> 'a fifo" where
  "checkWaterMark q =
     (if below_mark q (length (items q))
      then q\<lparr>isWaterMarkExceeded := False,
             resolved := resolved q @ waterMarkQueue q,
             waterMarkQueue := []\<rparr>
      else q)"

text \<open>The \<open>while\<close> loop of \<open>onPush\<close>, from the test of its condition to its next \<open>await\<close>.\<close>

fun drain_from :: "'a option list \<Rightarrow> 'a fifo \<Rightarrow> 'a fifo" where
  "drain_from [] q = onFinished (q\<lparr>items := []\<rparr>)"
| "drain_from (None # xs) q = drain_from xs q"
| "drain_from (Some x # xs) q = q\<lparr>items := xs, current := Some x\<rparr>"

definition drain :: "'a fifo \<Rightarrow> 'a fifo" where
  "drain q = drain_from (items q) q"

definition onPush :: "nat \<Rightarrow> 'a fifo \<Rightarrow> 'a fifo" where
  "onPush len q =
     (let q = q\<lparr>isWaterMarkExceeded := \<not> below_mark q len\<rparr>
      in if isProcessing q then q else drain (q\<lparr>isProcessing := True\<rparr>))"

definition defined :: "'a option list \<Rightarrow> 'a list" where
  "defined vs = List.map_filter id vs"

definition push :: "'a option list \<Rightarrow> 'a fifo \<Rightarrow> nat \<times> 'a fifo" where
  "push vs q =
     (let len = length (items q) + length vs
      in (len, onPush len (q\<lparr>items := items q @ vs, pushed := pushed q @ defined vs\<rparr>)))"

text \<open>The awaited \<open>processingFn\<close> returns, or rejects: then \<open>onPush\<close> itself rejects and the loop is gone.\<close>

definition process_done :: "'a \<Rightarrow> 'a fifo \<Rightarrow> 'a fifo" where
  "process_done x q = drain (checkWaterMark (q\<lparr>current := None, processed := processed q @ [x]\<rparr>))"

definition process_fail :: "'a fifo \<Rightarrow> 'a fifo" where
  "process_fail q = q\<lparr>current := None\<rparr>"

definition waitOnFinished :: "nat \<Rightarrow> 'a fifo \<Rightarrow> 'a fifo" where
  "waitOnFinished w q =
     (if \<not> isProcessing q then q\<lparr>resolved := resolved q @ [w]\<rparr>
      else q\<lparr>finishedEmitterQueue := finishedEmitterQueue q @ [w]\<rparr>)"

definition waitOnWaterMark :: "nat \<Rightarrow> 'a fifo \<Rightarrow> 'a fifo" where
  "waitOnWaterMark w q =
     (if \<not> isWaterMarkExceeded q then q\<lparr>resolved := resolved q @ [w]\<rparr>
      else q\<lparr>waterMarkQueue := waterMarkQueue q @ [w]\<rparr>)"

inductive fifo_step :: "'a fifo \<Rightarrow> 'a fifo \<Rightarrow> bool" where
  fifo_push: "fifo_step q (snd (push (map Some xs) q))"
| fifo_done: "current q = Some x \<Longrightarrow> fifo_step q (process_done x q)"
| fifo_wait_finished: "fifo_step q (waitOnFinished w q)"
| fifo_wait_mark: "fifo_step q (waitOnWaterMark w q)"

definition fifo_init :: "'a fifo \<Rightarrow> bool" where
  "fifo_init q \<longleftrightarrow> (\<exists>mark. q = new_fifo mark)"

section \<open>The invariant\<close>

text \<open>
  Nothing is lost or reordered; the loop is running exactly when an item is being processed; an
  idle queue has no items, no raised mark and nobody waiting.
\<close>

definition in_work :: "'a fifo \<Rightarrow> 'a list" where
  "in_work q = (case current q of None \<Rightarrow> [] | Some x \<Rightarrow> [x])"

definition fifo_inv :: "'a fifo \<Rightarrow> bool" where
  "fifo_inv q \<longleftrightarrow>
     pushed q = processed q @ in_work q @ defined (items q)
   \<and> None \<notin> set (items q)
   \<and> highWaterMark q \<noteq> Some 0
   \<and> (isProcessing q \<longleftrightarrow> current q \<noteq> None)
   \<and> (\<not> isProcessing q \<longrightarrow> items q = [] \<and> finishedEmitterQueue q = []
        \<and> waterMarkQueue q = [] \<and> \<not> isWaterMarkExceeded q)"

lemma defined_simps [simp]:
  "defined [] = []" "defined (Some x # vs) = x # defined vs" "defined (None # vs) = defined vs"
  "defined (us @ vs) = defined us @ defined vs" "defined (map Some xs) = xs"
  by (induction xs) (simp_all add: defined_def List.map_filter_def)

lemma all_defined: "None \<notin> set vs \<Longrightarrow> \<exists>xs. vs = map Some xs"
  by (metis ex_map_conv not_None_eq)

lemmas fifo_defs = onFinished_def checkWaterMark_def drain_def onPush_def push_def
  process_done_def waitOnFinished_def waitOnWaterMark_def in_work_def Let_def

text \<open>
  The loop on a queue whose \<open>current\<close> is free: it takes the first item, or stops. When it stops
  nothing may wait for the mark.
\<close>

lemma drain_inv:
  assumes "pushed q = processed q @ defined (items q)" and "None \<notin> set (items q)"
    and "highWaterMark q \<noteq> Some 0" and "isProcessing q" and "current q = None"
    and "items q = [] \<Longrightarrow> waterMarkQueue q = [] \<and> \<not> isWaterMarkExceeded q"
  shows "fifo_inv (drain q)"
proof -
  obtain xs where "items q = map Some xs"
    using all_defined assms(2) by blast
  then show ?thesis
    using assms by (cases xs) (auto simp: fifo_inv_def fifo_defs)
qed

lemma fifo_inv_push: "fifo_inv q \<Longrightarrow> fifo_inv (snd (push (map Some xs) q))"
proof (cases "isProcessing q")
  case True
  then show "fifo_inv q \<Longrightarrow> ?thesis"
    by (auto simp: fifo_inv_def fifo_defs)
next
  case False
  assume inv: "fifo_inv q"
  then have mark: "\<not> below_mark q 0 \<Longrightarrow> False"
    by (auto simp: below_mark_def fifo_inv_def split: option.splits)
  let ?q = "q\<lparr>items := items q @ map Some xs, pushed := pushed q @ xs,
    isWaterMarkExceeded := \<not> below_mark q (length (items q) + length xs), isProcessing := True\<rparr>"
  have "fifo_inv (drain ?q)"
  proof (rule drain_inv)
    show "waterMarkQueue ?q = [] \<and> \<not> isWaterMarkExceeded ?q" if "items ?q = []"
      using that inv False mark by (auto simp: fifo_inv_def)
  qed (use inv False in \<open>auto simp: fifo_inv_def in_work_def\<close>)
  moreover have "snd (push (map Some xs) q) = drain ?q"
    using False by (simp add: push_def onPush_def Let_def below_mark_def)
  ultimately show ?thesis by simp
qed

lemma fifo_inv_done: "\<lbrakk>fifo_inv q; current q = Some x\<rbrakk> \<Longrightarrow> fifo_inv (process_done x q)"
  unfolding process_done_def
  by (intro drain_inv)
    (auto simp: fifo_inv_def checkWaterMark_def in_work_def below_mark_def split: option.splits)

lemma fifo_inv_waitOnFinished: "fifo_inv q \<Longrightarrow> fifo_inv (waitOnFinished w q)"
  by (auto simp: fifo_inv_def fifo_defs)

lemma fifo_inv_waitOnWaterMark: "fifo_inv q \<Longrightarrow> fifo_inv (waitOnWaterMark w q)"
  by (auto simp: fifo_inv_def fifo_defs)

lemma fifo_inv_new: "fifo_inv (new_fifo mark)"
  by (cases mark) (simp_all add: fifo_inv_def new_fifo_def in_work_def)

interpretation fifo: step_invariant fifo_init fifo_step fifo_inv
proof unfold_locales
  fix q :: "'a fifo"
  assume "fifo_init q"
  then show "fifo_inv q"
    using fifo_inv_new by (auto simp: fifo_init_def)
next
  fix q t :: "'a fifo"
  assume inv: "fifo_inv q" and "fifo_step q t"
  from this(2) show "fifo_inv t"
    by (cases rule: fifo_step.cases)
      (use inv in \<open>auto intro: fifo_inv_push fifo_inv_done fifo_inv_waitOnFinished fifo_inv_waitOnWaterMark\<close>)
qed

text \<open>
  C30. Items are processed one at a time, in the order they were pushed, whatever the interleaving
  of pushes, waits and completions: at any moment the pushed items are those processed, then the
  one in work, then those still queued; and whoever waits does so on a queue that is working.
\<close>

theorem fifo_order:
  assumes "reach fifo_init fifo_step q"
  shows "pushed q = processed q @ in_work q @ defined (items q)
    \<and> (isProcessing q \<longleftrightarrow> in_work q \<noteq> [])
    \<and> (finishedEmitterQueue q \<noteq> [] \<or> waterMarkQueue q \<noteq> [] \<or> items q \<noteq> [] \<longrightarrow> isProcessing q)"
  using fifo.inv_reach [OF assms] by (auto simp: fifo_inv_def in_work_def split: option.splits)

section \<open>The queue finishes\<close>

fun settle :: "nat \<Rightarrow> 'a fifo \<Rightarrow> 'a fifo" where
  "settle 0 q = q"
| "settle (Suc n) q = (case current q of None \<Rightarrow> q | Some x \<Rightarrow> settle n (process_done x q))"

definition callers :: "'a fifo \<Rightarrow> nat set" where
  "callers q = set (finishedEmitterQueue q) \<union> set (waterMarkQueue q) \<union> set (resolved q)"

lemma process_done_items:
  assumes "fifo_inv q" and "current q = Some x"
  shows "items (process_done x q) = tl (items q)"
    and "current (process_done x q) = (case items q of [] \<Rightarrow> None | v # _ \<Rightarrow> v)"
    and "pushed (process_done x q) = pushed q"
    and "callers (process_done x q) = callers q"
proof -
  obtain xs where xs: "items q = map Some xs"
    using all_defined assms(1) by (auto simp: fifo_inv_def)
  show "items (process_done x q) = tl (items q)"
    and "current (process_done x q) = (case items q of [] \<Rightarrow> None | v # _ \<Rightarrow> v)"
    and "pushed (process_done x q) = pushed q"
    using assms xs by (cases xs; simp add: fifo_defs)+
  show "callers (process_done x q) = callers q"
    using assms xs by (cases xs) (auto simp: fifo_defs callers_def)
qed

lemma settle_idle:
  assumes "fifo_inv q" and "length (items q) < n"
  shows "fifo_inv (settle n q) \<and> \<not> isProcessing (settle n q) \<and> pushed (settle n q) = pushed q
    \<and> callers q = set (resolved (settle n q))"
  using assms
proof (induction n arbitrary: q)
  case 0
  then show ?case by simp
next
  case (Suc n)
  show ?case
  proof (cases "current q")
    case None
    then have "settle (Suc n) q = q" and "\<not> isProcessing q"
      using Suc.prems(1) by (simp_all add: fifo_inv_def)
    moreover have "finishedEmitterQueue q = []" "waterMarkQueue q = []"
      using Suc.prems(1) \<open>\<not> isProcessing q\<close> by (simp_all add: fifo_inv_def)
    ultimately show ?thesis using Suc.prems(1) by (simp only: callers_def) simp
  next
    case (Some x)
    let ?p = "process_done x q"
    note step = process_done_items [OF Suc.prems(1) Some]
    have inv: "fifo_inv ?p" by (rule fifo_inv_done [OF Suc.prems(1) Some])
    show ?thesis
    proof (cases "length (items ?p) < n")
      case True
      then show ?thesis using Suc.IH [OF inv True] step Some by simp
    next
      case False
      then have "n = 0" and "items q = []"
        using step(1) Suc.prems(2) by (cases "items q"; simp)+
      then have "\<not> isProcessing ?p"
        using inv step(2) by (simp add: fifo_inv_def)
      then show ?thesis using \<open>n = 0\<close> inv step(3,4) Some by (simp add: fifo_inv_def callers_def)
    qed
  qed
qed

text \<open>
  C31. If every processing call returns, the queue comes to rest after as many completions as it
  holds items, one more for the item in work: everything pushed has been processed in order and
  every promise handed out by \<open>waitOnFinished\<close> and \<open>waitOnWaterMark\<close> is resolved.
\<close>

theorem fifo_settles:
  assumes "reach fifo_init fifo_step q"
  defines "t \<equiv> settle (Suc (length (items q))) q"
  shows "\<not> isProcessing t \<and> processed t = pushed q
    \<and> set (finishedEmitterQueue q) \<union> set (waterMarkQueue q) \<subseteq> set (resolved t)"
proof -
  have "fifo_inv q" by (rule fifo.inv_reach [OF assms(1)])
  from settle_idle [OF this, of "Suc (length (items q))"] show ?thesis
    unfolding t_def by (auto simp: fifo_inv_def in_work_def callers_def)
qed

lemma fifo_settles_witness:
  "\<exists>q :: int fifo. reach fifo_init fifo_step q \<and> waterMarkQueue q = [7] \<and>
     (let t = settle (Suc (length (items q))) q
      in \<not> isProcessing t \<and> processed t = [10, 20, 30] \<and> 7 \<in> set (resolved t))"
proof -
  let ?q0 = "new_fifo (Some 2) :: int fifo"
  let ?q1 = "snd (push (map Some [10, 20, 30]) ?q0)"
  let ?q2 = "waitOnWaterMark 7 ?q1"
  have "reach fifo_init fifo_step ?q0"
    by (rule reach_init) (auto simp: fifo_init_def)
  then have "reach fifo_init fifo_step ?q1" by (rule reach_step) (rule fifo_push)
  then have r: "reach fifo_init fifo_step ?q2" by (rule reach_step) (rule fifo_wait_mark)
  have q: "waterMarkQueue ?q2 = [7]" "pushed ?q2 = [10, 20, 30]"
    by (simp_all add: new_fifo_def fifo_defs below_mark_def)
  show ?thesis
    using fifo_settles [OF r] q r by (intro exI [of _ ?q2]) (simp add: Let_def)
qed

lemma fifo_order_witness:
  "\<exists>q :: int fifo. reach fifo_init fifo_step q \<and> pushed q = [10, 20]
     \<and> pushed q = processed q @ in_work q @ defined (items q)"
proof -
  let ?q1 = "snd (push (map Some [10, 20]) (new_fifo None)) :: int fifo"
  have "reach fifo_init fifo_step (new_fifo None :: int fifo)"
    by (rule reach_init) (auto simp: fifo_init_def)
  then have r: "reach fifo_init fifo_step ?q1" by (rule reach_step) (rule fifo_push)
  show ?thesis
    using fifo_order [OF r] r
    by (intro exI [of _ ?q1]) (simp add: new_fifo_def fifo_defs below_mark_def)
qed

section \<open>What the loop does not survive\<close>

text \<open>
  A rejected \<open>processingFn\<close> ends \<open>onPush\<close> with \<open>isProcessing\<close> still set: later pushes only queue.
\<close>

definition stalled :: "'a fifo \<Rightarrow> bool" where
  "stalled q \<longleftrightarrow> isProcessing q \<and> current q = None"

inductive fifo_any_step :: "'a fifo \<Rightarrow> 'a fifo \<Rightarrow> bool" where
  any_push: "fifo_any_step q (snd (push vs q))"
| any_done: "current q = Some x \<Longrightarrow> fifo_any_step q (process_done x q)"
| any_fail: "current q = Some x \<Longrightarrow> fifo_any_step q (process_fail q)"
| any_wait_finished: "fifo_any_step q (waitOnFinished w q)"
| any_wait_mark: "fifo_any_step q (waitOnWaterMark w q)"

lemma stalled_step:
  assumes "fifo_any_step q t" and "stalled q"
  shows "stalled t \<and> processed t = processed q \<and> (\<exists>ws. finishedEmitterQueue t = finishedEmitterQueue q @ ws)"
  using assms by (cases rule: fifo_any_step.cases) (auto simp: stalled_def fifo_defs)

text \<open>
  C32. Once the processing function has rejected, no continuation of any kind ever processes an item
  again, and a caller that waited for the end of the work keeps waiting.
\<close>

theorem fifo_stalls_after_rejection:
  assumes "current q = Some x" and "isProcessing q" and "fifo_any_step\<^sup>*\<^sup>* (process_fail q) t"
  shows "processed t = processed q \<and> set (finishedEmitterQueue q) \<subseteq> set (finishedEmitterQueue t)
    \<and> isProcessing t"
proof -
  have "stalled (process_fail q)" using assms(2) by (simp add: stalled_def process_fail_def)
  from assms(3) this have "stalled t \<and> processed t = processed (process_fail q)
      \<and> set (finishedEmitterQueue (process_fail q)) \<subseteq> set (finishedEmitterQueue t)"
  proof (induction rule: rtranclp_induct)
    case (step t u)
    then show ?case using stalled_step [of t u] by auto
  qed simp
  then show ?thesis by (simp add: stalled_def process_fail_def)
qed

lemma fifo_stalls_after_rejection_witness:
  "let q = waitOnFinished 1 (snd (push (map Some [10, 20]) (new_fifo None)) :: int fifo);
       t = snd (push (map Some [30]) (process_fail q))
   in processed t = [] \<and> isProcessing t \<and> 1 \<in> set (finishedEmitterQueue t)"
proof -
  let ?q = "waitOnFinished 1 (snd (push (map Some [10, 20]) (new_fifo None)) :: int fifo)"
  have "current ?q = Some 10" and p: "isProcessing ?q" "processed ?q = []"
    and w: "finishedEmitterQueue ?q = [1]"
    by (simp_all add: new_fifo_def fifo_defs below_mark_def)
  moreover have "fifo_any_step\<^sup>*\<^sup>* (process_fail ?q) (snd (push (map Some [30]) (process_fail ?q)))"
    by (rule r_into_rtranclp) (rule any_push)
  ultimately show ?thesis
    using fifo_stalls_after_rejection [of ?q 10] by (auto simp: Let_def)
qed

text \<open>
  An \<open>undefined\<close> item is skipped without the test of the mark: a queue that receives nothing else
  comes to rest with the mark still raised, and \<open>waitOnWaterMark\<close> then waits for a test that only
  a later push can bring.
\<close>

lemma undefined_item_leaves_mark:
  "let q = (snd (push [None] (new_fifo (Some 1))) :: int fifo) in
   \<not> isProcessing q \<and> items q = [] \<and> isWaterMarkExceeded q
   \<and> waterMarkQueue (waitOnWaterMark 1 q) = [1] \<and> resolved (waitOnWaterMark 1 q) = []"
  by (simp add: new_fifo_def fifo_defs below_mark_def)

end
