(* ===== verification/Address_Scripts.thy ===== *)
theory Address_Scripts
  imports Errors
begin

text \<open>
  \<^verbatim>\<open>lib/bitcoin/addresses-helper.ts\<close>: recognition of output scripts and the address an output
  script pays to. The payment functions of bitcoinjs-lib are parameters: \<open>Inl\<close> is a call that
  throws, \<open>Inr None\<close> a payment without an address.
\<close>

definition OP_RETURN :: byte where "OP_RETURN = 106"
definition OP_DUP :: byte where "OP_DUP = 118"
definition OP_HASH160 :: byte where "OP_HASH160 = 169"
definition OP_EQUALVERIFY :: byte where "OP_EQUALVERIFY = 136"
definition OP_CHECKSIG :: byte where "OP_CHECKSIG = 172"
definition OP_EQUAL :: byte where "OP_EQUAL = 135"
definition OP_0 :: byte where "OP_0 = 0"
definition OP_1 :: byte where "OP_1 = 81"

lemmas ops = OP_RETURN_def OP_DUP_def OP_HASH160_def OP_EQUALVERIFY_def OP_CHECKSIG_def
  OP_EQUAL_def OP_0_def OP_1_def

type_synonym script = "byte list"

definition isOPReturnScript :: "script \<Rightarrow> bool" where
  "isOPReturnScript s \<longleftrightarrow> js_nth s 0 = Some OP_RETURN"

definition isP2pkhScript :: "script \<Rightarrow> bool" where
  "isP2pkhScript s \<longleftrightarrow>
     length s = 25 \<and> js_nth s 0 = Some OP_DUP \<and> js_nth s 1 = Some OP_HASH160 \<and> js_nth s 2 = Some 0x14
   \<and> js_nth s 23 = Some OP_EQUALVERIFY \<and> js_nth s 24 = Some OP_CHECKSIG"

definition isP2shScript :: "script \<Rightarrow> bool" where
  "isP2shScript s \<longleftrightarrow>
     length s = 23 \<and> js_nth s 0 = Some OP_HASH160 \<and> js_nth s 1 = Some 0x14
   \<and> js_nth s 22 = Some OP_EQUAL"

definition isP2wpkhScript :: "script \<Rightarrow> bool" where
  "isP2wpkhScript s \<longleftrightarrow> length s = 22 \<and> js_nth s 0 = Some OP_0 \<and> js_nth s 1 = Some 0x14"

definition isP2wshScript :: "script \<Rightarrow> bool" where
  "isP2wshScript s \<longleftrightarrow> length s = 34 \<and> js_nth s 0 = Some OP_0 \<and> js_nth s 1 = Some 0x20"

definition isP2trScript :: "script \<Rightarrow> bool" where
  "isP2trScript s \<longleftrightarrow> length s = 34 \<and> js_nth s 0 = Some OP_1 \<and> js_nth s 1 = Some 0x20"

datatype payment = P2PKH | P2SH | P2WPKH | P2WSH | P2TR

definition outputScript2Address :: "(payment \<Rightarrow> script \<Rightarrow> string option result) \<Rightarrow> script \<Rightarrow> string option" where
  "outputScript2Address pay s =
     (let attempt = (\<lambda>p. case pay p s of Inl e \<Rightarrow> None | Inr a \<Rightarrow> a)
      in if isOPReturnScript s then None
         else if isP2pkhScript s then attempt P2PKH
         else if isP2shScript s then attempt P2SH
         else if isP2wpkhScript s then attempt P2WPKH
         else if isP2wshScript s then attempt P2WSH
         else if isP2trScript s then attempt P2TR
         else None)"

section \<open>Templates\<close>

text \<open>The standard output scripts, from the hash or key they commit to.\<close>

fun template :: "payment \<Rightarrow> byte list \<Rightarrow> script" where
  "template P2PKH h = [OP_DUP, OP_HASH160, 20] @ h @ [OP_EQUALVERIFY, OP_CHECKSIG]"
| "template P2SH h = [OP_HASH160, 20] @ h @ [OP_EQUAL]"
| "template P2WPKH h = [OP_0, 20] @ h"
| "template P2WSH h = [OP_0, 32] @ h"
| "template P2TR h = [OP_1, 32] @ h"

fun payload_size :: "payment \<Rightarrow> nat" where
  "payload_size P2PKH = 20"
| "payload_size P2SH = 20"
| "payload_size P2WPKH = 20"
| "payload_size P2WSH = 32"
| "payload_size P2TR = 32"

definition pays_to :: "payment \<Rightarrow> script \<Rightarrow> bool" where
  "pays_to p s \<longleftrightarrow> (\<exists>h. length h = payload_size p \<and> s = template p h)"

lemma split_last: "length t = k + n \<Longrightarrow> \<exists>h e. length h = k \<and> length e = n \<and> t = h @ e"
  by (rule exI [of _ "take k t"], rule exI [of _ "drop k t"]) simp

lemma isP2pkhScript_iff: "isP2pkhScript s \<longleftrightarrow> pays_to P2PKH s"
proof
  assume l: "isP2pkhScript s"
  then obtain a b c t where s: "s = a # b # c # t" and t: "length t = 20 + 2"
    by (auto simp: isP2pkhScript_def numeral_eq_Suc length_Suc_conv)
  obtain h e where h: "length h = 20" "length e = 2" "t = h @ e"
    using split_last [OF t] by blast
  then obtain x y where "e = [x, y]" by (auto simp: numeral_2_eq_2 length_Suc_conv)
  then show "pays_to P2PKH s"
    using l s h by (auto simp: isP2pkhScript_def js_nth_def nth_append pays_to_def nth_Cons'
        intro!: exI [of _ h])
qed (auto simp: pays_to_def isP2pkhScript_def js_nth_def nth_append)

lemma isP2shScript_iff: "isP2shScript s \<longleftrightarrow> pays_to P2SH s"
proof
  assume l: "isP2shScript s"
  then obtain a b t where s: "s = a # b # t" and t: "length t = 20 + 1"
    by (auto simp: isP2shScript_def numeral_eq_Suc length_Suc_conv)
  obtain h e where h: "length h = 20" "length e = 1" "t = h @ e"
    using split_last [OF t] by blast
  then obtain x where "e = [x]" by (auto simp: length_Suc_conv)
  then show "pays_to P2SH s"
    using l s h by (auto simp: isP2shScript_def js_nth_def nth_append pays_to_def nth_Cons'
        intro!: exI [of _ h])
qed (auto simp: pays_to_def isP2shScript_def js_nth_def nth_append)

lemma witness_script_iff:
  "length s = k + 2 \<and> js_nth s 0 = Some v \<and> js_nth s 1 = Some w \<longleftrightarrow> (\<exists>h. length h = k \<and> s = [v, w] @ h)"
  by (cases s rule: list.exhaust; cases "tl s") (auto simp: js_nth_def)

lemma isP2w_iff:
  "isP2wpkhScript s \<longleftrightarrow> pays_to P2WPKH s" "isP2wshScript s \<longleftrightarrow> pays_to P2WSH s"
  "isP2trScript s \<longleftrightarrow> pays_to P2TR s"
  using witness_script_iff [of s 20] witness_script_iff [of s 32]
  by (simp_all add: isP2wpkhScript_def isP2wshScript_def isP2trScript_def pays_to_def)

lemmas script_iffs = isP2pkhScript_iff isP2shScript_iff isP2w_iff

lemma pays_to_facts:
  assumes "pays_to p s"
  shows "\<not> isOPReturnScript s" and "pays_to q s \<Longrightarrow> q = p"
proof -
  show "\<not> isOPReturnScript s"
    using assms by (cases p) (auto simp: pays_to_def isOPReturnScript_def js_nth_def ops)
  show "q = p" if "pays_to q s"
  proof -
    obtain h where "s = template p h" "length h = payload_size p"
      using assms unfolding pays_to_def by blast
    moreover obtain k where "s = template q k" "length k = payload_size q"
      using \<open>pays_to q s\<close> unfolding pays_to_def by blast
    ultimately have "length h = payload_size p" "length k = payload_size q"
      and "s = template p h" "s = template q k" by auto
    then have "template p h = template q k" "length (template p h) = length (template q k)" by auto
    with \<open>length h = payload_size p\<close> \<open>length k = payload_size q\<close>
    show ?thesis by (cases p; cases q; simp add: ops)
  qed
qed

lemma outputScript2Address_pays_to:
  assumes "pays_to p s"
  shows "outputScript2Address pay s = (case pay p s of Inl e \<Rightarrow> None | Inr a \<Rightarrow> a)"
proof -
  have only: "pays_to q s \<longleftrightarrow> q = p" for q
    using pays_to_facts(2) [OF assms] assms by blast
  show ?thesis
    using pays_to_facts(1) [OF assms]
    by (cases p) (simp_all add: outputScript2Address_def script_iffs only)
qed

text \<open>
  An output script pays to at most one kind of address; the address returned is the one its
  template is encoded with, and everything else (data outputs, other scripts, a payment library
  that throws) has no address.
\<close>

theorem outputScript2Address_spec:
  "(\<forall>h. length h = payload_size p \<longrightarrow>
      outputScript2Address pay (template p h) =
        (case pay p (template p h) of Inl e \<Rightarrow> None | Inr a \<Rightarrow> a))
   \<and> (outputScript2Address pay s \<noteq> None \<longrightarrow> (\<exists>!q. \<exists>h. length h = payload_size q \<and> s = template q h))"
proof (intro conjI allI impI)
  fix h :: "byte list"
  assume "length h = payload_size p"
  then have "pays_to p (template p h)" by (auto simp: pays_to_def)
  then show "outputScript2Address pay (template p h)
      = (case pay p (template p h) of Inl e \<Rightarrow> None | Inr a \<Rightarrow> a)"
    by (rule outputScript2Address_pays_to)
next
  assume "outputScript2Address pay s \<noteq> None"
  then have "\<exists>q. pays_to q s"
    by (auto simp: outputScript2Address_def script_iffs Let_def split: if_splits)
  then show "\<exists>!q. \<exists>h. length h = payload_size q \<and> s = template q h"
    using pays_to_facts(2) unfolding pays_to_def by metis
qed

text \<open>A Taproot output, and a pay-to-pubkey-hash script one byte short.\<close>

lemma outputScript2Address_spec_witness:
  "outputScript2Address (\<lambda>p s. Inr (Some ''address'')) (template P2TR (replicate 32 7)) = Some ''address''
   \<and> outputScript2Address (\<lambda>p s. Inr (Some ''address'')) (butlast (template P2PKH (replicate 20 7))) = None"
  using outputScript2Address_spec [of P2TR "\<lambda>p s. Inr (Some ''address'')" "[]"]
  by (simp add: outputScript2Address_def isOPReturnScript_def isP2pkhScript_def isP2shScript_def
      isP2wpkhScript_def isP2wshScript_def isP2trScript_def js_nth_def ops)

section \<open>Public keys\<close>

definition isSupportedPubKey :: "string \<Rightarrow> bool" where
  "isSupportedPubKey str \<longleftrightarrow>
     length str = 66 \<and> (take 2 str = ''02'' \<or> take 2 str = ''03'')"

text \<open>\<open>decode\<close> is \<open>bitcoin.address.fromBech32\<close>: the data of the address, \<open>None\<close> when it throws.\<close>

definition isBech32 :: "(string \<Rightarrow> byte list option) \<Rightarrow> string \<Rightarrow> bool" where
  "isBech32 decode str \<longleftrightarrow> decode str \<noteq> None"

definition getScriptHashFromBech32 :: "(string \<Rightarrow> byte list option) \<Rightarrow> string \<Rightarrow> string option" where
  "getScriptHashFromBech32 decode str = map_option hex_of_bytes (decode str)"

text \<open>\<open>verify\<close> is the signature check of bitcoinjs-message, which may throw.\<close>

definition verifySignature :: "(string \<Rightarrow> string \<Rightarrow> string \<Rightarrow> bool result) \<Rightarrow> string \<Rightarrow> string \<Rightarrow> string \<Rightarrow> bool" where
  "verifySignature verify msg address sig = (case verify msg address sig of Inl e \<Rightarrow> False | Inr b \<Rightarrow> b)"

end
