(* ===== verification/Schema.thy ===== *)
theory Schema
  imports Errors
begin

text \<open>
  The database of \<^verbatim>\<open>db-scripts/1_db.sql\<close> and \<^verbatim>\<open>db-scripts/2_update.sql\<close>: a record of tables.

  A table is the list of its rows in primary key order with its auto-increment counter. Text is
  compared exactly (the collation of the server also ignores case); the ids an ignored row burns
  are not counted. Ids are natural numbers; heights, times, amounts and indices are integers, the
  bounds of their columns are not modelled.
\<close>

section \<open>Tables\<close>

record 'r table =
  rows :: "'r list"
  next_id :: nat

definition empty_table :: "'r table" where
  "empty_table = \<lparr>rows = [], next_id = 1\<rparr>"

definition tbl_add :: "(nat \<Rightarrow> 'r) \<Rightarrow> 'r table \<Rightarrow> nat \<times> 'r table" where
  "tbl_add mk t = (next_id t, \<lparr>rows = rows t @ [mk (next_id t)], next_id = Suc (next_id t)\<rparr>)"

definition tbl_update :: "('r \<Rightarrow> bool) \<Rightarrow> ('r \<Rightarrow> 'r) \<Rightarrow> 'r table \<Rightarrow> 'r table" where
  "tbl_update P f t = t\<lparr>rows := map (\<lambda>r. if P r then f r else r) (rows t)\<rparr>"

definition tbl_delete :: "('r \<Rightarrow> bool) \<Rightarrow> 'r table \<Rightarrow> 'r table" where
  "tbl_delete P t = t\<lparr>rows := filter (\<lambda>r. \<not> P r) (rows t)\<rparr>"

text \<open>\<open>INSERT IGNORE\<close> on a table with unique key \<open>uk\<close>: a row whose key \<open>k\<close> is present is skipped.\<close>

definition tbl_insert :: "('r \<Rightarrow> 'k) \<Rightarrow> 'k \<Rightarrow> (nat \<Rightarrow> 'r) \<Rightarrow> 'r table \<Rightarrow> nat option \<times> 'r table" where
  "tbl_insert uk k mk t =
     (case find_by uk k (rows t) of
        Some _ \<Rightarrow> (None, t)
      | None \<Rightarrow> (let (i, t') = tbl_add mk t in (Some i, t')))"

definition has_id :: "('r \<Rightarrow> nat) \<Rightarrow> nat \<Rightarrow> 'r table \<Rightarrow> bool" where
  "has_id pk i t = list_ex (\<lambda>r. pk r = i) (rows t)"

lemma has_id_iff: "has_id pk i t \<longleftrightarrow> i \<in> pk ` set (rows t)"
  by (auto simp: has_id_def list_ex_iff)

text \<open>Primary keys ascend below the counter and unique keys are unique.\<close>

definition table_ok :: "('r \<Rightarrow> nat) \<Rightarrow> ('r \<Rightarrow> 'k) \<Rightarrow> 'r table \<Rightarrow> bool" where
  "table_ok pk uk t \<longleftrightarrow>
     sorted_wrt (<) (map pk (rows t)) \<and> (\<forall>r\<in>set (rows t). 0 < pk r \<and> pk r < next_id t)
   \<and> distinct (map uk (rows t)) \<and> 0 < next_id t"

lemma table_ok_empty [simp]: "table_ok pk uk empty_table"
  by (simp add: table_ok_def empty_table_def)

lemma table_ok_distinct: "table_ok pk uk t \<Longrightarrow> distinct (map pk (rows t)) \<and> distinct (map uk (rows t))"
  by (simp add: table_ok_def strict_sorted_iff)

lemma table_ok_add:
  assumes "table_ok pk uk t" and "\<And>i. pk (mk i) = i" and "uk (mk (next_id t)) \<notin> uk ` set (rows t)"
  shows "table_ok pk uk (snd (tbl_add mk t))"
  using assms by (auto simp: table_ok_def tbl_add_def sorted_wrt_append)

lemma table_ok_update [intro]:
  assumes "table_ok pk uk t" and "\<And>r. pk (f r) = pk r" and "\<And>r. uk (f r) = uk r"
  shows "table_ok pk uk (tbl_update P f t)"
  using assms by (auto simp: table_ok_def tbl_update_def simp del: map_map)

lemma table_ok_delete [intro]: "table_ok pk uk t \<Longrightarrow> table_ok pk uk (tbl_delete P t)"
  by (auto simp: table_ok_def tbl_delete_def sorted_wrt_map intro: sorted_wrt_filter)

lemma rows_update [simp]: "rows (tbl_update P f t) = map (\<lambda>r. if P r then f r else r) (rows t)"
  by (simp add: tbl_update_def)

lemma rows_delete [simp]: "rows (tbl_delete P t) = filter (\<lambda>r. \<not> P r) (rows t)"
  by (simp add: tbl_delete_def)

lemma next_id_update [simp]: "next_id (tbl_update P f t) = next_id t"
  by (simp add: tbl_update_def)

lemma next_id_delete [simp]: "next_id (tbl_delete P t) = next_id t"
  by (simp add: tbl_delete_def)

lemma rows_add [simp]: "rows (snd (tbl_add mk t)) = rows t @ [mk (next_id t)]"
  by (simp add: tbl_add_def)

lemma fst_tbl_add [simp]: "fst (tbl_add mk t) = next_id t"
  by (simp add: tbl_add_def)

lemma has_id_update [simp]: "(\<And>r. pk (f r) = pk r) \<Longrightarrow> has_id pk i (tbl_update P f t) = has_id pk i t"
proof -
  assume "\<And>r. pk (f r) = pk r"
  then have "map pk (rows (tbl_update P f t)) = map pk (rows t)" by (simp del: map_map)
  then have "pk ` set (rows (tbl_update P f t)) = pk ` set (rows t)" by (metis set_map)
  then show ?thesis by (simp only: has_id_iff)
qed

lemma has_id_add: "has_id pk i (snd (tbl_add mk t)) \<longleftrightarrow> has_id pk i t \<or> i = pk (mk (next_id t))"
  by (auto simp: has_id_iff)

lemma table_ok_fresh: "table_ok pk uk t \<Longrightarrow> \<not> has_id pk (next_id t) t"
  by (auto simp: table_ok_def has_id_iff)

text \<open>What \<open>tbl_insert\<close> does, in one lemma for each of its two outcomes.\<close>

lemma tbl_insert_None:
  "find_by uk k (rows t) = None \<Longrightarrow>
   tbl_insert uk k mk t = (Some (next_id t), snd (tbl_add mk t))"
  by (simp add: tbl_insert_def split: prod.splits) (metis fst_conv fst_tbl_add snd_conv)

lemma tbl_insert_Some: "find_by uk k (rows t) = Some r \<Longrightarrow> tbl_insert uk k mk t = (None, t)"
  by (simp add: tbl_insert_def)

lemma table_ok_insert [intro]:
  assumes "table_ok pk uk t" and "\<And>i. pk (mk i) = i" and "\<And>i. uk (mk i) = k"
  shows "table_ok pk uk (snd (tbl_insert uk k mk t))"
proof (cases "find_by uk k (rows t)")
  case None
  then have "uk (mk (next_id t)) \<notin> uk ` set (rows t)"
    using assms(3) by (simp add: find_by_None_iff)
  then show ?thesis
    using None table_ok_add [of pk uk t mk] assms(1,2) by (simp add: tbl_insert_None)
next
  case (Some r)
  then show ?thesis using assms by (simp add: tbl_insert_Some)
qed

lemma rows_insert:
  "rows (snd (tbl_insert uk k mk t)) =
     rows t @ (if find_by uk k (rows t) = None then [mk (next_id t)] else [])"
  by (cases "find_by uk k (rows t)") (simp_all add: tbl_insert_None tbl_insert_Some)

lemma find_by_insert:
  assumes "\<And>i. uk (mk i) = k"
  shows "find_by uk k' (rows (snd (tbl_insert uk k mk t))) =
    (if k' = k \<and> find_by uk k (rows t) = None then Some (mk (next_id t)) else find_by uk k' (rows t))"
  using assms by (auto simp: rows_insert find_by_append split: option.splits)

lemma has_id_insert_mono: "has_id pk i t \<Longrightarrow> has_id pk i (snd (tbl_insert uk k mk t))"
  by (auto simp: has_id_iff rows_insert)

lemma table_find: "table_ok pk uk t \<Longrightarrow> find_by uk k (rows t) = Some r \<longleftrightarrow> r \<in> set (rows t) \<and> uk r = k"
  by (simp add: find_by_Some_iff table_ok_distinct)

lemma table_pk_inj: "\<lbrakk>table_ok pk uk t; r \<in> set (rows t); q \<in> set (rows t); pk r = pk q\<rbrakk> \<Longrightarrow> r = q"
  using distinct_map_inj table_ok_distinct by metis

lemma table_uk_inj: "\<lbrakk>table_ok pk uk t; r \<in> set (rows t); q \<in> set (rows t); uk r = uk q\<rbrakk> \<Longrightarrow> r = q"
  using distinct_map_inj table_ok_distinct by metis

section \<open>Rows\<close>

type_synonym hd_type = int

record address_row =
  a_addrID :: nat
  a_addrAddress :: string

record block_row =
  b_blockID :: nat
  b_blockHash :: string
  b_blockParent :: "nat option"
  b_blockHeight :: int
  b_blockTime :: int

record hd_row =
  h_hdID :: nat
  h_hdXpub :: string
  h_hdCreated :: int
  h_hdType :: hd_type

record hd_address_row =
  ha_hdAddrID :: nat
  ha_hdID :: nat
  ha_addrID :: nat
  ha_hdAddrChain :: int
  ha_hdAddrIndex :: int

record input_row =
  i_inID :: nat
  i_outID :: nat
  i_txnID :: nat
  i_inIndex :: int
  i_inSequence :: int

record output_row =
  o_outID :: nat
  o_txnID :: nat
  o_addrID :: nat
  o_outIndex :: int
  o_outAmount :: int
  o_outScript :: string

record transaction_row =
  t_txnID :: nat
  t_txnTxid :: string
  t_txnCreated :: int
  t_txnVersion :: int
  t_txnLocktime :: int
  t_blockID :: "nat option"

record scheduled_row =
  s_schID :: nat
  s_schTxid :: string
  s_schCreated :: int
  s_schRaw :: string
  s_schParentID :: "nat option"
  s_schParentTxid :: "string option"
  s_schDelay :: int
  s_schTrigger :: int

record api_key_row =
  k_apikeyID :: nat
  k_label :: string
  k_apikey :: string
  k_active :: bool
  k_expiresAt :: int

record db =
  addresses :: "address_row table"
  banned_addresses :: "string list"
  blocks :: "block_row table"
  hd_accounts :: "hd_row table"
  hd_addresses :: "hd_address_row table"
  inputs :: "input_row table"
  outputs :: "output_row table"
  transactions :: "transaction_row table"
  scheduled :: "scheduled_row table"
  api_keys :: "api_key_row table"

definition empty_db :: db where
  "empty_db = \<lparr>addresses = empty_table, banned_addresses = [], blocks = empty_table,
     hd_accounts = empty_table, hd_addresses = empty_table, inputs = empty_table,
     outputs = empty_table, transactions = empty_table, scheduled = empty_table,
     api_keys = empty_table\<rparr>"

section \<open>Constraints\<close>

definition keys_ok :: "db \<Rightarrow> bool" where
  "keys_ok d \<longleftrightarrow>
     table_ok a_addrID a_addrAddress (addresses d)
   \<and> table_ok b_blockID b_blockHash (blocks d)
   \<and> table_ok h_hdID h_hdXpub (hd_accounts d)
   \<and> table_ok ha_hdAddrID (\<lambda>r. (ha_hdID r, ha_addrID r)) (hd_addresses d)
   \<and> table_ok i_inID (\<lambda>r. (i_txnID r, i_inIndex r)) (inputs d)
   \<and> table_ok o_outID (\<lambda>r. (o_txnID r, o_addrID r, o_outIndex r)) (outputs d)
   \<and> table_ok t_txnID t_txnTxid (transactions d)
   \<and> table_ok s_schID s_schTxid (scheduled d)
   \<and> table_ok k_apikeyID k_apikey (api_keys d)"

definition hd_address_refs :: "db \<Rightarrow> hd_address_row \<Rightarrow> bool" where
  "hd_address_refs d r \<longleftrightarrow>
     has_id h_hdID (ha_hdID r) (hd_accounts d) \<and> has_id a_addrID (ha_addrID r) (addresses d)"

definition output_refs :: "db \<Rightarrow> output_row \<Rightarrow> bool" where
  "output_refs d r \<longleftrightarrow>
     has_id t_txnID (o_txnID r) (transactions d) \<and> has_id a_addrID (o_addrID r) (addresses d)"

definition input_refs :: "db \<Rightarrow> input_row \<Rightarrow> bool" where
  "input_refs d r \<longleftrightarrow>
     has_id t_txnID (i_txnID r) (transactions d) \<and> has_id o_outID (i_outID r) (outputs d)"

definition nullable_ref :: "('r \<Rightarrow> nat) \<Rightarrow> 'r table \<Rightarrow> nat option \<Rightarrow> bool" where
  "nullable_ref pk t i = (case i of None \<Rightarrow> True | Some i \<Rightarrow> has_id pk i t)"

definition refs_ok :: "db \<Rightarrow> bool" where
  "refs_ok d \<longleftrightarrow>
     (\<forall>r\<in>set (rows (hd_addresses d)). hd_address_refs d r)
   \<and> (\<forall>r\<in>set (rows (outputs d)). output_refs d r)
   \<and> (\<forall>r\<in>set (rows (inputs d)). input_refs d r)
   \<and> (\<forall>r\<in>set (rows (transactions d)). nullable_ref b_blockID (blocks d) (t_blockID r))
   \<and> (\<forall>r\<in>set (rows (blocks d)). nullable_ref b_blockID (blocks d) (b_blockParent r))
   \<and> (\<forall>r\<in>set (rows (scheduled d)). nullable_ref s_schID (scheduled d) (s_schParentID r))"

definition wf_db :: "db \<Rightarrow> bool" where
  "wf_db d \<longleftrightarrow> keys_ok d \<and> refs_ok d"

lemma wf_empty_db: "wf_db empty_db"
  by (simp add: wf_db_def keys_ok_def refs_ok_def empty_db_def) (simp add: empty_table_def)

lemmas wf_defs = wf_db_def keys_ok_def refs_ok_def hd_address_refs_def output_refs_def input_refs_def

section \<open>Referential actions\<close>

text \<open>
  What the engine does after rows were deleted: rows that referred to them under
  \<open>ON DELETE CASCADE\<close> go too (an output takes the inputs that spend it), references under
  \<open>ON DELETE SET NULL\<close> become null. Nothing dangles before the deletion, so what dangles after it
  is what referred to a deleted row.
\<close>

definition null_dangling :: "('r \<Rightarrow> nat) \<Rightarrow> 'r table \<Rightarrow> nat option \<Rightarrow> nat option" where
  "null_dangling pk t i = (if nullable_ref pk t i then i else None)"

definition cascade :: "db \<Rightarrow> db" where
  "cascade d =
     (let d = d\<lparr>hd_addresses := tbl_delete (\<lambda>r. \<not> hd_address_refs d r) (hd_addresses d),
                outputs := tbl_delete (\<lambda>r. \<not> output_refs d r) (outputs d)\<rparr>;
          d = d\<lparr>inputs := tbl_delete (\<lambda>r. \<not> input_refs d r) (inputs d)\<rparr>
      in d\<lparr>transactions := tbl_update (\<lambda>_. True)
             (\<lambda>r. r\<lparr>t_blockID := null_dangling b_blockID (blocks d) (t_blockID r)\<rparr>) (transactions d),
           blocks := tbl_update (\<lambda>_. True)
             (\<lambda>r. r\<lparr>b_blockParent := null_dangling b_blockID (blocks d) (b_blockParent r)\<rparr>) (blocks d),
           scheduled := tbl_update (\<lambda>_. True)
             (\<lambda>r. r\<lparr>s_schParentID := null_dangling s_schID (scheduled d) (s_schParentID r)\<rparr>) (scheduled d)\<rparr>)"

lemma nullable_ref_update [simp]:
  "(\<And>r. pk (f r) = pk r) \<Longrightarrow> nullable_ref pk (tbl_update P f t) = nullable_ref pk t"
  by (auto simp: nullable_ref_def fun_eq_iff split: option.splits)

lemma nullable_null_dangling [simp]: "nullable_ref pk t (null_dangling pk t i)"
  by (simp add: null_dangling_def nullable_ref_def)

lemma null_dangling_id [simp]: "nullable_ref pk t i \<Longrightarrow> null_dangling pk t i = i"
  by (simp add: null_dangling_def)

text \<open>The cascade restores every reference, whatever was deleted, and leaves a sound database alone.\<close>

lemma keys_ok_cascade: "keys_ok d \<Longrightarrow> keys_ok (cascade d)"
  by (simp add: keys_ok_def cascade_def Let_def table_ok_update table_ok_delete)

lemma refs_ok_cascade: "refs_ok (cascade d)"
  by (auto simp: refs_ok_def cascade_def Let_def hd_address_refs_def output_refs_def input_refs_def)

lemma wf_cascade [intro]: "keys_ok d \<Longrightarrow> wf_db (cascade d)"
  by (simp add: wf_db_def keys_ok_cascade refs_ok_cascade)

lemma cascade_id: "wf_db d \<Longrightarrow> cascade d = d"
  by (simp add: wf_db_def refs_ok_def cascade_def Let_def tbl_delete_def tbl_update_def filter_id_conv
      map_idI)

section \<open>Replacing a table\<close>

text \<open>
  A table may be replaced by one that keeps its own constraints, as long as no id other rows refer
  to disappears. These are the rules every operation of the wrapper is checked with.
\<close>

lemma wf_replace_addresses:
  "\<lbrakk>wf_db d; table_ok a_addrID a_addrAddress t; \<And>i. has_id a_addrID i (addresses d) \<Longrightarrow> has_id a_addrID i t\<rbrakk>
   \<Longrightarrow> wf_db (d\<lparr>addresses := t\<rparr>)"
  by (simp add: wf_defs)

lemma wf_replace_hd_accounts:
  "\<lbrakk>wf_db d; table_ok h_hdID h_hdXpub t; \<And>i. has_id h_hdID i (hd_accounts d) \<Longrightarrow> has_id h_hdID i t\<rbrakk>
   \<Longrightarrow> wf_db (d\<lparr>hd_accounts := t\<rparr>)"
  by (simp add: wf_defs)

lemma wf_replace_hd_addresses:
  "\<lbrakk>wf_db d; table_ok ha_hdAddrID (\<lambda>r. (ha_hdID r, ha_addrID r)) t;
    \<And>r. r \<in> set (rows t) \<Longrightarrow> hd_address_refs d r\<rbrakk> \<Longrightarrow> wf_db (d\<lparr>hd_addresses := t\<rparr>)"
  by (simp add: wf_defs)

lemma wf_replace_outputs:
  "\<lbrakk>wf_db d; table_ok o_outID (\<lambda>r. (o_txnID r, o_addrID r, o_outIndex r)) t;
    \<And>r. r \<in> set (rows t) \<Longrightarrow> output_refs d r; \<And>i. has_id o_outID i (outputs d) \<Longrightarrow> has_id o_outID i t\<rbrakk>
   \<Longrightarrow> wf_db (d\<lparr>outputs := t\<rparr>)"
  by (simp add: wf_defs)

lemma wf_replace_inputs:
  "\<lbrakk>wf_db d; table_ok i_inID (\<lambda>r. (i_txnID r, i_inIndex r)) t;
    \<And>r. r \<in> set (rows t) \<Longrightarrow> input_refs d r\<rbrakk> \<Longrightarrow> wf_db (d\<lparr>inputs := t\<rparr>)"
  by (simp add: wf_defs)

lemma wf_replace_transactions:
  "\<lbrakk>wf_db d; table_ok t_txnID t_txnTxid t;
    \<And>r. r \<in> set (rows t) \<Longrightarrow> nullable_ref b_blockID (blocks d) (t_blockID r);
    \<And>i. has_id t_txnID i (transactions d) \<Longrightarrow> has_id t_txnID i t\<rbrakk>
   \<Longrightarrow> wf_db (d\<lparr>transactions := t\<rparr>)"
  by (simp add: wf_defs)

lemma nullable_ref_mono:
  "\<lbrakk>nullable_ref pk s i; \<And>i. has_id pk i s \<Longrightarrow> has_id pk i t\<rbrakk> \<Longrightarrow> nullable_ref pk t i"
  by (simp add: nullable_ref_def split: option.splits)

lemma wf_replace_blocks:
  "\<lbrakk>wf_db d; table_ok b_blockID b_blockHash t;
    \<And>r. r \<in> set (rows t) \<Longrightarrow> nullable_ref b_blockID t (b_blockParent r);
    \<And>i. has_id b_blockID i (blocks d) \<Longrightarrow> has_id b_blockID i t\<rbrakk>
   \<Longrightarrow> wf_db (d\<lparr>blocks := t\<rparr>)"
  by (auto simp: wf_defs intro: nullable_ref_mono)

lemma wf_replace_scheduled:
  "\<lbrakk>wf_db d; table_ok s_schID s_schTxid t;
    \<And>r. r \<in> set (rows t) \<Longrightarrow> nullable_ref s_schID t (s_schParentID r)\<rbrakk>
   \<Longrightarrow> wf_db (d\<lparr>scheduled := t\<rparr>)"
  by (simp add: wf_defs)

lemma wf_replace_api_keys:
  "\<lbrakk>wf_db d; table_ok k_apikeyID k_apikey t\<rbrakk> \<Longrightarrow> wf_db (d\<lparr>api_keys := t\<rparr>)"
  by (simp add: wf_defs)

lemma wf_tables:
  assumes "wf_db d"
  shows "table_ok a_addrID a_addrAddress (addresses d)" and "table_ok b_blockID b_blockHash (blocks d)"
    and "table_ok h_hdID h_hdXpub (hd_accounts d)"
    and "table_ok ha_hdAddrID (\<lambda>r. (ha_hdID r, ha_addrID r)) (hd_addresses d)"
    and "table_ok i_inID (\<lambda>r. (i_txnID r, i_inIndex r)) (inputs d)"
    and "table_ok o_outID (\<lambda>r. (o_txnID r, o_addrID r, o_outIndex r)) (outputs d)"
    and "table_ok t_txnID t_txnTxid (transactions d)" and "table_ok s_schID s_schTxid (scheduled d)"
    and "table_ok k_apikeyID k_apikey (api_keys d)"
  using assms by (simp_all add: wf_db_def keys_ok_def)

lemma wf_refs:
  assumes "wf_db d"
  shows "r1 \<in> set (rows (hd_addresses d)) \<Longrightarrow> hd_address_refs d r1"
    and "r2 \<in> set (rows (outputs d)) \<Longrightarrow> output_refs d r2"
    and "r3 \<in> set (rows (inputs d)) \<Longrightarrow> input_refs d r3"
    and "r4 \<in> set (rows (transactions d)) \<Longrightarrow> nullable_ref b_blockID (blocks d) (t_blockID r4)"
    and "r5 \<in> set (rows (blocks d)) \<Longrightarrow> nullable_ref b_blockID (blocks d) (b_blockParent r5)"
    and "r6 \<in> set (rows (scheduled d)) \<Longrightarrow> nullable_ref s_schID (scheduled d) (s_schParentID r6)"
  using assms by (simp_all add: wf_db_def refs_ok_def)

section \<open>An example\<close>

text \<open>
  A database for evaluating properties: an account \<open>xp\<close> with the address \<open>a\<close>, a loose address
  \<open>b\<close>, a transaction \<open>t1\<close> of block \<open>B1\<close> that pays 50 to \<open>a\<close> and a transaction \<open>t2\<close> of
  block \<open>B2\<close> that spends it and pays 30 to \<open>b\<close>.
\<close>

definition demo_db :: db where
  "demo_db =
     \<lparr>addresses = \<lparr>rows = [\<lparr>a_addrID = 1, a_addrAddress = ''a''\<rparr>, \<lparr>a_addrID = 2, a_addrAddress = ''b''\<rparr>], next_id = 3\<rparr>,
      banned_addresses = [],
      blocks = \<lparr>rows =
        [\<lparr>b_blockID = 1, b_blockHash = ''B1'', b_blockParent = None, b_blockHeight = 1, b_blockTime = 10\<rparr>,
         \<lparr>b_blockID = 2, b_blockHash = ''B2'', b_blockParent = Some 1, b_blockHeight = 2, b_blockTime = 20\<rparr>], next_id = 3\<rparr>,
      hd_accounts = \<lparr>rows = [\<lparr>h_hdID = 1, h_hdXpub = ''xp'', h_hdCreated = 5, h_hdType = 2\<rparr>], next_id = 2\<rparr>,
      hd_addresses = \<lparr>rows =
        [\<lparr>ha_hdAddrID = 1, ha_hdID = 1, ha_addrID = 1, ha_hdAddrChain = 0, ha_hdAddrIndex = 0\<rparr>], next_id = 2\<rparr>,
      inputs = \<lparr>rows = [\<lparr>i_inID = 1, i_outID = 1, i_txnID = 2, i_inIndex = 0, i_inSequence = 0\<rparr>], next_id = 2\<rparr>,
      outputs = \<lparr>rows =
        [\<lparr>o_outID = 1, o_txnID = 1, o_addrID = 1, o_outIndex = 0, o_outAmount = 50, o_outScript = ''s''\<rparr>,
         \<lparr>o_outID = 2, o_txnID = 2, o_addrID = 2, o_outIndex = 1, o_outAmount = 30, o_outScript = ''s''\<rparr>], next_id = 3\<rparr>,
      transactions = \<lparr>rows =
        [\<lparr>t_txnID = 1, t_txnTxid = ''t1'', t_txnCreated = 10, t_txnVersion = 1, t_txnLocktime = 0, t_blockID = Some 1\<rparr>,
         \<lparr>t_txnID = 2, t_txnTxid = ''t2'', t_txnCreated = 20, t_txnVersion = 1, t_txnLocktime = 0, t_blockID = Some 2\<rparr>], next_id = 3\<rparr>,
      scheduled = empty_table, api_keys = empty_table\<rparr>"

lemma wf_demo_db: "wf_db demo_db"
  by (simp add: wf_defs demo_db_def table_ok_def has_id_def nullable_ref_def empty_table_def)

end
