(* ===== verification/Hd_Accounts_Helper.thy ===== *)
theory Hd_Accounts_Helper
  imports Schema Util
begin

text \<open>
  \<^verbatim>\<open>lib/bitcoin/hd-accounts-helper.ts\<close>, \<^verbatim>\<open>lib/bitcoin/parallel-address-derivation.ts\<close> and the
  address encoders of \<^verbatim>\<open>lib/bitcoin/addresses-helper.ts\<close>: types of HD accounts, translation of
  extended public keys, the cache of parsed accounts and the derivation of addresses, in the
  process or in a worker thread.

  The libraries the code calls (bs58check, bip32, bitcoinjs-lib) are the fields of one parameter
  of type \<open>'n hd_lib\<close>, where \<open>'n\<close> is the type of their HD nodes. \<open>None\<close> is a call that throws.
\<close>

record 'n hd_lib =
  b58_decode :: "string \<Rightarrow> byte list option"
  b58_encode :: "byte list \<Rightarrow> string"
  fromBase58 :: "string \<Rightarrow> 'n option"
  isNeutered :: "'n \<Rightarrow> bool"
  derive :: "'n \<Rightarrow> int \<Rightarrow> 'n option"
  publicKey :: "'n \<Rightarrow> byte list"
  node_index :: "'n \<Rightarrow> int"
  pay_p2pkh :: "byte list \<Rightarrow> string"
  pay_p2sh_p2wpkh :: "byte list \<Rightarrow> string"
  pay_p2wpkh :: "byte list \<Rightarrow> string"

section \<open>Account types\<close>

definition BIP44 :: hd_type where "BIP44 = 0"
definition BIP49 :: hd_type where "BIP49 = 1"
definition BIP84 :: hd_type where "BIP84 = 2"
definition LOCKED :: hd_type where "LOCKED = 128"

lemmas hd_types = BIP44_def BIP49_def BIP84_def LOCKED_def

definition MAX_SAFE_INT_32 :: int where "MAX_SAFE_INT_32 = 2 ^ 31 - 1"
definition POSTMIX_ACCT :: int where "POSTMIX_ACCT = MAX_SAFE_INT_32 - 1"

record hd_type_info =
  ty_type :: "hd_type option"
  ty_locked :: bool

definition classify :: "hd_type \<Rightarrow> hd_type_info" where
  "classify v =
     (let locked = LOCKED \<le> v;
          p = (if locked then v - LOCKED else v)
      in \<lparr>ty_type = (if p = BIP44 \<or> p = BIP49 \<or> p = BIP84 then Some p else None), ty_locked = locked\<rparr>)"

definition makeType :: "hd_type \<Rightarrow> bool \<Rightarrow> hd_type" where
  "makeType type locked =
     (let p = (if LOCKED \<le> type then type - LOCKED else type)
      in if locked then p + LOCKED else p)"

definition typeString :: "hd_type \<Rightarrow> string" where
  "typeString v =
     (let info = classify v;
          prefix = (if ty_locked info then ''LOCKED '' else '''');
          suffix = (if ty_type info = Some BIP44 then ''BIP44''
                    else if ty_type info = Some BIP49 then ''BIP49''
                    else if ty_type info = Some BIP84 then ''BIP84''
                    else ''UNKNOWN'')
      in prefix @ suffix)"

lemma classify_LOCKED: "ty_locked (classify v) \<longleftrightarrow> 128 \<le> v"
  by (simp add: classify_def hd_types Let_def)

lemma accepted_types: "ty_type (classify v) \<noteq> None \<longleftrightarrow> v \<in> {0, 1, 2, 128, 129, 130}"
  by (auto simp: classify_def hd_types Let_def)

lemma typeString_texts:
  "typeString 0 = ''BIP44''" "typeString 1 = ''BIP49''" "typeString 2 = ''BIP84''"
  "typeString 128 = ''LOCKED BIP44''" "typeString 129 = ''LOCKED BIP49''"
  "typeString 130 = ''LOCKED BIP84''"
  by (simp_all add: typeString_def classify_def hd_types)

text \<open>
  C37. The lock flag and the derivation scheme of an account type are independent: locking or
  unlocking any type the code accepts keeps its scheme and sets exactly the flag asked for, the
  two operations undo each other, and two accepted types print alike only if they are equal.
\<close>

theorem classify_makeType:
  assumes "ty_type (classify v) = Some s"
  shows "classify (makeType v l) = \<lparr>ty_type = Some s, ty_locked = l\<rparr>
    \<and> makeType (makeType v l) (ty_locked (classify v)) = v
    \<and> (\<forall>w. ty_type (classify w) \<noteq> None \<and> typeString w = typeString v \<longrightarrow> w = v)"
proof -
  have v: "v \<in> {0, 1, 2, 128, 129, 130}"
    using assms accepted_types [of v] by simp
  have "w = v" if "ty_type (classify w) \<noteq> None" "typeString w = typeString v" for w
  proof -
    have w: "w \<in> {0, 1, 2, 128, 129, 130}" using that(1) by (simp only: accepted_types)
    show ?thesis
      using v w that(2) by (elim insertE; simp add: typeString_texts)
  qed
  moreover have "classify (makeType v l) = \<lparr>ty_type = Some s, ty_locked = l\<rparr>"
    "makeType (makeType v l) (ty_locked (classify v)) = v"
    using v assms by (auto simp: classify_def makeType_def hd_types Let_def)
  ultimately show ?thesis by blast
qed

lemma classify_makeType_witness:
  "classify (makeType BIP84 True) = \<lparr>ty_type = Some BIP84, ty_locked = True\<rparr>"
  using classify_makeType [of BIP84 BIP84 True, THEN conjunct1]
  by (simp add: classify_def hd_types)

section \<open>Extended public keys\<close>

definition MAGIC_XPUB :: "32 word" where "MAGIC_XPUB = 0x0488b21e"
definition MAGIC_TPUB :: "32 word" where "MAGIC_TPUB = 0x043587cf"
definition MAGIC_YPUB :: "32 word" where "MAGIC_YPUB = 0x049d7cb2"
definition MAGIC_UPUB :: "32 word" where "MAGIC_UPUB = 0x044a5262"
definition MAGIC_ZPUB :: "32 word" where "MAGIC_ZPUB = 0x04b24746"
definition MAGIC_VPUB :: "32 word" where "MAGIC_VPUB = 0x045f1cf6"

lemmas magics = MAGIC_XPUB_def MAGIC_TPUB_def MAGIC_YPUB_def MAGIC_UPUB_def MAGIC_ZPUB_def
  MAGIC_VPUB_def

text \<open>\<open>DataView.getUint32(0)\<close> and \<open>setUint32(0, w)\<close>: big-endian, a \<open>RangeError\<close> below four bytes.\<close>

definition getUint32 :: "byte list \<Rightarrow> 32 word option" where
  "getUint32 bs = (case bs of
     a # b # c # d # _ \<Rightarrow> Some (word_of_nat (((unat a * 256 + unat b) * 256 + unat c) * 256 + unat d))
   | _ \<Rightarrow> None)"

definition be_bytes :: "32 word \<Rightarrow> byte list" where
  "be_bytes w = [word_of_nat (unat w div 16777216), word_of_nat (unat w div 65536),
     word_of_nat (unat w div 256), word_of_nat (unat w)]"

definition setUint32 :: "32 word \<Rightarrow> byte list \<Rightarrow> byte list" where
  "setUint32 w bs = be_bytes w @ drop 4 bs"

lemma getUint32_set [simp]: "getUint32 (setUint32 w bs) = Some w"
proof -
  define n where "n = unat w"
  have "unat w < 2 ^ LENGTH(32)" by (rule unsigned_less)
  then have n: "n < 4294967296" by (simp add: n_def)
  have byte: "unat (word_of_nat k :: byte) = k mod 256" for k
    by (simp add: unsigned_of_nat take_bit_eq_mod)
  have "n div 16777216 < 256" using n by (simp add: less_mult_imp_div_less)
  then have "n div 16777216 mod 256 = n div 16777216" by simp
  moreover have "n div 16777216 * 256 + n div 65536 mod 256 = n div 65536"
    using div_mult_mod_eq [of "n div 65536" 256] by (simp add: div_mult2_eq [symmetric])
  moreover have "n div 65536 * 256 + n div 256 mod 256 = n div 256"
    using div_mult_mod_eq [of "n div 256" 256] by (simp add: div_mult2_eq [symmetric])
  ultimately have "((n div 16777216 mod 256 * 256 + n div 65536 mod 256) * 256 + n div 256 mod 256)
      * 256 + n mod 256 = n"
    by simp
  then have "((unat (word_of_nat (unat w div 16777216) :: byte) * 256
      + unat (word_of_nat (unat w div 65536) :: byte)) * 256
      + unat (word_of_nat (unat w div 256) :: byte)) * 256 + unat (word_of_nat (unat w) :: byte)
      = unat w"
    unfolding byte n_def .
  then show ?thesis
    by (simp only: getUint32_def setUint32_def be_bytes_def list.case append.simps) simp
qed

lemma drop_setUint32 [simp]: "drop 4 (setUint32 w bs) = drop 4 bs"
  by (simp add: setUint32_def be_bytes_def)

definition starts_with :: "string \<Rightarrow> string \<Rightarrow> bool" where
  "starts_with p s \<longleftrightarrow> take (length p) s = p"

definition isXpub :: "string option \<Rightarrow> bool" where
  "isXpub xpub = (case xpub of None \<Rightarrow> False | Some x \<Rightarrow> starts_with ''xpub'' x \<or> starts_with ''tpub'' x)"

definition isYpub :: "string option \<Rightarrow> bool" where
  "isYpub xpub = (case xpub of None \<Rightarrow> False | Some x \<Rightarrow> starts_with ''ypub'' x \<or> starts_with ''upub'' x)"

definition isZpub :: "string option \<Rightarrow> bool" where
  "isZpub xpub = (case xpub of None \<Rightarrow> False | Some x \<Rightarrow> starts_with ''zpub'' x \<or> starts_with ''vpub'' x)"

definition xlatXPUB :: "'n hd_lib \<Rightarrow> string option \<Rightarrow> string result" where
  "xlatXPUB lib xpub =
     (case xpub of None \<Rightarrow> Inl (Err Xpub_INVALID) | Some x \<Rightarrow>
     (case b58_decode lib x of None \<Rightarrow> Inl (Exn ''Invalid checksum'') | Some decoded \<Rightarrow>
     (case getUint32 decoded of None \<Rightarrow> Inl (Exn ''RangeError'') | Some prefix \<Rightarrow>
        if prefix = MAGIC_XPUB \<or> prefix = MAGIC_TPUB then Inr x
        else if prefix = MAGIC_YPUB \<or> prefix = MAGIC_ZPUB
          then Inr (b58_encode lib (setUint32 MAGIC_XPUB decoded))
        else if prefix = MAGIC_UPUB \<or> prefix = MAGIC_VPUB
          then Inr (b58_encode lib (setUint32 MAGIC_TPUB decoded))
        else Inl (Err Xpub_INVALID))))"

text \<open>What bs58check documents: decoding an encoded payload gives the payload back.\<close>

definition b58_ok :: "'n hd_lib \<Rightarrow> bool" where
  "b58_ok lib \<longleftrightarrow> (\<forall>bs. b58_decode lib (b58_encode lib bs) = Some bs)"

text \<open>
  C35. \<open>xlatXPUB\<close> returns a key with the magic number of a mainnet key (xpub) for a mainnet key,
  of a testnet key (tpub) for a testnet key, and the same other bytes; translating again changes
  nothing; and it throws exactly on keys that do not decode or have another magic number.
\<close>

theorem xlatXPUB_spec:
  assumes "b58_ok lib"
  shows "(case xlatXPUB lib (Some x) of
      Inl e \<Rightarrow> \<forall>bs w. b58_decode lib x = Some bs \<and> getUint32 bs = Some w \<longrightarrow>
        w \<notin> {MAGIC_XPUB, MAGIC_YPUB, MAGIC_ZPUB, MAGIC_TPUB, MAGIC_UPUB, MAGIC_VPUB}
    | Inr y \<Rightarrow> xlatXPUB lib (Some y) = Inr y \<and>
        (\<exists>bs bs' w. b58_decode lib x = Some bs \<and> b58_decode lib y = Some bs'
           \<and> drop 4 bs' = drop 4 bs \<and> getUint32 bs = Some w
           \<and> (w \<in> {MAGIC_XPUB, MAGIC_YPUB, MAGIC_ZPUB} \<and> getUint32 bs' = Some MAGIC_XPUB
              \<or> w \<in> {MAGIC_TPUB, MAGIC_UPUB, MAGIC_VPUB} \<and> getUint32 bs' = Some MAGIC_TPUB)))"
proof (cases "b58_decode lib x")
  case None
  then show ?thesis by (simp add: xlatXPUB_def)
next
  case (Some bs)
  have enc: "b58_decode lib (b58_encode lib bs) = Some bs" for bs
    using assms by (simp add: b58_ok_def)
  show ?thesis
  proof (cases "getUint32 bs")
    case None
    then show ?thesis using Some by (simp add: xlatXPUB_def)
  next
    case w: (Some w)
    then show ?thesis using Some enc by (auto simp: xlatXPUB_def)
  qed
qed

section \<open>Parsed accounts\<close>

text \<open>The external chain, the internal chain and the account itself.\<close>

type_synonym 'n hd_nodes = "'n \<times> 'n \<times> 'n"

definition chain_node :: "'n hd_nodes \<Rightarrow> int \<Rightarrow> 'n" where
  "chain_node ns chain = (if chain = 0 then fst ns else fst (snd ns))"

definition parse_node :: "'n hd_lib \<Rightarrow> string option \<Rightarrow> 'n hd_nodes result" where
  "parse_node lib xpub =
     (if \<not> (isXpub xpub \<or> isYpub xpub \<or> isZpub xpub) then Inl (Err Xpub_INVALID)
      else bindE (xlatXPUB lib xpub) (\<lambda>xlated.
        case fromBase58 lib xlated of None \<Rightarrow> Inl (Exn ''Invalid base58'') | Some node \<Rightarrow>
          if \<not> isNeutered lib node then Inl (Err Xpub_PRIVKEY)
          else (case (derive lib node 0, derive lib node 1) of
                  (Some n0, Some n1) \<Rightarrow> Inr (n0, n1, node)
                | _ \<Rightarrow> Inl (Exn ''derive''))))"

text \<open>
  \<open>isValid\<close> with its cache; \<open>evict k\<close> is what the least-recently-used cache drops when \<open>k\<close> is stored.
\<close>

type_synonym 'n hd_cache = "string \<rightharpoonup> 'n hd_nodes"

definition isValid ::
  "'n hd_lib \<Rightarrow> (string \<Rightarrow> 'n hd_cache \<Rightarrow> 'n hd_cache) \<Rightarrow> string option \<Rightarrow> 'n hd_cache
     \<Rightarrow> bool result \<times> 'n hd_cache" where
  "isValid lib evict xpub cache =
     (if (case xpub of None \<Rightarrow> False | Some x \<Rightarrow> cache x \<noteq> None) then (Inr True, cache)
      else case parse_node lib xpub of
        Inl e \<Rightarrow> (if e = Err Xpub_PRIVKEY then Inl e else Inr False, cache)
      | Inr ns \<Rightarrow> (case xpub of
          Some x \<Rightarrow> (Inr True, evict x (cache(x \<mapsto> ns)))
        | None \<Rightarrow> (Inr True, cache)))"

definition getNode ::
  "'n hd_lib \<Rightarrow> (string \<Rightarrow> 'n hd_cache \<Rightarrow> 'n hd_cache) \<Rightarrow> string option \<Rightarrow> 'n hd_cache
     \<Rightarrow> 'n hd_nodes option result \<times> 'n hd_cache" where
  "getNode lib evict xpub cache =
     (case isValid lib evict xpub cache of
        (Inl e, cache') \<Rightarrow> (Inl e, cache')
      | (Inr False, cache') \<Rightarrow> (Inr None, cache')
      | (Inr True, cache') \<Rightarrow> (Inr (case xpub of None \<Rightarrow> None | Some x \<Rightarrow> cache' x), cache'))"

text \<open>What \<open>getNode\<close> gives without a cache.\<close>

definition fresh_node :: "'n hd_lib \<Rightarrow> string option \<Rightarrow> 'n hd_nodes option result" where
  "fresh_node lib xpub =
     (case parse_node lib xpub of
        Inr ns \<Rightarrow> Inr (Some ns)
      | Inl e \<Rightarrow> if e = Err Xpub_PRIVKEY then Inl e else Inr None)"

definition coherent :: "'n hd_lib \<Rightarrow> 'n hd_cache \<Rightarrow> bool" where
  "coherent lib cache \<longleftrightarrow> (\<forall>x ns. cache x = Some ns \<longrightarrow> parse_node lib (Some x) = Inr ns)"

text \<open>An eviction drops entries, never the one just stored.\<close>

definition evicts :: "(string \<Rightarrow> 'n hd_cache \<Rightarrow> 'n hd_cache) \<Rightarrow> bool" where
  "evicts evict \<longleftrightarrow> (\<forall>x c. evict x c \<subseteq>\<^sub>m c \<and> evict x c x = c x)"

text \<open>
  C34. The cache is invisible: from a coherent cache \<open>getNode\<close> answers what it would answer without
  one, whatever is evicted, the cache stays coherent, and a private key is never cached.
\<close>

theorem getNode_cache_transparent:
  assumes "coherent lib cache" and "evicts evict"
  shows "fst (getNode lib evict xpub cache) = fresh_node lib xpub
    \<and> coherent lib (snd (getNode lib evict xpub cache))
    \<and> (parse_node lib (Some x) = Inl (Err Xpub_PRIVKEY)
        \<longrightarrow> snd (getNode lib evict xpub cache) x = None)"
proof -
  have sub: "coherent lib c'" if "coherent lib c" "c' \<subseteq>\<^sub>m c" for c c' :: "string \<rightharpoonup> 'a hd_nodes"
    using that by (auto simp: coherent_def map_le_def) (metis domI)
  have ev: "evict y c \<subseteq>\<^sub>m c" "evict y c y = c y" for y c
    using assms(2) by (auto simp: evicts_def)
  have upd: "coherent lib (evict y (cache(y \<mapsto> ns)))" if "parse_node lib (Some y) = Inr ns" for y ns
    using assms(1) that by (intro sub [OF _ ev(1)]) (auto simp: coherent_def)
  have coh: "fst (getNode lib evict xpub cache) = fresh_node lib xpub
    \<and> coherent lib (snd (getNode lib evict xpub cache))"
  proof (cases xpub)
    case None
    then show ?thesis using assms(1)
      by (simp add: getNode_def isValid_def fresh_node_def parse_node_def isXpub_def isYpub_def
          isZpub_def)
  next
    case (Some y)
    show ?thesis
    proof (cases "cache y")
      case None
      then show ?thesis using Some assms(1) upd ev(2)
        by (auto simp: getNode_def isValid_def fresh_node_def split: sum.splits)
    next
      case hit: (Some ns)
      then have "parse_node lib (Some y) = Inr ns" using assms(1) unfolding coherent_def by blast
      then show ?thesis using hit Some assms(1)
        by (simp add: getNode_def isValid_def fresh_node_def)
    qed
  qed
  moreover have "snd (getNode lib evict xpub cache) x = None"
    if "parse_node lib (Some x) = Inl (Err Xpub_PRIVKEY)"
    using coh that by (cases "snd (getNode lib evict xpub cache) x") (auto simp: coherent_def)
  ultimately show ?thesis by blast
qed

section \<open>Derivation of addresses\<close>

record derived =
  d_chain :: int
  d_index :: int
  d_address :: string

definition toLowerCase :: "string \<Rightarrow> string" where
  "toLowerCase = map (\<lambda>c. let n = (of_char c :: nat) in if 65 \<le> n \<and> n \<le> 90 then char_of (n + 32) else c)"

definition p2pkhAddress :: "'n hd_lib \<Rightarrow> byte list \<Rightarrow> string" where
  "p2pkhAddress lib pubkey = pay_p2pkh lib pubkey"

definition p2wpkhP2shAddress :: "'n hd_lib \<Rightarrow> byte list \<Rightarrow> string" where
  "p2wpkhP2shAddress lib pubkey = pay_p2sh_p2wpkh lib pubkey"

definition p2wpkhAddress :: "'n hd_lib \<Rightarrow> byte list \<Rightarrow> string" where
  "p2wpkhAddress lib pubkey = toLowerCase (pay_p2wpkh lib pubkey)"

definition deriveAddress :: "'n hd_lib \<Rightarrow> int \<Rightarrow> 'n \<Rightarrow> int \<Rightarrow> hd_type \<Rightarrow> derived result" where
  "deriveAddress lib chain chainNode index type =
     (case derive lib chainNode index of
        None \<Rightarrow> Inl (Exn ''derive'')
      | Some indexNode \<Rightarrow>
          Inr \<lparr>d_chain = chain, d_index = index,
               d_address =
                 (if type = BIP44 then p2pkhAddress lib (publicKey lib indexNode)
                  else if type = BIP49 then p2wpkhP2shAddress lib (publicKey lib indexNode)
                  else if type = BIP84 then p2wpkhAddress lib (publicKey lib indexNode)
                  else '''')\<rparr>)"

definition isPostmixAcct :: "'n hd_lib \<Rightarrow> 'n hd_nodes \<Rightarrow> bool" where
  "isPostmixAcct lib ns =
     (let index = node_index lib (snd (snd ns));
          threshold = 2 ^ 31;
          account = (if threshold \<le> index then index - threshold else index)
      in account = POSTMIX_ACCT)"

text \<open>The addresses of one request: those of its type, then the other change types of a postmix account.\<close>

definition derive_all ::
  "'n hd_lib \<Rightarrow> int \<Rightarrow> 'n \<Rightarrow> int list \<Rightarrow> hd_type \<Rightarrow> bool \<Rightarrow> derived list result" where
  "derive_all lib chain chainNode indices type postmixChange =
     mapE (\<lambda>(index, t). deriveAddress lib chain chainNode index t)
       (map (\<lambda>i. (i, type)) indices
        @ (if postmixChange then concat (map (\<lambda>i. [(i, BIP44), (i, BIP49)]) indices) else []))"

text \<open>
  The worker thread of \<^verbatim>\<open>parallel-address-derivation.ts\<close>, with its own copy of the constants and of the
  derivation of one address. \<open>Inl\<close> is its reply with status \<open>error\<close>.
\<close>

definition worker_BIP44 :: hd_type where "worker_BIP44 = 0"
definition worker_BIP49 :: hd_type where "worker_BIP49 = 1"
definition worker_BIP84 :: hd_type where "worker_BIP84 = 2"

definition worker_deriveAddress :: "'n hd_lib \<Rightarrow> int \<Rightarrow> 'n \<Rightarrow> int \<Rightarrow> hd_type \<Rightarrow> derived result" where
  "worker_deriveAddress lib chain chainNode index type =
     (case derive lib chainNode index of
        None \<Rightarrow> Inl (Exn ''derive'')
      | Some indexNode \<Rightarrow>
          let addr = \<lparr>d_chain = chain, d_index = index, d_address = ''''\<rparr>
          in Inr (if type = worker_BIP44 then addr\<lparr>d_address := p2pkhAddress lib (publicKey lib indexNode)\<rparr>
                  else if type = worker_BIP49 then addr\<lparr>d_address := p2wpkhP2shAddress lib (publicKey lib indexNode)\<rparr>
                  else if type = worker_BIP84 then addr\<lparr>d_address := p2wpkhAddress lib (publicKey lib indexNode)\<rparr>
                  else addr))"

text \<open>The loop that pushes the other change types of a postmix account.\<close>

fun worker_pushChange :: "'n hd_lib \<Rightarrow> int \<Rightarrow> 'n \<Rightarrow> int list \<Rightarrow> derived list \<Rightarrow> derived list result" where
  "worker_pushChange lib chain chainNode [] acc = Inr acc"
| "worker_pushChange lib chain chainNode (index # indices) acc =
     bindE (worker_deriveAddress lib chain chainNode index worker_BIP44) (\<lambda>a.
     bindE (worker_deriveAddress lib chain chainNode index worker_BIP49) (\<lambda>b.
       worker_pushChange lib chain chainNode indices (acc @ [a, b])))"

definition worker_deriveAddresses ::
  "'n hd_lib \<Rightarrow> string \<Rightarrow> int \<Rightarrow> int list \<Rightarrow> hd_type \<Rightarrow> bool \<Rightarrow> derived list result" where
  "worker_deriveAddresses lib xpub chain indices type isPostmixChange =
     (case fromBase58 lib xpub of
        None \<Rightarrow> Inl (Exn ''Invalid base58'')
      | Some node \<Rightarrow>
          if \<not> isNeutered lib node then Inl (Err Xpub_PRIVKEY)
          else (case derive lib node chain of
                  None \<Rightarrow> Inl (Exn ''derive'')
                | Some chainNode \<Rightarrow>
                    bindE (mapE (\<lambda>index. worker_deriveAddress lib chain chainNode index type) indices) (\<lambda>addrs.
                      if isPostmixChange then worker_pushChange lib chain chainNode indices addrs
                      else Inr addrs)))"

text \<open>The worker derives what the helper derives.\<close>

lemma worker_deriveAddress_eq: "worker_deriveAddress lib chain n i type = deriveAddress lib chain n i type"
  by (simp add: worker_deriveAddress_def deriveAddress_def worker_BIP44_def worker_BIP49_def worker_BIP84_def hd_types
      split: option.split)

lemma mapE_map: "mapE f (map g xs) = mapE (\<lambda>x. f (g x)) xs"
  by (induction xs) auto

lemma worker_pushChange_eq:
  "worker_pushChange lib chain n indices acc =
     bindE (mapE (\<lambda>(i, t). deriveAddress lib chain n i t) (concat (map (\<lambda>i. [(i, BIP44), (i, BIP49)]) indices)))
       (\<lambda>addrs. Inr (acc @ addrs))"
proof (induction indices arbitrary: acc)
  case (Cons i indices)
  then show ?case
    by (simp add: worker_deriveAddress_eq worker_BIP44_def worker_BIP49_def hd_types bindE_def split: sum.split)
qed (simp add: bindE_def)

lemma worker_deriveAddresses_eq:
  "worker_deriveAddresses lib xpub chain indices type pm =
     (case fromBase58 lib xpub of
        None \<Rightarrow> Inl (Exn ''Invalid base58'')
      | Some node \<Rightarrow>
          if \<not> isNeutered lib node then Inl (Err Xpub_PRIVKEY)
          else (case derive lib node chain of
                  None \<Rightarrow> Inl (Exn ''derive'')
                | Some chainNode \<Rightarrow> derive_all lib chain chainNode indices type pm))"
  by (simp add: worker_deriveAddresses_def worker_deriveAddress_eq worker_pushChange_eq derive_all_def mapE_append mapE_map
      bindE_def split: option.split sum.split)

text \<open>
  \<open>deriveAddresses\<close> of the helper. \<open>external\<close> is \<open>externalDerivationActivated\<close>, \<open>threshold\<close> the
  configured number of indices above which a worker is used, \<open>exec\<close> the worker pool: it hands the
  worker's reply back, or rejects.
\<close>

definition deriveAddresses ::
  "'n hd_lib \<Rightarrow> bool \<Rightarrow> nat \<Rightarrow> (derived list result \<Rightarrow> derived list result result)
     \<Rightarrow> string option \<Rightarrow> int \<Rightarrow> int list \<Rightarrow> hd_type option \<Rightarrow> derived list result" where
  "deriveAddresses lib external threshold exec xpub chain indices type =
     bindE (fresh_node lib xpub) (\<lambda>node. case node of
       None \<Rightarrow> Inl (Err Xpub_INVALID)
     | Some ns \<Rightarrow>
         if chain > 1 \<or> chain < 0 then Inl (Err Xpub_CHAIN)
         else (let type = (case type of None \<Rightarrow> makeType BIP44 False | Some t \<Rightarrow> t)
               in case ty_type (classify type) of
                 None \<Rightarrow> Inl (Err Xpub_SEGWIT)
               | Some scheme \<Rightarrow>
                   (let postmixChange = (isPostmixAcct lib ns \<and> chain = 1)
                    in if external \<and> threshold < length indices
                       then bindE (xlatXPUB lib xpub) (\<lambda>xlated.
                              bindE (exec (worker_deriveAddresses lib xlated chain indices scheme postmixChange))
                                (\<lambda>reply. case reply of Inr addrs \<Rightarrow> Inr addrs | Inl e \<Rightarrow> Inr []))
                       else derive_all lib chain (chain_node ns chain) indices scheme postmixChange)))"

lemma fresh_node_Some:
  assumes "fresh_node lib xpub = Inr (Some ns)"
  shows "\<exists>xlated node n0 n1. xlatXPUB lib xpub = Inr xlated \<and> fromBase58 lib xlated = Some node
    \<and> isNeutered lib node \<and> derive lib node 0 = Some n0 \<and> derive lib node 1 = Some n1
    \<and> ns = (n0, n1, node)"
  using assms
  by (auto simp: fresh_node_def parse_node_def bindE_def split: sum.splits if_splits option.splits)

text \<open>The request passes the checks that precede the derivation.\<close>

definition derivation_starts :: "'n hd_lib \<Rightarrow> string option \<Rightarrow> int \<Rightarrow> hd_type option \<Rightarrow> bool" where
  "derivation_starts lib xpub chain type \<longleftrightarrow>
     (case fresh_node lib xpub of Inr (Some _) \<Rightarrow> True | _ \<Rightarrow> False) \<and> (chain = 0 \<or> chain = 1) \<and>
     ty_type (classify (case type of None \<Rightarrow> makeType BIP44 False | Some t \<Rightarrow> t)) \<noteq> None"

lemma deriveAddresses_started:
  assumes "derivation_starts lib xpub chain type"
  obtains ns scheme xlated where "fresh_node lib xpub = Inr (Some ns)"
    "\<And>th exec. deriveAddresses lib False th exec xpub chain indices type =
       derive_all lib chain (chain_node ns chain) indices scheme (isPostmixAcct lib ns \<and> chain = 1)"
    "\<And>th exec. deriveAddresses lib True th exec xpub chain indices type =
       (if th < length indices
        then bindE (exec (worker_deriveAddresses lib xlated chain indices scheme (isPostmixAcct lib ns \<and> chain = 1)))
          (\<lambda>reply. case reply of Inr addrs \<Rightarrow> Inr addrs | Inl e \<Rightarrow> Inr [])
        else derive_all lib chain (chain_node ns chain) indices scheme (isPostmixAcct lib ns \<and> chain = 1))"
    "worker_deriveAddresses lib xlated chain indices scheme (isPostmixAcct lib ns \<and> chain = 1) =
       derive_all lib chain (chain_node ns chain) indices scheme (isPostmixAcct lib ns \<and> chain = 1)"
proof -
  obtain ns scheme where ns: "fresh_node lib xpub = Inr (Some ns)" and chain: "chain = 0 \<or> chain = 1"
    and scheme: "ty_type (classify (case type of None \<Rightarrow> makeType BIP44 False | Some t \<Rightarrow> t)) = Some scheme"
    using assms by (auto simp: derivation_starts_def split: sum.splits option.splits)
  obtain xlated node n0 n1 where node: "xlatXPUB lib xpub = Inr xlated"
    "fromBase58 lib xlated = Some node" "isNeutered lib node"
    "derive lib node 0 = Some n0" "derive lib node 1 = Some n1" "ns = (n0, n1, node)"
    using fresh_node_Some [OF ns] by blast
  have d: "derive lib node chain = Some (chain_node ns chain)" using node chain by (auto simp: chain_node_def)
  show ?thesis
  proof (rule that [OF ns, of scheme xlated])
    show "worker_deriveAddresses lib xlated chain indices scheme (isPostmixAcct lib ns \<and> chain = 1) =
       derive_all lib chain (chain_node ns chain) indices scheme (isPostmixAcct lib ns \<and> chain = 1)"
      using node(2,3) d by (simp add: worker_deriveAddresses_eq)
  qed (use ns chain scheme node(1) in \<open>auto simp: deriveAddresses_def Let_def\<close>)
qed

text \<open>
  C36. The worker thread, which has its own copy of the derivation, agrees with the helper: with a
  pool that hands its reply back, a request gives through a worker exactly what it gives in the process, whatever the
  threshold, the account type and the postmix additions, and a request that the checks refuse gives the same
  error. The one difference is a derivation that fails: its exception becomes an empty list of addresses.
\<close>

theorem deriveAddresses_parallel:
  assumes "\<And>r. exec r = Inr r"
  shows "deriveAddresses lib True th' exec xpub chain indices type =
    (let here = deriveAddresses lib False th exec xpub chain indices type
     in if derivation_starts lib xpub chain type \<and> th' < length indices
        then Inr (case here of Inr addrs \<Rightarrow> addrs | Inl e \<Rightarrow> []) else here)"
proof (cases "derivation_starts lib xpub chain type")
  case True
  show ?thesis
    by (rule deriveAddresses_started [OF True, of indices]) (simp add: True assms split: sum.split)
next
  case False
  then show ?thesis
    by (auto simp: derivation_starts_def deriveAddresses_def bindE_def Let_def split: sum.splits option.splits)
qed

text \<open>
  A failure is not reported alike: an index no node derives is an exception in the process and an
  empty list of addresses through a worker.
\<close>

lemma deriveAddresses_failure_differs:
  assumes "fresh_node lib xpub = Inr (Some ns)" and "derive lib (chain_node ns 0) i = None"
    and "\<And>r. exec r = Inr r" and "ty_type (classify t) = Some s"
  shows "deriveAddresses lib False 0 exec xpub 0 [i] (Some t) = Inl (Exn ''derive'')"
    and "deriveAddresses lib True 0 exec xpub 0 [i] (Some t) = Inr []"
proof -
  show "deriveAddresses lib False 0 exec xpub 0 [i] (Some t) = Inl (Exn ''derive'')"
    using assms by (simp add: deriveAddresses_def derive_all_def deriveAddress_def)
  obtain xlated node n0 n1 where "xlatXPUB lib xpub = Inr xlated"
    "fromBase58 lib xlated = Some node" "isNeutered lib node"
    "derive lib node 0 = Some n0" "derive lib node 1 = Some n1" "ns = (n0, n1, node)"
    using fresh_node_Some [OF assms(1)] by blast
  then show "deriveAddresses lib True 0 exec xpub 0 [i] (Some t) = Inr []"
    using assms by (simp add: deriveAddresses_def worker_deriveAddresses_eq derive_all_def
        deriveAddress_def chain_node_def)
qed

lemma derive_all_shape:
  assumes "derive_all lib chain n indices type pm = Inr addrs"
  shows "map d_index addrs = indices @ (if pm then concat (map (\<lambda>i. [i, i]) indices) else [])"
    and "\<forall>a\<in>set addrs. d_chain a = chain"
proof -
  let ?req = "map (\<lambda>i. (i, type)) indices
        @ (if pm then concat (map (\<lambda>i. [(i, BIP44), (i, BIP49)]) indices) else [])"
  have "list_all2 (\<lambda>q a. fst q = d_index a \<and> d_chain a = chain) ?req addrs"
    using assms unfolding derive_all_def mapE_Inr_iff
    by (rule list_all2_mono) (auto simp: deriveAddress_def split: option.splits)
  then have "map fst ?req = map d_index addrs" and ch: "\<forall>a\<in>set addrs. d_chain a = chain"
    by (induction rule: list_all2_induct) auto
  then show "map d_index addrs = indices @ (if pm then concat (map (\<lambda>i. [i, i]) indices) else [])"
    by (cases pm) (simp_all add: comp_def map_concat)
  show "\<forall>a\<in>set addrs. d_chain a = chain" by (rule ch)
qed

text \<open>
  A derivation in the process that returns gives one address per index and in the order of the
  indices, all on the chain asked for; the change chain of a postmix account gives two more per
  index, after the others.
\<close>

theorem deriveAddresses_indices:
  assumes "deriveAddresses lib False th exec xpub chain indices type = Inr addrs"
    and "fresh_node lib xpub = Inr (Some ns)"
  shows "map d_index addrs =
      indices @ (if isPostmixAcct lib ns \<and> chain = 1 then concat (map (\<lambda>i. [i, i]) indices) else [])
    \<and> (\<forall>a\<in>set addrs. d_chain a = chain) \<and> (chain = 0 \<or> chain = 1)"
proof -
  have "chain = 0 \<or> chain = 1"
    using assms by (auto simp: deriveAddresses_def split: if_splits)
  moreover obtain scheme where
    "derive_all lib chain (chain_node ns chain) indices scheme (isPostmixAcct lib ns \<and> chain = 1) = Inr addrs"
    using assms by (auto simp: deriveAddresses_def Let_def split: if_splits option.splits)
  ultimately show ?thesis by (simp add: derive_all_shape)
qed

section \<open>A concrete library\<close>

text \<open>
  A stand-in for the third-party functions, on which the properties are evaluated: keys are a
  prefix and the bytes as characters, a node is its path, an address names its type and its path.
\<close>

definition demo_lib :: "int \<Rightarrow> int list hd_lib" where
  "demo_lib account =
     \<lparr>b58_decode = (\<lambda>s. Some (map (\<lambda>c. word_of_nat (of_char c)) (drop 4 s))),
      b58_encode = (\<lambda>bs. ''xpub'' @ map (\<lambda>b. char_of (unat b)) bs),
      fromBase58 = (\<lambda>s. Some []),
      isNeutered = (\<lambda>n. True),
      derive = (\<lambda>n i. if i < 2 ^ 31 then Some (n @ [i]) else None),
      publicKey = (\<lambda>n. map word_of_int n),
      node_index = (\<lambda>n. account),
      pay_p2pkh = (\<lambda>k. CHR ''1'' # map (\<lambda>b. char_of (unat b + 48)) k),
      pay_p2sh_p2wpkh = (\<lambda>k. CHR ''3'' # map (\<lambda>b. char_of (unat b + 48)) k),
      pay_p2wpkh = (\<lambda>k. CHR ''B'' # map (\<lambda>b. char_of (unat b + 48)) k)\<rparr>"

definition demo_xpub :: string where
  "demo_xpub = ''xpub'' @ [CHR 0x04, CHR 0x88, CHR 0xb2, CHR 0x1e, CHR ''A'']"

definition demo_zpub :: string where
  "demo_zpub = ''zpub'' @ [CHR 0x04, CHR 0xb2, CHR 0x47, CHR 0x46, CHR ''A'']"

lemma demo_b58_ok: "b58_ok (demo_lib a)"
proof -
  have "word_of_nat (unat b mod 256) = b" for b :: byte
  proof -
    have "unat b < 2 ^ LENGTH(8)" by (rule unsigned_less)
    then show ?thesis by simp
  qed
  then show ?thesis by (simp add: b58_ok_def demo_lib_def comp_def)
qed

lemma demo_xlat: "xlatXPUB (demo_lib a) (Some demo_zpub) = Inr demo_xpub"
  by (simp add: xlatXPUB_def demo_lib_def demo_zpub_def demo_xpub_def getUint32_def setUint32_def
      be_bytes_def magics char_of_def bit_0)

lemma demo_xlat_xpub: "xlatXPUB (demo_lib a) (Some demo_xpub) = Inr demo_xpub"
  by (simp add: xlatXPUB_def demo_lib_def demo_xpub_def getUint32_def magics)

lemma demo_fresh_node: "fresh_node (demo_lib a) (Some demo_zpub) = Inr (Some ([0], [1], []))"
proof -
  have "isZpub (Some demo_zpub)" by (simp add: isZpub_def starts_with_def demo_zpub_def)
  then show ?thesis
    by (simp add: fresh_node_def parse_node_def demo_xlat) (simp add: demo_lib_def)
qed

lemma xlatXPUB_spec_witness:
  "xlatXPUB (demo_lib 0) (Some demo_zpub) = Inr demo_xpub
   \<and> xlatXPUB (demo_lib 0) (Some demo_xpub) = Inr demo_xpub"
  using xlatXPUB_spec [OF demo_b58_ok [of 0], of demo_zpub] demo_xlat [of 0] by simp

lemma getNode_cache_transparent_witness:
  "fst (getNode (demo_lib 0) (\<lambda>_ c. c) (Some demo_zpub) (\<lambda>_. None)) = Inr (Some ([0], [1], []))"
proof -
  have "coherent (demo_lib 0) (\<lambda>_. None)" "evicts (\<lambda>(_::string) (c :: int list hd_cache). c)"
    by (simp_all add: coherent_def evicts_def)
  then show ?thesis
    using getNode_cache_transparent [of "demo_lib 0" "\<lambda>_. None" "\<lambda>_ c. c" "Some demo_zpub"]
    by (simp add: demo_fresh_node)
qed

lemma demo_derive:
  "deriveAddresses (demo_lib POSTMIX_ACCT) False th exec (Some demo_zpub) 1 [5] (Some BIP84) =
     Inr [\<lparr>d_chain = 1, d_index = 5, d_address = ''b15''\<rparr>,
          \<lparr>d_chain = 1, d_index = 5, d_address = ''115''\<rparr>,
          \<lparr>d_chain = 1, d_index = 5, d_address = ''315''\<rparr>]"
proof -
  have pm: "isPostmixAcct (demo_lib POSTMIX_ACCT) ns" for ns :: "int list hd_nodes"
    by (simp add: isPostmixAcct_def demo_lib_def POSTMIX_ACCT_def MAX_SAFE_INT_32_def)
  have ty: "ty_type (classify BIP84) = Some BIP84" by (simp add: classify_def hd_types)
  show ?thesis
    by (simp add: deriveAddresses_def demo_fresh_node pm ty chain_node_def derive_all_def)
      (simp add: deriveAddress_def demo_lib_def hd_types p2pkhAddress_def p2wpkhAddress_def
        p2wpkhP2shAddress_def toLowerCase_def char_of_def bit_0)
qed

lemma deriveAddresses_parallel_witness:
  "deriveAddresses (demo_lib POSTMIX_ACCT) True 0 Inr (Some demo_zpub) 1 [5] (Some BIP84) =
     Inr [\<lparr>d_chain = 1, d_index = 5, d_address = ''b15''\<rparr>,
          \<lparr>d_chain = 1, d_index = 5, d_address = ''115''\<rparr>,
          \<lparr>d_chain = 1, d_index = 5, d_address = ''315''\<rparr>]"
proof -
  have "derivation_starts (demo_lib POSTMIX_ACCT) (Some demo_zpub) 1 (Some BIP84)"
    by (simp add: derivation_starts_def demo_fresh_node classify_def hd_types)
  then show ?thesis
    using deriveAddresses_parallel [of Inr "demo_lib POSTMIX_ACCT" 0 "Some demo_zpub" 1 "[5]" "Some BIP84" 0]
    by (simp add: demo_derive)
qed

lemma deriveAddresses_indices_witness:
  "map d_index [\<lparr>d_chain = 1, d_index = 5, d_address = ''b15''\<rparr>,
      \<lparr>d_chain = 1, d_index = 5, d_address = ''115''\<rparr>,
      \<lparr>d_chain = 1, d_index = 5, d_address = ''315''\<rparr>] = [5, 5, 5]"
  using deriveAddresses_indices [OF demo_derive [of 0 Inr] demo_fresh_node]
  by (simp split: if_splits)

end
