(* ===== verification/Db_Accounts.thy ===== *)
theory Db_Accounts
  imports Schema Hd_Accounts_Helper
begin

text \<open>
  The operations of \<^verbatim>\<open>lib/db/mysql-db-wrapper.ts\<close> on addresses and HD accounts. An operation takes
  the database and returns it updated; what it throws is \<open>Inl\<close>. \<open>now\<close> is \<open>util.unix()\<close>. A query is
  one step on the database; rows of a query without \<open>ORDER BY\<close> come in table order.
\<close>

section \<open>Addresses\<close>

definition address_id :: "string \<Rightarrow> db \<Rightarrow> nat option" where
  "address_id address d = map_option a_addrID (find_by a_addrAddress address (rows (addresses d)))"

definition getAddressId :: "string \<Rightarrow> db \<Rightarrow> nat result" where
  "getAddressId address d =
     (case address_id address d of Some i \<Rightarrow> Inr i | None \<Rightarrow> Inl (Err Db_NO_ADDRESS))"

definition new_address :: "string \<Rightarrow> nat \<Rightarrow> address_row" where
  "new_address address i = \<lparr>a_addrID = i, a_addrAddress = address\<rparr>"

definition ensureAddressId :: "string \<Rightarrow> db \<Rightarrow> nat \<times> db" where
  "ensureAddressId address d =
     (case address_id address d of
        Some i \<Rightarrow> (i, d)
      | None \<Rightarrow> (let (i, t) = tbl_add (new_address address) (addresses d) in (i, d\<lparr>addresses := t\<rparr>)))"

definition getAddresses :: "string list \<Rightarrow> db \<Rightarrow> address_row list" where
  "getAddresses addrs d =
     (if addrs = [] then [] else filter (\<lambda>r. a_addrAddress r \<in> set addrs) (rows (addresses d)))"

definition getAddressesIds :: "string list \<Rightarrow> db \<Rightarrow> (string \<times> nat) list" where
  "getAddressesIds addrs d =
     (if addrs = [] then []
      else fold (\<lambda>r result. js_set (a_addrAddress r) (a_addrID r) result)
             (filter (\<lambda>r. a_addrAddress r \<in> set addrs) (rows (addresses d))) [])"

text \<open>\<open>INSERT IGNORE\<close> of several addresses, one row after the other.\<close>

definition add_address :: "string \<Rightarrow> db \<Rightarrow> db" where
  "add_address address d =
     d\<lparr>addresses := snd (tbl_insert a_addrAddress address (new_address address) (addresses d))\<rparr>"

definition addAddresses :: "string list \<Rightarrow> db \<Rightarrow> db" where
  "addAddresses addrs d = fold add_address addrs d"

lemma ensureAddressId_db: "snd (ensureAddressId address d) = add_address address d"
  by (cases "find_by a_addrAddress address (rows (addresses d))")
    (simp_all add: ensureAddressId_def address_id_def add_address_def tbl_insert_None tbl_insert_Some
      split: prod.splits)

lemma wf_add_address [wf_intros]: "wf_db d \<Longrightarrow> wf_db (add_address address d)"
  unfolding add_address_def
  by (rule wf_replace_addresses)
    (auto simp: new_address_def wf_tables intro: has_id_insert_mono)

lemma address_id_add:
  "address_id a' (add_address a d) =
     (if a' = a \<and> address_id a d = None then Some (next_id (addresses d)) else address_id a' d)"
  by (simp add: address_id_def add_address_def find_by_insert new_address_def)

interpretation address_ids: id_store wf_db address_id ensureAddressId
proof unfold_locales
  fix d :: db and k k' :: string and i :: nat
  assume wf: "wf_db d"
  show "wf_db (snd (ensureAddressId k d))"
    using wf by (simp add: ensureAddressId_db wf_add_address)
  show "ensureAddressId k d = (i, d)" if "address_id k d = Some i"
    using that by (simp add: ensureAddressId_def)
  show "address_id k (snd (ensureAddressId k d)) = Some (fst (ensureAddressId k d))"
    unfolding ensureAddressId_db
    by (cases "address_id k d") (simp_all add: ensureAddressId_def address_id_add tbl_add_def)
  show "address_id k' (snd (ensureAddressId k d)) = address_id k' d" if "k' \<noteq> k"
    using that by (simp add: ensureAddressId_db address_id_add)
  show "k = k'" if "address_id k d = Some i" "address_id k' d = Some i"
    using that table_pk_inj [OF wf_tables(1) [OF wf]]
    by (auto simp: address_id_def dest: find_by_SomeD)
qed

lemma addAddresses_ensure_all: "addAddresses addrs d = address_ids.ensure_all addrs d"
  by (simp add: addAddresses_def address_ids.ensure_all_def ensureAddressId_db)

lemma wf_addAddresses [wf_intros]: "wf_db d \<Longrightarrow> wf_db (addAddresses addrs d)"
  by (simp add: addAddresses_ensure_all address_ids.ensure_all_inv)

lemma addAddresses_known:
  "wf_db d \<Longrightarrow> address_id a (addAddresses addrs d) \<noteq> None \<longleftrightarrow> a \<in> set addrs \<or> address_id a d \<noteq> None"
  unfolding addAddresses_ensure_all by (rule address_ids.ensure_all_knows)

lemma frame_add_address [frame]:
  "hd_accounts (add_address a d) = hd_accounts d" "hd_addresses (add_address a d) = hd_addresses d"
  "outputs (add_address a d) = outputs d" "inputs (add_address a d) = inputs d"
  "transactions (add_address a d) = transactions d" "blocks (add_address a d) = blocks d"
  "banned_addresses (add_address a d) = banned_addresses d"
  by (simp_all add: add_address_def)

lemma frame_addAddresses [frame]:
  "hd_accounts (addAddresses as d) = hd_accounts d" "hd_addresses (addAddresses as d) = hd_addresses d"
  "outputs (addAddresses as d) = outputs d" "inputs (addAddresses as d) = inputs d"
  "transactions (addAddresses as d) = transactions d" "blocks (addAddresses as d) = blocks d"
  "banned_addresses (addAddresses as d) = banned_addresses d"
  unfolding addAddresses_def by (induction as arbitrary: d) (simp_all add: frame)

lemma map_of_getAddressesIds:
  assumes "wf_db d"
  shows "map_of (getAddressesIds addrs d) a = (if a \<in> set addrs then address_id a d else None)"
proof -
  have "distinct (map a_addrAddress (filter P (rows (addresses d))))" for P
    using table_ok_distinct [OF wf_tables(1) [OF assms]] by auto
  then show ?thesis
    by (auto simp: getAddressesIds_def address_id_def map_of_fold_js_set find_by_filter_key
        split: option.splits)
qed

text \<open>
  C38. Asking for the ids of any addresses, in any order and with repetitions, gives every address
  asked for exactly one id, gives no two addresses the same id, never changes an id given before
  and keeps every constraint of the schema; the bulk insertion of the same addresses leads to the
  same database.
\<close>

theorem ensureAddressId_sound:
  fixes addrs :: "string list"
  assumes "wf_db d"
  defines "e \<equiv> fold (\<lambda>a d. snd (ensureAddressId a d)) addrs d"
  shows "wf_db e \<and> e = addAddresses addrs d
    \<and> (\<forall>a. address_id a e \<noteq> None \<longleftrightarrow> a \<in> set addrs \<or> address_id a d \<noteq> None)
    \<and> (\<forall>a i. address_id a d = Some i \<longrightarrow> address_id a e = Some i)
    \<and> (\<forall>a b i. address_id a e = Some i \<and> address_id b e = Some i \<longrightarrow> a = b)
    \<and> (\<forall>a\<in>set addrs. \<exists>i. address_id a e = Some i \<and> ensureAddressId a e = (i, e))"
proof -
  have e: "e = address_ids.ensure_all addrs d" by (simp add: e_def address_ids.ensure_all_def)
  have wf: "wf_db e" unfolding e by (rule address_ids.ensure_all_inv [OF assms(1)])
  have knows: "\<forall>a. address_id a e \<noteq> None \<longleftrightarrow> a \<in> set addrs \<or> address_id a d \<noteq> None"
    unfolding e using address_ids.ensure_all_knows [OF assms(1)] by blast
  moreover have "\<exists>i. address_id a e = Some i \<and> ensureAddressId a e = (i, e)" if "a \<in> set addrs" for a
    using knows that address_ids.ensure_known [OF wf] by (metis not_None_eq)
  moreover have "\<forall>a i. address_id a d = Some i \<longrightarrow> address_id a e = Some i"
    unfolding e using address_ids.ensure_all_keeps [OF assms(1)] by blast
  moreover have "\<forall>a b i. address_id a e = Some i \<and> address_id b e = Some i \<longrightarrow> a = b"
    using address_ids.lookup_inj [OF wf] by blast
  ultimately show ?thesis using wf e addAddresses_ensure_all by auto
qed

lemma ensureAddressId_sound_witness:
  "let e = fold (\<lambda>a d. snd (ensureAddressId a d)) [''b'', ''a'', ''b''] empty_db in
     address_id ''b'' e = Some 1 \<and> address_id ''a'' e = Some 2 \<and> wf_db e"
proof -
  let ?e = "fold (\<lambda>a d. snd (ensureAddressId a d)) [''b'', ''a'', ''b''] empty_db"
  have "wf_db ?e"
    using ensureAddressId_sound [OF wf_empty_db] by (rule conjunct1)
  moreover have "address_id ''b'' ?e = Some 1 \<and> address_id ''a'' ?e = Some 2"
    by (simp add: ensureAddressId_def address_id_def empty_db_def empty_table_def tbl_add_def
        new_address_def)
  ultimately show ?thesis unfolding Let_def by blast
qed

section \<open>HD accounts\<close>

definition hd_account :: "string \<Rightarrow> db \<Rightarrow> hd_row option" where
  "hd_account xpub d = find_by h_hdXpub xpub (rows (hd_accounts d))"

definition getHDAccount :: "string \<Rightarrow> db \<Rightarrow> hd_row result" where
  "getHDAccount xpub d =
     (case hd_account xpub d of Some r \<Rightarrow> Inr r | None \<Rightarrow> Inl (Err Db_NO_HD_ACCOUNT))"

definition getHDAccountId :: "string \<Rightarrow> db \<Rightarrow> nat result" where
  "getHDAccountId xpub d =
     (case hd_account xpub d of Some r \<Rightarrow> Inr (h_hdID r) | None \<Rightarrow> Inl (Err Db_NO_HD_ACCOUNT))"

definition new_hd :: "string \<Rightarrow> int \<Rightarrow> hd_type \<Rightarrow> nat \<Rightarrow> hd_row" where
  "new_hd xpub now type i = \<lparr>h_hdID = i, h_hdXpub = xpub, h_hdCreated = now, h_hdType = type\<rparr>"

definition ensureHDAccountId :: "int \<Rightarrow> string \<Rightarrow> hd_type \<Rightarrow> db \<Rightarrow> (nat \<times> db) result" where
  "ensureHDAccountId now xpub type d =
     (if ty_type (classify type) = None then Inl (Err Xpub_SEGWIT)
      else case hd_account xpub d of
        Some r \<Rightarrow> Inr (h_hdID r, d)
      | None \<Rightarrow> (let (i, t) = tbl_add (new_hd xpub now type) (hd_accounts d) in Inr (i, d\<lparr>hd_accounts := t\<rparr>)))"

definition set_hd_type :: "hd_type \<Rightarrow> string \<Rightarrow> db \<Rightarrow> db" where
  "set_hd_type type xpub d =
     d\<lparr>hd_accounts := tbl_update (\<lambda>r. h_hdXpub r = xpub) (\<lambda>r. r\<lparr>h_hdType := type\<rparr>) (hd_accounts d)\<rparr>"

definition setLockHDAccountType :: "string \<Rightarrow> bool \<Rightarrow> db \<Rightarrow> db result" where
  "setLockHDAccountType xpub locked d =
     bindE (getHDAccount xpub d) (\<lambda>account.
       if ty_locked (classify (h_hdType account)) = locked then Inr d
       else Inr (set_hd_type (makeType (h_hdType account) locked) xpub d))"

text \<open>
  \<open>DELETE\<close> of the addresses joined to the account, then of the account. An unknown account throws
  inside the \<open>try\<close>, and the \<open>catch\<close> only logs: the call returns in every case.
\<close>

definition hd_address_ids :: "string \<Rightarrow> db \<Rightarrow> nat list" where
  "hd_address_ids xpub d =
     [ha_addrID l. l \<leftarrow> rows (hd_addresses d), h \<leftarrow> rows (hd_accounts d),
        ha_hdID l = h_hdID h \<and> h_hdXpub h = xpub]"

definition deleteHDAccount :: "string \<Rightarrow> db \<Rightarrow> db" where
  "deleteHDAccount xpub d =
     (case getHDAccountId xpub d of
        Inl e \<Rightarrow> d
      | Inr _ \<Rightarrow>
          (let d = cascade (d\<lparr>addresses :=
                     tbl_delete (\<lambda>r. a_addrID r \<in> set (hd_address_ids xpub d)) (addresses d)\<rparr>)
           in cascade (d\<lparr>hd_accounts := tbl_delete (\<lambda>r. h_hdXpub r = xpub) (hd_accounts d)\<rparr>)))"

definition new_link :: "nat \<Rightarrow> nat \<Rightarrow> int \<Rightarrow> int \<Rightarrow> nat \<Rightarrow> hd_address_row" where
  "new_link hdID addrID chain index i =
     \<lparr>ha_hdAddrID = i, ha_hdID = hdID, ha_addrID = addrID, ha_hdAddrChain = chain,
      ha_hdAddrIndex = index\<rparr>"

abbreviation link_key :: "hd_address_row \<Rightarrow> nat \<times> nat" where
  "link_key r \<equiv> (ha_hdID r, ha_addrID r)"

text \<open>A single link is a plain \<open>INSERT\<close>: a duplicate throws.\<close>

definition addAddressToHDAccount :: "string \<Rightarrow> string \<Rightarrow> int \<Rightarrow> int \<Rightarrow> db \<Rightarrow> nat result \<times> db" where
  "addAddressToHDAccount address xpub chain index d =
     (let (addrID, d) = ensureAddressId address d
      in case getHDAccountId xpub d of
           Inl e \<Rightarrow> (Inl e, d)
         | Inr hdID \<Rightarrow>
             (case tbl_insert link_key (hdID, addrID) (new_link hdID addrID chain index) (hd_addresses d) of
                (None, t) \<Rightarrow> (Inl Sql, d)
              | (Some i, t) \<Rightarrow> (Inr i, d\<lparr>hd_addresses := t\<rparr>)))"

text \<open>
  \<open>INSERT IGNORE\<close> of one link. A row with an unknown address or account is ignored too (its id
  would be \<open>undefined\<close>, a foreign key error that \<open>IGNORE\<close> turns into a warning).
\<close>

definition add_link :: "nat \<Rightarrow> (string \<Rightarrow> nat option) \<Rightarrow> derived \<Rightarrow> db \<Rightarrow> db" where
  "add_link hdID addrIdMap entry d =
     (case addrIdMap (d_address entry) of
        None \<Rightarrow> d
      | Some addrID \<Rightarrow>
          d\<lparr>hd_addresses := snd (tbl_insert link_key (hdID, addrID)
               (new_link hdID addrID (d_chain entry) (d_index entry)) (hd_addresses d))\<rparr>)"

definition addAddressesToHDAccount :: "string \<Rightarrow> derived list \<Rightarrow> db \<Rightarrow> db result" where
  "addAddressesToHDAccount xpub addressData d =
     (if addressData = [] then Inr d
      else let addrs = map d_address addressData
           in bindE (getHDAccountId xpub d) (\<lambda>hdID.
                let d = addAddresses addrs d;
                    addrIdMap = map_of (getAddressesIds addrs d)
                in Inr (fold (add_link hdID addrIdMap) addressData d)))"

lemma hd_accounts_add: "wf_db d \<Longrightarrow> hd_account xpub d = None \<Longrightarrow>
  wf_db (d\<lparr>hd_accounts := snd (tbl_add (new_hd xpub now type) (hd_accounts d))\<rparr>)"
  by (intro wf_replace_hd_accounts table_ok_add)
    (auto simp: wf_tables new_hd_def hd_account_def find_by_None_iff has_id_add)

lemma ensureHDAccountId_cases:
  assumes "ensureHDAccountId now xpub type d = Inr (i, e)"
  obtains (known) r where "hd_account xpub d = Some r" "e = d" "i = h_hdID r"
  | (created) "hd_account xpub d = None" "i = next_id (hd_accounts d)"
      "e = d\<lparr>hd_accounts := snd (tbl_add (new_hd xpub now type) (hd_accounts d))\<rparr>"
  using assms
  by (auto simp: ensureHDAccountId_def tbl_add_def split: if_splits option.splits)

lemma wf_ensureHDAccountId [wf_intros]:
  "\<lbrakk>ensureHDAccountId now xpub type d = Inr (i, e); wf_db d\<rbrakk> \<Longrightarrow> wf_db e"
  by (erule ensureHDAccountId_cases) (simp_all add: hd_accounts_add)

lemma hd_account_created:
  "hd_account x (d\<lparr>hd_accounts := snd (tbl_add (new_hd xpub now type) (hd_accounts d))\<rparr>) =
     (if hd_account x d = None \<and> x = xpub then Some (new_hd xpub now type (next_id (hd_accounts d)))
      else hd_account x d)"
  by (auto simp: hd_account_def find_by_append new_hd_def split: option.splits)

definition hd_id :: "string \<Rightarrow> db \<Rightarrow> nat option" where
  "hd_id xpub d = map_option h_hdID (hd_account xpub d)"

text \<open>With a type the code accepts, accounts are numbered like addresses.\<close>

definition ensure_hd :: "int \<Rightarrow> hd_type \<Rightarrow> string \<Rightarrow> db \<Rightarrow> nat \<times> db" where
  "ensure_hd now type xpub d =
     (case ensureHDAccountId now xpub type d of Inr p \<Rightarrow> p | Inl _ \<Rightarrow> (0, d))"

lemma ensure_hd_cases:
  assumes "ty_type (classify type) \<noteq> None"
  shows "ensureHDAccountId now xpub type d = Inr (ensure_hd now type xpub d)"
  using assms by (auto simp: ensure_hd_def ensureHDAccountId_def split: option.splits prod.splits)

interpretation hd_ids: id_store wf_db hd_id "ensure_hd now BIP84" for now
proof unfold_locales
  fix d :: db and k k' :: string and i :: nat
  assume wf: "wf_db d"
  have ok: "ensureHDAccountId now k BIP84 d = Inr (fst (ensure_hd now BIP84 k d), snd (ensure_hd now BIP84 k d))"
    using ensure_hd_cases [of BIP84] by (simp add: classify_def hd_types)
  show "wf_db (snd (ensure_hd now BIP84 k d))"
    using wf_ensureHDAccountId [OF ok wf] .
  show "ensure_hd now BIP84 k d = (i, d)" if "hd_id k d = Some i"
    using ok that by (cases rule: ensureHDAccountId_cases) (auto simp: hd_id_def prod_eq_iff)
  show "hd_id k (snd (ensure_hd now BIP84 k d)) = Some (fst (ensure_hd now BIP84 k d))"
    using ok by (cases rule: ensureHDAccountId_cases) (simp_all add: hd_id_def hd_account_created new_hd_def)
  show "hd_id k' (snd (ensure_hd now BIP84 k d)) = hd_id k' d" if "k' \<noteq> k"
    using ok that by (cases rule: ensureHDAccountId_cases) (simp_all add: hd_id_def hd_account_created)
  show "k = k'" if "hd_id k d = Some i" "hd_id k' d = Some i"
    using that table_pk_inj [OF wf_tables(3) [OF wf]]
    by (auto simp: hd_id_def hd_account_def dest: find_by_SomeD)
qed

lemma wf_setLockHDAccountType [wf_intros]:
  "\<lbrakk>setLockHDAccountType xpub locked d = Inr e; wf_db d\<rbrakk> \<Longrightarrow> wf_db e"
  by (auto simp: setLockHDAccountType_def bindE_Inr_iff set_hd_type_def wf_tables split: if_splits
      intro!: wf_replace_hd_accounts)

lemma keys_ok_update:
  "keys_ok d \<Longrightarrow> keys_ok (d\<lparr>addresses := tbl_delete P (addresses d)\<rparr>)"
  "keys_ok d \<Longrightarrow> keys_ok (d\<lparr>hd_accounts := tbl_delete Q (hd_accounts d)\<rparr>)"
  "keys_ok d \<Longrightarrow> keys_ok (d\<lparr>transactions := tbl_delete R (transactions d)\<rparr>)"
  "keys_ok d \<Longrightarrow> keys_ok (d\<lparr>blocks := tbl_delete S (blocks d)\<rparr>)"
  "keys_ok d \<Longrightarrow> keys_ok (d\<lparr>scheduled := tbl_delete U (scheduled d)\<rparr>)"
  by (simp_all add: keys_ok_def table_ok_delete)

lemma wf_deleteHDAccount [wf_intros]: "wf_db d \<Longrightarrow> wf_db (deleteHDAccount xpub d)"
  by (auto simp: deleteHDAccount_def Let_def wf_db_def split: sum.splits
      intro!: wf_cascade [unfolded wf_db_def] keys_ok_update keys_ok_cascade)

section \<open>Addresses of an account\<close>

lemma add_link_known:
  assumes "m (d_address entry) = Some i" and "(hdID, i) \<in> link_key ` set (rows (hd_addresses d))"
  shows "add_link hdID m entry d = d"
proof -
  obtain r where "find_by link_key (hdID, i) (rows (hd_addresses d)) = Some r"
    using assms(2) find_by_None_iff by (metis not_None_eq)
  then show ?thesis using assms(1) by (simp add: add_link_def tbl_insert_Some)
qed

lemma add_link_rows:
  "set (rows (hd_addresses (add_link hdID m entry d))) = set (rows (hd_addresses d)) \<union>
     (case m (d_address entry) of None \<Rightarrow> {} | Some i \<Rightarrow>
        if (hdID, i) \<in> link_key ` set (rows (hd_addresses d)) then {}
        else {new_link hdID i (d_chain entry) (d_index entry) (next_id (hd_addresses d))})"
  by (auto simp: add_link_def rows_insert find_by_None_iff split: option.splits)

lemma add_link_keys:
  "link_key ` set (rows (hd_addresses (add_link hdID m entry d))) =
     link_key ` set (rows (hd_addresses d)) \<union> {(hdID, i) |i. m (d_address entry) = Some i}"
  by (auto simp: add_link_rows new_link_def split: option.splits)

lemma frame_add_link [frame]:
  "hd_accounts (add_link h m x d) = hd_accounts d" "addresses (add_link h m x d) = addresses d"
  "outputs (add_link h m x d) = outputs d" "inputs (add_link h m x d) = inputs d"
  "transactions (add_link h m x d) = transactions d" "blocks (add_link h m x d) = blocks d"
  by (simp_all add: add_link_def split: option.splits)

lemma wf_add_link:
  assumes "wf_db d" and "has_id h_hdID hdID (hd_accounts d)"
    and "\<And>i. m (d_address entry) = Some i \<Longrightarrow> has_id a_addrID i (addresses d)"
  shows "wf_db (add_link hdID m entry d)"
proof (cases "m (d_address entry)")
  case (Some i)
  have "wf_db (d\<lparr>hd_addresses := snd (tbl_insert link_key (hdID, i)
      (new_link hdID i (d_chain entry) (d_index entry)) (hd_addresses d))\<rparr>)"
    using assms Some
    by (intro wf_replace_hd_addresses)
      (auto simp: wf_tables new_link_def rows_insert wf_refs hd_address_refs_def
        dest: wf_refs(1) [OF assms(1)] split: if_splits)
  then show ?thesis by (simp add: add_link_def Some)
qed (simp add: add_link_def assms)

lemma add_links:
  fixes entries :: "derived list"
  assumes "wf_db d" and "has_id h_hdID hdID (hd_accounts d)"
    and "\<forall>a i. m a = Some i \<longrightarrow> has_id a_addrID i (addresses d)"
  defines "e \<equiv> fold (add_link hdID m) entries d"
  shows "wf_db e" and "addresses e = addresses d" "hd_accounts e = hd_accounts d"
    and "outputs e = outputs d" "inputs e = inputs d" "transactions e = transactions d" "blocks e = blocks d"
    and "set (rows (hd_addresses d)) \<subseteq> set (rows (hd_addresses e))"
    and "link_key ` set (rows (hd_addresses e)) = link_key ` set (rows (hd_addresses d))
      \<union> {(hdID, i) |i entry. entry \<in> set entries \<and> m (d_address entry) = Some i}"
    and "\<And>l. \<lbrakk>l \<in> set (rows (hd_addresses e)); l \<notin> set (rows (hd_addresses d))\<rbrakk> \<Longrightarrow>
      ha_hdID l = hdID \<and> (\<exists>entry\<in>set entries. m (d_address entry) = Some (ha_addrID l)
        \<and> ha_hdAddrChain l = d_chain entry \<and> ha_hdAddrIndex l = d_index entry)"
proof -
  show "wf_db e" "addresses e = addresses d" "hd_accounts e = hd_accounts d"
    "outputs e = outputs d" "inputs e = inputs d" "transactions e = transactions d" "blocks e = blocks d"
    unfolding e_def using assms(1-3)
    by (induction entries arbitrary: d) (auto simp: frame wf_add_link)
  show "set (rows (hd_addresses d)) \<subseteq> set (rows (hd_addresses e))"
    unfolding e_def
  proof (induction entries arbitrary: d)
    case (Cons x xs)
    have "set (rows (hd_addresses d)) \<subseteq> set (rows (hd_addresses (add_link hdID m x d)))"
      by (simp add: add_link_rows)
    also have "\<dots> \<subseteq> set (rows (hd_addresses (fold (add_link hdID m) xs (add_link hdID m x d))))"
      by (rule Cons)
    finally show ?case by simp
  qed simp
  show "link_key ` set (rows (hd_addresses e)) = link_key ` set (rows (hd_addresses d))
      \<union> {(hdID, i) |i entry. entry \<in> set entries \<and> m (d_address entry) = Some i}"
    unfolding e_def by (induction entries arbitrary: d) (auto simp: add_link_keys)
  show "ha_hdID l = hdID \<and> (\<exists>entry\<in>set entries. m (d_address entry) = Some (ha_addrID l)
        \<and> ha_hdAddrChain l = d_chain entry \<and> ha_hdAddrIndex l = d_index entry)"
    if "l \<in> set (rows (hd_addresses e))" "l \<notin> set (rows (hd_addresses d))" for l
    using that unfolding e_def
  proof (induction entries arbitrary: d)
    case (Cons x xs)
    show ?case
    proof (cases "l \<in> set (rows (hd_addresses (add_link hdID m x d)))")
      case True
      then show ?thesis using Cons.prems(2)
        by (auto simp: add_link_rows new_link_def split: option.splits if_splits)
    next
      case False
      then show ?thesis using Cons.IH [of "add_link hdID m x d"] Cons.prems(1) by auto
    qed
  qed simp
qed

lemma fold_add_link_known:
  assumes "\<And>entry. entry \<in> set entries \<Longrightarrow>
    \<exists>i. m (d_address entry) = Some i \<and> (hdID, i) \<in> link_key ` set (rows (hd_addresses d))"
  shows "fold (add_link hdID m) entries d = d"
  using assms
proof (induction entries)
  case (Cons x xs)
  then obtain i where "m (d_address x) = Some i" "(hdID, i) \<in> link_key ` set (rows (hd_addresses d))"
    by (meson list.set_intros(1))
  then have "add_link hdID m x d = d" by (rule add_link_known)
  then show ?case using Cons by simp
qed simp

text \<open>An address of an account: it is stored, and linked to the account.\<close>

definition owns_address :: "db \<Rightarrow> nat \<Rightarrow> string \<Rightarrow> bool" where
  "owns_address d hdID a \<longleftrightarrow>
     (case address_id a d of None \<Rightarrow> False | Some i \<Rightarrow> (hdID, i) \<in> link_key ` set (rows (hd_addresses d)))"

text \<open>What adding addresses to a known account does.\<close>

lemma addAddressesToHDAccount_account:
  assumes "wf_db d" and "hd_account xpub d = Some h"
  shows "\<exists>e. addAddressesToHDAccount xpub entries d = Inr e \<and> wf_db e \<and> addAddressesToHDAccount xpub entries e = Inr e
    \<and> hd_accounts e = hd_accounts d \<and> outputs e = outputs d \<and> inputs e = inputs d
    \<and> transactions e = transactions d \<and> blocks e = blocks d \<and> banned_addresses e = banned_addresses d
    \<and> set (rows (hd_addresses d)) \<subseteq> set (rows (hd_addresses e))
    \<and> (\<forall>entry\<in>set entries. owns_address e (h_hdID h) (d_address entry))
    \<and> (\<forall>l\<in>set (rows (hd_addresses e)) - set (rows (hd_addresses d)). ha_hdID l = h_hdID h
         \<and> (\<exists>entry\<in>set entries. address_id (d_address entry) e = Some (ha_addrID l)
               \<and> ha_hdAddrChain l = d_chain entry \<and> ha_hdAddrIndex l = d_index entry))
    \<and> (\<forall>a. address_id a e = address_id a (addAddresses (map d_address entries) d))"
proof (cases "entries = []")
  case True
  then show ?thesis using assms by (simp add: addAddressesToHDAccount_def addAddresses_def)
next
  case False
  let ?as = "map d_address entries"
  define d1 where "d1 = addAddresses ?as d"
  define m where "m = map_of (getAddressesIds ?as d1)"
  define e where "e = fold (add_link (h_hdID h) m) entries d1"
  have res: "addAddressesToHDAccount xpub entries d = Inr e"
    using False assms(2) by (simp add: addAddressesToHDAccount_def getHDAccountId_def Let_def d1_def m_def e_def)
  have wf1: "wf_db d1" using assms(1) by (simp add: d1_def wf_intros)
  have same: "hd_accounts d1 = hd_accounts d" "hd_addresses d1 = hd_addresses d"
    "outputs d1 = outputs d" "inputs d1 = inputs d" "transactions d1 = transactions d"
    "blocks d1 = blocks d" "banned_addresses d1 = banned_addresses d"
    by (simp_all add: d1_def frame)
  have m: "m a = (if a \<in> set ?as then address_id a d1 else None)" for a
    using map_of_getAddressesIds [OF wf1] by (simp add: m_def)
  have m_has: "\<forall>a i. m a = Some i \<longrightarrow> has_id a_addrID i (addresses d1)"
    by (auto simp: m address_id_def has_id_iff split: if_splits dest: find_by_SomeD)
  have hd: "has_id h_hdID (h_hdID h) (hd_accounts d1)"
    using assms(2) by (auto simp: same hd_account_def has_id_iff dest: find_by_SomeD)
  note links = add_links [where m = m and entries = entries, OF wf1 hd m_has, folded e_def]
  have ids: "address_id a e = address_id a d1" for a
    using links(2) by (simp add: address_id_def)
  have known: "\<exists>i. m (d_address entry) = Some i \<and> (h_hdID h, i) \<in> link_key ` set (rows (hd_addresses e))"
    if "entry \<in> set entries" for entry
  proof -
    have "d_address entry \<in> set ?as" using that by simp
    then have "m (d_address entry) \<noteq> None"
      using addAddresses_known [OF assms(1), of "d_address entry" ?as] by (simp only: m d1_def) simp
    then obtain i where "m (d_address entry) = Some i" by blast
    then show ?thesis using that links(9) by auto
  qed
  have "address_id a e \<noteq> None" if "a \<in> set ?as" for a
    using that addAddresses_known [OF assms(1), of a ?as] by (simp add: ids d1_def)
  then have "addAddresses ?as e = e"
    unfolding addAddresses_ensure_all using address_ids.ensure_all_again [OF links(1)] by blast
  moreover have "map_of (getAddressesIds ?as e) = m"
    using map_of_getAddressesIds [OF links(1)] by (simp add: fun_eq_iff m ids)
  moreover have "fold (add_link (h_hdID h) m) entries e = e"
    by (rule fold_add_link_known) (rule known)
  moreover have "hd_account xpub e = Some h" using assms(2) links(3) same by (simp add: hd_account_def)
  ultimately have "addAddressesToHDAccount xpub entries e = Inr e"
    using False by (simp add: addAddressesToHDAccount_def getHDAccountId_def Let_def)
  moreover have "owns_address e (h_hdID h) (d_address entry)" if "entry \<in> set entries" for entry
    using known [OF that] by (auto simp: owns_address_def ids m split: if_splits)
  moreover have "ha_hdID l = h_hdID h \<and> (\<exists>entry\<in>set entries. address_id (d_address entry) e = Some (ha_addrID l)
             \<and> ha_hdAddrChain l = d_chain entry \<and> ha_hdAddrIndex l = d_index entry)"
    if "l \<in> set (rows (hd_addresses e)) - set (rows (hd_addresses d))" for l
    using links(10) [of l] that by (auto simp: ids m same split: if_splits)
  moreover have "banned_addresses e = banned_addresses d"
    unfolding e_def same(7) [symmetric] by (rule fold_inv) (simp_all add: add_link_def split: option.splits)
  ultimately show ?thesis using res links(1,3-8) same ids by (simp add: d1_def)
qed

text \<open>
  C40. Adding derived addresses to a known account succeeds, afterwards the account owns every one
  of them, the links it had are kept as they were, each new link carries the chain and the index
  of one of the given addresses, no other table but the addresses changes, and adding them again
  changes nothing; an unknown account is an error and the database is as before.
\<close>

theorem addAddressesToHDAccount_spec:
  assumes "wf_db d"
  shows "case addAddressesToHDAccount xpub entries d of
      Inl err \<Rightarrow> err = Err Db_NO_HD_ACCOUNT \<and> hd_account xpub d = None \<and> entries \<noteq> []
    | Inr e \<Rightarrow> wf_db e \<and> addAddressesToHDAccount xpub entries e = Inr e
        \<and> hd_accounts e = hd_accounts d \<and> outputs e = outputs d \<and> inputs e = inputs d
        \<and> transactions e = transactions d \<and> blocks e = blocks d
        \<and> set (rows (hd_addresses d)) \<subseteq> set (rows (hd_addresses e))
        \<and> (\<forall>entry\<in>set entries. \<exists>h. hd_account xpub d = Some h \<and> owns_address e (h_hdID h) (d_address entry))
        \<and> (\<forall>l\<in>set (rows (hd_addresses e)) - set (rows (hd_addresses d)).
             \<exists>entry\<in>set entries. address_id (d_address entry) e = Some (ha_addrID l)
               \<and> ha_hdAddrChain l = d_chain entry \<and> ha_hdAddrIndex l = d_index entry)"
proof (cases "hd_account xpub d")
  case None
  then show ?thesis
    using assms by (cases "entries = []") (simp_all add: addAddressesToHDAccount_def getHDAccountId_def)
next
  case (Some h)
  then show ?thesis using addAddressesToHDAccount_account [OF assms Some, of entries] by auto
qed

lemma wf_addAddressesToHDAccount [wf_intros]:
  "\<lbrakk>addAddressesToHDAccount xpub entries d = Inr e; wf_db d\<rbrakk> \<Longrightarrow> wf_db e"
proof -
  assume res: "addAddressesToHDAccount xpub entries d = Inr e" and wf: "wf_db d"
  show "wf_db e"
  proof (cases "entries = []")
    case False
    then obtain h where h: "hd_account xpub d = Some h"
      and e: "e = fold (add_link (h_hdID h) (map_of (getAddressesIds (map d_address entries)
          (addAddresses (map d_address entries) d)))) entries (addAddresses (map d_address entries) d)"
      using res by (auto simp: addAddressesToHDAccount_def getHDAccountId_def Let_def split: option.splits)
    have wf1: "wf_db (addAddresses (map d_address entries) d)" using wf by (rule wf_addAddresses)
    show ?thesis unfolding e
      by (rule add_links(1) [OF wf1])
        (use h in \<open>auto simp: frame map_of_getAddressesIds [OF wf1] address_id_def hd_account_def has_id_iff
          split: if_splits dest: find_by_SomeD\<close>)
  qed (use res wf in \<open>simp add: addAddressesToHDAccount_def\<close>)
qed

text \<open>A small database: one account with two of its addresses.\<close>

definition demo_entries :: "derived list" where
  "demo_entries = [\<lparr>d_chain = 0, d_index = 0, d_address = ''a0''\<rparr>, \<lparr>d_chain = 1, d_index = 4, d_address = ''c4''\<rparr>]"

definition demo_hd_db :: db where
  "demo_hd_db = snd (ensure_hd 1000 BIP84 ''xp'' empty_db)"

lemma wf_demo_hd_db: "wf_db demo_hd_db"
  unfolding demo_hd_db_def by (rule hd_ids.ensure_inv [OF wf_empty_db])

lemmas db_eval = ensure_hd_def ensureHDAccountId_def classify_def hd_types hd_account_def tbl_add_def
  empty_db_def empty_table_def new_hd_def getHDAccountId_def addAddresses_def add_address_def
  tbl_insert_def new_address_def getAddressesIds_def add_link_def new_link_def addAddressesToHDAccount_def
  owns_address_def address_id_def Let_def

lemma addAddressesToHDAccount_spec_witness:
  "\<exists>e. addAddressesToHDAccount ''xp'' demo_entries demo_hd_db = Inr e \<and> wf_db e
     \<and> owns_address e 1 ''a0'' \<and> owns_address e 1 ''c4''
     \<and> addAddressesToHDAccount ''xp'' demo_entries e = Inr e"
proof -
  have h: "hd_account ''xp'' demo_hd_db = Some (new_hd ''xp'' 1000 BIP84 1)"
    by (simp add: demo_hd_db_def db_eval)
  then have "\<exists>e. addAddressesToHDAccount ''xp'' demo_entries demo_hd_db = Inr e"
    by (simp add: addAddressesToHDAccount_def demo_entries_def getHDAccountId_def Let_def)
  then obtain e where e: "addAddressesToHDAccount ''xp'' demo_entries demo_hd_db = Inr e" by blast
  then show ?thesis
    using addAddressesToHDAccount_spec [OF wf_demo_hd_db, of "''xp''" demo_entries] h
    by (intro exI [of _ e]) (simp add: demo_entries_def new_hd_def)
qed

section \<open>Deletion of an account\<close>

text \<open>
  C5. Deleting an account removes the account, exactly the addresses linked to it with the outputs they
  received and all their links, and exactly the inputs that spend an output that goes. An address that another
  account owns too goes with the rest, so that account loses it. Every other account, address, output and input
  stays, and so do all rows of \<open>transactions\<close>, although the documentation of the endpoint
  says that the transactions of the account are removed. Deleting an unknown account changes nothing.
\<close>

theorem deleteHDAccount_spec:
  fixes xpub :: string
  assumes "wf_db d"
  defines "gone \<equiv> set (hd_address_ids xpub d)"
  defines "e \<equiv> deleteHDAccount xpub d"
  shows "wf_db e \<and> hd_account xpub e = None \<and> (\<forall>x. x \<noteq> xpub \<longrightarrow> hd_account x e = hd_account x d)
    \<and> rows (addresses e) = filter (\<lambda>a. a_addrID a \<notin> gone) (rows (addresses d))
    \<and> rows (hd_addresses e) = filter (\<lambda>l. ha_addrID l \<notin> gone) (rows (hd_addresses d))
    \<and> rows (outputs e) = filter (\<lambda>o'. o_addrID o' \<notin> gone) (rows (outputs d))
    \<and> rows (inputs e) = filter (\<lambda>i. \<exists>o'\<in>set (rows (outputs e)). o_outID o' = i_outID i) (rows (inputs d))
    \<and> transactions e = transactions d \<and> blocks e = blocks d \<and> scheduled e = scheduled d
    \<and> (hd_account xpub d = None \<longrightarrow> e = d)"
proof (cases "hd_account xpub d")
  case None
  then have ids: "gone = {}"
    by (auto simp: gone_def hd_address_ids_def hd_account_def find_by_None_iff split: if_splits)
  have "filter (\<lambda>i. \<exists>o'\<in>set (rows (outputs d)). o_outID o' = i_outID i) (rows (inputs d)) = rows (inputs d)"
    using wf_refs(3) [OF assms(1)] by (fastforce simp: filter_id_conv input_refs_def has_id_iff)
  then show ?thesis
    using None assms(1) ids by (simp add: e_def deleteHDAccount_def getHDAccountId_def)
next
  case (Some h)
  define d1 where "d1 = d\<lparr>addresses := tbl_delete (\<lambda>r. a_addrID r \<in> gone) (addresses d)\<rparr>"
  define d2 where "d2 = cascade d1"
  define d3 where "d3 = d2\<lparr>hd_accounts := tbl_delete (\<lambda>r. h_hdXpub r = xpub) (hd_accounts d2)\<rparr>"
  have e: "e = cascade d3"
    using Some by (simp add: e_def deleteHDAccount_def getHDAccountId_def Let_def d1_def d2_def d3_def gone_def)
  have has1: "has_id a_addrID i (addresses d1) \<longleftrightarrow> has_id a_addrID i (addresses d) \<and> i \<notin> gone" for i
    by (auto simp: d1_def has_id_iff)
  have tables1: "hd_accounts d1 = hd_accounts d" "hd_addresses d1 = hd_addresses d"
    "outputs d1 = outputs d" "transactions d1 = transactions d"
    by (simp_all add: d1_def)
  have links2: "rows (hd_addresses d2) = filter (\<lambda>l. ha_addrID l \<notin> gone) (rows (hd_addresses d))"
    using wf_refs(1) [OF assms(1)]
    by (auto simp: d2_def cascade_def Let_def hd_address_refs_def has1 tables1 intro!: filter_cong)
  have outs2: "rows (outputs d2) = filter (\<lambda>o'. o_addrID o' \<notin> gone) (rows (outputs d))"
    using wf_refs(2) [OF assms(1)] has1
    by (auto simp: d2_def cascade_def Let_def output_refs_def tables1 intro!: filter_cong)
  have ins2: "rows (inputs d2) = filter (\<lambda>i. \<exists>o'\<in>set (rows (outputs d2)). o_outID o' = i_outID i) (rows (inputs d))"
    using wf_refs(3) [OF assms(1)]
    by (auto simp: d2_def cascade_def Let_def input_refs_def d1_def has_id_iff rev_image_eqI intro!: filter_cong)
  have same2: "transactions d2 = transactions d" "blocks d2 = blocks d" "scheduled d2 = scheduled d"
    using wf_refs(4-6) [OF assms(1)]
    by (simp_all add: d2_def cascade_def Let_def d1_def tbl_update_def map_idI)
  have other2: "hd_accounts d2 = hd_accounts d" "addresses d2 = addresses d1"
    by (simp_all add: d2_def cascade_def Let_def d1_def)
  have wf2: "wf_db d2"
    using assms(1) unfolding d2_def d1_def by (intro wf_cascade keys_ok_update) (simp add: wf_db_def)
  have owned: "ha_addrID l \<in> gone" if "l \<in> set (rows (hd_addresses d))" "ha_hdID l = h_hdID k"
    "k \<in> set (rows (hd_accounts d))" "h_hdXpub k = xpub" for l k
    using that by (force simp: gone_def hd_address_ids_def)
  have "wf_db d3"
    using wf2 unfolding d3_def
    by (auto simp: wf_defs other2 table_ok_delete has_id_iff links2 dest!: bspec dest: owned)
  then have e3: "e = d3" by (simp add: e cascade_id)
  have "hd_account x e = (if x = xpub then None else hd_account x d)" for x
  proof -
    have "find_by h_hdXpub x (filter (\<lambda>r. h_hdXpub r \<noteq> xpub) rs)
        = (if x = xpub then None else find_by h_hdXpub x rs)" for rs
      by (induction rs) auto
    then show ?thesis by (cases "x = xpub") (simp_all add: hd_account_def e3 d3_def other2 find_by_None_iff)
  qed
  then show ?thesis
    using \<open>wf_db d3\<close> Some links2 outs2 ins2 same2 other2 by (simp add: e3 d3_def d1_def)
qed

lemma deleteHDAccount_spec_witness:
  "\<exists>d. addAddressesToHDAccount ''xp'' demo_entries demo_hd_db = Inr d
     \<and> length (rows (addresses d)) = 2 \<and> rows (addresses (deleteHDAccount ''xp'' d)) = []
     \<and> hd_account ''xp'' (deleteHDAccount ''xp'' d) = None"
proof -
  obtain d where d: "addAddressesToHDAccount ''xp'' demo_entries demo_hd_db = Inr d"
    by (simp add: demo_entries_def demo_hd_db_def db_eval)
  then have "wf_db d" using wf_demo_hd_db wf_addAddressesToHDAccount by blast
  note spec = deleteHDAccount_spec [OF this, of "''xp''"]
  have "length (rows (addresses d)) = 2" and "filter (\<lambda>a. a_addrID a \<notin> set (hd_address_ids ''xp'' d)) (rows (addresses d)) = []"
    using d by (auto simp: demo_entries_def demo_hd_db_def db_eval hd_address_ids_def)
  then show ?thesis using d spec by (intro exI [of _ d]) simp
qed

section \<open>Owners of addresses\<close>

text \<open>A row of the left join of \<open>addresses\<close> with its links and their accounts.\<close>

record ownership =
  ow_addrID :: nat
  ow_addrAddress :: string
  ow_account :: "(hd_row \<times> int \<times> int) option"

definition ownership_rows :: "db \<Rightarrow> address_row \<Rightarrow> ownership list" where
  "ownership_rows d a =
     (let links = filter (\<lambda>l. ha_addrID l = a_addrID a) (rows (hd_addresses d));
          row = (\<lambda>acc. \<lparr>ow_addrID = a_addrID a, ow_addrAddress = a_addrAddress a, ow_account = acc\<rparr>)
      in if links = [] then [row None]
         else map (\<lambda>l. row (map_option (\<lambda>h. (h, ha_hdAddrChain l, ha_hdAddrIndex l))
                              (find_by h_hdID (ha_hdID l) (rows (hd_accounts d))))) links)"

definition getUngroupedHDAccountsByAddresses :: "string list \<Rightarrow> db \<Rightarrow> ownership list" where
  "getUngroupedHDAccountsByAddresses addrs d =
     (if addrs = [] then []
      else concat (map (ownership_rows d)
             (filter (\<lambda>r. a_addrAddress r \<in> set addrs \<and> a_addrAddress r \<notin> set (banned_addresses d))
               (rows (addresses d)))))"

record owned_address =
  oa_addrID :: nat
  oa_addrAddress :: string
  oa_hdAddrChain :: int
  oa_hdAddrIndex :: int

record hd_group =
  g_hdID :: nat
  g_hdType :: hd_type
  g_addresses :: "owned_address list"

record hd_accounts_by_addresses =
  by_hd :: "(string \<times> hd_group) list"
  by_loose :: "(nat \<times> string) list"

definition group_row :: "ownership \<Rightarrow> hd_accounts_by_addresses \<Rightarrow> hd_accounts_by_addresses" where
  "group_row r res =
     (case ow_account r of
        None \<Rightarrow> res\<lparr>by_loose := by_loose res @ [(ow_addrID r, ow_addrAddress r)]\<rparr>
      | Some (h, chain, index) \<Rightarrow>
          (let group = (case map_of (by_hd res) (h_hdXpub h) of
                          None \<Rightarrow> \<lparr>g_hdID = h_hdID h, g_hdType = h_hdType h, g_addresses = []\<rparr>
                        | Some g \<Rightarrow> g);
               group = group\<lparr>g_addresses := g_addresses group @
                 [\<lparr>oa_addrID = ow_addrID r, oa_addrAddress = ow_addrAddress r,
                   oa_hdAddrChain = chain, oa_hdAddrIndex = index\<rparr>]\<rparr>
           in res\<lparr>by_hd := js_set (h_hdXpub h) group (by_hd res)\<rparr>))"

definition getHDAccountsByAddresses :: "string list \<Rightarrow> db \<Rightarrow> hd_accounts_by_addresses" where
  "getHDAccountsByAddresses addrs d =
     fold group_row (getUngroupedHDAccountsByAddresses addrs d) \<lparr>by_hd = [], by_loose = []\<rparr>"

definition owned_of :: "string \<Rightarrow> ownership \<Rightarrow> owned_address list" where
  "owned_of x r =
     (case ow_account r of
        None \<Rightarrow> []
      | Some (h, chain, index) \<Rightarrow>
          if h_hdXpub h = x
          then [\<lparr>oa_addrID = ow_addrID r, oa_addrAddress = ow_addrAddress r,
                 oa_hdAddrChain = chain, oa_hdAddrIndex = index\<rparr>]
          else [])"

definition group_addresses :: "string \<Rightarrow> hd_accounts_by_addresses \<Rightarrow> owned_address list" where
  "group_addresses x res = (case map_of (by_hd res) x of None \<Rightarrow> [] | Some g \<Rightarrow> g_addresses g)"

lemma group_row_addresses:
  "group_addresses x (group_row r res) = group_addresses x res @ owned_of x r"
  by (auto simp: group_addresses_def group_row_def owned_of_def Let_def split: option.splits)

lemma group_fold_addresses:
  "group_addresses x (fold group_row rs res) = group_addresses x res @ concat (map (owned_of x) rs)"
  by (induction rs arbitrary: res) (simp_all add: group_row_addresses)

lemma group_fold_loose:
  "by_loose (fold group_row rs res) =
     by_loose res @ map (\<lambda>r. (ow_addrID r, ow_addrAddress r)) (filter (\<lambda>r. ow_account r = None) rs)"
  by (induction rs arbitrary: res) (auto simp: group_row_def Let_def split: option.splits)

text \<open>Each group carries the id and the type of an account of its key, and is not empty.\<close>

definition groups_ok :: "ownership list \<Rightarrow> hd_accounts_by_addresses \<Rightarrow> bool" where
  "groups_ok rs res \<longleftrightarrow> (\<forall>x g. map_of (by_hd res) x = Some g \<longrightarrow> g_addresses g \<noteq> [] \<and>
     (\<exists>r\<in>set rs. \<exists>h c i. ow_account r = Some (h, c, i) \<and> h_hdXpub h = x \<and> g_hdID g = h_hdID h
        \<and> g_hdType g = h_hdType h))"

lemma groups_ok_row: "\<lbrakk>groups_ok rs res; r \<in> set rs\<rbrakk> \<Longrightarrow> groups_ok rs (group_row r res)"
  unfolding groups_ok_def group_row_def Let_def
  by (cases "ow_account r") (auto split: option.splits if_splits, blast)

lemma groups_ok_fold: "set ss \<subseteq> set rs \<Longrightarrow> groups_ok rs res \<Longrightarrow> groups_ok rs (fold group_row ss res)"
  by (induction ss arbitrary: res) (auto simp: groups_ok_row)

definition ownership_ok :: "db \<Rightarrow> ownership \<Rightarrow> bool" where
  "ownership_ok d r \<longleftrightarrow>
    (case ow_account r of
       None \<Rightarrow> \<forall>l\<in>set (rows (hd_addresses d)). ha_addrID l \<noteq> ow_addrID r
     | Some (h, c, i) \<Rightarrow> h \<in> set (rows (hd_accounts d)) \<and>
         (\<exists>l\<in>set (rows (hd_addresses d)). ha_addrID l = ow_addrID r \<and> ha_hdID l = h_hdID h
            \<and> ha_hdAddrChain l = c \<and> ha_hdAddrIndex l = i))"

lemma ownership_rows_iff:
  assumes "wf_db d" and "a \<in> set (rows (addresses d))"
  shows "r \<in> set (ownership_rows d a) \<longleftrightarrow>
    ow_addrID r = a_addrID a \<and> ow_addrAddress r = a_addrAddress a \<and> ownership_ok d r"
proof -
  define links where "links = filter (\<lambda>l. ha_addrID l = a_addrID a) (rows (hd_addresses d))"
  define f where "f l = the (find_by h_hdID (ha_hdID l) (rows (hd_accounts d)))" for l :: hd_address_row
  have inj: "h = k" if "h \<in> set (rows (hd_accounts d))" "k \<in> set (rows (hd_accounts d))" "h_hdID h = h_hdID k" for h k
    using table_pk_inj [OF wf_tables(3) [OF assms(1)]] that by blast
  have f: "find_by h_hdID (ha_hdID l) (rows (hd_accounts d)) = Some (f l)"
    "f l \<in> set (rows (hd_accounts d))" "h_hdID (f l) = ha_hdID l" if "l \<in> set links" for l
  proof -
    have "find_by h_hdID (ha_hdID l) (rows (hd_accounts d)) \<noteq> None"
      using wf_refs(1) [OF assms(1), of l] that
      by (auto simp: links_def hd_address_refs_def has_id_iff find_by_None_iff)
    then show "find_by h_hdID (ha_hdID l) (rows (hd_accounts d)) = Some (f l)" by (simp add: f_def)
    then show "f l \<in> set (rows (hd_accounts d))" "h_hdID (f l) = ha_hdID l"
      using find_by_SomeD by fastforce+
  qed
  show ?thesis
  proof (cases "links = []")
    case True
    then have "ownership_rows d a = [\<lparr>ow_addrID = a_addrID a, ow_addrAddress = a_addrAddress a, ow_account = None\<rparr>]"
      by (simp add: ownership_rows_def links_def)
    then show ?thesis using True
      by (cases r) (auto simp: ownership_ok_def links_def filter_empty_conv split: option.splits)
  next
    case False
    then have "ownership_rows d a = map (\<lambda>l. \<lparr>ow_addrID = a_addrID a, ow_addrAddress = a_addrAddress a,
        ow_account = Some (f l, ha_hdAddrChain l, ha_hdAddrIndex l)\<rparr>) links"
      using f(1) by (simp add: ownership_rows_def links_def Let_def)
    then have mem: "r \<in> set (ownership_rows d a) \<longleftrightarrow> ow_addrID r = a_addrID a \<and> ow_addrAddress r = a_addrAddress a
        \<and> (\<exists>l\<in>set links. ow_account r = Some (f l, ha_hdAddrChain l, ha_hdAddrIndex l))"
      by (cases r) auto
    have "(\<exists>l\<in>set links. ow_account r = Some (f l, ha_hdAddrChain l, ha_hdAddrIndex l)) \<longleftrightarrow> ownership_ok d r"
      if "ow_addrID r = a_addrID a"
    proof (cases "ow_account r")
      case None
      then show ?thesis using False that by (auto simp: ownership_ok_def links_def filter_empty_conv)
    next
      case (Some acc)
      obtain h c i where acc: "acc = (h, c, i)" by (cases acc)
      have "f l = h \<longleftrightarrow> h \<in> set (rows (hd_accounts d)) \<and> ha_hdID l = h_hdID h" if "l \<in> set links" for l
        using f(2,3) [OF that] inj [of "f l" h] by auto
      then show ?thesis using that Some acc unfolding ownership_ok_def links_def by auto
    qed
    then show ?thesis using mem by blast
  qed
qed

lemma ungrouped_iff:
  assumes "wf_db d"
  shows "r \<in> set (getUngroupedHDAccountsByAddresses addrs d) \<longleftrightarrow>
    ow_addrAddress r \<in> set addrs \<and> ow_addrAddress r \<notin> set (banned_addresses d)
    \<and> address_id (ow_addrAddress r) d = Some (ow_addrID r) \<and> ownership_ok d r"
proof -
  have "address_id a d = Some i \<longleftrightarrow> (\<exists>r\<in>set (rows (addresses d)). a_addrAddress r = a \<and> a_addrID r = i)" for a i
    using table_find [OF wf_tables(1) [OF assms]] by (auto simp: address_id_def)
  then show ?thesis
    unfolding getUngroupedHDAccountsByAddresses_def by (auto simp: ownership_rows_iff [OF assms])
qed

text \<open>The two parts of the grouped answer.\<close>

lemma getHDAccountsByAddresses_groups:
  fixes addrs :: "string list"
  assumes "wf_db d"
  defines "res \<equiv> getHDAccountsByAddresses addrs d"
  shows "(i, a) \<in> set (by_loose res) \<longleftrightarrow>
       a \<in> set addrs \<and> a \<notin> set (banned_addresses d) \<and> address_id a d = Some i
       \<and> (\<forall>l\<in>set (rows (hd_addresses d)). ha_addrID l \<noteq> i)"
   and "\<lparr>oa_addrID = i, oa_addrAddress = a, oa_hdAddrChain = c, oa_hdAddrIndex = n\<rparr> \<in> set (group_addresses x res) \<longleftrightarrow>
       a \<in> set addrs \<and> a \<notin> set (banned_addresses d) \<and> address_id a d = Some i
       \<and> (\<exists>h. hd_account x d = Some h \<and> (\<exists>l\<in>set (rows (hd_addresses d)). ha_addrID l = i
            \<and> ha_hdID l = h_hdID h \<and> ha_hdAddrChain l = c \<and> ha_hdAddrIndex l = n))"
   and "\<forall>g. map_of (by_hd res) x = Some g \<longrightarrow> g_addresses g \<noteq> [] \<and>
       (\<exists>h. hd_account x d = Some h \<and> g_hdID g = h_hdID h \<and> g_hdType g = h_hdType h)"
proof -
  define rs where "rs = getUngroupedHDAccountsByAddresses addrs d"
  have acc: "hd_account x d = Some h \<longleftrightarrow> h \<in> set (rows (hd_accounts d)) \<and> h_hdXpub h = x" for x h
    using table_find [OF wf_tables(3) [OF assms(1)]] by (simp add: hd_account_def)
  have rs: "r \<in> set rs \<longleftrightarrow> ow_addrAddress r \<in> set addrs \<and> ow_addrAddress r \<notin> set (banned_addresses d)
      \<and> address_id (ow_addrAddress r) d = Some (ow_addrID r) \<and> ownership_ok d r" for r
    unfolding rs_def by (rule ungrouped_iff [OF assms(1)])
  have acc_in: "h \<in> set (rows (hd_accounts d))" if "r \<in> set rs" "ow_account r = Some (h, c, n)" for r h c n
    using that by (auto simp: rs ownership_ok_def)
  have loose: "set (by_loose res) = (\<lambda>r. (ow_addrID r, ow_addrAddress r)) ` {r \<in> set rs. ow_account r = None}"
    by (simp add: res_def getHDAccountsByAddresses_def group_fold_loose rs_def)
  have l: "(i, a) \<in> set (by_loose res) \<longleftrightarrow>
      \<lparr>ow_addrID = i, ow_addrAddress = a, ow_account = None\<rparr> \<in> set rs" for i a
    unfolding loose by (auto simp: image_iff) (metis (full_types) ownership.surjective old.unit.exhaust)
  have "set (group_addresses x res) = (\<Union>r\<in>set rs. set (owned_of x r))" for x
    by (simp add: res_def getHDAccountsByAddresses_def group_fold_addresses rs_def) (simp add: group_addresses_def)
  then have g: "\<lparr>oa_addrID = i, oa_addrAddress = a, oa_hdAddrChain = c, oa_hdAddrIndex = n\<rparr>
      \<in> set (group_addresses x res) \<longleftrightarrow> (\<exists>h. h_hdXpub h = x \<and>
        \<lparr>ow_addrID = i, ow_addrAddress = a, ow_account = Some (h, c, n)\<rparr> \<in> set rs)" for i a c n x
    by (auto simp: owned_of_def split: option.splits if_splits intro: rev_bexI)
      (metis (full_types) ownership.surjective old.unit.exhaust)
  show "(i, a) \<in> set (by_loose res) \<longleftrightarrow>
       a \<in> set addrs \<and> a \<notin> set (banned_addresses d) \<and> address_id a d = Some i
       \<and> (\<forall>l\<in>set (rows (hd_addresses d)). ha_addrID l \<noteq> i)"
    by (simp add: l rs ownership_ok_def)
  show "\<lparr>oa_addrID = i, oa_addrAddress = a, oa_hdAddrChain = c, oa_hdAddrIndex = n\<rparr> \<in> set (group_addresses x res) \<longleftrightarrow>
       a \<in> set addrs \<and> a \<notin> set (banned_addresses d) \<and> address_id a d = Some i
       \<and> (\<exists>h. hd_account x d = Some h \<and> (\<exists>l\<in>set (rows (hd_addresses d)). ha_addrID l = i
            \<and> ha_hdID l = h_hdID h \<and> ha_hdAddrChain l = c \<and> ha_hdAddrIndex l = n))"
    by (auto simp: g rs acc ownership_ok_def)
  have groups: "groups_ok rs res"
    unfolding res_def getHDAccountsByAddresses_def rs_def [symmetric]
    by (rule groups_ok_fold) (simp_all add: groups_ok_def)
  then show "\<forall>g. map_of (by_hd res) x = Some g \<longrightarrow> g_addresses g \<noteq> [] \<and>
       (\<exists>h. hd_account x d = Some h \<and> g_hdID g = h_hdID h \<and> g_hdType g = h_hdType h)"
    unfolding groups_ok_def acc using acc_in by metis
qed

text \<open>
  The answer to which accounts own a set of addresses is complete and exact: an address is
  loose when it is stored, not banned and linked to no account; it is listed under an account,
  with its chain and index, when it is stored, not banned and linked to that account; and every
  group carries the id and the type of its account and is not empty.
\<close>

theorem getHDAccountsByAddresses_spec:
  fixes addrs :: "string list"
  assumes "wf_db d"
  defines "res \<equiv> getHDAccountsByAddresses addrs d"
  shows "((i, a) \<in> set (by_loose res) \<longleftrightarrow>
       a \<in> set addrs \<and> a \<notin> set (banned_addresses d) \<and> address_id a d = Some i
       \<and> (\<forall>l\<in>set (rows (hd_addresses d)). ha_addrID l \<noteq> i))
   \<and> (\<lparr>oa_addrID = i, oa_addrAddress = a, oa_hdAddrChain = c, oa_hdAddrIndex = n\<rparr> \<in> set (group_addresses x res) \<longleftrightarrow>
       a \<in> set addrs \<and> a \<notin> set (banned_addresses d) \<and> address_id a d = Some i
       \<and> (\<exists>h. hd_account x d = Some h \<and> (\<exists>l\<in>set (rows (hd_addresses d)). ha_addrID l = i
            \<and> ha_hdID l = h_hdID h \<and> ha_hdAddrChain l = c \<and> ha_hdAddrIndex l = n)))
   \<and> (\<forall>g. map_of (by_hd res) x = Some g \<longrightarrow> g_addresses g \<noteq> [] \<and>
       (\<exists>h. hd_account x d = Some h \<and> g_hdID g = h_hdID h \<and> g_hdType g = h_hdType h))"
  unfolding res_def using getHDAccountsByAddresses_groups [OF assms(1)] by blast

lemma getHDAccountsByAddresses_spec_witness:
  "\<exists>d. addAddressesToHDAccount ''xp'' demo_entries (add_address ''loose'' demo_hd_db) = Inr d
     \<and> (1, ''loose'') \<in> set (by_loose (getHDAccountsByAddresses [''loose'', ''c4'', ''other''] d))"
proof -
  have wf: "wf_db (add_address ''loose'' demo_hd_db)" by (intro wf_add_address wf_demo_hd_db)
  have ex: "\<exists>d. addAddressesToHDAccount ''xp'' demo_entries (add_address ''loose'' demo_hd_db) = Inr d
      \<and> address_id ''loose'' d = Some 1 \<and> banned_addresses d = []
      \<and> (\<forall>l\<in>set (rows (hd_addresses d)). ha_addrID l \<noteq> 1)"
    by (simp add: demo_entries_def demo_hd_db_def db_eval)
  then obtain d where d: "addAddressesToHDAccount ''xp'' demo_entries (add_address ''loose'' demo_hd_db) = Inr d"
    "address_id ''loose'' d = Some 1" "banned_addresses d = []"
    "\<forall>l\<in>set (rows (hd_addresses d)). ha_addrID l \<noteq> 1" by blast
  have "wf_db d" using wf_addAddressesToHDAccount [OF d(1) wf] .
  then show ?thesis
    using getHDAccountsByAddresses_spec [of d 1 "''loose''" "[''loose'', ''c4'', ''other'']", THEN conjunct1] d
    by auto
qed

section \<open>Indices of an account\<close>

text \<open>The links of an account, as the joins of the index queries select them.\<close>

definition account_links :: "string \<Rightarrow> db \<Rightarrow> hd_address_row list" where
  "account_links xpub d =
     [l. l \<leftarrow> rows (hd_addresses d), a \<leftarrow> rows (addresses d), ha_addrID l = a_addrID a,
         h \<leftarrow> rows (hd_accounts d), ha_hdID l = h_hdID h \<and> h_hdXpub h = xpub]"

definition max_list :: "int list \<Rightarrow> int option" where
  "max_list xs = (case xs of [] \<Rightarrow> None | y # ys \<Rightarrow> Some (foldl max y ys))"

lemma foldl_max: "foldl max (y :: int) ys \<in> insert y (set ys) \<and> (\<forall>x\<in>insert y (set ys). x \<le> foldl max y ys)"
proof (induction ys arbitrary: y)
  case (Cons a ys)
  have "y \<le> max y a" "a \<le> max y a" "max y a = y \<or> max y a = a" by auto
  then show ?case using Cons [of "max y a"] by (auto intro: order_trans)
qed simp

lemma max_list_None [simp]: "max_list xs = None \<longleftrightarrow> xs = []"
  by (simp add: max_list_def split: list.splits)

lemma max_list_Some: "max_list xs = Some m \<Longrightarrow> m \<in> set xs \<and> (\<forall>x\<in>set xs. x \<le> m)"
  using foldl_max by (auto simp: max_list_def split: list.splits)

text \<open>\<open>GROUP BY hdAddrChain\<close> with the maximum of the index, read for the chains 0 and 1.\<close>

definition chain_max :: "hd_address_row list \<Rightarrow> int \<Rightarrow> int option" where
  "chain_max links chain = max_list (map ha_hdAddrIndex (filter (\<lambda>l. ha_hdAddrChain l = chain) links))"

definition used_links :: "string \<Rightarrow> db \<Rightarrow> hd_address_row list" where
  "used_links xpub d =
     filter (\<lambda>l. \<exists>o'\<in>set (rows (outputs d)). o_addrID o' = ha_addrID l) (account_links xpub d)"

definition getHDAccountNextUnusedIndices :: "string \<Rightarrow> db \<Rightarrow> int \<times> int" where
  "getHDAccountNextUnusedIndices xpub d =
     (let next = (\<lambda>chain. case chain_max (used_links xpub d) chain of None \<Rightarrow> 0 | Some m \<Rightarrow> m + 1)
      in (next 0, next 1))"

definition getHDAccountDerivedIndices :: "string \<Rightarrow> db \<Rightarrow> int \<times> int" where
  "getHDAccountDerivedIndices xpub d =
     (let last = (\<lambda>chain. case chain_max (account_links xpub d) chain of None \<Rightarrow> -1 | Some m \<Rightarrow> m)
      in (last 0, last 1))"

definition getHDAccountNbDerivedIndices :: "string \<Rightarrow> int \<Rightarrow> int \<Rightarrow> int \<Rightarrow> db \<Rightarrow> int" where
  "getHDAccountNbDerivedIndices xpub chain minIdx maxIdx d =
     int (length [l. l \<leftarrow> rows (hd_addresses d), h \<leftarrow> rows (hd_accounts d),
        ha_hdID l = h_hdID h \<and> h_hdXpub h = xpub \<and> ha_hdAddrChain l = chain
        \<and> minIdx \<le> ha_hdAddrIndex l \<and> ha_hdAddrIndex l \<le> maxIdx])"

definition getXpubByAddresses :: "string list \<Rightarrow> db \<Rightarrow> (string \<times> string) list" where
  "getXpubByAddresses addrs d =
     (if addrs = [] then []
      else fold (\<lambda>(x, a) result. js_set a x result)
        [(h_hdXpub h, a_addrAddress a). a \<leftarrow> rows (addresses d), a_addrAddress a \<in> set addrs,
           l \<leftarrow> rows (hd_addresses d), ha_addrID l = a_addrID a,
           h \<leftarrow> rows (hd_accounts d), ha_hdID l = h_hdID h] [])"

lemma set_account_links:
  assumes "wf_db d"
  shows "l \<in> set (account_links xpub d) \<longleftrightarrow> l \<in> set (rows (hd_addresses d))
    \<and> (\<exists>h. hd_account xpub d = Some h \<and> ha_hdID l = h_hdID h)"
proof -
  have "\<exists>a\<in>set (rows (addresses d)). a_addrID a = ha_addrID l" if "l \<in> set (rows (hd_addresses d))"
    using wf_refs(1) [OF assms that] by (auto simp: hd_address_refs_def has_id_iff)
  then have "l \<in> set (account_links xpub d) \<longleftrightarrow> l \<in> set (rows (hd_addresses d))
      \<and> (\<exists>h\<in>set (rows (hd_accounts d)). h_hdXpub h = xpub \<and> ha_hdID l = h_hdID h)"
    by (force simp: account_links_def)
  then show ?thesis
    using table_find [OF wf_tables(3) [OF assms], of xpub] by (auto simp: hd_account_def)
qed

text \<open>
  The next unused index of a chain is one above the greatest index of an address of the
  account on that chain that received an output, and zero when there is none; the last derived
  index is the greatest index of an address of the account on that chain, and -1 when there is
  none. So the next unused index never exceeds the last derived index by more than one.
\<close>

theorem account_indices_spec:
  assumes "wf_db d" and "hd_account xpub d = Some h" and "chain = 0 \<or> chain = 1"
  defines "n \<equiv> (if chain = 0 then fst else snd) (getHDAccountNextUnusedIndices xpub d)"
    and "m \<equiv> (if chain = 0 then fst else snd) (getHDAccountDerivedIndices xpub d)"
    and "links \<equiv> {l \<in> set (rows (hd_addresses d)). ha_hdID l = h_hdID h \<and> ha_hdAddrChain l = chain}"
  defines "used \<equiv> {l \<in> links. \<exists>o'\<in>set (rows (outputs d)). o_addrID o' = ha_addrID l}"
  shows "(\<forall>l\<in>used. ha_hdAddrIndex l < n) \<and> (if used = {} then n = 0 else \<exists>l\<in>used. n = ha_hdAddrIndex l + 1)
    \<and> (\<forall>l\<in>links. ha_hdAddrIndex l \<le> m) \<and> (if links = {} then m = -1 else \<exists>l\<in>links. m = ha_hdAddrIndex l)
    \<and> n \<le> max 0 (m + 1)"
proof -
  have links: "set (filter (\<lambda>l. ha_hdAddrChain l = chain) (account_links xpub d)) = links"
    using assms(2) by (auto simp: links_def set_account_links [OF assms(1)])
  have used: "set (filter (\<lambda>l. ha_hdAddrChain l = chain) (used_links xpub d)) = used"
    using links by (auto simp: used_def used_links_def)
  have n: "n = (case chain_max (used_links xpub d) chain of None \<Rightarrow> 0 | Some m \<Rightarrow> m + 1)"
    and m: "m = (case chain_max (account_links xpub d) chain of None \<Rightarrow> -1 | Some m \<Rightarrow> m)"
    using assms(3) by (auto simp: n_def m_def getHDAccountNextUnusedIndices_def getHDAccountDerivedIndices_def)
  have "(\<forall>l\<in>used. ha_hdAddrIndex l < n) \<and> (if used = {} then n = 0 else \<exists>l\<in>used. n = ha_hdAddrIndex l + 1)"
    unfolding used [symmetric] n chain_max_def
    by (auto simp: filter_empty_conv dest!: max_list_Some split: option.splits)
  moreover have "(\<forall>l\<in>links. ha_hdAddrIndex l \<le> m) \<and> (if links = {} then m = -1 else \<exists>l\<in>links. m = ha_hdAddrIndex l)"
    unfolding links [symmetric] m chain_max_def
    by (auto simp: filter_empty_conv dest!: max_list_Some split: option.splits)
  moreover have "used \<subseteq> links" by (auto simp: used_def)
  moreover have "n \<le> max 0 (m + 1)"
  proof (cases "used = {}")
    case False
    then obtain l where "l \<in> used" "n = ha_hdAddrIndex l + 1" using calculation(1) by auto
    then show ?thesis using calculation(2) \<open>used \<subseteq> links\<close> by fastforce
  qed (use calculation(1) in simp)
  ultimately show ?thesis by blast
qed

lemma account_indices_spec_witness:
  "\<exists>d h. addAddressesToHDAccount ''xp'' demo_entries demo_hd_db = Inr d \<and> hd_account ''xp'' d = Some h
     \<and> (\<forall>l\<in>set (rows (hd_addresses d)). ha_hdID l = h_hdID h \<and> ha_hdAddrChain l = 1
          \<longrightarrow> ha_hdAddrIndex l \<le> snd (getHDAccountDerivedIndices ''xp'' d))
     \<and> getHDAccountDerivedIndices ''xp'' d = (0, 4) \<and> getHDAccountNextUnusedIndices ''xp'' d = (0, 0)"
proof -
  have "\<exists>d. addAddressesToHDAccount ''xp'' demo_entries demo_hd_db = Inr d \<and> (\<exists>h. hd_account ''xp'' d = Some h)
      \<and> getHDAccountDerivedIndices ''xp'' d = (0, 4) \<and> getHDAccountNextUnusedIndices ''xp'' d = (0, 0)"
    by (simp add: demo_entries_def demo_hd_db_def db_eval getHDAccountDerivedIndices_def
        getHDAccountNextUnusedIndices_def account_links_def used_links_def chain_max_def max_list_def)
  then obtain d h where d: "addAddressesToHDAccount ''xp'' demo_entries demo_hd_db = Inr d"
    "hd_account ''xp'' d = Some h" "getHDAccountDerivedIndices ''xp'' d = (0, 4)"
    "getHDAccountNextUnusedIndices ''xp'' d = (0, 0)" by blast
  then have "wf_db d" using wf_addAddressesToHDAccount wf_demo_hd_db by blast
  then show ?thesis
    using account_indices_spec [of d "''xp''" h 1] d by (intro exI [of _ d] exI [of _ h]) simp
qed

end
