(* ===== verification/Db_Transactions.thy ===== *)
theory Db_Transactions
  imports Db_Accounts
begin

text \<open>
  The operations of \<^verbatim>\<open>lib/db/mysql-db-wrapper.ts\<close> on transactions, their outputs and inputs, and
  blocks. The conventions are those of \<^verbatim>\<open>Db_Accounts\<close>.
\<close>

section \<open>Transactions\<close>

definition transaction :: "string \<Rightarrow> db \<Rightarrow> transaction_row option" where
  "transaction txid d = find_by t_txnTxid txid (rows (transactions d))"

definition getTransactionId :: "string \<Rightarrow> db \<Rightarrow> nat option" where
  "getTransactionId txid d = map_option t_txnID (transaction txid d)"

definition new_transaction :: "string \<Rightarrow> int \<Rightarrow> int \<Rightarrow> int \<Rightarrow> nat \<Rightarrow> transaction_row" where
  "new_transaction txid created version locktime i =
     \<lparr>t_txnID = i, t_txnTxid = txid, t_txnCreated = created, t_txnVersion = version,
      t_txnLocktime = locktime, t_blockID = None\<rparr>"

text \<open>\<open>INSERT IGNORE\<close>, then a look-up when no row was inserted; its failure is not reachable.\<close>

definition ensureTransactionId :: "int \<Rightarrow> string \<Rightarrow> db \<Rightarrow> nat result \<times> db" where
  "ensureTransactionId now txid d =
     (case tbl_insert t_txnTxid txid (new_transaction txid now 0 0) (transactions d) of
        (Some i, t) \<Rightarrow> (Inr i, d\<lparr>transactions := t\<rparr>)
      | (None, t) \<Rightarrow>
          (case getTransactionId txid d of
             Some i \<Rightarrow> (Inr i, d)
           | None \<Rightarrow> (Inl (Str ''Problem met while trying to insert a new transaction''), d)))"

definition getTransactionsIds :: "string list \<Rightarrow> db \<Rightarrow> (string \<times> nat) list" where
  "getTransactionsIds txids d =
     (if txids = [] then []
      else fold (\<lambda>r result. js_set (t_txnTxid r) (t_txnID r) result)
             (filter (\<lambda>r. t_txnTxid r \<in> set txids) (rows (transactions d))) [])"

definition getTransactionsById :: "nat list \<Rightarrow> db \<Rightarrow> transaction_row list" where
  "getTransactionsById ids d =
     (if ids = [] then [] else filter (\<lambda>r. t_txnID r \<in> set ids) (rows (transactions d)))"

record new_tx =
  nt_txid :: string
  nt_version :: int
  nt_locktime :: int
  nt_created :: "int option"

text \<open>\<open>tx.created || util.unix()\<close>: a creation time of zero is not one.\<close>

definition created_or :: "int \<Rightarrow> int option \<Rightarrow> int" where
  "created_or now c = (case c of Some t \<Rightarrow> if t = 0 then now else t | None \<Rightarrow> now)"

definition addTransaction :: "int \<Rightarrow> new_tx \<Rightarrow> db \<Rightarrow> db" where
  "addTransaction now tx d =
     (case tbl_insert t_txnTxid (nt_txid tx)
             (new_transaction (nt_txid tx) (created_or now (nt_created tx)) (nt_version tx) (nt_locktime tx))
             (transactions d) of
        (Some _, t) \<Rightarrow> d\<lparr>transactions := t\<rparr>
      | (None, _) \<Rightarrow> d\<lparr>transactions := tbl_update (\<lambda>r. t_txnTxid r = nt_txid tx)
             (\<lambda>r. r\<lparr>t_txnVersion := nt_version tx\<rparr>) (transactions d)\<rparr>)"

definition addTransactions :: "int \<Rightarrow> new_tx list \<Rightarrow> db \<Rightarrow> db" where
  "addTransactions now txs d = fold (addTransaction now) txs d"

definition getUnconfirmedTransactions :: "db \<Rightarrow> transaction_row list" where
  "getUnconfirmedTransactions d = filter (\<lambda>r. t_blockID r = None) (rows (transactions d))"

definition getUnconfirmedTransactionIds :: "db \<Rightarrow> string list" where
  "getUnconfirmedTransactionIds d = map t_txnTxid (filter (\<lambda>r. t_blockID r = None) (rows (transactions d)))"

definition getTransactions :: "db \<Rightarrow> transaction_row list" where
  "getTransactions d = rows (transactions d)"

definition getTxInputs :: "nat \<Rightarrow> db \<Rightarrow> input_row list" where
  "getTxInputs txnID d = filter (\<lambda>r. i_txnID r = txnID) (rows (inputs d))"

definition set_block :: "nat option \<Rightarrow> string list \<Rightarrow> db \<Rightarrow> db" where
  "set_block b txids d =
     d\<lparr>transactions := tbl_update (\<lambda>r. t_txnTxid r \<in> set txids) (\<lambda>r. r\<lparr>t_blockID := b\<rparr>) (transactions d)\<rparr>"

definition confirmTransactions :: "string list \<Rightarrow> nat \<Rightarrow> db \<Rightarrow> db result" where
  "confirmTransactions txids blockID d =
     (if txids = [] then Inr d
      else if \<not> has_id b_blockID blockID (blocks d) \<and> (\<exists>r\<in>set (rows (transactions d)). t_txnTxid r \<in> set txids)
        then Inl Sql
      else Inr (set_block (Some blockID) txids d))"

definition unconfirmTransactions :: "string list \<Rightarrow> db \<Rightarrow> db" where
  "unconfirmTransactions txids d = (if txids = [] then d else set_block None txids d)"

definition confirmed_after :: "int \<Rightarrow> db \<Rightarrow> transaction_row \<Rightarrow> bool" where
  "confirmed_after height d r =
     (case t_blockID r of None \<Rightarrow> False
      | Some b \<Rightarrow> \<exists>k\<in>set (rows (blocks d)). b_blockID k = b \<and> height < b_blockHeight k)"

definition getTransactionsConfirmedAfterHeight :: "int \<Rightarrow> db \<Rightarrow> transaction_row list" where
  "getTransactionsConfirmedAfterHeight height d = filter (confirmed_after height d) (rows (transactions d))"

definition getTransactionIdsConfirmedAfterHeight :: "int \<Rightarrow> db \<Rightarrow> string list" where
  "getTransactionIdsConfirmedAfterHeight height d =
     map t_txnTxid (filter (confirmed_after height d) (rows (transactions d)))"

definition delete_transactions :: "(transaction_row \<Rightarrow> bool) \<Rightarrow> db \<Rightarrow> db" where
  "delete_transactions P d = cascade (d\<lparr>transactions := tbl_delete P (transactions d)\<rparr>)"

definition deleteTransactionsConfirmedAfterHeight :: "int \<Rightarrow> db \<Rightarrow> db" where
  "deleteTransactionsConfirmedAfterHeight height d = delete_transactions (confirmed_after height d) d"

definition deleteTransaction :: "string \<Rightarrow> db \<Rightarrow> db" where
  "deleteTransaction txid d = delete_transactions (\<lambda>r. t_txnTxid r = txid) d"

definition deleteTransactionsByID :: "nat list \<Rightarrow> db \<Rightarrow> db" where
  "deleteTransactionsByID ids d =
     (if ids = [] then d else delete_transactions (\<lambda>r. t_txnID r \<in> set ids) d)"

lemma keys_ok_delete_transactions:
  "keys_ok d \<Longrightarrow> keys_ok (d\<lparr>transactions := tbl_delete P (transactions d)\<rparr>)"
  by (simp add: keys_ok_def table_ok_delete)

lemma wf_delete_transactions [wf_intros]: "wf_db d \<Longrightarrow> wf_db (delete_transactions P d)"
  unfolding delete_transactions_def
  by (intro wf_cascade keys_ok_delete_transactions) (simp add: wf_db_def)

lemma wf_insert_transaction:
  "wf_db d \<Longrightarrow> wf_db (d\<lparr>transactions :=
     snd (tbl_insert t_txnTxid txid (new_transaction txid created version locktime) (transactions d))\<rparr>)"
  by (rule wf_replace_transactions)
    (auto simp: wf_tables new_transaction_def rows_insert nullable_ref_def
      intro: has_id_insert_mono dest: wf_refs(4) split: if_splits)

lemma tbl_insert_cases:
  obtains (new) i t where "tbl_insert uk k mk tb = (Some i, t)" "find_by uk k (rows tb) = None"
      "i = next_id tb" "t = snd (tbl_add mk tb)"
  | (old) r where "tbl_insert uk k mk tb = (None, tb)" "find_by uk k (rows tb) = Some r"
  by (cases "find_by uk k (rows tb)") (simp_all add: tbl_insert_None tbl_insert_Some)

lemma ensureTransactionId_db:
  "snd (ensureTransactionId now txid d) =
     d\<lparr>transactions := snd (tbl_insert t_txnTxid txid (new_transaction txid now 0 0) (transactions d))\<rparr>"
  by (rule tbl_insert_cases [of t_txnTxid txid "new_transaction txid now 0 0" "transactions d"])
    (auto simp: ensureTransactionId_def split: option.splits)

lemma wf_ensureTransactionId [wf_intros]: "wf_db d \<Longrightarrow> wf_db (snd (ensureTransactionId now txid d))"
  unfolding ensureTransactionId_db by (rule wf_insert_transaction)

lemma transaction_insert:
  "transaction t' (d\<lparr>transactions :=
      snd (tbl_insert t_txnTxid txid (new_transaction txid created version locktime) (transactions d))\<rparr>) =
     (if t' = txid \<and> transaction txid d = None
      then Some (new_transaction txid created version locktime (next_id (transactions d)))
      else transaction t' d)"
  by (simp add: transaction_def find_by_insert new_transaction_def)

definition ensure_tx :: "int \<Rightarrow> string \<Rightarrow> db \<Rightarrow> nat \<times> db" where
  "ensure_tx now txid d =
     (case ensureTransactionId now txid d of (Inr i, e) \<Rightarrow> (i, e) | (Inl _, e) \<Rightarrow> (0, e))"

lemma ensureTransactionId_total:
  "ensureTransactionId now txid d = (Inr (fst (ensure_tx now txid d)), snd (ensure_tx now txid d))"
  by (rule tbl_insert_cases [of t_txnTxid txid "new_transaction txid now 0 0" "transactions d"])
    (auto simp: ensure_tx_def ensureTransactionId_def getTransactionId_def transaction_def)

interpretation transaction_ids: id_store wf_db getTransactionId "ensure_tx now" for now
proof unfold_locales
  fix d :: db and k k' :: string and i :: nat
  assume wf: "wf_db d"
  have db: "snd (ensure_tx now k d) =
     d\<lparr>transactions := snd (tbl_insert t_txnTxid k (new_transaction k now 0 0) (transactions d))\<rparr>"
    using ensureTransactionId_total [of now k d] ensureTransactionId_db [of now k d] by simp
  show "wf_db (snd (ensure_tx now k d))" using wf_insert_transaction [OF wf] by (simp add: db)
  show "ensure_tx now k d = (i, d)" if "getTransactionId k d = Some i"
    using that by (auto simp: ensure_tx_def ensureTransactionId_def getTransactionId_def transaction_def
        tbl_insert_Some)
  show "getTransactionId k (snd (ensure_tx now k d)) = Some (fst (ensure_tx now k d))"
    unfolding db getTransactionId_def transaction_insert
    by (cases "transaction k d")
      (auto simp: ensure_tx_def ensureTransactionId_def getTransactionId_def transaction_def
        tbl_insert_Some tbl_insert_None new_transaction_def)
  show "getTransactionId k' (snd (ensure_tx now k d)) = getTransactionId k' d" if "k' \<noteq> k"
    using that by (simp add: db getTransactionId_def transaction_insert)
  show "k = k'" if "getTransactionId k d = Some i" "getTransactionId k' d = Some i"
    using that table_pk_inj [OF wf_tables(7) [OF wf]]
    by (auto simp: getTransactionId_def transaction_def dest: find_by_SomeD)
qed

lemma wf_update_transactions:
  assumes "wf_db d" and "\<And>r. t_txnID (f r) = t_txnID r" "\<And>r. t_txnTxid (f r) = t_txnTxid r"
    and "\<And>r. r \<in> set (rows (transactions d)) \<Longrightarrow> P r \<Longrightarrow> nullable_ref b_blockID (blocks d) (t_blockID (f r))"
  shows "wf_db (d\<lparr>transactions := tbl_update P f (transactions d)\<rparr>)"
  using assms by (intro wf_replace_transactions) (auto simp: wf_tables dest: wf_refs(4))

lemma wf_addTransaction [wf_intros]: "wf_db d \<Longrightarrow> wf_db (addTransaction now tx d)"
proof -
  assume wf: "wf_db d"
  let ?mk = "new_transaction (nt_txid tx) (created_or now (nt_created tx)) (nt_version tx) (nt_locktime tx)"
  show ?thesis
  proof (cases rule: tbl_insert_cases [of t_txnTxid "nt_txid tx" ?mk "transactions d"])
    case (new i t)
    then show ?thesis 
      using wf_insert_transaction [OF wf, of "nt_txid tx" "created_or now (nt_created tx)" "nt_version tx" "nt_locktime tx"]
      by (simp add: addTransaction_def)
  next
    case (old r)
    then show ?thesis
      using wf by (auto simp: addTransaction_def intro!: wf_update_transactions dest: wf_refs(4))
  qed
qed

lemma wf_addTransactions [wf_intros]: "wf_db d \<Longrightarrow> wf_db (addTransactions now txs d)"
  unfolding addTransactions_def by (rule fold_inv) (auto intro: wf_intros)

lemma wf_confirmTransactions [wf_intros]: "\<lbrakk>confirmTransactions txids b d = Inr e; wf_db d\<rbrakk> \<Longrightarrow> wf_db e"
  by (auto simp: confirmTransactions_def set_block_def nullable_ref_def split: if_splits
      intro!: wf_update_transactions)

lemma wf_unconfirmTransactions [wf_intros]: "wf_db d \<Longrightarrow> wf_db (unconfirmTransactions txids d)"
  by (auto simp: unconfirmTransactions_def set_block_def nullable_ref_def intro!: wf_update_transactions)

section \<open>Outputs\<close>

record new_output =
  no_txnID :: nat
  no_addrID :: nat
  no_outIndex :: int
  no_outAmount :: int
  no_outScript :: string

abbreviation output_key :: "output_row \<Rightarrow> nat \<times> nat \<times> int" where
  "output_key r \<equiv> (o_txnID r, o_addrID r, o_outIndex r)"

definition mk_output :: "new_output \<Rightarrow> nat \<Rightarrow> output_row" where
  "mk_output n i =
     \<lparr>o_outID = i, o_txnID = no_txnID n, o_addrID = no_addrID n, o_outIndex = no_outIndex n,
      o_outAmount = no_outAmount n, o_outScript = no_outScript n\<rparr>"

definition add_output :: "new_output \<Rightarrow> db \<Rightarrow> db" where
  "add_output n d =
     (if has_id t_txnID (no_txnID n) (transactions d) \<and> has_id a_addrID (no_addrID n) (addresses d)
      then d\<lparr>outputs := snd (tbl_insert output_key (no_txnID n, no_addrID n, no_outIndex n) (mk_output n) (outputs d))\<rparr>
      else d)"

definition addOutputs :: "new_output list \<Rightarrow> db \<Rightarrow> db" where
  "addOutputs outs d = fold add_output outs d"

text \<open>A request is a pair of a transaction id and an output index.\<close>

record output_spend =
  sp_addrAddress :: string
  sp_outID :: nat
  sp_outAmount :: int
  sp_txnTxid :: string
  sp_outIndex :: int
  sp_spendingTxnID :: "nat option"

text \<open>The inputs of the left join: each spender, or none.\<close>

definition spenders :: "db \<Rightarrow> nat \<Rightarrow> (nat \<times> nat) option list" where
  "spenders d outID =
     (case filter (\<lambda>i. i_outID i = outID) (rows (inputs d)) of
        [] \<Rightarrow> [None]
      | is \<Rightarrow> map (\<lambda>i. Some (i_inID i, i_txnID i)) is)"

definition getOutputSpends :: "(string \<times> int) list \<Rightarrow> db \<Rightarrow> output_spend list" where
  "getOutputSpends spends d =
     [\<lparr>sp_addrAddress = a_addrAddress a, sp_outID = o_outID o', sp_outAmount = o_outAmount o',
       sp_txnTxid = t_txnTxid t, sp_outIndex = o_outIndex o', sp_spendingTxnID = map_option snd s\<rparr>.
        (txid, index) \<leftarrow> remdups spends,
        t \<leftarrow> rows (transactions d), t_txnTxid t = txid,
        o' \<leftarrow> rows (outputs d), o_txnID o' = t_txnID t \<and> o_outIndex o' = index,
        a \<leftarrow> rows (addresses d), a_addrID a = o_addrID o',
        s \<leftarrow> spenders d (o_outID o')]"

record output_id_row =
  oi_outID :: nat
  oi_txnTxid :: string
  oi_outIndex :: int

definition getOutputIds :: "(string \<times> int) list \<Rightarrow> db \<Rightarrow> output_id_row list" where
  "getOutputIds spends d =
     [\<lparr>oi_outID = o_outID o', oi_txnTxid = t_txnTxid t, oi_outIndex = o_outIndex o'\<rparr>.
        (txid, index) \<leftarrow> remdups spends,
        t \<leftarrow> rows (transactions d), t_txnTxid t = txid,
        o' \<leftarrow> rows (outputs d), o_txnID o' = t_txnID t \<and> o_outIndex o' = index]"

section \<open>Inputs\<close>

record new_input =
  ni_txnID :: nat
  ni_outID :: nat
  ni_inIndex :: int
  ni_inSequence :: int

abbreviation input_key :: "input_row \<Rightarrow> nat \<times> int" where
  "input_key r \<equiv> (i_txnID r, i_inIndex r)"

definition mk_input :: "new_input \<Rightarrow> nat \<Rightarrow> input_row" where
  "mk_input n i =
     \<lparr>i_inID = i, i_outID = ni_outID n, i_txnID = ni_txnID n, i_inIndex = ni_inIndex n,
      i_inSequence = ni_inSequence n\<rparr>"

text \<open>\<open>ON DUPLICATE KEY UPDATE outID\<close>; a missing transaction or output is a foreign key error.\<close>

definition add_input :: "db \<Rightarrow> new_input \<Rightarrow> db result" where
  "add_input d n =
     (if \<not> (has_id t_txnID (ni_txnID n) (transactions d) \<and> has_id o_outID (ni_outID n) (outputs d))
      then Inl Sql
      else case tbl_insert input_key (ni_txnID n, ni_inIndex n) (mk_input n) (inputs d) of
             (Some _, t) \<Rightarrow> Inr (d\<lparr>inputs := t\<rparr>)
           | (None, _) \<Rightarrow> Inr (d\<lparr>inputs := tbl_update (\<lambda>r. input_key r = (ni_txnID n, ni_inIndex n))
                 (\<lambda>r. r\<lparr>i_outID := ni_outID n\<rparr>) (inputs d)\<rparr>))"

definition addInputs :: "new_input list \<Rightarrow> db \<Rightarrow> db result" where
  "addInputs ins d = foldE add_input d ins"

lemma frame_add_output [frame]:
  "transactions (add_output n d) = transactions d" "addresses (add_output n d) = addresses d"
  "hd_accounts (add_output n d) = hd_accounts d" "hd_addresses (add_output n d) = hd_addresses d"
  "inputs (add_output n d) = inputs d" "blocks (add_output n d) = blocks d"
  by (simp_all add: add_output_def)

lemma frame_addOutputs [frame]:
  "transactions (addOutputs ns d) = transactions d" "addresses (addOutputs ns d) = addresses d"
  "hd_accounts (addOutputs ns d) = hd_accounts d" "hd_addresses (addOutputs ns d) = hd_addresses d"
  "inputs (addOutputs ns d) = inputs d" "blocks (addOutputs ns d) = blocks d"
  unfolding addOutputs_def by (induction ns arbitrary: d) (simp_all add: frame)

lemma wf_add_output: "wf_db d \<Longrightarrow> wf_db (add_output n d)"
  unfolding add_output_def
  by (auto simp: wf_tables mk_output_def rows_insert output_refs_def intro!: wf_replace_outputs
      intro: has_id_insert_mono dest: wf_refs(2) [unfolded output_refs_def] split: if_splits)

lemma wf_addOutputs [wf_intros]: "wf_db d \<Longrightarrow> wf_db (addOutputs outs d)"
  unfolding addOutputs_def by (rule fold_inv) (auto intro: wf_add_output)

lemma add_input_Inr:
  assumes "add_input d n = Inr e" and "wf_db d"
  shows "\<exists>t. e = d\<lparr>inputs := t\<rparr> \<and> has_id t_txnID (ni_txnID n) (transactions d)
    \<and> has_id o_outID (ni_outID n) (outputs d)
    \<and> input_key ` set (rows t) = insert (ni_txnID n, ni_inIndex n) (input_key ` set (rows (inputs d)))
    \<and> (\<forall>r\<in>set (rows t). if input_key r = (ni_txnID n, ni_inIndex n) then i_outID r = ni_outID n
         else r \<in> set (rows (inputs d)))
    \<and> table_ok i_inID input_key t"
proof -
  have ok: "has_id t_txnID (ni_txnID n) (transactions d)" "has_id o_outID (ni_outID n) (outputs d)"
    using assms(1) by (auto simp: add_input_def split: if_splits)
  have tbl: "table_ok i_inID input_key (inputs d)" using wf_tables(5) [OF assms(2)] .
  show ?thesis
  proof (cases rule: tbl_insert_cases
      [of input_key "(ni_txnID n, ni_inIndex n)" "mk_input n" "inputs d"])
    case (new i t)
    then have "table_ok i_inID input_key t"
      using table_ok_insert [OF tbl, of "mk_input n" "(ni_txnID n, ni_inIndex n)"]
      by (simp add: mk_input_def)
    then show ?thesis
      using new assms(1) ok
      by (intro exI [of _ t]) (auto simp: add_input_def mk_input_def find_by_None_iff rev_image_eqI)
  next
    case (old r)
    let ?k = "(ni_txnID n, ni_inIndex n)"
    let ?t = "tbl_update (\<lambda>r. input_key r = ?k) (\<lambda>r. r\<lparr>i_outID := ni_outID n\<rparr>) (inputs d)"
    have "table_ok i_inID input_key ?t" using tbl by (rule table_ok_update) simp_all
    moreover have "map input_key (rows ?t) = map input_key (rows (inputs d))"
      unfolding rows_update by (rule map_key_update) simp
    then have "set (map input_key (rows ?t)) = set (map input_key (rows (inputs d)))" by (rule arg_cong)
    then have "input_key ` set (rows ?t) = input_key ` set (rows (inputs d))" by (simp only: set_map)
    moreover have "?k \<in> input_key ` set (rows (inputs d))"
      using find_by_SomeD [OF old(2)] by (metis (no_types, lifting) imageI)
    moreover have "\<forall>r\<in>set (rows ?t). if input_key r = ?k then i_outID r = ni_outID n
        else r \<in> set (rows (inputs d))" by auto
    moreover have "e = d\<lparr>inputs := ?t\<rparr>"
      using old(1) assms(1) ok by (simp add: add_input_def)
    ultimately show ?thesis using ok by (intro exI [of _ ?t]) (simp only: insert_absorb simp_thms)
  qed
qed

lemma wf_add_input: "\<lbrakk>add_input d n = Inr e; wf_db d\<rbrakk> \<Longrightarrow> wf_db e"
proof -
  assume res: "add_input d n = Inr e" and wf: "wf_db d"
  from add_input_Inr [OF this] obtain t where t: "e = d\<lparr>inputs := t\<rparr>" "has_id t_txnID (ni_txnID n) (transactions d)"
    "has_id o_outID (ni_outID n) (outputs d)" "table_ok i_inID input_key t"
    "\<forall>r\<in>set (rows t). if input_key r = (ni_txnID n, ni_inIndex n) then i_outID r = ni_outID n
         else r \<in> set (rows (inputs d))" by blast
  have "input_refs d r" if "r \<in> set (rows t)" for r
    using t(2,3) bspec [OF t(5) that] wf_refs(3) [OF wf] by (auto simp: input_refs_def split: if_splits)
  then show ?thesis unfolding t(1) using wf t(4) by (rule wf_replace_inputs [rotated -1])
qed

lemma wf_addInputs [wf_intros]: "\<lbrakk>addInputs ins d = Inr e; wf_db d\<rbrakk> \<Longrightarrow> wf_db e"
  unfolding addInputs_def by (erule foldE_inv) (auto intro: wf_add_input)

text \<open>The output the last entry for a key asks for.\<close>

definition last_entry :: "new_input list \<Rightarrow> nat \<times> int \<Rightarrow> nat option" where
  "last_entry ins k = map_of (rev (map (\<lambda>n. ((ni_txnID n, ni_inIndex n), ni_outID n)) ins)) k"

lemma last_entry_Cons:
  "last_entry (n # ins) k = (case last_entry ins k of
     Some v \<Rightarrow> Some v | None \<Rightarrow> if k = (ni_txnID n, ni_inIndex n) then Some (ni_outID n) else None)"
  by (auto simp: last_entry_def map_add_def split: option.splits)

lemma addInputs_Inr:
  assumes "addInputs ins d = Inr e" and "wf_db d"
  shows "(\<exists>t. e = d\<lparr>inputs := t\<rparr>)
    \<and> input_key ` set (rows (inputs e)) = input_key ` set (rows (inputs d)) \<union> {k. last_entry ins k \<noteq> None}
    \<and> (\<forall>r\<in>set (rows (inputs e)). case last_entry ins (input_key r) of
          Some v \<Rightarrow> i_outID r = v | None \<Rightarrow> r \<in> set (rows (inputs d)))"
  using assms unfolding addInputs_def
proof (induction ins arbitrary: d)
  case Nil
  then show ?case by (auto simp: last_entry_def intro: exI [of _ "inputs d"])
next
  case (Cons n ins)
  then obtain d1 where d1: "add_input d n = Inr d1" "foldE add_input d1 ins = Inr e"
    by (auto split: sum.splits)
  from add_input_Inr [OF d1(1) Cons.prems(2)] obtain t where t: "d1 = d\<lparr>inputs := t\<rparr>"
    "input_key ` set (rows t) = insert (ni_txnID n, ni_inIndex n) (input_key ` set (rows (inputs d)))"
    "\<And>r. r \<in> set (rows t) \<Longrightarrow> if input_key r = (ni_txnID n, ni_inIndex n) then i_outID r = ni_outID n
         else r \<in> set (rows (inputs d))" by blast
  note IH = Cons.IH [OF d1(2) wf_add_input [OF d1(1) Cons.prems(2)]]
  obtain u where u: "e = d\<lparr>inputs := u\<rparr>" using IH t(1) by auto
  have "input_key ` set (rows (inputs e)) =
      input_key ` set (rows (inputs d)) \<union> {k. last_entry (n # ins) k \<noteq> None}"
    using IH t(2) by (auto simp: t(1) last_entry_Cons split: option.splits if_splits)
  moreover have "case last_entry (n # ins) (input_key r) of
      Some v \<Rightarrow> i_outID r = v | None \<Rightarrow> r \<in> set (rows (inputs d))" if "r \<in> set (rows (inputs e))" for r
  proof (cases "last_entry ins (input_key r)")
    case None
    then have "r \<in> set (rows t)" using IH that t(1) by fastforce
    then show ?thesis using None t(3) [of r] by (auto simp: last_entry_Cons split: if_splits)
  next
    case (Some v)
    then show ?thesis using IH that by (fastforce simp: last_entry_Cons)
  qed
  ultimately show ?case using u by blast
qed

lemma addInputs_fails_iff:
  assumes "wf_db d"
  shows "(\<exists>x. addInputs ins d = Inl x) \<longleftrightarrow>
    (\<exists>n\<in>set ins. \<not> has_id t_txnID (ni_txnID n) (transactions d) \<or> \<not> has_id o_outID (ni_outID n) (outputs d))"
  using assms unfolding addInputs_def
proof (induction ins arbitrary: d)
  case (Cons n ins)
  show ?case
  proof (cases "add_input d n")
    case (Inl x)
    then show ?thesis by (auto simp: add_input_def split: if_splits option.splits prod.splits)
  next
    case (Inr d1)
    then obtain t where "d1 = d\<lparr>inputs := t\<rparr>" "has_id t_txnID (ni_txnID n) (transactions d)"
      "has_id o_outID (ni_outID n) (outputs d)"
      using add_input_Inr [OF Inr Cons.prems] by blast
    then show ?thesis using Cons.IH [OF wf_add_input [OF Inr Cons.prems]] Inr by auto
  qed
qed simp

text \<open>
  A successful bulk insertion of inputs leaves every input given with the output of the last
  entry for its transaction and position, and every other input as it was; it fails, leaving the
  database as it was, exactly when an entry refers to a transaction or an output that is unknown.
\<close>

theorem addInputs_spec:
  assumes "wf_db d"
  shows "case addInputs ins d of
      Inl x \<Rightarrow> x = Sql \<and> (\<exists>n\<in>set ins. \<not> has_id t_txnID (ni_txnID n) (transactions d)
        \<or> \<not> has_id o_outID (ni_outID n) (outputs d))
    | Inr e \<Rightarrow> wf_db e \<and> (\<forall>n\<in>set ins. \<exists>r\<in>set (rows (inputs e)). input_key r = (ni_txnID n, ni_inIndex n))
        \<and> (\<forall>r\<in>set (rows (inputs e)). case last_entry ins (input_key r) of
             Some v \<Rightarrow> i_outID r = v | None \<Rightarrow> r \<in> set (rows (inputs d)))
        \<and> outputs e = outputs d \<and> transactions e = transactions d"
proof (cases "addInputs ins d")
  case (Inl x)
  have "foldE add_input d ins = Inl x \<Longrightarrow> x = Sql" for d
    by (induction ins arbitrary: d)
      (auto simp: add_input_def split: if_splits sum.splits option.splits prod.splits)
  then have "x = Sql" using Inl by (simp add: addInputs_def)
  moreover have "\<exists>n\<in>set ins. \<not> has_id t_txnID (ni_txnID n) (transactions d) \<or> \<not> has_id o_outID (ni_outID n) (outputs d)"
    using addInputs_fails_iff [OF assms, of ins] Inl by blast
  ultimately show ?thesis using Inl by simp
next
  case (Inr e)
  note facts = addInputs_Inr [OF Inr assms]
  have key: "last_entry ins (ni_txnID n, ni_inIndex n) \<noteq> None" if "n \<in> set ins" for n
    using that by (auto simp: last_entry_def map_of_eq_None_iff image_iff)
  have "\<exists>r\<in>set (rows (inputs e)). input_key r = (ni_txnID n, ni_inIndex n)" if "n \<in> set ins" for n
  proof -
    have "(ni_txnID n, ni_inIndex n) \<in> input_key ` set (rows (inputs e))"
      using facts key [OF that] by blast
    then show ?thesis by auto
  qed
  moreover obtain t where "e = d\<lparr>inputs := t\<rparr>" using facts by blast
  ultimately show ?thesis using Inr facts wf_addInputs [OF Inr assms] by simp
qed

section \<open>Blocks\<close>

record new_block =
  nb_blockHash :: string
  nb_blockParent :: "nat option"
  nb_blockHeight :: int
  nb_blockTime :: int

definition mk_block :: "new_block \<Rightarrow> nat \<Rightarrow> block_row" where
  "mk_block n i =
     \<lparr>b_blockID = i, b_blockHash = nb_blockHash n, b_blockParent = nb_blockParent n,
      b_blockHeight = nb_blockHeight n, b_blockTime = nb_blockTime n\<rparr>"

definition block :: "string \<Rightarrow> db \<Rightarrow> block_row option" where
  "block hash d = find_by b_blockHash hash (rows (blocks d))"

definition getBlockByHash :: "string \<Rightarrow> db \<Rightarrow> block_row option" where
  "getBlockByHash hash d = block hash d"

text \<open>\<open>INSERT IGNORE\<close> also skips a row whose parent is unknown: then the look-up finds nothing.\<close>

definition addBlock :: "new_block \<Rightarrow> db \<Rightarrow> (nat \<times> db) result" where
  "addBlock n d =
     (case block (nb_blockHash n) d of
        Some b \<Rightarrow> Inr (b_blockID b, d)
      | None \<Rightarrow>
          if nullable_ref b_blockID (blocks d) (nb_blockParent n)
          then (let (i, t) = tbl_add (mk_block n) (blocks d) in Inr (i, d\<lparr>blocks := t\<rparr>))
          else Inl (Str ''Problem met while trying to insert a new block''))"

definition getBlocksByHashes :: "string list \<Rightarrow> db \<Rightarrow> block_row list" where
  "getBlocksByHashes hashes d =
     (if hashes = [] then [] else filter (\<lambda>b. b_blockHash b \<in> set hashes) (rows (blocks d)))"

definition getBlocksByHeight :: "int \<Rightarrow> db \<Rightarrow> block_row list" where
  "getBlocksByHeight height d = filter (\<lambda>b. b_blockHeight b = height) (rows (blocks d))"

definition deleteBlocksAfterHeight :: "int \<Rightarrow> db \<Rightarrow> db" where
  "deleteBlocksAfterHeight height d =
     cascade (d\<lparr>blocks := tbl_delete (\<lambda>b. height < b_blockHeight b) (blocks d)\<rparr>)"

definition getLastBlocks :: "nat \<Rightarrow> db \<Rightarrow> block_row list" where
  "getLastBlocks n d = take n (sort_key (\<lambda>b. - b_blockHeight b) (rows (blocks d)))"

text \<open>The id and the height of the last block: no id and height zero in an empty table.\<close>

definition getHighestBlock :: "db \<Rightarrow> nat option \<times> int" where
  "getHighestBlock d =
     (case getLastBlocks 1 d of [] \<Rightarrow> (None, 0) | b # _ \<Rightarrow> (Some (b_blockID b), b_blockHeight b))"

definition setBlockParent :: "string \<Rightarrow> nat option \<Rightarrow> db \<Rightarrow> db result" where
  "setBlockParent hash blockID d =
     (if block hash d \<noteq> None \<and> \<not> nullable_ref b_blockID (blocks d) blockID then Inl Sql
      else Inr (d\<lparr>blocks := tbl_update (\<lambda>b. b_blockHash b = hash) (\<lambda>b. b\<lparr>b_blockParent := blockID\<rparr>) (blocks d)\<rparr>))"

lemma wf_addBlock [wf_intros]: "\<lbrakk>addBlock n d = Inr (i, e); wf_db d\<rbrakk> \<Longrightarrow> wf_db e"
proof -
  assume res: "addBlock n d = Inr (i, e)" and wf: "wf_db d"
  show ?thesis
  proof (cases "block (nb_blockHash n) d")
    case None
    then have e: "e = d\<lparr>blocks := snd (tbl_add (mk_block n) (blocks d))\<rparr>"
      and ref: "nullable_ref b_blockID (blocks d) (nb_blockParent n)"
      using res by (auto simp: addBlock_def tbl_add_def split: if_splits)
    have grow: "has_id b_blockID i (blocks d) \<Longrightarrow> has_id b_blockID i (snd (tbl_add (mk_block n) (blocks d)))" for i
      by (simp add: has_id_add)
    show ?thesis unfolding e
    proof (rule wf_replace_blocks [OF wf _ _ grow])
      show "table_ok b_blockID b_blockHash (snd (tbl_add (mk_block n) (blocks d)))"
        using None by (intro table_ok_add) (auto simp: wf_tables [OF wf] mk_block_def block_def find_by_None_iff)
      show "nullable_ref b_blockID (snd (tbl_add (mk_block n) (blocks d))) (b_blockParent r)"
        if "r \<in> set (rows (snd (tbl_add (mk_block n) (blocks d))))" for r
        using that ref wf_refs(5) [OF wf]
        by (auto simp: mk_block_def intro!: nullable_ref_mono [OF _ grow])
    qed
  next
    case (Some b)
    then show ?thesis using res wf by (simp add: addBlock_def)
  qed
qed

lemma wf_deleteBlocksAfterHeight [wf_intros]: "wf_db d \<Longrightarrow> wf_db (deleteBlocksAfterHeight height d)"
  unfolding deleteBlocksAfterHeight_def
  by (rule wf_cascade) (simp add: wf_db_def keys_ok_def table_ok_delete)

lemma wf_setBlockParent [wf_intros]: "\<lbrakk>setBlockParent hash i d = Inr e; wf_db d\<rbrakk> \<Longrightarrow> wf_db e"
  by (auto simp: setBlockParent_def block_def find_by_None_iff wf_tables intro!: wf_replace_blocks
      dest: wf_refs(5) split: if_splits)

text \<open>The last block is a highest one.\<close>

lemma sort_key_hd:
  assumes "xs \<noteq> []"
  shows "\<exists>m ys. sort_key f xs = m # ys \<and> m \<in> set xs \<and> (\<forall>x\<in>set xs. f m \<le> f x)"
proof -
  obtain m ys where s: "sort_key f xs = m # ys" using assms by (cases "sort_key f xs") (auto dest: arg_cong [of _ _ set])
  have "sorted (map f (m # ys))" and "set (m # ys) = set xs"
    using sorted_sort_key [of f xs] set_sort [of f xs] s by simp_all
  then show ?thesis using s by (intro exI [of _ m] exI [of _ ys]) auto
qed

lemma getHighestBlock_cases:
  obtains (empty) "rows (blocks d) = []" "getHighestBlock d = (None, 0)"
  | (top) b where "b \<in> set (rows (blocks d))" "getHighestBlock d = (Some (b_blockID b), b_blockHeight b)"
      "\<And>c. c \<in> set (rows (blocks d)) \<Longrightarrow> b_blockHeight c \<le> b_blockHeight b"
proof (cases "rows (blocks d) = []")
  case True
  then show ?thesis using that(1) by (simp add: getHighestBlock_def getLastBlocks_def)
next
  case False
  obtain b bs where "sort_key (\<lambda>b. - b_blockHeight b) (rows (blocks d)) = b # bs" "b \<in> set (rows (blocks d))"
    "\<forall>c\<in>set (rows (blocks d)). - b_blockHeight b \<le> - b_blockHeight c"
    using sort_key_hd [OF False, of "\<lambda>b. - b_blockHeight b"] by blast
  then show ?thesis using that(2) [of b] by (simp add: getHighestBlock_def getLastBlocks_def)
qed

text \<open>
  Deleting the blocks above a height unconfirms exactly the transactions those blocks
  confirmed, leaves every other row of the transactions as it was, touches no output, input or
  address, keeps the blocks at or below the height, and the highest block is then not above the
  height.
\<close>

theorem deleteBlocksAfterHeight_spec:
  assumes "wf_db d" and "0 \<le> height"
  defines "e \<equiv> deleteBlocksAfterHeight height d"
  shows "wf_db e
    \<and> rows (transactions e) = map (\<lambda>t. if confirmed_after height d t then t\<lparr>t_blockID := None\<rparr> else t)
         (rows (transactions d))
    \<and> outputs e = outputs d \<and> inputs e = inputs d \<and> addresses e = addresses d
    \<and> map b_blockID (rows (blocks e)) = map b_blockID (filter (\<lambda>b. b_blockHeight b \<le> height) (rows (blocks d)))
    \<and> snd (getHighestBlock e) \<le> height \<and> getTransactionIdsConfirmedAfterHeight height e = []"
proof -
  define t1 where "t1 = tbl_delete (\<lambda>b. height < b_blockHeight b) (blocks d)"
  have e: "e = cascade (d\<lparr>blocks := t1\<rparr>)" by (simp add: e_def deleteBlocksAfterHeight_def t1_def)
  have blk: "blocks e = tbl_update (\<lambda>_. True) (\<lambda>r. r\<lparr>b_blockParent := null_dangling b_blockID t1 (b_blockParent r)\<rparr>) t1"
    by (simp add: e cascade_def Let_def)
  have "null_dangling b_blockID t1 (t_blockID t) = (if confirmed_after height d t then None else t_blockID t)"
    if t: "t \<in> set (rows (transactions d))" for t
  proof (cases "t_blockID t")
    case (Some b)
    then obtain k where k: "k \<in> set (rows (blocks d))" "b_blockID k = b"
      using wf_refs(4) [OF assms(1) t] by (auto simp: nullable_ref_def has_id_iff)
    have only: "k' = k" if "k' \<in> set (rows (blocks d))" "b_blockID k' = b" for k'
      using table_pk_inj [OF wf_tables(2) [OF assms(1)]] that k by blast
    have "has_id b_blockID b t1 \<longleftrightarrow>
        (\<exists>k'\<in>set (rows (blocks d)). b_blockID k' = b \<and> \<not> height < b_blockHeight k')"
      by (auto simp: t1_def has_id_iff image_iff)
    then have "has_id b_blockID b t1 \<longleftrightarrow> \<not> height < b_blockHeight k" using k only by blast
    moreover have "confirmed_after height d t \<longleftrightarrow>
        (\<exists>k'\<in>set (rows (blocks d)). b_blockID k' = b \<and> height < b_blockHeight k')"
      by (simp add: confirmed_after_def Some)
    then have "confirmed_after height d t \<longleftrightarrow> height < b_blockHeight k" using k only by blast
    ultimately show ?thesis using Some by (simp add: null_dangling_def nullable_ref_def)
  qed (simp add: null_dangling_def nullable_ref_def confirmed_after_def)
  then have tx: "rows (transactions e) =
      map (\<lambda>t. if confirmed_after height d t then t\<lparr>t_blockID := None\<rparr> else t) (rows (transactions d))"
    by (auto simp: e cascade_def Let_def)
  have refs: "\<forall>r\<in>set (rows (hd_addresses d)). hd_address_refs d r"
    "\<forall>r\<in>set (rows (outputs d)). output_refs d r" "\<forall>r\<in>set (rows (inputs d)). input_refs d r"
    using wf_refs(1-3) [OF assms(1)] by blast+
  have tabs: "outputs e = outputs d" "inputs e = inputs d" "addresses e = addresses d"
    using refs by (simp_all add: e cascade_def Let_def hd_address_refs_def output_refs_def input_refs_def
        tbl_delete_def filter_id_conv)
  have ids: "map b_blockID (rows (blocks e)) = map b_blockID (filter (\<lambda>b. b_blockHeight b \<le> height) (rows (blocks d)))"
    by (simp add: blk t1_def not_less comp_def)
  have low: "b_blockHeight b \<le> height" if "b \<in> set (rows (blocks e))" for b
    using that by (auto simp: blk t1_def)
  have "snd (getHighestBlock e) \<le> height"
    by (rule getHighestBlock_cases [of e]) (use low assms(2) in auto)
  moreover have "getTransactionIdsConfirmedAfterHeight height e = []"
    using low by (fastforce simp: getTransactionIdsConfirmedAfterHeight_def confirmed_after_def filter_empty_conv
        split: option.splits)
  moreover have "wf_db e" unfolding e_def by (rule wf_deleteBlocksAfterHeight [OF assms(1)])
  ultimately show ?thesis using tx tabs ids by blast
qed

text \<open>On the example: the input of \<open>t2\<close> moved to another output, and the second block deleted.\<close>

lemma addInputs_spec_witness:
  "\<exists>e. addInputs [\<lparr>ni_txnID = 2, ni_outID = 2, ni_inIndex = 0, ni_inSequence = 0\<rparr>] demo_db = Inr e
     \<and> wf_db e \<and> (\<forall>r\<in>set (rows (inputs e)). i_txnID r = 2 \<and> i_inIndex r = 0 \<longrightarrow> i_outID r = 2)"
proof -
  let ?n = "\<lparr>ni_txnID = 2, ni_outID = 2, ni_inIndex = 0, ni_inSequence = 0\<rparr>"
  have "\<exists>e. addInputs [?n] demo_db = Inr e"
    by (simp add: addInputs_def add_input_def demo_db_def has_id_def tbl_insert_def)
  then obtain e where e: "addInputs [?n] demo_db = Inr e" by blast
  have "last_entry [?n] (2, 0) = Some 2" by (simp add: last_entry_def)
  then show ?thesis
    using addInputs_spec [OF wf_demo_db, of "[?n]"] e by (intro exI [of _ e]) fastforce
qed

lemma deleteBlocksAfterHeight_spec_witness:
  "snd (getHighestBlock (deleteBlocksAfterHeight 1 demo_db)) \<le> 1
   \<and> map t_blockID (rows (transactions (deleteBlocksAfterHeight 1 demo_db))) = [Some 1, None]"
  using deleteBlocksAfterHeight_spec [OF wf_demo_db, of 1]
  by (simp add: demo_db_def confirmed_after_def)

end
