(* ===== verification/Db_Scheduled.thy ===== *)
theory Db_Scheduled
  imports Db_Transactions
begin

text \<open>
  The operations of \<^verbatim>\<open>lib/db/mysql-db-wrapper.ts\<close> on scheduled transactions and API keys, its
  maintenance operations, and the invariant of the whole wrapper: any sequence of its operations
  keeps the constraints of the schema.
\<close>

section \<open>Scheduled transactions\<close>

record new_scheduled =
  ns_txid :: string
  ns_created :: "int option"
  ns_rawTx :: string
  ns_parentId :: "nat option"
  ns_parentTxid :: "string option"
  ns_delay :: int
  ns_trigger :: int

definition mk_scheduled :: "int \<Rightarrow> new_scheduled \<Rightarrow> nat \<Rightarrow> scheduled_row" where
  "mk_scheduled now n i =
     \<lparr>s_schID = i, s_schTxid = ns_txid n, s_schCreated = created_or now (ns_created n),
      s_schRaw = ns_rawTx n, s_schParentID = ns_parentId n, s_schParentTxid = ns_parentTxid n,
      s_schDelay = ns_delay n, s_schTrigger = ns_trigger n\<rparr>"

text \<open>A plain \<open>INSERT\<close>: a known txid or an unknown parent is an error of the server.\<close>

definition addScheduledTransaction :: "int \<Rightarrow> new_scheduled \<Rightarrow> db \<Rightarrow> (nat \<times> db) result" where
  "addScheduledTransaction now n d =
     (if find_by s_schTxid (ns_txid n) (rows (scheduled d)) \<noteq> None
         \<or> \<not> nullable_ref s_schID (scheduled d) (ns_parentId n) then Inl Sql
      else let (i, t) = tbl_add (mk_scheduled now n) (scheduled d) in Inr (i, d\<lparr>scheduled := t\<rparr>))"

text \<open>\<open>ORDER BY schTrigger, schCreated\<close>.\<close>

definition getScheduledTransactions :: "db \<Rightarrow> scheduled_row list" where
  "getScheduledTransactions d = sort_key s_schTrigger (sort_key s_schCreated (rows (scheduled d)))"

definition getScheduledTransactionId :: "string \<Rightarrow> db \<Rightarrow> nat option" where
  "getScheduledTransactionId txid d = map_option s_schID (find_by s_schTxid txid (rows (scheduled d)))"

definition deleteScheduledTransaction :: "string \<Rightarrow> db \<Rightarrow> db" where
  "deleteScheduledTransaction txid d =
     cascade (d\<lparr>scheduled := tbl_delete (\<lambda>r. s_schTxid r = txid) (scheduled d)\<rparr>)"

definition getActivatedScheduledTransactions :: "int \<Rightarrow> db \<Rightarrow> scheduled_row list" where
  "getActivatedScheduledTransactions height d =
     filter (\<lambda>r. s_schTrigger r \<le> height \<and> s_schParentID r = None) (rows (scheduled d))"

definition getNextScheduledTransactions :: "nat \<Rightarrow> db \<Rightarrow> scheduled_row list" where
  "getNextScheduledTransactions parentId d =
     filter (\<lambda>r. s_schParentID r = Some parentId) (rows (scheduled d))"

definition updateTriggerScheduledTransaction :: "nat \<Rightarrow> int \<Rightarrow> db \<Rightarrow> db" where
  "updateTriggerScheduledTransaction i trigger d =
     d\<lparr>scheduled := tbl_update (\<lambda>r. s_schID r = i) (\<lambda>r. r\<lparr>s_schTrigger := trigger\<rparr>) (scheduled d)\<rparr>"

lemma wf_addScheduledTransaction [wf_intros]:
  "\<lbrakk>addScheduledTransaction now n d = Inr (i, e); wf_db d\<rbrakk> \<Longrightarrow> wf_db e"
proof -
  assume res: "addScheduledTransaction now n d = Inr (i, e)" and wf: "wf_db d"
  then have e: "e = d\<lparr>scheduled := snd (tbl_add (mk_scheduled now n) (scheduled d))\<rparr>"
    and new: "find_by s_schTxid (ns_txid n) (rows (scheduled d)) = None"
    and ref: "nullable_ref s_schID (scheduled d) (ns_parentId n)"
    by (auto simp: addScheduledTransaction_def tbl_add_def split: if_splits)
  have grow: "has_id s_schID i (scheduled d) \<Longrightarrow> has_id s_schID i (snd (tbl_add (mk_scheduled now n) (scheduled d)))" for i
    by (simp add: has_id_add)
  show ?thesis unfolding e
  proof (rule wf_replace_scheduled [OF wf])
    show "table_ok s_schID s_schTxid (snd (tbl_add (mk_scheduled now n) (scheduled d)))"
      using new by (intro table_ok_add) (auto simp: wf_tables [OF wf] mk_scheduled_def find_by_None_iff)
    show "nullable_ref s_schID (snd (tbl_add (mk_scheduled now n) (scheduled d))) (s_schParentID r)"
      if "r \<in> set (rows (snd (tbl_add (mk_scheduled now n) (scheduled d))))" for r
      using that ref wf_refs(6) [OF wf]
      by (auto simp: mk_scheduled_def intro!: nullable_ref_mono [OF _ grow])
  qed
qed

lemma wf_deleteScheduledTransaction [wf_intros]: "wf_db d \<Longrightarrow> wf_db (deleteScheduledTransaction txid d)"
  unfolding deleteScheduledTransaction_def
  by (rule wf_cascade) (simp add: wf_db_def keys_ok_def table_ok_delete)

lemma wf_updateTriggerScheduledTransaction [wf_intros]:
  "wf_db d \<Longrightarrow> wf_db (updateTriggerScheduledTransaction i trigger d)"
  unfolding updateTriggerScheduledTransaction_def
  by (rule wf_replace_scheduled) (auto simp: wf_tables dest: wf_refs(6))

section \<open>API keys\<close>

definition getApiKeyID :: "string \<Rightarrow> db \<Rightarrow> nat option" where
  "getApiKeyID apikey d = map_option k_apikeyID (find_by k_apikey apikey (rows (api_keys d)))"

definition getApiKeys :: "db \<Rightarrow> api_key_row list" where
  "getApiKeys d = rows (api_keys d)"

definition getActiveApiKeys :: "int \<Rightarrow> db \<Rightarrow> api_key_row list" where
  "getActiveApiKeys now d = filter (\<lambda>r. k_active r \<and> now < k_expiresAt r) (rows (api_keys d))"

text \<open>
  \<open>same\<close> is equality in the collation of the column. A value that is not a string is \<open>None\<close>.
\<close>

definition isApiKeyActive :: "(string \<Rightarrow> string \<Rightarrow> bool) \<Rightarrow> int \<Rightarrow> string option \<Rightarrow> db \<Rightarrow> bool" where
  "isApiKeyActive same now apiKey d =
     (case apiKey of
        None \<Rightarrow> False
      | Some k \<Rightarrow>
          if length k = 0 then False
          else case take 1 (filter (\<lambda>r. same (k_apikey r) k \<and> k_active r \<and> now < k_expiresAt r) (rows (api_keys d))) of
                 [r] \<Rightarrow> k_apikey r = k
               | _ \<Rightarrow> False)"

definition createApiKey :: "string \<Rightarrow> string \<Rightarrow> int \<Rightarrow> db \<Rightarrow> db result" where
  "createApiKey label apikey expiresAt d =
     (case tbl_insert k_apikey apikey (\<lambda>i. \<lparr>k_apikeyID = i, k_label = label, k_apikey = apikey,
             k_active = True, k_expiresAt = expiresAt\<rparr>) (api_keys d) of
        (None, _) \<Rightarrow> Inl Sql
      | (Some _, t) \<Rightarrow> Inr (d\<lparr>api_keys := t\<rparr>))"

definition updateApiKey :: "nat \<Rightarrow> string \<Rightarrow> bool \<Rightarrow> int \<Rightarrow> db \<Rightarrow> db" where
  "updateApiKey i label active expiresAt d =
     d\<lparr>api_keys := tbl_update (\<lambda>r. k_apikeyID r = i)
         (\<lambda>r. r\<lparr>k_label := label, k_active := active, k_expiresAt := expiresAt\<rparr>) (api_keys d)\<rparr>"

definition deleteApiKey :: "string \<Rightarrow> db \<Rightarrow> db" where
  "deleteApiKey apikey d = d\<lparr>api_keys := tbl_delete (\<lambda>r. k_apikey r = apikey) (api_keys d)\<rparr>"

lemma wf_createApiKey [wf_intros]: "\<lbrakk>createApiKey label apikey expiresAt d = Inr e; wf_db d\<rbrakk> \<Longrightarrow> wf_db e"
proof -
  assume res: "createApiKey label apikey expiresAt d = Inr e" and wf: "wf_db d"
  let ?mk = "\<lambda>i. \<lparr>k_apikeyID = i, k_label = label, k_apikey = apikey, k_active = True, k_expiresAt = expiresAt\<rparr>"
  have "table_ok k_apikeyID k_apikey (snd (tbl_insert k_apikey apikey ?mk (api_keys d)))"
    by (rule table_ok_insert) (simp_all add: wf_tables [OF wf])
  moreover have "e = d\<lparr>api_keys := snd (tbl_insert k_apikey apikey ?mk (api_keys d))\<rparr>"
    using res by (auto simp: createApiKey_def split: prod.splits option.splits)
  ultimately show ?thesis using wf by (simp add: wf_replace_api_keys)
qed

lemma wf_updateApiKey [wf_intros]: "wf_db d \<Longrightarrow> wf_db (updateApiKey i label active expiresAt d)"
  unfolding updateApiKey_def by (rule wf_replace_api_keys) (auto simp: wf_tables)

lemma wf_deleteApiKey [wf_intros]: "wf_db d \<Longrightarrow> wf_db (deleteApiKey apikey d)"
  unfolding deleteApiKey_def by (rule wf_replace_api_keys) (auto simp: wf_tables)

text \<open>
  A key is accepted exactly when that very key, in its letter case, is stored, active and not
  expired: whatever the collation of the column identifies, as long as the unique index of the
  column is unique in it.
\<close>

theorem isApiKeyActive_spec:
  assumes "\<And>k. same k k"
    and "\<And>q r. \<lbrakk>q \<in> set (rows (api_keys d)); r \<in> set (rows (api_keys d)); same (k_apikey q) k; same (k_apikey r) k\<rbrakk> \<Longrightarrow> q = r"
  shows "isApiKeyActive same now (Some k) d \<longleftrightarrow>
    k \<noteq> [] \<and> (\<exists>r\<in>set (rows (api_keys d)). k_apikey r = k \<and> k_active r \<and> now < k_expiresAt r)"
proof -
  let ?hits = "filter (\<lambda>r. same (k_apikey r) k \<and> k_active r \<and> now < k_expiresAt r) (rows (api_keys d))"
  show ?thesis
  proof (cases ?hits)
    case Nil
    then show ?thesis using assms(1) by (auto simp: isApiKeyActive_def filter_empty_conv)
  next
    case (Cons r rs)
    then have "r \<in> set ?hits" by simp
    then have r: "r \<in> set (rows (api_keys d))" "same (k_apikey r) k" "k_active r" "now < k_expiresAt r"
      by simp_all
    then have "q = r" if "q \<in> set (rows (api_keys d))" "k_apikey q = k" for q
      using assms(2) [of q r] assms(1) [of k] that by auto
    then show ?thesis using r Cons by (auto simp: isApiKeyActive_def)
  qed
qed

definition demo_keys :: db where
  "demo_keys = empty_db\<lparr>api_keys := \<lparr>rows = [\<lparr>k_apikeyID = 1, k_label = ''l'', k_apikey = ''Key'',
     k_active = True, k_expiresAt = 100\<rparr>], next_id = 2\<rparr>\<rparr>"

lemma isApiKeyActive_spec_witness:
  "let same = (\<lambda>a b. map (\<lambda>c. if c = CHR ''k'' then CHR ''K'' else c) a = map (\<lambda>c. if c = CHR ''k'' then CHR ''K'' else c) b)
   in isApiKeyActive same 50 (Some ''Key'') demo_keys \<and> \<not> isApiKeyActive same 50 (Some ''key'') demo_keys
    \<and> \<not> isApiKeyActive same 100 (Some ''Key'') demo_keys"
proof -
  let ?u = "map (\<lambda>c. if c = CHR ''k'' then CHR ''K'' else c)"
  have "isApiKeyActive (\<lambda>a b. ?u a = ?u b) now (Some k) demo_keys \<longleftrightarrow>
      k \<noteq> [] \<and> (\<exists>r\<in>set (rows (api_keys demo_keys)). k_apikey r = k \<and> k_active r \<and> now < k_expiresAt r)" for now k
    by (rule isApiKeyActive_spec) (auto simp: demo_keys_def)
  then show ?thesis by (simp add: demo_keys_def)
qed

section \<open>Maintenance\<close>

definition setHDTime :: "nat \<Rightarrow> int \<Rightarrow> db \<Rightarrow> db" where
  "setHDTime hdID created d =
     d\<lparr>hd_accounts := tbl_update (\<lambda>r. h_hdID r = hdID) (\<lambda>r. r\<lparr>h_hdCreated := created\<rparr>) (hd_accounts d)\<rparr>"

definition setTransactionTime :: "nat \<Rightarrow> int \<Rightarrow> db \<Rightarrow> db" where
  "setTransactionTime txnID created d =
     d\<lparr>transactions := tbl_update (\<lambda>r. t_txnID r = txnID) (\<lambda>r. r\<lparr>t_txnCreated := created\<rparr>) (transactions d)\<rparr>"

definition updateInputSequence :: "nat \<Rightarrow> int \<Rightarrow> db \<Rightarrow> db" where
  "updateInputSequence inID seq d =
     d\<lparr>inputs := tbl_update (\<lambda>r. i_inID r = inID) (\<lambda>r. r\<lparr>i_inSequence := seq\<rparr>) (inputs d)\<rparr>"

definition updateOutputScript :: "nat \<Rightarrow> string \<Rightarrow> db \<Rightarrow> db" where
  "updateOutputScript outID script d =
     d\<lparr>outputs := tbl_update (\<lambda>r. o_outID r = outID) (\<lambda>r. r\<lparr>o_outScript := script\<rparr>) (outputs d)\<rparr>"

definition getOutputsWithoutScript :: "db \<Rightarrow> (string \<times> int \<times> nat) list" where
  "getOutputsWithoutScript d =
     take 100 (sort_key (\<lambda>(_, _, i). i)
       [(t_txnTxid t, o_outIndex o', o_outID o'). o' \<leftarrow> rows (outputs d), length (o_outScript o') = 0,
          t \<leftarrow> rows (transactions d), t_txnID t = o_txnID o'])"

definition getInvalidTxTimes :: "db \<Rightarrow> (nat \<times> int \<times> int) list" where
  "getInvalidTxTimes d =
     take 100 [(t_txnID t, t_txnCreated t, b_blockTime b). t \<leftarrow> rows (transactions d),
       b \<leftarrow> rows (blocks d), t_blockID t = Some (b_blockID b) \<and> b_blockTime b < t_txnCreated t]"

definition getInvalidAccountTimes :: "db \<Rightarrow> (nat \<times> int \<times> int) list" where
  "getInvalidAccountTimes d =
     take 100 (concat (map (\<lambda>h.
       case [t_txnCreated t. l \<leftarrow> rows (hd_addresses d), ha_hdID l = h_hdID h,
               a \<leftarrow> rows (addresses d), a_addrID a = ha_addrID l,
               o' \<leftarrow> rows (outputs d), o_addrID o' = ha_addrID l,
               t \<leftarrow> rows (transactions d), t_txnID t = o_txnID o' \<and> t_txnCreated t < h_hdCreated h] of
         [] \<Rightarrow> []
       | c # cs \<Rightarrow> [(h_hdID h, h_hdCreated h, foldl min c cs)]) (rows (hd_accounts d))))"

lemma wf_setHDTime [wf_intros]: "wf_db d \<Longrightarrow> wf_db (setHDTime i c d)"
  unfolding setHDTime_def by (rule wf_replace_hd_accounts) (auto simp: wf_tables)

lemma wf_setTransactionTime [wf_intros]: "wf_db d \<Longrightarrow> wf_db (setTransactionTime i c d)"
  unfolding setTransactionTime_def by (rule wf_update_transactions) (auto dest: wf_refs(4))

lemma wf_updateInputSequence [wf_intros]: "wf_db d \<Longrightarrow> wf_db (updateInputSequence i s d)"
  unfolding updateInputSequence_def
  by (rule wf_replace_inputs) (auto simp: wf_tables input_refs_def dest: wf_refs(3) [unfolded input_refs_def])

lemma wf_updateOutputScript [wf_intros]: "wf_db d \<Longrightarrow> wf_db (updateOutputScript i s d)"
  unfolding updateOutputScript_def
  by (rule wf_replace_outputs) (auto simp: wf_tables output_refs_def dest: wf_refs(2) [unfolded output_refs_def])

section \<open>The wrapper as a whole\<close>

inductive db_step :: "db \<Rightarrow> db \<Rightarrow> bool" where
  step_ensureAddressId: "db_step d (snd (ensureAddressId a d))"
| step_addAddresses: "db_step d (addAddresses as d)"
| step_ensureHDAccountId: "ensureHDAccountId now x ty d = Inr (i, e) \<Longrightarrow> db_step d e"
| step_setLockHDAccountType: "setLockHDAccountType x l d = Inr e \<Longrightarrow> db_step d e"
| step_deleteHDAccount: "db_step d (deleteHDAccount x d)"
| step_addAddressToHDAccount: "db_step d (snd (addAddressToHDAccount a x c i d))"
| step_addAddressesToHDAccount: "addAddressesToHDAccount x entries d = Inr e \<Longrightarrow> db_step d e"
| step_ensureTransactionId: "db_step d (snd (ensureTransactionId now txid d))"
| step_addTransactions: "db_step d (addTransactions now txs d)"
| step_confirmTransactions: "confirmTransactions txids b d = Inr e \<Longrightarrow> db_step d e"
| step_unconfirmTransactions: "db_step d (unconfirmTransactions txids d)"
| step_deleteTransactionsAfter: "db_step d (deleteTransactionsConfirmedAfterHeight height d)"
| step_deleteTransaction: "db_step d (deleteTransaction txid d)"
| step_deleteTransactionsByID: "db_step d (deleteTransactionsByID ids d)"
| step_addOutputs: "db_step d (addOutputs outs d)"
| step_addInputs: "addInputs ins d = Inr e \<Longrightarrow> db_step d e"
| step_addBlock: "addBlock b d = Inr (i, e) \<Longrightarrow> db_step d e"
| step_deleteBlocksAfterHeight: "db_step d (deleteBlocksAfterHeight height d)"
| step_setBlockParent: "setBlockParent hash p d = Inr e \<Longrightarrow> db_step d e"
| step_addScheduledTransaction: "addScheduledTransaction now n d = Inr (i, e) \<Longrightarrow> db_step d e"
| step_deleteScheduledTransaction: "db_step d (deleteScheduledTransaction txid d)"
| step_updateTrigger: "db_step d (updateTriggerScheduledTransaction i trigger d)"
| step_createApiKey: "createApiKey label key expires d = Inr e \<Longrightarrow> db_step d e"
| step_updateApiKey: "db_step d (updateApiKey i label active expires d)"
| step_deleteApiKey: "db_step d (deleteApiKey key d)"
| step_setHDTime: "db_step d (setHDTime i c d)"
| step_setTransactionTime: "db_step d (setTransactionTime i c d)"
| step_updateInputSequence: "db_step d (updateInputSequence i s d)"
| step_updateOutputScript: "db_step d (updateOutputScript i sc d)"

lemma wf_addAddressToHDAccount [wf_intros]:
  "wf_db d \<Longrightarrow> wf_db (snd (addAddressToHDAccount a x c i d))"
proof -
  assume wf: "wf_db d"
  obtain addrID e where e: "ensureAddressId a d = (addrID, e)" by fastforce
  then have wfe: "wf_db e" using address_ids.ensure_inv [OF wf, of a] by simp
  show ?thesis
  proof (cases "hd_account x e")
    case None
    then show ?thesis using e wfe by (simp add: addAddressToHDAccount_def getHDAccountId_def)
  next
    case (Some h)
    let ?t = "snd (tbl_insert link_key (h_hdID h, addrID) (new_link (h_hdID h) addrID c i) (hd_addresses e))"
    have "has_id a_addrID addrID (addresses e)"
      using address_ids.ensure_lookup [OF wf, of a] e
      by (auto simp: address_id_def has_id_iff dest: find_by_SomeD)
    moreover have "has_id h_hdID (h_hdID h) (hd_accounts e)"
      using Some by (auto simp: hd_account_def has_id_iff dest: find_by_SomeD)
    ultimately have "wf_db (e\<lparr>hd_addresses := ?t\<rparr>)"
      using wf_refs(1) [OF wfe]
      by (intro wf_replace_hd_addresses [OF wfe])
        (auto simp: wf_tables [OF wfe] new_link_def rows_insert hd_address_refs_def split: if_splits)
    then show ?thesis
      using e Some wfe by (auto simp: addAddressToHDAccount_def getHDAccountId_def split: prod.splits option.splits)
  qed
qed

lemma wf_ensureAddressId [wf_intros]: "wf_db d \<Longrightarrow> wf_db (snd (ensureAddressId a d))"
  by (rule address_ids.ensure_inv)

lemma wf_step: "\<lbrakk>db_step d e; wf_db d\<rbrakk> \<Longrightarrow> wf_db e"
  by (erule db_step.cases)
    (auto simp: deleteTransactionsConfirmedAfterHeight_def deleteTransaction_def deleteTransactionsByID_def
      intro: wf_intros)

interpretation db: step_invariant "\<lambda>d. d = empty_db" db_step wf_db
  by unfold_locales (auto simp: wf_empty_db intro: wf_step)

text \<open>
  The invariant \<open>wf_db\<close> holds of every database the proofs start from: from an empty database, whatever
  operations of the wrapper run and in whatever order, ids and unique columns stay unique and no row
  refers to a row that does not exist. The tables see to it, as the engine of the database does: an insertion is
  refused on a duplicate key or a missing row, and a deletion takes the rows that refer to it along.
\<close>

theorem wrapper_keeps_constraints:
  assumes "reach (\<lambda>d. d = empty_db) db_step d"
  shows "wf_db d"
  using assms by (rule db.inv_reach)

lemma wrapper_keeps_constraints_witness:
  "\<exists>d. reach (\<lambda>d. d = empty_db) db_step d \<and> length (rows (addresses d)) = 2 \<and> wf_db d"
proof -
  let ?d = "addAddresses [''a'', ''b'', ''a''] empty_db"
  have "reach (\<lambda>d. d = empty_db) db_step ?d"
    by (rule reach_step [where s = empty_db]) (simp_all add: reach_init step_addAddresses)
  moreover from this have "wf_db ?d" by (rule wrapper_keeps_constraints)
  moreover have "length (rows (addresses ?d)) = 2"
    by (simp add: db_eval)
  ultimately show ?thesis by blast
qed

end
