(* ===== verification/Db_History.thy ===== *)
theory Db_History
  imports Db_Transactions
begin

text \<open>
  The queries of \<^verbatim>\<open>lib/db/mysql-db-wrapper.ts\<close> on balances, unspent outputs and the history of
  addresses and accounts, and the assembly of history entries from their rows.
\<close>

section \<open>Balances and unspent outputs\<close>

definition unspent :: "db \<Rightarrow> output_row \<Rightarrow> bool" where
  "unspent d o' \<longleftrightarrow> (\<forall>i\<in>set (rows (inputs d)). i_outID i \<noteq> o_outID o')"

text \<open>\<open>None\<close> is \<open>null\<close>: no address was given. A sum over no rows is \<open>NULL\<close> and counts as 0.\<close>

definition getAddressBalance :: "string option \<Rightarrow> db \<Rightarrow> int option" where
  "getAddressBalance address d =
     (case address of
        None \<Rightarrow> None
      | Some address \<Rightarrow>
          Some (sum_list [o_outAmount o'. a \<leftarrow> rows (addresses d), a_addrAddress a = address,
                  o' \<leftarrow> rows (outputs d), o_addrID o' = a_addrID a \<and> unspent d o']))"

definition getHDAccountBalance :: "string \<Rightarrow> db \<Rightarrow> int" where
  "getHDAccountBalance xpub d =
     sum_list [o_outAmount o'. l \<leftarrow> rows (hd_addresses d),
       a \<leftarrow> rows (addresses d), ha_addrID l = a_addrID a,
       h \<leftarrow> rows (hd_accounts d), ha_hdID l = h_hdID h \<and> h_hdXpub h = xpub,
       o' \<leftarrow> rows (outputs d), o_addrID o' = a_addrID a \<and> unspent d o']"

record unspent_output =
  uo_txnTxid :: string
  uo_txnVersion :: int
  uo_txnLocktime :: int
  uo_blockHeight :: "int option"
  uo_outIndex :: int
  uo_outAmount :: int
  uo_outScript :: string
  uo_addrAddress :: string

definition block_of :: "db \<Rightarrow> transaction_row \<Rightarrow> block_row option" where
  "block_of d t = (case t_blockID t of None \<Rightarrow> None | Some b \<Rightarrow> find_by b_blockID b (rows (blocks d)))"

definition unspent_row :: "db \<Rightarrow> output_row \<Rightarrow> address_row \<Rightarrow> transaction_row \<Rightarrow> unspent_output" where
  "unspent_row d o' a t =
     \<lparr>uo_txnTxid = t_txnTxid t, uo_txnVersion = t_txnVersion t, uo_txnLocktime = t_txnLocktime t,
      uo_blockHeight = map_option b_blockHeight (block_of d t), uo_outIndex = o_outIndex o',
      uo_outAmount = o_outAmount o', uo_outScript = o_outScript o', uo_addrAddress = a_addrAddress a\<rparr>"

definition getUnspentOutputs :: "string list \<Rightarrow> db \<Rightarrow> unspent_output list" where
  "getUnspentOutputs addrs d =
     (if addrs = [] then []
      else [unspent_row d o' a t. o' \<leftarrow> rows (outputs d), unspent d o',
              a \<leftarrow> rows (addresses d), a_addrID a = o_addrID o' \<and> a_addrAddress a \<in> set addrs,
              t \<leftarrow> rows (transactions d), t_txnID t = o_txnID o'])"

text \<open>With the chain and the index of the address in the account.\<close>

definition getHDAccountUnspentOutputs :: "string \<Rightarrow> db \<Rightarrow> (unspent_output \<times> int \<times> int) list" where
  "getHDAccountUnspentOutputs xpub d =
     [(unspent_row d o' a t, ha_hdAddrChain l, ha_hdAddrIndex l).
        o' \<leftarrow> rows (outputs d), unspent d o',
        a \<leftarrow> rows (addresses d), a_addrID a = o_addrID o',
        l \<leftarrow> rows (hd_addresses d), ha_addrID l = o_addrID o',
        h \<leftarrow> rows (hd_accounts d), h_hdID h = ha_hdID l \<and> h_hdXpub h = xpub,
        t \<leftarrow> rows (transactions d), t_txnID t = o_txnID o']"

section \<open>Transactions of interest\<close>

definition txids_addr :: "string list \<Rightarrow> db \<Rightarrow> nat list" where
  "txids_addr addrs d =
     [o_txnID o'. o' \<leftarrow> rows (outputs d),
        a \<leftarrow> rows (addresses d), a_addrID a = o_addrID o' \<and> a_addrAddress a \<in> set addrs]
     @ [i_txnID i. i \<leftarrow> rows (inputs d), o' \<leftarrow> rows (outputs d), o_outID o' = i_outID i,
        a \<leftarrow> rows (addresses d), a_addrID a = o_addrID o' \<and> a_addrAddress a \<in> set addrs]"

definition txids_xpubs :: "string list \<Rightarrow> db \<Rightarrow> nat list" where
  "txids_xpubs xpubs d =
     [o_txnID o'. o' \<leftarrow> rows (outputs d),
        l \<leftarrow> rows (hd_addresses d), ha_addrID l = o_addrID o',
        h \<leftarrow> rows (hd_accounts d), h_hdID h = ha_hdID l \<and> h_hdXpub h \<in> set xpubs]
     @ [i_txnID i. i \<leftarrow> rows (inputs d), o' \<leftarrow> rows (outputs d), o_outID o' = i_outID i,
        l \<leftarrow> rows (hd_addresses d), ha_addrID l = o_addrID o',
        h \<leftarrow> rows (hd_accounts d), h_hdID h = ha_hdID l \<and> h_hdXpub h \<in> set xpubs]"

definition txids_history_xpub :: "string list \<Rightarrow> db \<Rightarrow> nat list" where
  "txids_history_xpub xpubs d =
     [o_txnID o'. o' \<leftarrow> rows (outputs d), a \<leftarrow> rows (addresses d), a_addrID a = o_addrID o',
        l \<leftarrow> rows (hd_addresses d), ha_addrID l = a_addrID a,
        h \<leftarrow> rows (hd_accounts d), h_hdID h = ha_hdID l \<and> h_hdXpub h \<in> set xpubs]
     @ [i_txnID i. i \<leftarrow> rows (inputs d), o' \<leftarrow> rows (outputs d), o_outID o' = i_outID i,
        a \<leftarrow> rows (addresses d), a_addrID a = o_addrID o',
        l \<leftarrow> rows (hd_addresses d), ha_addrID l = a_addrID a,
        h \<leftarrow> rows (hd_accounts d), h_hdID h = ha_hdID l \<and> h_hdXpub h \<in> set xpubs]"

text \<open>\<open>UNION\<close> removes duplicates.\<close>

definition countTransactions :: "string list \<Rightarrow> string list \<Rightarrow> db \<Rightarrow> int" where
  "countTransactions addrs xpubs d =
     int (length (filter (\<lambda>i. has_id t_txnID i (transactions d))
       (remdups ((if addrs = [] then [] else txids_addr addrs d) @ (if xpubs = [] then [] else txids_xpubs xpubs d)))))"

definition getAddressNbTransactions :: "string option \<Rightarrow> db \<Rightarrow> int option" where
  "getAddressNbTransactions address d = map_option (\<lambda>a. countTransactions [a] [] d) address"

definition getHDAccountNbTransactions :: "string \<Rightarrow> db \<Rightarrow> int" where
  "getHDAccountNbTransactions xpub d = countTransactions [] [xpub] d"

text \<open>\<open>None\<close> is the empty list the code returns when nothing was asked for.\<close>

definition getAddrAndXpubsNbTransactions :: "string list \<Rightarrow> string list \<Rightarrow> db \<Rightarrow> int option" where
  "getAddrAndXpubsNbTransactions addrs xpubs d =
     (if addrs = [] \<and> xpubs = [] then None else Some (countTransactions addrs xpubs d))"

section \<open>History\<close>

record page_row =
  pg_txnID :: nat
  pg_txnTxid :: string
  pg_txnVersion :: int
  pg_txnLocktime :: int
  pg_blockHeight :: "int option"
  pg_time :: int

definition FAR_FUTURE :: int where "FAR_FUTURE = 32503680000"

definition page_of :: "db \<Rightarrow> transaction_row \<Rightarrow> page_row" where
  "page_of d t =
     \<lparr>pg_txnID = t_txnID t, pg_txnTxid = t_txnTxid t, pg_txnVersion = t_txnVersion t,
      pg_txnLocktime = t_txnLocktime t, pg_blockHeight = map_option b_blockHeight (block_of d t),
      pg_time = min (t_txnCreated t) (case block_of d t of None \<Rightarrow> FAR_FUTURE | Some b \<Rightarrow> b_blockTime b)\<rparr>"

text \<open>\<open>ORDER BY time DESC, txnID DESC LIMIT skip, n\<close>.\<close>

definition history_page :: "string list \<Rightarrow> string list \<Rightarrow> nat \<Rightarrow> nat \<Rightarrow> db \<Rightarrow> page_row list" where
  "history_page addrs xpubs page n d =
     (let ids = (if addrs = [] then [] else txids_addr addrs d)
              @ (if xpubs = [] then [] else txids_history_xpub xpubs d);
          hits = map (page_of d) (filter (\<lambda>t. t_txnID t \<in> set ids) (rows (transactions d)))
      in take n (drop (page * n)
           (sort_key (\<lambda>p. - pg_time p) (sort_key (\<lambda>p. - int (pg_txnID p)) hits))))"

text \<open>A row of the union is an input or an output; the account columns are null for an address.\<close>

record xpub_info =
  xi_xpub :: string
  xi_chain :: int
  xi_index :: int

datatype utxo_row =
    In_row nat (in_inIndex: int) int string int int string "xpub_info option"
      \<comment> \<open>txnID, inIndex, inSequence, then txid, index, amount and address of the spent output\<close>
  | Out_row nat (out_outIndex: int) int string "xpub_info option"
      \<comment> \<open>txnID, outIndex, outAmount, outAddress\<close>

definition utxos_addr :: "nat list \<Rightarrow> string list \<Rightarrow> db \<Rightarrow> utxo_row list" where
  "utxos_addr ids addrs d =
     [In_row (i_txnID i) (i_inIndex i) (i_inSequence i) (t_txnTxid p) (o_outIndex o') (o_outAmount o')
         (a_addrAddress a) None.
        i \<leftarrow> rows (inputs d), i_txnID i \<in> set ids,
        o' \<leftarrow> rows (outputs d), o_outID o' = i_outID i,
        p \<leftarrow> rows (transactions d), t_txnID p = o_txnID o',
        a \<leftarrow> rows (addresses d), a_addrID a = o_addrID o' \<and> a_addrAddress a \<in> set addrs]
     @ [Out_row (o_txnID o') (o_outIndex o') (o_outAmount o') (a_addrAddress a) None.
        o' \<leftarrow> rows (outputs d), o_txnID o' \<in> set ids,
        a \<leftarrow> rows (addresses d), a_addrID a = o_addrID o' \<and> a_addrAddress a \<in> set addrs]"

definition utxos_xpub :: "nat list \<Rightarrow> string list \<Rightarrow> db \<Rightarrow> utxo_row list" where
  "utxos_xpub ids xpubs d =
     [In_row (i_txnID i) (i_inIndex i) (i_inSequence i) (t_txnTxid p) (o_outIndex o') (o_outAmount o')
         (a_addrAddress a) (Some \<lparr>xi_xpub = h_hdXpub h, xi_chain = ha_hdAddrChain l, xi_index = ha_hdAddrIndex l\<rparr>).
        i \<leftarrow> rows (inputs d), i_txnID i \<in> set ids,
        o' \<leftarrow> rows (outputs d), o_outID o' = i_outID i,
        p \<leftarrow> rows (transactions d), t_txnID p = o_txnID o',
        a \<leftarrow> rows (addresses d), a_addrID a = o_addrID o',
        l \<leftarrow> rows (hd_addresses d), ha_addrID l = a_addrID a,
        h \<leftarrow> rows (hd_accounts d), h_hdID h = ha_hdID l \<and> h_hdXpub h \<in> set xpubs]
     @ [Out_row (o_txnID o') (o_outIndex o') (o_outAmount o') (a_addrAddress a)
         (Some \<lparr>xi_xpub = h_hdXpub h, xi_chain = ha_hdAddrChain l, xi_index = ha_hdAddrIndex l\<rparr>).
        o' \<leftarrow> rows (outputs d), o_txnID o' \<in> set ids,
        a \<leftarrow> rows (addresses d), a_addrID a = o_addrID o',
        l \<leftarrow> rows (hd_addresses d), ha_addrID l = a_addrID a,
        h \<leftarrow> rows (hd_accounts d), h_hdID h = ha_hdID l \<and> h_hdXpub h \<in> set xpubs]"

text \<open>\<open>ORDER BY outIndex ASC, inIndex ASC\<close>: nulls first, so the inputs come before the outputs.\<close>

definition is_in_row :: "utxo_row \<Rightarrow> bool" where
  "is_in_row u = (case u of In_row _ _ _ _ _ _ _ _ \<Rightarrow> True | Out_row _ _ _ _ _ \<Rightarrow> False)"

definition utxo_order :: "utxo_row list \<Rightarrow> utxo_row list" where
  "utxo_order us = sort_key in_inIndex (filter is_in_row us) @ sort_key out_outIndex (filter (\<lambda>u. \<not> is_in_row u) us)"

record api_prev_out =
  po_txid :: string
  po_vout :: int
  po_value :: int
  po_addr :: string
  po_script :: "string option"
  po_xpub :: "xpub_info option"

record api_input =
  ai_vin :: int
  ai_sequence :: int
  ai_prev_out :: api_prev_out

record api_output =
  ao_n :: int
  ao_value :: int
  ao_addr :: string
  ao_script :: "string option"
  ao_xpub :: "xpub_info option"

record api_transaction =
  at_hash :: string
  at_time :: int
  at_version :: int
  at_locktime :: int
  at_result :: int
  at_inputs :: "api_input list"
  at_out :: "api_output list"
  at_block_height :: "int option"

definition transactionStub :: "page_row \<Rightarrow> api_transaction" where
  "transactionStub p =
     \<lparr>at_hash = pg_txnTxid p, at_time = (if pg_time p < FAR_FUTURE then pg_time p else 0),
      at_version = pg_txnVersion p, at_locktime = pg_txnLocktime p, at_result = 0,
      at_inputs = [], at_out = [], at_block_height = pg_blockHeight p\<rparr>"

text \<open>\<open>addRow\<close> of the assembler, on the entry of the row's transaction.\<close>

fun row_txn :: "utxo_row \<Rightarrow> nat" where
  "row_txn (In_row t _ _ _ _ _ _ _) = t"
| "row_txn (Out_row t _ _ _ _) = t"

fun row_value :: "utxo_row \<Rightarrow> int" where
  "row_value (In_row _ _ _ _ _ v _ _) = - v"
| "row_value (Out_row _ _ v _ _) = v"

fun add_to_entry :: "utxo_row \<Rightarrow> api_transaction \<Rightarrow> api_transaction" where
  "add_to_entry (In_row t idx s txid vout v a x) txn =
     txn\<lparr>at_result := at_result txn - v,
         at_inputs := at_inputs txn @ [\<lparr>ai_vin = idx, ai_sequence = s,
           ai_prev_out = \<lparr>po_txid = txid, po_vout = vout, po_value = v, po_addr = a, po_script = None, po_xpub = x\<rparr>\<rparr>]\<rparr>"
| "add_to_entry (Out_row t idx v a x) txn =
     txn\<lparr>at_result := at_result txn + v,
         at_out := at_out txn @ [\<lparr>ao_n = idx, ao_value = v, ao_addr = a, ao_script = None, ao_xpub = x\<rparr>]\<rparr>"

definition addRow :: "utxo_row \<Rightarrow> (nat \<times> api_transaction) list \<Rightarrow> (nat \<times> api_transaction) list" where
  "addRow u txns = map (\<lambda>(k, txn). if k = row_txn u then (k, add_to_entry u txn) else (k, txn)) txns"

definition assembler_init :: "page_row list \<Rightarrow> (nat \<times> api_transaction) list" where
  "assembler_init txs =
     fold (\<lambda>p txns. if map_of txns (pg_txnID p) \<noteq> None then txns
                    else txns @ [(pg_txnID p, transactionStub p)]) txs []"

definition assembler_finish :: "(nat \<times> api_transaction) list \<Rightarrow> api_transaction list" where
  "assembler_finish txns = sort_key (\<lambda>t. - at_time t) (map snd txns)"

definition assembleTransactions :: "page_row list \<Rightarrow> utxo_row list \<Rightarrow> api_transaction list" where
  "assembleTransactions txs utxos = assembler_finish (fold addRow utxos (assembler_init txs))"

definition getTxsByAddrAndXpubs ::
  "string list \<Rightarrow> string list \<Rightarrow> nat \<Rightarrow> nat \<Rightarrow> db \<Rightarrow> api_transaction list" where
  "getTxsByAddrAndXpubs addrs xpubs page n d =
     (if addrs = [] \<and> xpubs = [] then []
      else let txs = history_page addrs xpubs page n d;
               ids = map pg_txnID txs
           in if ids = [] then []
              else assembleTransactions txs (utxo_order (remdups
                     ((if addrs = [] then [] else utxos_addr ids addrs d)
                      @ (if xpubs = [] then [] else utxos_xpub ids xpubs d)))))"

section \<open>Rows of the history, one per input and one per output\<close>

definition out_of :: "db \<Rightarrow> input_row \<Rightarrow> output_row" where
  "out_of d i = the (find_by o_outID (i_outID i) (rows (outputs d)))"

definition arow_of :: "db \<Rightarrow> output_row \<Rightarrow> address_row" where
  "arow_of d o' = the (find_by a_addrID (o_addrID o') (rows (addresses d)))"

definition trow_of :: "db \<Rightarrow> output_row \<Rightarrow> transaction_row" where
  "trow_of d o' = the (find_by t_txnID (o_txnID o') (rows (transactions d)))"

abbreviation addr_of :: "db \<Rightarrow> output_row \<Rightarrow> string" where
  "addr_of d o' \<equiv> a_addrAddress (arow_of d o')"

lemma wf_find:
  assumes "wf_db d"
  shows "i \<in> set (rows (inputs d)) \<Longrightarrow>
      find_by o_outID (i_outID i) (rows (outputs d)) = Some (out_of d i) \<and> out_of d i \<in> set (rows (outputs d))
      \<and> o_outID (out_of d i) = i_outID i"
    and "o' \<in> set (rows (outputs d)) \<Longrightarrow>
      find_by a_addrID (o_addrID o') (rows (addresses d)) = Some (arow_of d o')"
    and "o' \<in> set (rows (outputs d)) \<Longrightarrow>
      find_by t_txnID (o_txnID o') (rows (transactions d)) = Some (trow_of d o')"
proof -
  show "find_by o_outID (i_outID i) (rows (outputs d)) = Some (out_of d i) \<and> out_of d i \<in> set (rows (outputs d))
      \<and> o_outID (out_of d i) = i_outID i" if "i \<in> set (rows (inputs d))"
  proof -
    have "find_by o_outID (i_outID i) (rows (outputs d)) \<noteq> None"
      using wf_refs(3) [OF assms that] by (simp add: input_refs_def has_id_iff find_by_None_iff)
    then show ?thesis using find_by_SomeD [of o_outID "i_outID i" "rows (outputs d)"]
      by (auto simp: out_of_def)
  qed
  assume o: "o' \<in> set (rows (outputs d))"
  then have "find_by a_addrID (o_addrID o') (rows (addresses d)) \<noteq> None"
    and "find_by t_txnID (o_txnID o') (rows (transactions d)) \<noteq> None"
    using wf_refs(2) [OF assms o] by (simp_all add: output_refs_def has_id_iff find_by_None_iff)
  then show "find_by a_addrID (o_addrID o') (rows (addresses d)) = Some (arow_of d o')"
    and "find_by t_txnID (o_txnID o') (rows (transactions d)) = Some (trow_of d o')"
    by (auto simp: arow_of_def trow_of_def)
qed

lemma wf_pks:
  assumes "wf_db d"
  shows "distinct (map a_addrID (rows (addresses d)))" "distinct (map o_outID (rows (outputs d)))"
    "distinct (map t_txnID (rows (transactions d)))" "distinct (map h_hdID (rows (hd_accounts d)))"
    "distinct (map b_blockID (rows (blocks d)))"
  using assms wf_tables table_ok_distinct by blast+

lemma join_address:
  assumes "wf_db d" and "o' \<in> set (rows (outputs d))"
  shows "concat (map (\<lambda>a. if a_addrID a = o_addrID o' \<and> a_addrAddress a \<in> S then [f a] else [])
      (rows (addresses d))) = (if addr_of d o' \<in> S then [f (arow_of d o')] else [])"
  using wf_find(2) [OF assms] by (auto simp: join_unique' [OF wf_pks(1) [OF assms(1)]])

lemma join_output:
  assumes "wf_db d" and "i \<in> set (rows (inputs d))"
  shows "concat (map (\<lambda>o'. if o_outID o' = i_outID i then f o' else []) (rows (outputs d))) = f (out_of d i)"
  using wf_find(1) [OF assms] by (simp add: join_unique [OF wf_pks(2) [OF assms(1)]])

lemma join_transaction:
  assumes "wf_db d" and "o' \<in> set (rows (outputs d))"
  shows "concat (map (\<lambda>t. if t_txnID t = o_txnID o' then f t else []) (rows (transactions d)))
    = f (trow_of d o')"
  using wf_find(3) [OF assms] by (auto simp: join_unique [OF wf_pks(3) [OF assms(1)]])

lemma concat_map_cong: "(\<And>x. x \<in> set xs \<Longrightarrow> f x = g x) \<Longrightarrow> concat (map f xs) = concat (map g xs)"
  by (metis map_cong)

definition in_row :: "db \<Rightarrow> input_row \<Rightarrow> utxo_row" where
  "in_row d i = In_row (i_txnID i) (i_inIndex i) (i_inSequence i) (t_txnTxid (trow_of d (out_of d i))) (o_outIndex (out_of d i))
     (o_outAmount (out_of d i)) (addr_of d (out_of d i)) None"

definition out_row :: "db \<Rightarrow> output_row \<Rightarrow> utxo_row" where
  "out_row d o' = Out_row (o_txnID o') (o_outIndex o') (o_outAmount o') (addr_of d o') None"

lemma txids_addr_eq:
  assumes "wf_db d"
  shows "txids_addr addrs d =
    map o_txnID (filter (\<lambda>o'. addr_of d o' \<in> set addrs) (rows (outputs d)))
    @ map i_txnID (filter (\<lambda>i. addr_of d (out_of d i) \<in> set addrs) (rows (inputs d)))"
  unfolding txids_addr_def concat_if_filter [symmetric]
  by (intro arg_cong2 [where f = append] concat_map_cong)
    (simp_all add: join_address [OF assms] join_output [OF assms] wf_find(1) [OF assms])

lemma utxos_addr_eq:
  assumes "wf_db d"
  shows "utxos_addr ids addrs d =
    map (in_row d) (filter (\<lambda>i. i_txnID i \<in> set ids \<and> addr_of d (out_of d i) \<in> set addrs) (rows (inputs d)))
    @ map (out_row d) (filter (\<lambda>o'. o_txnID o' \<in> set ids \<and> addr_of d o' \<in> set addrs) (rows (outputs d)))"
  unfolding utxos_addr_def concat_if_filter [symmetric]
  by (intro arg_cong2 [where f = append] concat_map_cong)
    (auto simp: join_address [OF assms] join_output [OF assms] join_transaction [OF assms] wf_find(1) [OF assms]
      in_row_def out_row_def)

section \<open>The entries of a history add up\<close>

definition total :: "(nat \<times> api_transaction) list \<Rightarrow> int" where
  "total txns = sum_list (map (\<lambda>p. at_result (snd p)) txns)"

lemma at_result_add [simp]: "at_result (add_to_entry u txn) = at_result txn + row_value u"
  by (cases u) simp_all

lemma addRow_keys [simp]: "map fst (addRow u txns) = map fst txns"
  by (induction txns) (auto simp: addRow_def)

lemma total_addRow:
  assumes "distinct (map fst txns)"
  shows "total (addRow u txns) = total txns + (if row_txn u \<in> fst ` set txns then row_value u else 0)"
  using assms
proof (induction txns)
  case (Cons p txns)
  obtain k t where p: "p = (k, t)" by (cases p)
  have "addRow u txns = txns" if "row_txn u \<notin> fst ` set txns"
    using that by (induction txns) (auto simp: addRow_def)
  then show ?case using Cons p by (auto simp: total_def addRow_def)
qed (simp add: total_def addRow_def)

lemma total_fold_addRow:
  assumes "distinct (map fst txns)"
  shows "total (fold addRow us txns) =
    total txns + sum_list (map row_value (filter (\<lambda>u. row_txn u \<in> fst ` set txns) us))"
  using assms
proof (induction us arbitrary: txns)
  case (Cons u us)
  have "fst ` set (addRow u txns) = fst ` set txns" using addRow_keys [of u txns] by (metis set_map)
  then show ?case using Cons.IH [of "addRow u txns"] Cons.prems by (simp add: total_addRow)
qed simp

lemma assembler_init_spec:
  "distinct (map fst (assembler_init txs)) \<and> fst ` set (assembler_init txs) = pg_txnID ` set txs
   \<and> total (assembler_init txs) = 0"
proof -
  let ?f = "\<lambda>p txns. if map_of txns (pg_txnID p) \<noteq> None then txns else txns @ [(pg_txnID p, transactionStub p)]"
  have "distinct (map fst (fold ?f txs acc)) \<and> fst ` set (fold ?f txs acc) = fst ` set acc \<union> pg_txnID ` set txs
      \<and> total (fold ?f txs acc) = total acc" if "distinct (map fst acc)" for acc
    using that
  proof (induction txs arbitrary: acc)
    case (Cons p txs)
    have "distinct (map fst (?f p acc))" "fst ` set (?f p acc) = insert (pg_txnID p) (fst ` set acc)"
      "total (?f p acc) = total acc"
      using Cons.prems by (auto simp: map_of_eq_None_iff total_def transactionStub_def)
    then show ?case using Cons.IH [of "?f p acc"] by simp
  qed simp
  then show ?thesis by (simp add: assembler_init_def total_def)
qed

lemma sum_list_sort_key: "sum_list (map f (sort_key k xs)) = sum_list (map (f :: 'a \<Rightarrow> int) xs)"
  by (metis mset_map mset_sort sum_mset_sum_list)

lemma sum_utxo_order: "sum_list (map row_value (filter P (utxo_order us))) = sum_list (map row_value (filter P us))"
proof -
  have "mset (utxo_order us) = mset us"
    by (simp add: utxo_order_def)
  then have "mset (map row_value (filter P (utxo_order us))) = mset (map row_value (filter P us))" by simp
  then show ?thesis by (metis sum_mset_sum_list)
qed

text \<open>The results of a history: the values of the rows of its transactions.\<close>

lemma sum_assembled:
  "sum_list (map at_result (assembleTransactions txs (utxo_order us))) =
     sum_list (map row_value (filter (\<lambda>u. row_txn u \<in> pg_txnID ` set txs) us))"
proof -
  have "sum_list (map at_result (assembleTransactions txs (utxo_order us))) =
      total (fold addRow (utxo_order us) (assembler_init txs))"
    by (simp add: assembleTransactions_def assembler_finish_def sum_list_sort_key total_def comp_def)
  then show ?thesis
    using assembler_init_spec [of txs] by (simp add: total_fold_addRow sum_utxo_order)
qed

lemma distinct_rows:
  assumes "wf_db d"
  shows "distinct (map (in_row d) (filter P (rows (inputs d))) @ map (out_row d) (filter Q (rows (outputs d))))"
proof -
  have uk: "distinct (map input_key (rows (inputs d)))" "distinct (map output_key (rows (outputs d)))"
    using table_ok_distinct wf_tables(5,6) [OF assms] by blast+
  have "inj_on (in_row d) (set (rows (inputs d)))"
    using uk(1) by (auto simp: in_row_def inj_on_def dest: distinct_map_inj)
  moreover have "inj_on (out_row d) (set (rows (outputs d)))"
  proof (rule inj_onI)
    fix x y
    assume xy: "x \<in> set (rows (outputs d))" "y \<in> set (rows (outputs d))" "out_row d x = out_row d y"
    have dist: "distinct (map a_addrAddress (rows (addresses d)))"
      using table_ok_distinct [OF wf_tables(1) [OF assms]] by blast
    have "arow_of d x = arow_of d y"
      using xy wf_find(2) [OF assms] by (intro distinct_map_inj [OF dist]) (auto simp: out_row_def dest: find_by_SomeD)
    moreover have "a_addrID (arow_of d x) = o_addrID x" "a_addrID (arow_of d y) = o_addrID y"
      using xy wf_find(2) [OF assms] find_by_SomeD by metis+
    ultimately show "x = y" using xy by (intro distinct_map_inj [OF uk(2)]) (auto simp: out_row_def)
  qed
  moreover have "distinct (rows (inputs d))" "distinct (rows (outputs d))"
    using uk by (simp_all add: distinct_map)
  ultimately show ?thesis
    by (auto simp: distinct_map in_row_def out_row_def intro: inj_on_subset)
qed

text \<open>No output is spent by two stored inputs: what the tracker restores at every double spend.\<close>

definition single_spend :: "db \<Rightarrow> bool" where
  "single_spend d \<longleftrightarrow> distinct (map i_outID (rows (inputs d)))"

definition paid_to :: "db \<Rightarrow> string \<Rightarrow> output_row list" where
  "paid_to d a = filter (\<lambda>o'. addr_of d o' = a) (rows (outputs d))"

lemma balance_eq:
  assumes "wf_db d"
  shows "getAddressBalance (Some a) d = Some (sum_list (map o_outAmount (filter (unspent d) (paid_to d a))))"
proof -
  have tbl: "table_ok a_addrID a_addrAddress (addresses d)" by (rule wf_tables(1) [OF assms])
  have arow: "arow_of d o' \<in> set (rows (addresses d))" "a_addrID (arow_of d o') = o_addrID o'"
    if "o' \<in> set (rows (outputs d))" for o'
    using wf_find(2) [OF assms that] find_by_SomeD by fastforce+
  let ?join = "\<lambda>r. map o_outAmount (filter (\<lambda>o'. o_addrID o' = a_addrID r \<and> unspent d o') (rows (outputs d)))"
  have "concat (map (\<lambda>r. if a_addrAddress r = a then ?join r else []) (rows (addresses d))) =
      (case find_by a_addrAddress a (rows (addresses d)) of None \<Rightarrow> [] | Some r \<Rightarrow> ?join r)"
    using table_ok_distinct [OF tbl] by (intro join_unique) blast
  also have "\<dots> = map o_outAmount (filter (unspent d) (paid_to d a))"
  proof (cases "find_by a_addrAddress a (rows (addresses d))")
    case None
    then have "paid_to d a = []"
      using arow(1) by (auto simp: paid_to_def filter_empty_conv find_by_None_iff)
    then show ?thesis using None by simp
  next
    case (Some r)
    then have r: "r \<in> set (rows (addresses d))" "a_addrAddress r = a" using find_by_SomeD by metis+
    have same: "o_addrID o' = a_addrID r \<longleftrightarrow> addr_of d o' = a" if "o' \<in> set (rows (outputs d))" for o'
      using arow [OF that] r table_pk_inj [OF tbl, of "arow_of d o'" r] table_uk_inj [OF tbl, of "arow_of d o'" r] by metis
    have "filter (\<lambda>o'. o_addrID o' = a_addrID r \<and> unspent d o') (rows (outputs d)) = filter (unspent d) (paid_to d a)"
      by (auto simp: paid_to_def same intro!: filter_cong)
    then show ?thesis using Some by simp
  qed
  finally show ?thesis unfolding getAddressBalance_def option.case concat_if_filter by simp
qed

lemma unspent_sum_eq:
  assumes "wf_db d"
  shows "sum_list (map uo_outAmount (getUnspentOutputs [a] d)) =
    sum_list (map o_outAmount (filter (unspent d) (paid_to d a)))"
proof -
  have t: "concat (map (\<lambda>t. if t_txnID t = o_txnID o' then [f t] else []) (rows (transactions d))) = [f (trow_of d o')]"
    if "o' \<in> set (rows (outputs d))" for o' and f :: "transaction_row \<Rightarrow> unspent_output"
    using wf_find(3) [OF assms that] by (simp add: join_unique [OF wf_pks(3) [OF assms]])
  have a: "concat (map (\<lambda>r. if a_addrID r = o_addrID o' \<and> a_addrAddress r = a then f r else []) (rows (addresses d)))
      = (if addr_of d o' = a then f (arow_of d o') else [])"
    if "o' \<in> set (rows (outputs d))" for o' and f :: "address_row \<Rightarrow> unspent_output list"
    using wf_find(2) [OF assms that] by (simp add: join_unique' [OF wf_pks(1) [OF assms]])
  have "getUnspentOutputs [a] d = concat (map (\<lambda>o'. if unspent d o' \<and> addr_of d o' = a
      then [unspent_row d o' (arow_of d o') (trow_of d o')] else []) (rows (outputs d)))"
    unfolding getUnspentOutputs_def by (simp add: a t cong: map_cong) (rule concat_map_cong, simp add: a t)
  then show ?thesis
    by (simp add: concat_if_filter paid_to_def comp_def unspent_row_def conj_commute)
qed

lemma sum_list_split:
  "(\<Sum>x\<leftarrow>xs. f x) - (\<Sum>x\<leftarrow>filter (\<lambda>x. \<not> P x) xs. f x) = sum_list (map (f :: 'a \<Rightarrow> int) (filter P xs))"
  by (induction xs) auto

lemma spent_sum:
  assumes "wf_db d" and "single_spend d"
  shows "(\<Sum>i\<leftarrow>filter (\<lambda>i. addr_of d (out_of d i) = a) (rows (inputs d)). o_outAmount (out_of d i)) =
    (\<Sum>o'\<leftarrow>filter (\<lambda>o'. \<not> unspent d o') (paid_to d a). o_outAmount o')"
proof -
  let ?I = "{i \<in> set (rows (inputs d)). addr_of d (out_of d i) = a}"
  let ?O = "{o' \<in> set (rows (outputs d)). addr_of d o' = a \<and> \<not> unspent d o'}"
  have dist: "distinct (rows (inputs d))" "distinct (rows (outputs d))"
    using assms(2) wf_pks(2) [OF assms(1)] by (simp_all add: single_spend_def distinct_map)
  have "bij_betw (out_of d) ?I ?O"
  proof (rule bij_betw_imageI)
    show "inj_on (out_of d) ?I"
    proof (rule inj_onI)
      fix i j assume ij: "i \<in> ?I" "j \<in> ?I" "out_of d i = out_of d j"
      then have "i_outID i = i_outID j"
        using wf_find(1) [OF assms(1), of i] wf_find(1) [OF assms(1), of j] by auto
      then show "i = j"
        using ij distinct_map_inj [OF assms(2) [unfolded single_spend_def], of i j] by simp
    qed
    show "out_of d ` ?I = ?O"
    proof (intro equalityI subsetI)
      fix o' assume "o' \<in> out_of d ` ?I"
      then show "o' \<in> ?O" using wf_find(1) [OF assms(1)] by (fastforce simp: unspent_def)
    next
      fix o' assume o': "o' \<in> ?O"
      then obtain i where i: "i \<in> set (rows (inputs d))" "i_outID i = o_outID o'" by (auto simp: unspent_def)
      then have "out_of d i = o'"
        using wf_find(1) [OF assms(1) i(1)] o' distinct_map_inj [OF wf_pks(2) [OF assms(1)], of "out_of d i" o']
        by auto
      then show "o' \<in> out_of d ` ?I" using i o' by auto
    qed
  qed
  then have "(\<Sum>i\<in>?I. o_outAmount (out_of d i)) = (\<Sum>o'\<in>?O. o_outAmount o')"
    by (rule sum.reindex_bij_betw)
  then show ?thesis
    using dist by (simp add: sum_list_distinct_conv_sum_set paid_to_def conj_commute Int_def)
qed

lemma history_page_all:
  assumes "length (rows (transactions d)) \<le> n" and "addrs \<noteq> []"
  shows "pg_txnID ` set (history_page addrs [] 0 n d) =
    {t_txnID t |t. t \<in> set (rows (transactions d)) \<and> t_txnID t \<in> set (txids_addr addrs d)}"
proof -
  let ?hits = "map (page_of d) (filter (\<lambda>t. t_txnID t \<in> set (txids_addr addrs d)) (rows (transactions d)))"
  have "length ?hits \<le> length (rows (transactions d))" by simp
  then have "length ?hits \<le> n" using assms(1) by linarith
  then have "set (history_page addrs [] 0 n d) = set ?hits"
    using assms(2) by (simp add: history_page_def Let_def)
  then show ?thesis by (auto simp: page_of_def image_iff)
qed

lemma history_sum:
  assumes "wf_db d" and "single_spend d" and "length (rows (transactions d)) \<le> n"
  shows "sum_list (map at_result (getTxsByAddrAndXpubs [a] [] 0 n d)) =
    sum_list (map o_outAmount (filter (unspent d) (paid_to d a)))"
proof -
  let ?txs = "history_page [a] [] 0 n d"
  let ?ids = "map pg_txnID ?txs"
  have ids: "set ?ids = {t_txnID t |t. t \<in> set (rows (transactions d)) \<and> t_txnID t \<in> set (txids_addr [a] d)}"
    using history_page_all [OF assms(3), of "[a]"] by simp
  have inT: "\<exists>t\<in>set (rows (transactions d)). t_txnID t = o_txnID o'" if "o' \<in> set (rows (outputs d))" for o'
    using wf_refs(2) [OF assms(1) that] by (auto simp: output_refs_def has_id_iff)
  have inT': "\<exists>t\<in>set (rows (transactions d)). t_txnID t = i_txnID i" if "i \<in> set (rows (inputs d))" for i
    using wf_refs(3) [OF assms(1) that] by (auto simp: input_refs_def has_id_iff)
  have oids: "o_txnID o' \<in> set ?ids" if "o' \<in> set (rows (outputs d))" "addr_of d o' = a" for o'
    unfolding ids using inT [OF that(1)] that by (force simp: txids_addr_eq [OF assms(1)])
  have iids: "i_txnID i \<in> set ?ids" if "i \<in> set (rows (inputs d))" "addr_of d (out_of d i) = a" for i
    unfolding ids using inT' [OF that(1)] that by (force simp: txids_addr_eq [OF assms(1)])
  define us where "us = map (in_row d) (filter (\<lambda>i. addr_of d (out_of d i) = a) (rows (inputs d)))
      @ map (out_row d) (paid_to d a)"
  have "filter (\<lambda>i. i_txnID i \<in> set ?ids \<and> addr_of d (out_of d i) \<in> set [a]) (rows (inputs d))
      = filter (\<lambda>i. addr_of d (out_of d i) = a) (rows (inputs d))"
    using iids by (intro filter_cong) auto
  moreover have "filter (\<lambda>o'. o_txnID o' \<in> set ?ids \<and> addr_of d o' \<in> set [a]) (rows (outputs d)) = paid_to d a"
    unfolding paid_to_def using oids by (intro filter_cong) auto
  ultimately have "utxos_addr ?ids [a] d = us" unfolding utxos_addr_eq [OF assms(1)] us_def by simp
  then have rem: "remdups (utxos_addr ?ids [a] d) = us"
    using distinct_rows [OF assms(1)] by (simp add: us_def paid_to_def distinct_remdups_id)
  have keep: "filter (\<lambda>u. row_txn u \<in> pg_txnID ` set ?txs) us = us"
    using oids iids by (auto simp: filter_id_conv us_def in_row_def out_row_def paid_to_def)
  have "sum_list (map at_result (getTxsByAddrAndXpubs [a] [] 0 n d)) = sum_list (map row_value us)"
  proof (cases "?ids = []")
    case True
    then have "us = []" using keep by (simp add: filter_empty_conv)
    then show ?thesis using True by (simp add: getTxsByAddrAndXpubs_def Let_def)
  next
    case False
    then have "getTxsByAddrAndXpubs [a] [] 0 n d = assembleTransactions ?txs (utxo_order us)"
      using rem by (simp add: getTxsByAddrAndXpubs_def Let_def)
    then show ?thesis using keep by (simp add: sum_assembled)
  qed
  also have "\<dots> = (\<Sum>o'\<leftarrow>paid_to d a. o_outAmount o')
      - (\<Sum>i\<leftarrow>filter (\<lambda>i. addr_of d (out_of d i) = a) (rows (inputs d)). o_outAmount (out_of d i))"
    by (simp add: us_def comp_def in_row_def out_row_def uminus_sum_list_map [unfolded comp_def, symmetric])
  also have "\<dots> = sum_list (map o_outAmount (filter (unspent d) (paid_to d a)))"
    unfolding spent_sum [OF assms(1,2)] by (rule sum_list_split)
  finally show ?thesis .
qed

text \<open>
  C7. The amounts an address history reports add up to the balance of the address, and so do its
  unspent outputs: when no output is spent twice and the page holds all the transactions, the sum
  of the results of the entries of the history, the balance the wrapper computes and the sum of
  the unspent outputs are one number.
\<close>

theorem history_balance:
  fixes a :: string
  assumes "wf_db d" and "single_spend d" and "length (rows (transactions d)) \<le> n"
  defines "history \<equiv> getTxsByAddrAndXpubs [a] [] 0 n d"
  shows "getAddressBalance (Some a) d = Some (sum_list (map at_result history))
    \<and> sum_list (map uo_outAmount (getUnspentOutputs [a] d)) = sum_list (map at_result history)"
  unfolding history_def history_sum [OF assms(1-3)] balance_eq [OF assms(1)] unspent_sum_eq [OF assms(1)]
  by simp

lemma history_balance_witness:
  "getAddressBalance (Some ''a'') demo_db = Some 0
   \<and> sum_list (map at_result (getTxsByAddrAndXpubs [''a''] [] 0 2 demo_db)) = 0"
proof -
  have "single_spend demo_db" "length (rows (transactions demo_db)) \<le> 2"
    by (simp_all add: single_spend_def demo_db_def)
  then show ?thesis
    using history_balance [OF wf_demo_db, of 2 "''a''"]
    by (simp add: getAddressBalance_def demo_db_def unspent_def)
qed

section \<open>Details of a transaction\<close>

text \<open>\<open>None\<close> is the time \<open>Number.POSITIVE_INFINITY\<close> the details start from.\<close>

record tx_detail =
  td_hash :: string
  td_time :: "int option"
  td_version :: int
  td_locktime :: int
  td_inputs :: "api_input list"
  td_out :: "api_output list"
  td_block_height :: "int option"

definition min_time :: "int option \<Rightarrow> int option \<Rightarrow> int option" where
  "min_time a b = (case a of None \<Rightarrow> b | Some x \<Rightarrow> (case b of None \<Rightarrow> a | Some y \<Rightarrow> Some (min x y)))"

definition createTransaction :: "string \<Rightarrow> tx_detail" where
  "createTransaction txid =
     \<lparr>td_hash = txid, td_time = None, td_version = 0, td_locktime = 0, td_inputs = [], td_out = [],
      td_block_height = None\<rparr>"

text \<open>The left join of an address with its links and their accounts.\<close>

definition xpub_rows :: "db \<Rightarrow> nat \<Rightarrow> xpub_info option list" where
  "xpub_rows d addrID =
     (case [\<lparr>xi_xpub = h_hdXpub h, xi_chain = ha_hdAddrChain l, xi_index = ha_hdAddrIndex l\<rparr>.
              l \<leftarrow> rows (hd_addresses d), ha_addrID l = addrID, h \<leftarrow> rows (hd_accounts d), h_hdID h = ha_hdID l] of
        [] \<Rightarrow> [None]
      | xs \<Rightarrow> map Some xs)"

definition detail_header :: "db \<Rightarrow> transaction_row \<Rightarrow> tx_detail \<Rightarrow> tx_detail" where
  "detail_header d t tx =
     tx\<lparr>td_version := t_txnVersion t, td_locktime := t_txnLocktime t,
        td_time := min_time (min_time (td_time tx) (map_option b_blockTime (block_of d t))) (Some (t_txnCreated t)),
        td_block_height := (case block_of d t of Some b \<Rightarrow> Some (b_blockHeight b) | None \<Rightarrow> td_block_height tx)\<rparr>"

definition detail_outs :: "string \<Rightarrow> db \<Rightarrow> (transaction_row \<times> api_output) list" where
  "detail_outs txid d =
     sort_key (\<lambda>(_, o'). ao_n o')
       [(t, \<lparr>ao_n = o_outIndex o', ao_value = o_outAmount o', ao_addr = a_addrAddress a,
             ao_script = Some (o_outScript o'), ao_xpub = x\<rparr>).
          t \<leftarrow> rows (transactions d), t_txnTxid t = txid,
          o' \<leftarrow> rows (outputs d), o_txnID o' = t_txnID t,
          a \<leftarrow> rows (addresses d), a_addrID a = o_addrID o', x \<leftarrow> xpub_rows d (o_addrID o')]"

definition detail_ins :: "string \<Rightarrow> db \<Rightarrow> (transaction_row \<times> api_input) list" where
  "detail_ins txid d =
     sort_key (\<lambda>(_, i). ai_vin i)
       [(t, \<lparr>ai_vin = i_inIndex i, ai_sequence = i_inSequence i,
             ai_prev_out = \<lparr>po_txid = t_txnTxid p, po_vout = o_outIndex o', po_value = o_outAmount o',
               po_addr = a_addrAddress a, po_script = Some (o_outScript o'), po_xpub = x\<rparr>\<rparr>).
          i \<leftarrow> rows (inputs d), o' \<leftarrow> rows (outputs d), o_outID o' = i_outID i,
          t \<leftarrow> rows (transactions d), t_txnID t = i_txnID i \<and> t_txnTxid t = txid,
          p \<leftarrow> rows (transactions d), t_txnID p = o_txnID o',
          a \<leftarrow> rows (addresses d), a_addrID a = o_addrID o', x \<leftarrow> xpub_rows d (o_addrID o')]"

definition getTransaction :: "string \<Rightarrow> db \<Rightarrow> tx_detail" where
  "getTransaction txid d =
     (let tx = fold (\<lambda>(t, o') tx. (detail_header d t tx)\<lparr>td_out := td_out tx @ [o']\<rparr>) (detail_outs txid d)
                 (createTransaction txid);
          inputTx = fold (\<lambda>(t, i) tx. (detail_header d t tx)\<lparr>td_inputs := td_inputs tx @ [i]\<rparr>) (detail_ins txid d)
                 (createTransaction txid);
          tx = tx\<lparr>td_inputs := td_inputs inputTx, td_time := min_time (td_time tx) (td_time inputTx)\<rparr>;
          tx = (if td_inputs inputTx \<noteq> []
                then tx\<lparr>td_version := td_version inputTx, td_locktime := td_locktime inputTx\<rparr> else tx)
      in (case td_block_height inputTx of Some h \<Rightarrow> tx\<lparr>td_block_height := Some h\<rparr> | None \<Rightarrow> tx))"

lemma getTransaction_unknown:
  assumes "transaction txid d = None"
  shows "getTransaction txid d = createTransaction txid"
proof -
  have nil: "sort_key f xs = [] \<longleftrightarrow> xs = []" for f :: "'x \<Rightarrow> int" and xs
    by (metis length_0_conv length_sort)
  have "\<forall>t\<in>set (rows (transactions d)). t_txnTxid t \<noteq> txid"
    using assms by (auto simp: transaction_def find_by_None_iff)
  then have "detail_outs txid d = []" "detail_ins txid d = []"
    by (auto simp: detail_outs_def detail_ins_def nil concat_eq_Nil_conv)
  then show ?thesis by (simp add: getTransaction_def createTransaction_def min_time_def)
qed

end
