(* ===== verification/Db_Batch.thy ===== *)
theory Db_Batch
  imports Db_History
begin

text \<open>
  How \<^verbatim>\<open>lib/db/mysql-db-wrapper.ts\<close> sends what it has to send: the retries of a query on lock
  errors, the cutting of insertions and of look-ups by outpoint into batches, and the merging of
  the answers. The server is a parameter: the outcome of each attempt.
\<close>

section \<open>Retries\<close>

datatype 'a outcome = Ok 'a | Lock_error | Other_error

text \<open>\<open>attempt k\<close> is the outcome of the \<open>k\<close>-th attempt; \<open>_query\<close> is called with five retries.\<close>

fun query_retry :: "(nat \<Rightarrow> 'a outcome) \<Rightarrow> nat \<Rightarrow> nat \<Rightarrow> 'a result" where
  "query_retry attempt k retries =
     (case attempt k of
        Ok a \<Rightarrow> Inr a
      | Other_error \<Rightarrow> Inl Sql
      | Lock_error \<Rightarrow> (case retries of 0 \<Rightarrow> Inl Sql | Suc r \<Rightarrow> query_retry attempt (Suc k) r))"

declare query_retry.simps [simp del]

definition query :: "(nat \<Rightarrow> 'a outcome) \<Rightarrow> 'a result" where
  "query attempt = query_retry attempt 0 5"

text \<open>
  A streamed query: the rows an attempt delivered, and how it ended. Every attempt folds its rows
  into an accumulator of its own.
\<close>

definition queryReduce :: "(nat \<Rightarrow> 'r list \<times> unit outcome) \<Rightarrow> ('t \<Rightarrow> 'r \<Rightarrow> 't) \<Rightarrow> 't \<Rightarrow> 't result" where
  "queryReduce attempt consume init =
     query (\<lambda>k. case attempt k of
       (rs, Ok _) \<Rightarrow> Ok (foldl consume init rs)
     | (rs, Lock_error) \<Rightarrow> Lock_error
     | (rs, Other_error) \<Rightarrow> Other_error)"

lemma query_retry_Inr_iff:
  "query_retry attempt k r = Inr a \<longleftrightarrow>
     (\<exists>j\<le>r. attempt (k + j) = Ok a \<and> (\<forall>i<j. attempt (k + i) = Lock_error))"
proof (induction r arbitrary: k)
  case 0
  show ?case by (subst query_retry.simps) (auto split: outcome.splits)
next
  case (Suc r)
  show ?case
  proof (cases "attempt k")
    case (Ok b)
    then have "(\<exists>j\<le>Suc r. attempt (k + j) = Ok a \<and> (\<forall>i<j. attempt (k + i) = Lock_error)) \<longleftrightarrow> a = b"
      by (metis add.right_neutral le0 less_nat_zero_code not_gr_zero outcome.distinct(1) outcome.inject)
    then show ?thesis using Ok by (subst query_retry.simps) auto
  next
    case Other_error
    then have "\<not> (\<exists>j\<le>Suc r. attempt (k + j) = Ok a \<and> (\<forall>i<j. attempt (k + i) = Lock_error))"
      by (metis add.right_neutral not_gr_zero outcome.distinct(3) outcome.distinct(5))
    then show ?thesis using Other_error by (subst query_retry.simps) auto
  next
    case Lock_error
    have shift: "(\<exists>j\<le>Suc r. attempt (k + j) = Ok a \<and> (\<forall>i<j. attempt (k + i) = Lock_error)) \<longleftrightarrow>
        (\<exists>j\<le>r. attempt (Suc k + j) = Ok a \<and> (\<forall>i<j. attempt (Suc k + i) = Lock_error))" (is "?l \<longleftrightarrow> ?r")
    proof
      assume ?l
      then obtain j where j: "j \<le> Suc r" "attempt (k + j) = Ok a" "\<forall>i<j. attempt (k + i) = Lock_error" by blast
      then obtain m where "j = Suc m" using Lock_error by (cases j) auto
      then show ?r using j by (intro exI [of _ m]) auto
    next
      assume ?r
      then obtain j where j: "j \<le> r" "attempt (Suc k + j) = Ok a" "\<forall>i<j. attempt (Suc k + i) = Lock_error" by blast
      then have "\<forall>i<Suc j. attempt (k + i) = Lock_error"
        using Lock_error by (metis add_Suc_right add_Suc less_Suc_eq_0_disj add.right_neutral)
      then show ?l using j by (intro exI [of _ "Suc j"]) auto
    qed
    then show ?thesis using Lock_error Suc.IH [of "Suc k"] by (subst query_retry.simps) simp
  qed
qed

text \<open>
  A streamed query returns exactly the rows of one complete attempt folded from a fresh
  accumulator, the first attempt after at most five lock errors; nothing of an interrupted attempt
  is in the result, any other error ends it at once, and so does a sixth lock error.
\<close>

theorem queryReduce_spec:
  "queryReduce attempt consume init = Inr res \<longleftrightarrow>
     (\<exists>j\<le>5. (\<exists>rs. attempt j = (rs, Ok ()) \<and> res = foldl consume init rs)
        \<and> (\<forall>i<j. snd (attempt i) = Lock_error))"
proof -
  have "(case attempt j of (rs, Ok _) \<Rightarrow> Ok (foldl consume init rs) | (rs, Lock_error) \<Rightarrow> Lock_error
      | (rs, Other_error) \<Rightarrow> Other_error) = Ok res \<longleftrightarrow> (\<exists>rs. attempt j = (rs, Ok ()) \<and> res = foldl consume init rs)"
    and "(case attempt j of (rs, Ok _) \<Rightarrow> Ok (foldl consume init rs) | (rs, Lock_error) \<Rightarrow> Lock_error
      | (rs, Other_error) \<Rightarrow> Other_error) = Lock_error \<longleftrightarrow> snd (attempt j) = Lock_error" for j
    by (cases "attempt j"; cases "snd (attempt j)"; auto)+
  then show ?thesis by (simp add: queryReduce_def query_def query_retry_Inr_iff)
qed

lemma queryReduce_spec_witness:
  "queryReduce (\<lambda>k. if k < 2 then ([1, 2], Lock_error) else ([1, 2, 3], Ok ())) (+) (0 :: int) = Inr 6"
  unfolding queryReduce_spec by (intro exI [of _ 2]) simp

section \<open>Batches\<close>

text \<open>
  The loop shared by \<open>_insertMany\<close> and \<open>_queryOutpoints\<close>: \<open>current\<close> is \<open>slice(start, index)\<close>, and a
  new batch is begun when a non-empty one would exceed the limit of bytes or holds \<open>maxRows\<close> rows.
\<close>

definition batch_step ::
  "('r \<Rightarrow> nat) \<Rightarrow> nat \<Rightarrow> nat \<Rightarrow> nat \<Rightarrow> 'r list list \<times> 'r list \<times> nat \<Rightarrow> 'r \<Rightarrow> 'r list list \<times> 'r list \<times> nat" where
  "batch_step sz byteLimit maxRows baseBytes st row =
     (let (chunks, current, bytes) = st; rowBytes = sz row
      in if current \<noteq> [] \<and> (byteLimit < bytes + rowBytes \<or> maxRows \<le> length current)
         then (chunks @ [current], [row], baseBytes + rowBytes)
         else (chunks, current @ [row], bytes + rowBytes))"

definition batches :: "('r \<Rightarrow> nat) \<Rightarrow> nat \<Rightarrow> nat \<Rightarrow> nat \<Rightarrow> 'r list \<Rightarrow> 'r list list" where
  "batches sz byteLimit maxRows baseBytes xs =
     (let (chunks, current, bytes) = foldl (batch_step sz byteLimit maxRows baseBytes) ([], [], baseBytes) xs
      in chunks @ [current])"

definition fits :: "('r \<Rightarrow> nat) \<Rightarrow> nat \<Rightarrow> nat \<Rightarrow> nat \<Rightarrow> 'r list \<Rightarrow> bool" where
  "fits sz byteLimit maxRows baseBytes c \<longleftrightarrow>
     c \<noteq> [] \<and> length c \<le> max 1 maxRows \<and> (length c = 1 \<or> baseBytes + sum_list (map sz c) \<le> byteLimit)"

lemma batch_loop:
  fixes sz :: "'r \<Rightarrow> nat" and byteLimit maxRows baseBytes :: nat
  defines "st \<equiv> \<lambda>xs. foldl (batch_step sz byteLimit maxRows baseBytes) ([], [], baseBytes) xs"
  shows "concat (fst (st xs)) @ fst (snd (st xs)) = xs
    \<and> snd (snd (st xs)) = baseBytes + sum_list (map sz (fst (snd (st xs))))
    \<and> (\<forall>c\<in>set (fst (st xs)). fits sz byteLimit maxRows baseBytes c)
    \<and> (if xs = [] then fst (st xs) = [] \<and> fst (snd (st xs)) = []
       else fits sz byteLimit maxRows baseBytes (fst (snd (st xs))))"
proof (induction xs rule: rev_induct)
  case Nil
  show ?case by (simp add: st_def)
next
  case (snoc x xs)
  obtain cs cur b where s: "st xs = (cs, cur, b)" by (metis prod_cases3)
  have step: "st (xs @ [x]) = batch_step sz byteLimit maxRows baseBytes (cs, cur, b) x"
    by (simp add: st_def s [unfolded st_def])
  show ?case
  proof (cases "cur = []")
    case True
    then show ?thesis using snoc s step by (auto simp: batch_step_def fits_def split: if_splits)
  next
    case False
    then have "fits sz byteLimit maxRows baseBytes cur" using snoc s by (auto split: if_splits)
    then show ?thesis using snoc s step False
      by (cases cur) (auto simp: batch_step_def fits_def Let_def split: if_splits)
  qed
qed

text \<open>A value of a row: text, a buffer (its length), a date, or anything of fixed size.\<close>

datatype scalar = Text string | Buffer nat | Date | Fixed

fun scalar_bytes :: "scalar \<Rightarrow> nat" where
  "scalar_bytes (Text s) = length s + 16"
| "scalar_bytes (Buffer n) = n + 16"
| "scalar_bytes Date = 32"
| "scalar_bytes Fixed = 16"

definition insert_row_bytes :: "scalar list \<Rightarrow> nat" where
  "insert_row_bytes row = foldl (\<lambda>total v. total + scalar_bytes v) 4 row"

text \<open>\<open>packet\<close> is the configured \<open>maxAllowedPacket\<close>, if any; both limits are \<open>1024 * 1024\<close> bytes.\<close>

definition byte_limit :: "int option \<Rightarrow> nat" where
  "byte_limit packet =
     (case packet of None \<Rightarrow> 1048576 | Some p \<Rightarrow> nat (max 1 (min 1048576 (p - 1024))))"

definition insertMany_chunks :: "int option \<Rightarrow> string \<Rightarrow> scalar list list \<Rightarrow> scalar list list list" where
  "insertMany_chunks packet sql rws =
     batches insert_row_bytes (byte_limit packet) (65535 div length (hd rws)) (length sql + 32) rws"

definition outpoint_bytes :: "string \<times> int \<Rightarrow> nat" where
  "outpoint_bytes spend = length (fst spend) + 96"

definition queryOutpoints_chunks :: "int option \<Rightarrow> string \<Rightarrow> (string \<times> int) list \<Rightarrow> (string \<times> int) list list" where
  "queryOutpoints_chunks packet sql spends =
     batches outpoint_bytes (byte_limit packet) 1000 (length sql + 128) spends"

lemma batches_spec:
  assumes "xs \<noteq> []"
  shows "concat (batches sz byteLimit maxRows baseBytes xs) = xs
    \<and> (\<forall>c\<in>set (batches sz byteLimit maxRows baseBytes xs). fits sz byteLimit maxRows baseBytes c)"
  using batch_loop [of sz byteLimit maxRows baseBytes xs] assms
  by (auto simp: batches_def split: prod.splits)

text \<open>
  C39. Cutting an insertion into batches loses and reorders no row, sends no empty batch, keeps
  every batch of rows of one width within the 65535 parameters of a prepared statement, and within
  the byte limit unless a single row already exceeds it.
\<close>

theorem insertMany_chunks_spec:
  assumes "rws \<noteq> []" and "\<forall>r\<in>set rws. length r = w" and "0 < w" and "w \<le> 65535"
  shows "concat (insertMany_chunks packet sql rws) = rws
    \<and> (\<forall>c\<in>set (insertMany_chunks packet sql rws). c \<noteq> [] \<and> length (concat c) \<le> 65535
        \<and> (length c = 1 \<or> length sql + 32 + sum_list (map insert_row_bytes c) \<le> byte_limit packet))"
proof (intro conjI ballI)
  let ?b = "insertMany_chunks packet sql rws"
  have hd: "length (hd rws) = w" using assms(1,2) by simp
  note spec = batches_spec [OF assms(1), of insert_row_bytes "byte_limit packet" "65535 div w" "length sql + 32"]
  show "concat ?b = rws" using spec hd by (simp add: insertMany_chunks_def)
  fix c
  assume c: "c \<in> set ?b"
  then have fit: "fits insert_row_bytes (byte_limit packet) (65535 div w) (length sql + 32) c"
    using spec hd by (simp add: insertMany_chunks_def)
  then show "c \<noteq> []" and "length c = 1 \<or> length sql + 32 + sum_list (map insert_row_bytes c) \<le> byte_limit packet"
    by (simp_all add: fits_def)
  have "\<forall>r\<in>set c. length r = w"
    using assms(2) c \<open>concat ?b = rws\<close> by (metis UN_I set_concat)
  then have same: "map length c = map (\<lambda>_. w) c" by simp
  have "length (concat c) = length c * w"
    unfolding length_concat same by (simp add: sum_list_triv)
  also have "\<dots> \<le> (65535 div w) * w"
  proof -
    have "1 \<le> 65535 div w" using assms(3,4) by (simp add: Suc_le_eq div_greater_zero_iff)
    then show ?thesis using fit by (intro mult_right_mono) (simp_all add: fits_def)
  qed
  also have "\<dots> \<le> 65535" by simp
  finally show "length (concat c) \<le> 65535" .
qed

lemma insertMany_chunks_spec_witness:
  "concat (insertMany_chunks (Some 1100) ''I'' [[Text ''aaaa''], [Fixed], [Text ''bb'']]) = [[Text ''aaaa''], [Fixed], [Text ''bb'']]
   \<and> insertMany_chunks (Some 1100) ''I'' [[Text ''aaaa''], [Fixed], [Text ''bb'']] = [[[Text ''aaaa'']], [[Fixed], [Text ''bb'']]]"
  using insertMany_chunks_spec [of "[[Text ''aaaa''], [Fixed], [Text ''bb'']]" 1 "Some 1100" "''I''"]
  by (simp add: insertMany_chunks_def batches_def batch_step_def byte_limit_def insert_row_bytes_def)

section \<open>Look-ups by outpoint in batches\<close>

text \<open>
  The rows of one batch with the column \<open>_outpointInputId\<close> the batched query adds, as the pair that
  becomes the key: the output and the input that spends it.
\<close>

definition outpoint_rows :: "(string \<times> int) list \<Rightarrow> db \<Rightarrow> ((nat \<times> nat option) \<times> output_spend) list" where
  "outpoint_rows spends d =
     [((o_outID o', map_option fst s),
       \<lparr>sp_addrAddress = a_addrAddress a, sp_outID = o_outID o', sp_outAmount = o_outAmount o',
        sp_txnTxid = t_txnTxid t, sp_outIndex = o_outIndex o', sp_spendingTxnID = map_option snd s\<rparr>).
        (txid, index) \<leftarrow> remdups spends,
        t \<leftarrow> rows (transactions d), t_txnTxid t = txid,
        o' \<leftarrow> rows (outputs d), o_txnID o' = t_txnID t \<and> o_outIndex o' = index,
        a \<leftarrow> rows (addresses d), a_addrID a = o_addrID o',
        s \<leftarrow> spenders d (o_outID o')]"

text \<open>The loop that keeps the first row of every key.\<close>

fun keep_new :: "'k list \<Rightarrow> ('k \<times> 'r) list \<Rightarrow> ('k \<times> 'r) list" where
  "keep_new seen [] = []"
| "keep_new seen ((k, r) # rs) = (if k \<in> set seen then keep_new seen rs else (k, r) # keep_new (k # seen) rs)"

definition queryOutpointChunks :: "(string \<times> int) list list \<Rightarrow> db \<Rightarrow> output_spend list" where
  "queryOutpointChunks css d =
     map snd (keep_new [] (concat (map (\<lambda>c. outpoint_rows c d) css)))"

definition getOutputSpends_batched :: "int option \<Rightarrow> string \<Rightarrow> (string \<times> int) list \<Rightarrow> db \<Rightarrow> output_spend list" where
  "getOutputSpends_batched packet sql spends d =
     (if spends = [] then []
      else case queryOutpoints_chunks packet sql spends of
             [c] \<Rightarrow> getOutputSpends c d
           | cs \<Rightarrow> queryOutpointChunks cs d)"

lemma getOutputSpends_rows: "getOutputSpends spends d = map snd (outpoint_rows spends d)"
  by (simp add: getOutputSpends_def outpoint_rows_def map_concat comp_def if_distrib case_prod_unfold cong: if_cong)

lemma keep_new_spec:
  "distinct (map fst (keep_new seen rs)) \<and> fst ` set (keep_new seen rs) = fst ` set rs - set seen
   \<and> set (keep_new seen rs) \<subseteq> set rs"
  by (induction seen rs rule: keep_new.induct) auto

lemma distinct_concat_map:
  assumes "distinct xs" and "\<And>x. x \<in> set xs \<Longrightarrow> distinct (f x)"
    and "\<And>x e. \<lbrakk>x \<in> set xs; e \<in> set (f x)\<rbrakk> \<Longrightarrow> g e = x"
  shows "distinct (concat (map f xs))"
  using assms
proof (induction xs)
  case (Cons x xs)
  have "set (f x) \<inter> (\<Union>y\<in>set xs. set (f y)) = {}"
  proof (rule ccontr)
    assume "set (f x) \<inter> (\<Union>y\<in>set xs. set (f y)) \<noteq> {}"
    then obtain e y where e: "e \<in> set (f x)" "y \<in> set xs" "e \<in> set (f y)" by blast
    then have "g e = x" "g e = y" using Cons.prems(3) by auto
    then show False using Cons.prems(1) e(2) by simp
  qed
  then show ?case using Cons by simp
qed simp

lemma distinct_spenders:
  assumes "wf_db d"
  shows "distinct (map (map_option fst) (spenders d i))"
proof -
  have "distinct (map i_inID (filter P (rows (inputs d))))" for P
    using table_ok_distinct [OF wf_tables(5) [OF assms]] by auto
  moreover define L where "L = filter (\<lambda>j. i_outID j = i) (rows (inputs d))"
  moreover have "map (map_option fst) (spenders d i) = (if L = [] then [None] else map Some (map i_inID L))"
    by (cases L) (simp_all add: spenders_def L_def)
  ultimately show ?thesis by (simp add: distinct_map inj_on_def)
qed

definition output_keys :: "db \<Rightarrow> output_row \<Rightarrow> (nat \<times> nat option) list" where
  "output_keys d o' =
     (case find_by a_addrID (o_addrID o') (rows (addresses d)) of
        None \<Rightarrow> [] | Some _ \<Rightarrow> map (Pair (o_outID o')) (map (map_option fst) (spenders d (o_outID o'))))"

definition request_keys :: "db \<Rightarrow> string \<times> int \<Rightarrow> (nat \<times> nat option) list" where
  "request_keys d q =
     (case find_by t_txnTxid (fst q) (rows (transactions d)) of
        None \<Rightarrow> []
      | Some t \<Rightarrow> concat (map (\<lambda>o'. if o_txnID o' = t_txnID t \<and> o_outIndex o' = snd q then output_keys d o' else [])
                     (rows (outputs d))))"

lemma outpoint_row_keys:
  assumes "wf_db d"
  shows "map fst (outpoint_rows spends d) = concat (map (request_keys d) (remdups spends))"
proof -
  have pk: "distinct (map t_txnTxid (rows (transactions d)))" "distinct (map a_addrID (rows (addresses d)))"
    using table_ok_distinct wf_tables [OF assms] by blast+
  show ?thesis
    unfolding outpoint_rows_def join_unique [OF pk(1)] join_unique [OF pk(2)] request_keys_def output_keys_def
    by (simp add: map_concat comp_def case_prod_unfold if_distrib option.case_distrib [of "map fst"]
        cong: if_cong option.case_cong)
qed

lemma fst_output_keys: "e \<in> set (output_keys d o') \<Longrightarrow> fst e = o_outID o'"
  by (auto simp: output_keys_def split: option.splits)

lemma distinct_output_keys: "wf_db d \<Longrightarrow> distinct (output_keys d o')"
  using distinct_spenders [of d "o_outID o'"]
  by (simp add: output_keys_def distinct_map inj_on_def split: option.splits)

lemma distinct_outpoint_rows:
  assumes "wf_db d"
  shows "distinct (map fst (outpoint_rows spends d))"
proof -
  have dout: "distinct (rows (outputs d))" using wf_pks(2) [OF assms] by (simp add: distinct_map)
  define out where "out oid = the (find_by o_outID oid (rows (outputs d)))" for oid
  define tx where "tx o' = the (find_by t_txnID (o_txnID o') (rows (transactions d)))" for o' :: output_row
  have out: "out (o_outID o') = o'" if "o' \<in> set (rows (outputs d))" for o'
    using that by (simp add: out_def find_by_Some_iff [OF wf_pks(2) [OF assms], THEN iffD2])
  have "distinct (request_keys d q)" for q
  proof (cases "find_by t_txnTxid (fst q) (rows (transactions d))")
    case (Some t)
    show ?thesis unfolding request_keys_def Some option.case
    proof (rule distinct_concat_map [OF dout, where g = "\<lambda>e. out (fst e)"])
      fix o' e
      assume "o' \<in> set (rows (outputs d))"
        and "e \<in> set (if o_txnID o' = t_txnID t \<and> o_outIndex o' = snd q then output_keys d o' else [])"
      then show "out (fst e) = o'" using fst_output_keys out by (metis empty_iff empty_set)
    qed (simp add: distinct_output_keys [OF assms])
  qed (simp add: request_keys_def)
  moreover have "(t_txnTxid (tx (out (fst e))), o_outIndex (out (fst e))) = q" if e: "e \<in> set (request_keys d q)" for e q
  proof -
    obtain t where t: "find_by t_txnTxid (fst q) (rows (transactions d)) = Some t"
      using e by (cases "find_by t_txnTxid (fst q) (rows (transactions d))") (simp_all add: request_keys_def)
    then obtain o' where o': "o' \<in> set (rows (outputs d))" "o_txnID o' = t_txnID t" "o_outIndex o' = snd q" "e \<in> set (output_keys d o')"
      using e by (auto simp: request_keys_def split: if_splits)
    have "tx o' = t"
      using find_by_SomeD [OF t] o'(2) find_by_Some_iff [OF wf_pks(3) [OF assms], of "t_txnID t" t]
      by (simp add: tx_def)
    then show ?thesis
      using o' find_by_SomeD [OF t] out fst_output_keys [OF o'(4)] by (cases q) simp
  qed
  ultimately show ?thesis
    unfolding outpoint_row_keys [OF assms]
    by (intro distinct_concat_map [where g = "\<lambda>e. (t_txnTxid (tx (out (fst e))), o_outIndex (out (fst e)))"]
        distinct_remdups)
qed

text \<open>The key of a row determines it, whatever the requests were.\<close>

lemma outpoint_rows_functional:
  assumes "wf_db d" and "(k, r) \<in> set (outpoint_rows ss d)" and "(k, q) \<in> set (outpoint_rows ts d)"
  shows "r = q"
proof -
  have "(k, r) \<in> set (outpoint_rows (ss @ ts) d)" "(k, q) \<in> set (outpoint_rows (ss @ ts) d)"
    using assms(2,3) by (auto simp: outpoint_rows_def)
  then show ?thesis
    using distinct_map_inj [OF distinct_outpoint_rows [OF assms(1)]] by fastforce
qed

lemma mset_outpoint_chunks:
  assumes "wf_db d" and "concat css = spends"
  shows "mset (queryOutpointChunks css d) = mset (getOutputSpends spends d)"
proof -
  let ?all = "concat (map (\<lambda>c. outpoint_rows c d) css)"
  have set: "set ?all = set (outpoint_rows spends d)"
    unfolding assms(2) [symmetric] by (auto simp: outpoint_rows_def)
  have "set (keep_new [] ?all) = set (outpoint_rows spends d)"
  proof (intro equalityI subsetI)
    fix p assume "p \<in> set (keep_new [] ?all)"
    then show "p \<in> set (outpoint_rows spends d)" using keep_new_spec [of "[]" ?all] set by blast
  next
    fix p assume p: "p \<in> set (outpoint_rows spends d)"
    then have "fst p \<in> fst ` set (keep_new [] ?all)" using keep_new_spec [of "[]" ?all] set by auto
    then obtain q where q: "q \<in> set (keep_new [] ?all)" "fst q = fst p" by auto
    then have "q \<in> set (outpoint_rows spends d)" using keep_new_spec [of "[]" ?all] set by blast
    then have "(fst p, snd q) \<in> set (outpoint_rows spends d)" unfolding q(2) [symmetric] by simp
    moreover have "(fst p, snd p) \<in> set (outpoint_rows spends d)" using p by simp
    ultimately have "snd q = snd p" by (rule outpoint_rows_functional [OF assms(1)])
    with q(2) have "q = p" by (rule prod_eqI)
    then show "p \<in> set (keep_new [] ?all)" using q by simp
  qed
  moreover have "distinct (keep_new [] ?all)" using keep_new_spec [of "[]" ?all] by (simp add: distinct_map)
  moreover have "distinct (outpoint_rows spends d)"
    using distinct_outpoint_rows [OF assms(1)] by (simp add: distinct_map)
  ultimately have "mset (keep_new [] ?all) = mset (outpoint_rows spends d)"
    by (simp add: set_eq_iff_mset_eq_distinct)
  then show ?thesis by (simp add: queryOutpointChunks_def getOutputSpends_rows)
qed

text \<open>
  A look-up of outpoints cut into batches answers like a look-up of all of them at once: the
  same rows, each as often, even when a request is repeated across two batches.
\<close>

theorem getOutputSpends_batched_spec:
  assumes "wf_db d"
  shows "mset (getOutputSpends_batched packet sql spends d) = mset (getOutputSpends spends d)"
proof (cases "spends = []")
  case True
  then show ?thesis by (simp add: getOutputSpends_batched_def getOutputSpends_def)
next
  case False
  have cat: "concat (queryOutpoints_chunks packet sql spends) = spends"
    using batches_spec [OF False] by (simp add: queryOutpoints_chunks_def)
  show ?thesis
    using mset_outpoint_chunks [OF assms cat] cat False
    by (auto simp: getOutputSpends_batched_def split: list.splits)
qed

lemma getOutputSpends_batched_spec_witness:
  "mset (getOutputSpends_batched (Some 1150) ''Q'' [(''t1'', 0), (''t2'', 1), (''t1'', 0)] demo_db) =
   mset (getOutputSpends [(''t1'', 0), (''t2'', 1), (''t1'', 0)] demo_db)
   \<and> length (queryOutpoints_chunks (Some 1150) ''Q'' [(''t1'', 0), (''t2'', 1), (''t1'', 0)]) = 3"
  using getOutputSpends_batched_spec [OF wf_demo_db]
  by (simp add: queryOutpoints_chunks_def batches_def batch_step_def byte_limit_def outpoint_bytes_def)

end
