(* ===== verification/Effects.thy ===== *)
theory Effects
  imports Errors
begin

text \<open>
  Handlers: functions that read and change a state, can throw, and may not return. A handler takes
  the state and gives \<open>None\<close> when it does not return (within the fuel of a loop), otherwise the
  value it returns or the error it throws, with the state it leaves: what was written before an
  error stays written.
\<close>

type_synonym ('s, 'a) act = "'s \<Rightarrow> ('a result \<times> 's) option"

definition ret :: "'a \<Rightarrow> ('s, 'a) act" where
  "ret a = (\<lambda>s. Some (Inr a, s))"

definition throw :: "exn \<Rightarrow> ('s, 'a) act" where
  "throw e = (\<lambda>s. Some (Inl e, s))"

definition bindA :: "('s, 'a) act \<Rightarrow> ('a \<Rightarrow> ('s, 'b) act) \<Rightarrow> ('s, 'b) act" where
  "bindA m f = (\<lambda>s. case m s of
     None \<Rightarrow> None
   | Some (r, t) \<Rightarrow> (case r of Inl e \<Rightarrow> Some (Inl e, t) | Inr a \<Rightarrow> f a t))"

text \<open>A read of the state, a change of it, and a change that can fail and then changes nothing.\<close>

definition ask :: "('s \<Rightarrow> 'a) \<Rightarrow> ('s, 'a) act" where
  "ask f = (\<lambda>s. Some (Inr (f s), s))"

definition modify :: "('s \<Rightarrow> 's) \<Rightarrow> ('s, unit) act" where
  "modify f = (\<lambda>s. Some (Inr (), f s))"

definition tryModify :: "('s \<Rightarrow> 's result) \<Rightarrow> ('s, unit) act" where
  "tryModify f = (\<lambda>s. Some (case f s of Inl e \<Rightarrow> (Inl e, s) | Inr t \<Rightarrow> (Inr (), t)))"

definition lift :: "'a result \<Rightarrow> ('s, 'a) act" where
  "lift r = (\<lambda>s. Some (r, s))"

fun forA :: "('x \<Rightarrow> ('s, unit) act) \<Rightarrow> 'x list \<Rightarrow> ('s, unit) act" where
  "forA f [] = ret ()"
| "forA f (x # xs) = bindA (f x) (\<lambda>_. forA f xs)"

fun mapA :: "('x \<Rightarrow> ('s, 'y) act) \<Rightarrow> 'x list \<Rightarrow> ('s, 'y list) act" where
  "mapA f [] = ret []"
| "mapA f (x # xs) = bindA (f x) (\<lambda>y. bindA (mapA f xs) (\<lambda>ys. ret (y # ys)))"

text \<open>\<open>try { m } catch (e) { h e }\<close>.\<close>

definition catchA :: "('s, 'a) act \<Rightarrow> (exn \<Rightarrow> ('s, 'a) act) \<Rightarrow> ('s, 'a) act" where
  "catchA m h = (\<lambda>s. case m s of
     None \<Rightarrow> None
   | Some (r, t) \<Rightarrow> (case r of Inl e \<Rightarrow> h e t | Inr a \<Rightarrow> Some (Inr a, t)))"

text \<open>A \<open>catch\<close> that logs and goes on; the end of the process is not caught.\<close>

definition catchLog :: "('s, 'a) act \<Rightarrow> 'a \<Rightarrow> ('s, 'a) act" where
  "catchLog m a = catchA m (\<lambda>e. if e = Exit then throw Exit else ret a)"

text \<open>A loop that carries a value.\<close>

fun foldA :: "('a \<Rightarrow> 'x \<Rightarrow> ('s, 'a) act) \<Rightarrow> 'a \<Rightarrow> 'x list \<Rightarrow> ('s, 'a) act" where
  "foldA f a [] = ret a"
| "foldA f a (x # xs) = bindA (f a x) (\<lambda>b. foldA f b xs)"

text \<open>A handler that never returns.\<close>

definition unending :: "('s, 'a) act" where
  "unending = (\<lambda>s. None)"

lemmas act_defs = ret_def throw_def ask_def modify_def tryModify_def lift_def

text \<open>How a sequence returned: one rule for each way.\<close>

lemma bindA_Inr:
  "bindA m f s = Some (Inr b, t) \<longleftrightarrow> (\<exists>a u. m s = Some (Inr a, u) \<and> f a u = Some (Inr b, t))"
  by (auto simp: bindA_def split: option.splits sum.splits)

lemma bindA_Some:
  "bindA m f s = Some (r, t) \<longleftrightarrow> (\<exists>e. r = Inl e \<and> m s = Some (Inl e, t))
     \<or> (\<exists>a u. m s = Some (Inr a, u) \<and> f a u = Some (r, t))"
  by (auto simp: bindA_def split: option.splits sum.splits)

lemma catchA_Some:
  "catchA m h s = Some (r, t) \<longleftrightarrow> (\<exists>a. r = Inr a \<and> m s = Some (Inr a, t))
     \<or> (\<exists>e u. m s = Some (Inl e, u) \<and> h e u = Some (r, t))"
  by (auto simp: catchA_def split: option.splits sum.splits)

lemma act_simps [simp]:
  "ret a s = Some (r, t) \<longleftrightarrow> r = Inr a \<and> t = s"
  "throw e s = Some (r', t) \<longleftrightarrow> r' = Inl e \<and> t = s"
  "ask g s = Some (r'', t) \<longleftrightarrow> r'' = Inr (g s) \<and> t = s"
  "modify h s = Some (r3, t) \<longleftrightarrow> r3 = Inr () \<and> t = h s"
  "lift q s = Some (r4, t) \<longleftrightarrow> r4 = q \<and> t = s"
  by (auto simp: act_defs)

lemma tryModify_Inr [simp]: "tryModify f s = Some (Inr u, t) \<longleftrightarrow> f s = Inr t"
  by (auto simp: tryModify_def split: sum.splits)

lemma tryModify_Some:
  "tryModify f s = Some (r, t) \<longleftrightarrow> (r = Inr () \<and> f s = Inr t) \<or> (\<exists>e. r = Inl e \<and> f s = Inl e \<and> t = s)"
  by (auto simp: tryModify_def split: sum.splits)

lemma bindA_eval:
  "m s = Some (Inr a, t) \<Longrightarrow> bindA m f s = f a t"
  "m s = Some (Inl e, t) \<Longrightarrow> bindA m f s = Some (Inl e, t)"
  "m s = None \<Longrightarrow> bindA m f s = None"
  by (simp_all add: bindA_def)

lemma bindA_basic [simp]:
  "bindA (ret a) f s = f a s"
  "bindA (ask g) f s = f (g s) s"
  "bindA (modify h) (f' :: unit \<Rightarrow> ('s, 'b) act) s = f' () (h s)"
  "bindA (throw e) f s = Some (Inl e, s)"
  by (simp_all add: bindA_def act_defs)

section \<open>What a handler keeps\<close>

text \<open>A property of the state that holds after the handler, whether it returned or threw.\<close>

definition keeps :: "('s \<Rightarrow> bool) \<Rightarrow> ('s, 'a) act \<Rightarrow> bool" where
  "keeps P m \<longleftrightarrow> (\<forall>s r t. P s \<and> m s = Some (r, t) \<longrightarrow> P t)"

named_theorems keeps_intros \<open>handlers that keep a property of the state\<close>

lemma keepsD: "\<lbrakk>keeps P m; m s = Some (r, t); P s\<rbrakk> \<Longrightarrow> P t"
  unfolding keeps_def by blast

lemma keeps_basic [keeps_intros]:
  "keeps P (ret a)" "keeps P (throw e)" "keeps P (ask g)" "keeps P (lift q)"
  by (auto simp: keeps_def)

lemma keeps_modify [keeps_intros]: "(\<And>s. P s \<Longrightarrow> P (h s)) \<Longrightarrow> keeps P (modify h)"
  by (simp add: keeps_def)

lemma keeps_tryModify [keeps_intros]:
  "(\<And>s t. \<lbrakk>P s; f s = Inr t\<rbrakk> \<Longrightarrow> P t) \<Longrightarrow> keeps P (tryModify f)"
  by (auto simp: keeps_def tryModify_Some)

lemma keeps_bind [keeps_intros]: "\<lbrakk>keeps P m; \<And>a. keeps P (f a)\<rbrakk> \<Longrightarrow> keeps P (bindA m f)"
  unfolding keeps_def bindA_Some by blast

lemma keeps_catch [keeps_intros]: "\<lbrakk>keeps P m; \<And>e. keeps P (h e)\<rbrakk> \<Longrightarrow> keeps P (catchA m h)"
  unfolding keeps_def catchA_Some by blast

lemma keeps_if [keeps_intros]: "\<lbrakk>b \<Longrightarrow> keeps P m; \<not> b \<Longrightarrow> keeps P n\<rbrakk> \<Longrightarrow> keeps P (if b then m else n)"
  by simp

lemma keeps_option [keeps_intros]:
  "\<lbrakk>x = None \<Longrightarrow> keeps P m; \<And>y. x = Some y \<Longrightarrow> keeps P (n y)\<rbrakk>
   \<Longrightarrow> keeps P (case x of None \<Rightarrow> m | Some y \<Rightarrow> n y)"
  by (cases x) simp_all

lemma keeps_for [keeps_intros]: "(\<And>x. x \<in> set xs \<Longrightarrow> keeps P (f x)) \<Longrightarrow> keeps P (forA f xs)"
  by (induction xs) (auto intro!: keeps_bind keeps_basic)

lemma keeps_map [keeps_intros]: "(\<And>x. x \<in> set xs \<Longrightarrow> keeps P (f x)) \<Longrightarrow> keeps P (mapA f xs)"
  by (induction xs) (auto intro!: keeps_bind keeps_basic)

lemma keeps_foldA [keeps_intros]: "(\<And>a x. x \<in> set xs \<Longrightarrow> keeps P (f a x)) \<Longrightarrow> keeps P (foldA f a xs)"
  by (induction xs arbitrary: a) (auto intro!: keeps_bind keeps_basic)

lemma keeps_unending [keeps_intros]: "keeps P unending"
  by (simp add: keeps_def unending_def)

section \<open>Loops\<close>

lemma forA_append_Inr:
  "forA f (xs @ ys) s = Some (Inr (), t) \<longleftrightarrow>
     (\<exists>u. forA f xs s = Some (Inr (), u) \<and> forA f ys u = Some (Inr (), t))"
  by (induction xs arbitrary: s) (auto simp: bindA_Inr)

text \<open>A loop that returned: an assertion for the part of the list that was treated.\<close>

lemma forA_rule:
  assumes "forA f xs s = Some (Inr (), t)" and "I [] s"
    and "\<And>pre x s' t'. \<lbrakk>\<exists>post. xs = pre @ x # post; I pre s'; f x s' = Some (Inr (), t')\<rbrakk> \<Longrightarrow> I (pre @ [x]) t'"
  shows "I xs t"
proof -
  have "I (pre @ post) t" if "xs = pre @ post" "forA f post s' = Some (Inr (), t)" "I pre s'" for pre post s'
    using that
  proof (induction post arbitrary: pre s')
    case (Cons x post)
    then obtain u where u: "f x s' = Some (Inr (), u)" "forA f post u = Some (Inr (), t)"
      by (auto simp: bindA_Inr)
    have "I (pre @ [x]) u" using Cons.prems(1,3) u(1) assms(3) by blast
    then show ?case using Cons.IH [of "pre @ [x]" u] Cons.prems(1) u(2) by simp
  qed simp
  then show ?thesis using assms(1,2) by force
qed

lemma mapA_rule:
  assumes "mapA f xs s = Some (Inr ys, t)" and "I [] [] s"
    and "\<And>pre zs x s' y t'. \<lbrakk>\<exists>post. xs = pre @ x # post; I pre zs s'; f x s' = Some (Inr y, t')\<rbrakk> \<Longrightarrow> I (pre @ [x]) (zs @ [y]) t'"
  shows "I xs ys t"
proof -
  have "I (pre @ post) (zs @ vs) t" if "xs = pre @ post" "mapA f post s' = Some (Inr vs, t)" "I pre zs s'" for pre post zs vs s'
    using that
  proof (induction post arbitrary: pre zs vs s')
    case (Cons x post)
    then obtain y u vs' where u: "f x s' = Some (Inr y, u)" "mapA f post u = Some (Inr vs', t)" "vs = y # vs'"
      by (auto simp: bindA_Inr)
    have "I (pre @ [x]) (zs @ [y]) u" using Cons.prems(1,3) u(1) assms(3) by blast
    then show ?case using Cons.IH [of "pre @ [x]" u vs' "zs @ [y]"] Cons.prems(1) u(2,3) by simp
  qed simp
  from this [of "[]" xs s ys "[]"] show ?thesis using assms(1,2) by simp
qed

lemma forA_inv:
  assumes "forA f xs s = Some (Inr (), t)" and "P s"
    and "\<And>x s' t'. \<lbrakk>x \<in> set xs; P s'; f x s' = Some (Inr (), t')\<rbrakk> \<Longrightarrow> P t'"
  shows "P t"
  using assms(1,2) by (rule forA_rule [where I = "\<lambda>_. P"]) (auto intro: assms(3))

text \<open>A loop whose body always returns returns.\<close>

lemma forA_returns:
  assumes "\<And>x s. \<lbrakk>x \<in> set xs; P s\<rbrakk> \<Longrightarrow> \<exists>t. f x s = Some (Inr (), t) \<and> P t" and "P s"
  shows "\<exists>t. forA f xs s = Some (Inr (), t) \<and> P t"
  using assms
proof (induction xs arbitrary: s)
  case (Cons x xs)
  then obtain t where "f x s = Some (Inr (), t)" "P t" by (meson list.set_intros(1))
  then show ?case using Cons by (auto simp: bindA_eval)
qed simp

section \<open>Handlers that return\<close>

text \<open>A handler that returns or throws from every state: no loop of it runs forever.\<close>

definition returns :: "('s, 'a) act \<Rightarrow> bool" where
  "returns m \<longleftrightarrow> (\<forall>s. m s \<noteq> None)"

named_theorems returns_intros \<open>handlers that return\<close>

lemma returnsD: "returns m \<Longrightarrow> \<exists>r t. m s = Some (r, t)"
  by (metis not_None_eq returns_def surj_pair)

lemma returns_basic [returns_intros]:
  "returns (ret a)" "returns (throw e)" "returns (ask g)" "returns (lift q)" "returns (modify h)" "returns (tryModify f)"
  by (simp_all add: returns_def act_defs tryModify_def split: sum.split)

lemma returns_bind [returns_intros]: "\<lbrakk>returns m; \<And>a. returns (f a)\<rbrakk> \<Longrightarrow> returns (bindA m f)"
  unfolding returns_def bindA_def by (simp split: option.split sum.split)

lemma returns_catch [returns_intros]: "\<lbrakk>returns m; \<And>e. returns (h e)\<rbrakk> \<Longrightarrow> returns (catchA m h)"
  unfolding returns_def catchA_def by (simp split: option.split sum.split)

lemma returns_if [returns_intros]: "\<lbrakk>b \<Longrightarrow> returns m; \<not> b \<Longrightarrow> returns n\<rbrakk> \<Longrightarrow> returns (if b then m else n)"
  by simp

lemma returns_option [returns_intros]:
  "\<lbrakk>x = None \<Longrightarrow> returns m; \<And>y. x = Some y \<Longrightarrow> returns (n y)\<rbrakk> \<Longrightarrow> returns (case x of None \<Rightarrow> m | Some y \<Rightarrow> n y)"
  by (cases x) simp_all

lemma returns_for [returns_intros]: "(\<And>x. x \<in> set xs \<Longrightarrow> returns (f x)) \<Longrightarrow> returns (forA f xs)"
  by (induction xs) (auto intro!: returns_bind returns_basic)

lemma returns_map [returns_intros]: "(\<And>x. x \<in> set xs \<Longrightarrow> returns (f x)) \<Longrightarrow> returns (mapA f xs)"
  by (induction xs) (auto intro!: returns_bind returns_basic)

lemma returns_foldA [returns_intros]: "(\<And>a x. x \<in> set xs \<Longrightarrow> returns (f a x)) \<Longrightarrow> returns (foldA f a xs)"
  by (induction xs arbitrary: a) (auto intro!: returns_bind returns_basic)

end
