(* ===== verification/World.thy ===== *)
theory World
  imports Effects Db_Scheduled Db_Batch
begin

text \<open>
  The state of the handlers of the services: a record with the database that each service extends
  with what it keeps in memory. An awaited call of the wrapper is one step on the database.
\<close>

record world =
  w_db :: db

definition askDb :: "(db \<Rightarrow> 'a) \<Rightarrow> ('s world_scheme, 'a) act" where
  "askDb f = ask (\<lambda>s. f (w_db s))"

definition onDb :: "(db \<Rightarrow> db) \<Rightarrow> ('s world_scheme, unit) act" where
  "onDb f = modify (\<lambda>s. s\<lparr>w_db := f (w_db s)\<rparr>)"

definition tryDb :: "(db \<Rightarrow> db result) \<Rightarrow> ('s world_scheme, unit) act" where
  "tryDb f = tryModify (\<lambda>s. case f (w_db s) of Inl e \<Rightarrow> Inl e | Inr d \<Rightarrow> Inr (s\<lparr>w_db := d\<rparr>))"

text \<open>A call of the wrapper that returns a value and may throw after it wrote.\<close>

definition callDb :: "(db \<Rightarrow> 'a result \<times> db) \<Rightarrow> ('s world_scheme, 'a) act" where
  "callDb f = (\<lambda>s. Some (fst (f (w_db s)), s\<lparr>w_db := snd (f (w_db s))\<rparr>))"

text \<open>A call of the wrapper that returns a value with the new database, or throws.\<close>

definition getDb :: "(db \<Rightarrow> ('a \<times> db) result) \<Rightarrow> ('s world_scheme, 'a) act" where
  "getDb f = (\<lambda>s. Some (case f (w_db s) of Inl e \<Rightarrow> (Inl e, s) | Inr (a, d) \<Rightarrow> (Inr a, s\<lparr>w_db := d\<rparr>)))"

lemma db_call_simps [simp]:
  "askDb f s = Some (r1, t) \<longleftrightarrow> r1 = Inr (f (w_db s)) \<and> t = s"
  "onDb g s = Some (r2, t) \<longleftrightarrow> r2 = Inr () \<and> t = s\<lparr>w_db := g (w_db s)\<rparr>"
  "callDb h s = Some (r3, t) \<longleftrightarrow> r3 = fst (h (w_db s)) \<and> t = s\<lparr>w_db := snd (h (w_db s))\<rparr>"
  "tryDb k s = Some (Inr u, t) \<longleftrightarrow> (\<exists>d. k (w_db s) = Inr d \<and> t = s\<lparr>w_db := d\<rparr>)"
  "getDb l s = Some (Inr a, t) \<longleftrightarrow> (\<exists>d. l (w_db s) = Inr (a, d) \<and> t = s\<lparr>w_db := d\<rparr>)"
  by (auto simp: askDb_def onDb_def callDb_def tryDb_def getDb_def split: sum.splits prod.splits)

lemma db_call_bind [simp]:
  "bindA (askDb f) k s = k (f (w_db s)) s"
  "bindA (onDb g) (k' :: unit \<Rightarrow> ('a world_scheme, 'b) act) s = k' () (s\<lparr>w_db := g (w_db s)\<rparr>)"
  by (simp_all add: askDb_def onDb_def)

abbreviation wf :: "'s world_scheme \<Rightarrow> bool" where
  "wf s \<equiv> wf_db (w_db s)"

lemma returns_db_calls [returns_intros]:
  "returns (askDb f)" "returns (onDb g)" "returns (tryDb k)" "returns (callDb h)" "returns (getDb l)"
  by (auto simp: askDb_def onDb_def tryDb_def intro: returns_basic)
    (simp_all add: callDb_def getDb_def returns_def)

lemma keeps_askDb [keeps_intros]: "keeps P (askDb f)"
  by (simp add: keeps_def)

lemma keeps_wf_calls [keeps_intros]:
  "(\<And>d. wf_db d \<Longrightarrow> wf_db (g d)) \<Longrightarrow> keeps wf (onDb g)"
  "(\<And>d e. \<lbrakk>wf_db d; k d = Inr e\<rbrakk> \<Longrightarrow> wf_db e) \<Longrightarrow> keeps wf (tryDb k)"
  "(\<And>d. wf_db d \<Longrightarrow> wf_db (snd (h d))) \<Longrightarrow> keeps wf (callDb h)"
  "(\<And>d a e. \<lbrakk>wf_db d; l d = Inr (a, e)\<rbrakk> \<Longrightarrow> wf_db e) \<Longrightarrow> keeps wf (getDb l)"
  by (auto simp: keeps_def onDb_def tryDb_def callDb_def getDb_def tryModify_Some
      split: sum.splits prod.splits)

text \<open>The operations that cannot fail, for the last step of a proof that a handler keeps the schema.\<close>

lemma wf_deleteTransactionsByID [wf_intros]: "wf_db d \<Longrightarrow> wf_db (deleteTransactionsByID ids d)"
  by (simp add: deleteTransactionsByID_def wf_delete_transactions)

lemma wf_deleteTransaction [wf_intros]: "wf_db d \<Longrightarrow> wf_db (deleteTransaction txid d)"
  by (simp add: deleteTransaction_def wf_delete_transactions)

lemma wf_deleteTransactionsConfirmedAfterHeight [wf_intros]:
  "wf_db d \<Longrightarrow> wf_db (deleteTransactionsConfirmedAfterHeight h d)"
  by (simp add: deleteTransactionsConfirmedAfterHeight_def wf_delete_transactions)

lemmas wf_total = wf_add_address wf_addAddresses wf_deleteHDAccount wf_ensureTransactionId
  wf_addTransaction wf_addTransactions wf_unconfirmTransactions wf_addOutputs
  wf_deleteBlocksAfterHeight wf_deleteTransactionsByID wf_deleteTransaction
  wf_deleteTransactionsConfirmedAfterHeight wf_deleteScheduledTransaction
  wf_updateTriggerScheduledTransaction wf_ensureAddressId

section \<open>Calls to third parties\<close>

text \<open>
  What a third party answers can change from one call to the next: an answer is a function of the
  number of calls made before it.
\<close>

record clocked = world +
  w_clock :: nat

definition remote :: "(nat \<Rightarrow> 'a result) \<Rightarrow> ('s clocked_scheme, 'a) act" where
  "remote answer = (\<lambda>s. Some (answer (w_clock s), s\<lparr>w_clock := Suc (w_clock s)\<rparr>))"

lemma remote_simps [simp]:
  "remote f s = Some (r, t) \<longleftrightarrow> r = f (w_clock s) \<and> t = s\<lparr>w_clock := Suc (w_clock s)\<rparr>"
  by (auto simp: remote_def)

lemma returns_remote [returns_intros]: "returns (remote f)"
  by (simp add: returns_def remote_def)

lemma keeps_remote: "(\<And>s. P s \<Longrightarrow> P (s\<lparr>w_clock := Suc (w_clock s)\<rparr>)) \<Longrightarrow> keeps P (remote f)"
  by (simp add: keeps_def)

lemma keeps_wf_remote [keeps_intros]: "keeps wf (remote f)"
  by (rule keeps_remote) simp

end
