(* ===== verification/Tracker_Transaction.thy ===== *)
theory Tracker_Transaction
  imports World Address_Scripts Util
begin

text \<open>
  \<^verbatim>\<open>tracker/transaction.ts\<close>: what the tracker records of a transaction. The handlers run on the
  database, the cache of the transactions already checked and the fields of the object; the two
  halves of \<open>checkTransaction\<close> run one after the other. The text \<open>txid-index\<close> that keys an
  outpoint is the pair; the loop that derives addresses is given fuel.
\<close>

section \<open>Transactions\<close>

record tx_in =
  in_hash :: "byte list"
  in_index :: int
  in_sequence :: int

record tx_out =
  out_script :: script
  out_value :: int

record btx =
  tx_id :: string
  tx_version :: int
  tx_locktime :: int
  tx_ins :: "tx_in list"
  tx_outs :: "tx_out list"

definition spend :: "tx_in \<Rightarrow> string \<times> int" where
  "spend i = (hex_of_bytes (rev (in_hash i)), in_index i)"

text \<open>The fields of the object: \<open>storing\<close> when \<open>storingTransaction\<close> is not null.\<close>

record tx_object =
  storedTxnID :: "nat option"
  doBroadcast :: bool
  storing :: bool

definition new_object :: tx_object where
  "new_object = \<lparr>storedTxnID = None, doBroadcast = False, storing = False\<rparr>"

record tracker_state = world +
  w_cache :: "string \<rightharpoonup> bool"

record tx_state = tracker_state +
  w_obj :: tx_object

text \<open>The configuration and the third-party functions: \<open>evict\<close> is what the cache drops.\<close>

record 'n tracker =
  tr_lib :: "'n hd_lib"
  tr_external :: bool
  tr_threshold :: nat
  tr_exec :: "derived list result \<Rightarrow> derived list result result"
  tr_pay :: "payment \<Rightarrow> script \<Rightarrow> string option result"
  tr_gap_external :: int
  tr_gap_internal :: int
  tr_evict :: "(string \<rightharpoonup> bool) \<Rightarrow> (string \<rightharpoonup> bool)"

definition gapLimit :: "'n tracker \<Rightarrow> int \<Rightarrow> int" where
  "gapLimit cfg chain = (if chain = 0 then tr_gap_external cfg else tr_gap_internal cfg)"

definition setBroadcast :: "('s tx_state_scheme, unit) act" where
  "setBroadcast = modify (\<lambda>s. s\<lparr>w_obj := (w_obj s)\<lparr>doBroadcast := True\<rparr>\<rparr>)"

text \<open>\<open>_ensureTransaction\<close>: a second call joins the first.\<close>

definition ensureTransaction :: "int \<Rightarrow> btx \<Rightarrow> ('s tx_state_scheme, unit) act" where
  "ensureTransaction now tx =
     bindA (ask (\<lambda>s. storing (w_obj s))) (\<lambda>st.
       if st then ret ()
       else bindA (modify (\<lambda>s. s\<lparr>w_obj := (w_obj s)\<lparr>storing := True\<rparr>\<rparr>)) (\<lambda>_.
            bindA (callDb (ensureTransactionId now (tx_id tx))) (\<lambda>txnID.
            bindA (modify (\<lambda>s. s\<lparr>w_obj := (w_obj s)\<lparr>storedTxnID := Some txnID\<rparr>\<rparr>)) (\<lambda>_.
              onDb (addTransaction now
                \<lparr>nt_txid = tx_id tx, nt_version = tx_version tx, nt_locktime = tx_locktime tx, nt_created = None\<rparr>)))))"

definition storedId :: "('s tx_state_scheme, nat) act" where
  "storedId = bindA (ask (\<lambda>s. storedTxnID (w_obj s))) (\<lambda>i. case i of
     None \<Rightarrow> throw (Exn ''Transaction id is missing'') | Some txnID \<Rightarrow> ret txnID)"

section \<open>Inputs\<close>

text \<open>The position of the input that spends each outpoint: the last one, if there are several.\<close>

definition indexedInputs :: "btx \<Rightarrow> ((string \<times> int) \<times> nat) list" where
  "indexedInputs tx =
     fold (\<lambda>(index, input) m. js_set (spend input) index m) (enumerate 0 (tx_ins tx)) []"

definition inputOf :: "btx \<Rightarrow> nat \<Rightarrow> output_spend \<Rightarrow> new_input result" where
  "inputOf tx txnID r =
     (case map_of (indexedInputs tx) (sp_txnTxid r, sp_outIndex r) of
        None \<Rightarrow> Inl (Exn ''sequence'')
      | Some index \<Rightarrow>
          (case js_nth (tx_ins tx) index of
             None \<Rightarrow> Inl (Exn ''sequence'')
           | Some input \<Rightarrow> Inr \<lparr>ni_txnID = txnID, ni_outID = sp_outID r, ni_inIndex = int index,
                 ni_inSequence = in_sequence input\<rparr>))"

definition doubleSpent :: "nat \<Rightarrow> output_spend list \<Rightarrow> nat list" where
  "doubleSpent txnID results =
     concat (map (\<lambda>r. case sp_spendingTxnID r of
       None \<Rightarrow> [] | Some i \<Rightarrow> if i \<noteq> txnID then [i] else []) results)"

definition cacheDelete :: "string list \<Rightarrow> ('s tx_state_scheme, unit) act" where
  "cacheDelete txids = modify (\<lambda>s. s\<lparr>w_cache := fold (\<lambda>t c. c(t := None)) txids (w_cache s)\<rparr>)"

definition processInputs :: "int \<Rightarrow> btx \<Rightarrow> ('s tx_state_scheme, unit) act" where
  "processInputs now tx =
     bindA (askDb (getOutputSpends (map spend (tx_ins tx)))) (\<lambda>results.
       if results = [] then ret ()
       else bindA setBroadcast (\<lambda>_.
            bindA (ensureTransaction now tx) (\<lambda>_.
            bindA storedId (\<lambda>txnID.
            bindA (lift (mapE (inputOf tx txnID) results)) (\<lambda>inputs.
            bindA (tryDb (addInputs inputs)) (\<lambda>_.
              let doubles = doubleSpent txnID results
              in if doubles = [] then ret ()
                 else bindA (askDb (getTransactionsById doubles)) (\<lambda>txs.
                      bindA (cacheDelete (map t_txnTxid txs)) (\<lambda>_.
                        onDb (deleteTransactionsByID doubles)))))))))"

section \<open>Outputs\<close>

record indexed_output =
  io_index :: nat
  io_value :: int
  io_script :: string

type_synonym indexed_outputs = "(string \<times> indexed_output list) list"

definition indexOutput :: "'n tracker \<Rightarrow> nat \<times> tx_out \<Rightarrow> indexed_outputs \<Rightarrow> indexed_outputs" where
  "indexOutput cfg p m =
     (case outputScript2Address (tr_pay cfg) (out_script (snd p)) of
        None \<Rightarrow> m
      | Some address \<Rightarrow> if address = '''' then m else
          js_push address \<lparr>io_index = fst p, io_value = out_value (snd p),
            io_script = hex_of_bytes (out_script (snd p))\<rparr> m)"

definition indexedOutputs :: "'n tracker \<Rightarrow> btx \<Rightarrow> indexed_outputs" where
  "indexedOutputs cfg tx = fold (indexOutput cfg) (enumerate 0 (tx_outs tx)) []"

record funded =
  f_addrID :: nat
  f_outIndex :: int
  f_outAmount :: int
  f_outScript :: string

text \<open>The outputs of the transaction to one address of the database.\<close>

definition fund :: "indexed_outputs \<Rightarrow> nat \<times> string \<Rightarrow> funded list" where
  "fund outs a =
     (case map_of outs (snd a) of
        None \<Rightarrow> []
      | Some os \<Rightarrow> map (\<lambda>oo. \<lparr>f_addrID = fst a, f_outIndex = int (io_index oo), f_outAmount = io_value oo,
            f_outScript = io_script oo\<rparr>) os)"

definition processOutputsLooseAddresses :: "(nat \<times> string) list \<Rightarrow> indexed_outputs \<Rightarrow> funded list" where
  "processOutputsLooseAddresses addrs outs = concat (map (fund outs) addrs)"

section \<open>New addresses of an account\<close>

text \<open>
  The loop of \<open>_deriveNewAddresses\<close> on one chain: \<open>dv\<close> derives the addresses of the given indices,
  \<open>derivedIndex\<close> and \<open>maxUsed\<close> are \<open>derivedIndices[chain]\<close> and \<open>chainMaxUsedIndex\<close>.
\<close>

fun deriveLoop ::
  "nat \<Rightarrow> (int list \<Rightarrow> derived list result) \<Rightarrow> int \<Rightarrow> indexed_outputs \<Rightarrow> int \<Rightarrow> int
     \<Rightarrow> derived list \<times> (string \<times> derived) list \<Rightarrow> (derived list \<times> (string \<times> derived) list) result option" where
  "deriveLoop 0 dv gap outs derivedIndex maxUsed acc = None"
| "deriveLoop (Suc n) dv gap outs derivedIndex maxUsed acc =
     (case dv (range (derivedIndex + 1) (maxUsed + gap + 1)) of
        Inl e \<Rightarrow> Some (Inl e)
      | Inr derived \<Rightarrow>
          (let hits = filter (\<lambda>d. map_of outs (d_address d) \<noteq> None) derived;
               acc = (fst acc @ derived, fold (\<lambda>d. js_set (d_address d) d) hits (snd acc))
           in if hits = [] then Some (Inr acc)
              else deriveLoop n dv gap outs (maxUsed + gap) (d_index (last hits)) acc))"

text \<open>An array of two entries, read at the index \<open>chain\<close>.\<close>

definition entry :: "int \<Rightarrow> int \<times> int \<Rightarrow> int" where
  "entry chain p = (if chain = 0 then fst p else snd p)"

definition dvOf :: "'n tracker \<Rightarrow> string \<Rightarrow> hd_group \<Rightarrow> int \<Rightarrow> int list \<Rightarrow> derived list result" where
  "dvOf cfg xpub g chain = (\<lambda>indices. deriveAddresses (tr_lib cfg) (tr_external cfg) (tr_threshold cfg)
     (tr_exec cfg) (Some xpub) chain indices (Some (g_hdType g)))"

definition deriveChain ::
  "'n tracker \<Rightarrow> nat \<Rightarrow> string \<Rightarrow> hd_group \<Rightarrow> indexed_outputs \<Rightarrow> db \<Rightarrow> int
     \<Rightarrow> derived list \<times> (string \<times> derived) list \<Rightarrow> (derived list \<times> (string \<times> derived) list) result option" where
  "deriveChain cfg fuel xpub hdAccount outs d chain acc =
     (let gap = gapLimit cfg chain;
          derivedIndex = entry chain (getHDAccountDerivedIndices xpub d);
          loop = deriveLoop fuel (dvOf cfg xpub hdAccount chain) gap outs
      in case maxBy (\<lambda>_. True) oa_hdAddrIndex (filter (\<lambda>a. oa_hdAddrChain a = chain) (g_addresses hdAccount)) of
           None \<Rightarrow> Some (Inr acc)
         | Some a \<Rightarrow>
             (let maxUsed = oa_hdAddrIndex a
              in if maxUsed < entry chain (getHDAccountNextUnusedIndices xpub d) then Some (Inr acc)
                 else if maxUsed + gap \<le> derivedIndex
                   then (if getHDAccountNbDerivedIndices xpub chain maxUsed (maxUsed + gap) d < gap + 1
                         then loop maxUsed maxUsed acc
                         else Some (Inr acc))
                 else loop derivedIndex maxUsed acc))"

definition deriveNewAddresses ::
  "'n tracker \<Rightarrow> nat \<Rightarrow> string \<Rightarrow> hd_group \<Rightarrow> indexed_outputs \<Rightarrow> ('s tx_state_scheme, string list) act" where
  "deriveNewAddresses cfg fuel xpub hdAccount outs = (\<lambda>s.
     case deriveChain cfg fuel xpub hdAccount outs (w_db s) 0 ([], []) of
       None \<Rightarrow> None
     | Some (Inl e) \<Rightarrow> Some (Inl e, s)
     | Some (Inr acc) \<Rightarrow>
         (case deriveChain cfg fuel xpub hdAccount outs (w_db s) 1 acc of
            None \<Rightarrow> None
          | Some (Inl e) \<Rightarrow> Some (Inl e, s)
          | Some (Inr (newAddresses, usedNewAddresses)) \<Rightarrow>
              bindA (tryDb (addAddressesToHDAccount xpub newAddresses)) (\<lambda>_.
                ret (map fst usedNewAddresses)) s))"

text \<open>The body of the loop over the accounts: the outputs paid to one of them.\<close>

definition account_pairs :: "hd_group \<Rightarrow> (nat \<times> string) list" where
  "account_pairs g = map (\<lambda>a. (oa_addrID a, oa_addrAddress a)) (g_addresses g)"

definition processAccount ::
  "'n tracker \<Rightarrow> nat \<Rightarrow> indexed_outputs \<Rightarrow> string \<times> hd_group \<Rightarrow> ('s tx_state_scheme, funded list) act" where
  "processAccount cfg fuel outs = (\<lambda>(xpub, hdAccount).
     bindA (deriveNewAddresses cfg fuel xpub hdAccount outs) (\<lambda>usedNewAddresses.
     bindA (askDb (getAddresses usedNewAddresses)) (\<lambda>usedNewResults.
       ret (concat (map (fund outs)
         (account_pairs hdAccount @ map (\<lambda>r. (a_addrID r, a_addrAddress r)) usedNewResults))))))"

definition processOutputsHdAccounts ::
  "'n tracker \<Rightarrow> nat \<Rightarrow> (string \<times> hd_group) list \<Rightarrow> indexed_outputs \<Rightarrow> ('s tx_state_scheme, funded list) act" where
  "processOutputsHdAccounts cfg fuel hdAccounts outs =
     bindA (mapA (processAccount cfg fuel outs) hdAccounts) (\<lambda>l. ret (concat l))"

definition outputOf :: "nat \<Rightarrow> funded \<Rightarrow> new_output" where
  "outputOf txnID a = \<lparr>no_txnID = txnID, no_addrID = f_addrID a, no_outIndex = f_outIndex a,
     no_outAmount = f_outAmount a, no_outScript = f_outScript a\<rparr>"

definition processOutputs :: "int \<Rightarrow> 'n tracker \<Rightarrow> nat \<Rightarrow> btx \<Rightarrow> ('s tx_state_scheme, unit) act" where
  "processOutputs now cfg fuel tx =
     (let outs = indexedOutputs cfg tx
      in bindA (askDb (getHDAccountsByAddresses (map fst outs))) (\<lambda>res.
         let loose = processOutputsLooseAddresses (by_loose res) outs
         in bindA (processOutputsHdAccounts cfg fuel (by_hd res) outs) (\<lambda>hd.
            let fundedAddresses = loose @ hd
            in if fundedAddresses = [] then ret ()
               else bindA setBroadcast (\<lambda>_.
                    bindA (ensureTransaction now tx) (\<lambda>_.
                    bindA storedId (\<lambda>txnID.
                      onDb (addOutputs (map (outputOf txnID) fundedAddresses))))))))"

section \<open>Checking a transaction\<close>

definition checkTransaction :: "int \<Rightarrow> 'n tracker \<Rightarrow> nat \<Rightarrow> btx \<Rightarrow> ('s tx_state_scheme, bool) act" where
  "checkTransaction now cfg fuel tx =
     bindA (processInputs now tx) (\<lambda>_.
     bindA (processOutputs now cfg fuel tx) (\<lambda>_.
     bindA (ask (\<lambda>s. doBroadcast (w_obj s))) (\<lambda>b.
     bindA (modify (\<lambda>s. s\<lparr>w_cache := tr_evict cfg ((w_cache s)(tx_id tx \<mapsto> b))\<rparr>)) (\<lambda>_.
       ret b))))"

section \<open>The schema is kept\<close>

lemmas tracker_defs = setBroadcast_def ensureTransaction_def storedId_def cacheDelete_def

lemma keeps_wf_obj [keeps_intros]:
  "keeps wf (modify (\<lambda>s. s\<lparr>w_obj := f s\<rparr>))" "keeps wf (modify (\<lambda>s. s\<lparr>w_cache := g s\<rparr>))"
  by (auto intro: keeps_modify)

lemma keeps_wf_ensureTransaction [keeps_intros]: "keeps wf (ensureTransaction now tx)"
  unfolding ensureTransaction_def by (intro keeps_intros wf_total)

lemma keeps_wf_processInputs [keeps_intros]: "keeps wf (processInputs now tx)"
  unfolding processInputs_def setBroadcast_def storedId_def cacheDelete_def Let_def
  by (intro keeps_intros wf_total) (auto intro: wf_addInputs)

lemma keeps_wf_deriveNewAddresses [keeps_intros]: "keeps wf (deriveNewAddresses cfg fuel xpub g outs)"
proof -
  have k: "keeps wf (bindA (tryDb (addAddressesToHDAccount xpub news)) (\<lambda>_. ret used))" for news used
    by (intro keeps_intros) (auto intro: wf_addAddressesToHDAccount)
  show ?thesis
    unfolding keeps_def deriveNewAddresses_def
    by (auto split: option.splits sum.splits prod.splits dest: keepsD [OF k])
qed

lemma keeps_wf_processAccount [keeps_intros]: "keeps wf (processAccount cfg fuel outs p)"
  unfolding processAccount_def by (cases p) (auto intro!: keeps_intros)

lemma keeps_wf_processOutputs [keeps_intros]: "keeps wf (processOutputs now cfg fuel tx)"
  unfolding processOutputs_def processOutputsHdAccounts_def setBroadcast_def storedId_def Let_def
  by (intro keeps_intros wf_total) (auto intro!: keeps_intros)

lemma keeps_wf_checkTransaction: "keeps wf (checkTransaction now cfg fuel tx)"
  unfolding checkTransaction_def by (intro keeps_intros)

end
