(* ===== verification/Tracker_Inputs.thy ===== *)
theory Tracker_Inputs
  imports Tracker_Transaction
begin

text \<open>
  What \<open>processInputs\<close> of \<^verbatim>\<open>tracker/transaction.ts\<close> does to the database: spends are recorded and
  the transactions they conflict with are removed.
\<close>

section \<open>The outputs a transaction spends\<close>

definition outpoint :: "db \<Rightarrow> output_row \<Rightarrow> string \<times> int" where
  "outpoint d o' = (t_txnTxid (trow_of d o'), o_outIndex o')"

definition spends_output :: "btx \<Rightarrow> db \<Rightarrow> output_row \<Rightarrow> bool" where
  "spends_output tx d o' \<longleftrightarrow> outpoint d o' \<in> set (map spend (tx_ins tx))"

lemma trow_of_iff:
  assumes "wf_db d" and "o' \<in> set (rows (outputs d))"
  shows "t \<in> set (rows (transactions d)) \<and> o_txnID o' = t_txnID t \<longleftrightarrow> t = trow_of d o'"
  using wf_find(3) [OF assms] find_by_Some_iff [OF wf_pks(3) [OF assms(1)], of "o_txnID o'" t] by auto

lemma set_spenders:
  "s \<in> set (spenders d i) \<longleftrightarrow>
     (case s of None \<Rightarrow> \<forall>r\<in>set (rows (inputs d)). i_outID r \<noteq> i
      | Some (inID, txnID) \<Rightarrow> \<exists>r\<in>set (rows (inputs d)). i_outID r = i \<and> i_inID r = inID \<and> i_txnID r = txnID)"
proof (cases "filter (\<lambda>j. i_outID j = i) (rows (inputs d))")
  case Nil
  then have "\<forall>r\<in>set (rows (inputs d)). i_outID r \<noteq> i" by (simp add: filter_empty_conv)
  then show ?thesis by (auto simp: spenders_def Nil split: option.splits)
next
  case (Cons a as)
  define L where "L = filter (\<lambda>j. i_outID j = i) (rows (inputs d))"
  have L: "spenders d i = map (\<lambda>i. Some (i_inID i, i_txnID i)) L" "L \<noteq> []"
    using Cons by (simp_all add: spenders_def L_def)
  then have "\<exists>r\<in>set (rows (inputs d)). i_outID r = i" by (auto simp: L_def filter_empty_conv)
  then show ?thesis unfolding L(1) by (auto simp: L_def image_iff split: option.splits)
qed

lemma set_getOutputSpends:
  assumes "wf_db d"
  shows "r \<in> set (getOutputSpends spends d) \<longleftrightarrow>
    (\<exists>o'\<in>set (rows (outputs d)). outpoint d o' \<in> set spends
       \<and> (sp_txnTxid r, sp_outIndex r) = outpoint d o' \<and> sp_outID r = o_outID o'
       \<and> sp_outAmount r = o_outAmount o' \<and> sp_addrAddress r = addr_of d o'
       \<and> (\<exists>s\<in>set (spenders d (o_outID o')). sp_spendingTxnID r = map_option snd s))"
proof -
  have a: "a \<in> set (rows (addresses d)) \<and> a_addrID a = o_addrID o' \<longleftrightarrow> a = arow_of d o'"
    if "o' \<in> set (rows (outputs d))" for a o'
    using wf_find(2) [OF assms that] find_by_Some_iff [OF wf_pks(1) [OF assms], of "o_addrID o'" a] by auto
  have "r \<in> set (getOutputSpends spends d) \<longleftrightarrow>
    (\<exists>o'\<in>set (rows (outputs d)). \<exists>t a. (t \<in> set (rows (transactions d)) \<and> o_txnID o' = t_txnID t)
       \<and> (a \<in> set (rows (addresses d)) \<and> a_addrID a = o_addrID o')
       \<and> (t_txnTxid t, o_outIndex o') \<in> set spends
       \<and> (\<exists>s\<in>set (spenders d (o_outID o')). r = \<lparr>sp_addrAddress = a_addrAddress a, sp_outID = o_outID o',
            sp_outAmount = o_outAmount o', sp_txnTxid = t_txnTxid t, sp_outIndex = o_outIndex o',
            sp_spendingTxnID = map_option snd s\<rparr>))"
    unfolding getOutputSpends_def by (simp, blast)
  also have "\<dots> \<longleftrightarrow> (\<exists>o'\<in>set (rows (outputs d)). outpoint d o' \<in> set spends
       \<and> (\<exists>s\<in>set (spenders d (o_outID o')). r = \<lparr>sp_addrAddress = addr_of d o', sp_outID = o_outID o',
            sp_outAmount = o_outAmount o', sp_txnTxid = fst (outpoint d o'), sp_outIndex = snd (outpoint d o'),
            sp_spendingTxnID = map_option snd s\<rparr>))"
    by (rule bex_cong [OF refl]) (simp add: trow_of_iff [OF assms] a outpoint_def)
  also have "\<dots> \<longleftrightarrow> (\<exists>o'\<in>set (rows (outputs d)). outpoint d o' \<in> set spends
       \<and> (sp_txnTxid r, sp_outIndex r) = outpoint d o' \<and> sp_outID r = o_outID o'
       \<and> sp_outAmount r = o_outAmount o' \<and> sp_addrAddress r = addr_of d o'
       \<and> (\<exists>s\<in>set (spenders d (o_outID o')). sp_spendingTxnID r = map_option snd s))"
    by (cases r) (force simp: outpoint_def)
  finally show ?thesis .
qed

lemma spenders_nonempty: "spenders d i \<noteq> []"
  by (simp add: spenders_def split: list.splits)

lemma getOutputSpends_empty_iff:
  assumes "wf_db d"
  shows "getOutputSpends (map spend (tx_ins tx)) d = [] \<longleftrightarrow>
    (\<forall>o'\<in>set (rows (outputs d)). \<not> spends_output tx d o')"
proof -
  let ?g = "getOutputSpends (map spend (tx_ins tx)) d"
  have "?g \<noteq> [] \<longleftrightarrow> (\<exists>o'\<in>set (rows (outputs d)). spends_output tx d o')"
  proof
    assume "?g \<noteq> []"
    then obtain r where "r \<in> set ?g" by (cases ?g) auto
    then show "\<exists>o'\<in>set (rows (outputs d)). spends_output tx d o'"
      unfolding set_getOutputSpends [OF assms] spends_output_def by blast
  next
    assume "\<exists>o'\<in>set (rows (outputs d)). spends_output tx d o'"
    then obtain o' where o: "o' \<in> set (rows (outputs d))" "outpoint d o' \<in> set (map spend (tx_ins tx))"
      unfolding spends_output_def by blast
    obtain s where "s \<in> set (spenders d (o_outID o'))" using spenders_nonempty by (metis list.set_intros(1) neq_Nil_conv)
    then have "\<lparr>sp_addrAddress = addr_of d o', sp_outID = o_outID o', sp_outAmount = o_outAmount o',
      sp_txnTxid = fst (outpoint d o'), sp_outIndex = snd (outpoint d o'), sp_spendingTxnID = map_option snd s\<rparr> \<in> set ?g"
      unfolding set_getOutputSpends [OF assms] using o by (intro bexI [of _ o']) auto
    then show "?g \<noteq> []" by auto
  qed
  then show ?thesis by blast
qed

section \<open>Storing the transaction\<close>

definition tx_keys :: "db \<Rightarrow> (nat \<times> string) set" where
  "tx_keys d = (\<lambda>r. (t_txnID r, t_txnTxid r)) ` set (rows (transactions d))"

lemma getTransactionId_iff:
  assumes "wf_db d"
  shows "getTransactionId txid d = Some i \<longleftrightarrow> (i, txid) \<in> tx_keys d"
  using table_find [OF wf_tables(7) [OF assms], of txid]
  by (auto simp: getTransactionId_def transaction_def tx_keys_def image_iff)

lemma tx_keys_unique:
  assumes "wf_db d"
  shows "\<lbrakk>(i, x) \<in> tx_keys d; (i, y) \<in> tx_keys d\<rbrakk> \<Longrightarrow> x = y"
    and "\<lbrakk>(i, x) \<in> tx_keys d; (j, x) \<in> tx_keys d\<rbrakk> \<Longrightarrow> i = j"
  using table_pk_inj [OF wf_tables(7) [OF assms]] table_uk_inj [OF wf_tables(7) [OF assms]]
  by (fastforce simp: tx_keys_def)+

lemma tx_keys_trow:
  assumes "wf_db d" and "o' \<in> set (rows (outputs d))"
  shows "(o_txnID o', x) \<in> tx_keys d \<longleftrightarrow> x = t_txnTxid (trow_of d o')"
proof -
  have "(o_txnID o', x) \<in> tx_keys d \<longleftrightarrow>
      (\<exists>t. (t \<in> set (rows (transactions d)) \<and> o_txnID o' = t_txnID t) \<and> x = t_txnTxid t)"
    by (auto simp: tx_keys_def)
  then show ?thesis by (simp add: trow_of_iff [OF assms])
qed

lemma outpoint_cong:
  assumes "wf_db d" "wf_db e" "o' \<in> set (rows (outputs d))" "o' \<in> set (rows (outputs e))"
    and "tx_keys d \<subseteq> tx_keys e \<or> tx_keys e \<subseteq> tx_keys d"
  shows "outpoint d o' = outpoint e o'"
proof -
  have "(o_txnID o', t_txnTxid (trow_of d o')) \<in> tx_keys d" "(o_txnID o', t_txnTxid (trow_of e o')) \<in> tx_keys e"
    using tx_keys_trow assms by blast+
  then have "t_txnTxid (trow_of d o') = t_txnTxid (trow_of e o')"
    using assms tx_keys_unique(1) by blast
  then show ?thesis by (simp add: outpoint_def)
qed

text \<open>Tables no step of storing a transaction touches.\<close>

definition same_but_transactions :: "db \<Rightarrow> db \<Rightarrow> bool" where
  "same_but_transactions d e \<longleftrightarrow>
     addresses e = addresses d \<and> banned_addresses e = banned_addresses d \<and> blocks e = blocks d
   \<and> hd_accounts e = hd_accounts d \<and> hd_addresses e = hd_addresses d \<and> inputs e = inputs d \<and> outputs e = outputs d"

lemma tx_keys_insert:
  "tx_keys (d\<lparr>transactions := snd (tbl_insert t_txnTxid txid (new_transaction txid c v l) (transactions d))\<rparr>) =
     tx_keys d \<union> (if transaction txid d = None then {(next_id (transactions d), txid)} else {})"
  by (auto simp: tx_keys_def rows_insert new_transaction_def transaction_def)

lemma tx_keys_update:
  assumes "\<And>r. t_txnID (f r) = t_txnID r" "\<And>r. t_txnTxid (f r) = t_txnTxid r"
  shows "tx_keys (d\<lparr>transactions := tbl_update P f (transactions d)\<rparr>) = tx_keys d"
proof -
  let ?k = "\<lambda>r. (t_txnID r, t_txnTxid r)"
  have "map ?k (rows (tbl_update P f (transactions d))) = map ?k (rows (transactions d))"
    unfolding rows_update by (rule map_key_update) (simp add: assms)
  then have "set (map ?k (rows (tbl_update P f (transactions d)))) = set (map ?k (rows (transactions d)))"
    by (rule arg_cong)
  then show ?thesis unfolding tx_keys_def by (simp only: set_map) (simp del: rows_update)
qed

lemma addTransaction_known:
  assumes "transaction (nt_txid tx) d \<noteq> None"
  shows "tx_keys (addTransaction now tx d) = tx_keys d \<and> same_but_transactions d (addTransaction now tx d)"
  using assms
  by (auto simp: addTransaction_def transaction_def tbl_insert_Some same_but_transactions_def tx_keys_update)

lemma ensureTransactionId_facts:
  assumes "wf_db d" and "ensureTransactionId now txid d = (Inr n, e)"
  shows "(n, txid) \<in> tx_keys e" "tx_keys e = insert (n, txid) (tx_keys d)" "same_but_transactions d e"
    "(n, txid) \<in> tx_keys d \<or> transaction txid d = None"
proof -
  have e: "e = d\<lparr>transactions := snd (tbl_insert t_txnTxid txid (new_transaction txid now 0 0) (transactions d))\<rparr>"
    using ensureTransactionId_db [of now txid d] assms(2) by simp
  have n: "n = fst (ensure_tx now txid d)" "e = snd (ensure_tx now txid d)"
    using assms(2) ensureTransactionId_total [of now txid d] by simp_all
  have "getTransactionId txid e = Some n" unfolding n by (rule transaction_ids.ensure_lookup [OF assms(1)])
  moreover have "wf_db e" using wf_ensureTransactionId [OF assms(1), of now txid] assms(2) by simp
  ultimately show mem: "(n, txid) \<in> tx_keys e" by (simp add: getTransactionId_iff)
  have sub: "tx_keys d \<subseteq> tx_keys e" by (auto simp: e tx_keys_insert)
  show "tx_keys e = insert (n, txid) (tx_keys d)"
    using mem sub tx_keys_unique(2) [OF \<open>wf_db e\<close>] by (auto simp: e tx_keys_insert split: if_splits)
  show "same_but_transactions d e" by (simp add: e same_but_transactions_def)
  show "(n, txid) \<in> tx_keys d \<or> transaction txid d = None"
    using mem by (auto simp: e tx_keys_insert split: if_splits)
qed

text \<open>The fields of the object agree with the database.\<close>

definition obj_ok :: "btx \<Rightarrow> 's tx_state_scheme \<Rightarrow> bool" where
  "obj_ok tx s \<longleftrightarrow> (storing (w_obj s) \<longrightarrow> (\<exists>n. storedTxnID (w_obj s) = Some n \<and> (n, tx_id tx) \<in> tx_keys (w_db s)))"

lemma ensureTransaction_spec:
  assumes "wf s" and "obj_ok tx s"
  shows "\<exists>n t. ensureTransaction now tx s = Some (Inr (), t) \<and> wf t \<and> obj_ok tx t
    \<and> storing (w_obj t) \<and> storedTxnID (w_obj t) = Some n \<and> (n, tx_id tx) \<in> tx_keys (w_db t)
    \<and> tx_keys (w_db t) = insert (n, tx_id tx) (tx_keys (w_db s))
    \<and> same_but_transactions (w_db s) (w_db t) \<and> w_cache t = w_cache s
    \<and> doBroadcast (w_obj t) = doBroadcast (w_obj s)"
proof (cases "storing (w_obj s)")
  case True
  then obtain n where "storedTxnID (w_obj s) = Some n" "(n, tx_id tx) \<in> tx_keys (w_db s)"
    using assms(2) by (auto simp: obj_ok_def)
  then show ?thesis using True assms
    by (intro exI [of _ n] exI [of _ s]) (auto simp: ensureTransaction_def same_but_transactions_def)
next
  case False
  let ?nt = "\<lparr>nt_txid = tx_id tx, nt_version = tx_version tx, nt_locktime = tx_locktime tx, nt_created = None\<rparr>"
  obtain n d1 where d1: "ensureTransactionId now (tx_id tx) (w_db s) = (Inr n, d1)"
    using ensureTransactionId_total by blast
  note f = ensureTransactionId_facts [OF assms(1) d1]
  define t where "t = s\<lparr>w_db := addTransaction now ?nt d1,
    w_obj := (w_obj s)\<lparr>storing := True, storedTxnID := Some n\<rparr>\<rparr>"
  have wf1: "wf_db d1" using wf_ensureTransactionId [OF assms(1), of now "tx_id tx"] d1 by simp
  have "transaction (tx_id tx) d1 \<noteq> None"
    using f(1) getTransactionId_iff [OF wf1, of "tx_id tx" n] by (auto simp: getTransactionId_def)
  then have k: "tx_keys (addTransaction now ?nt d1) = tx_keys d1" "same_but_transactions d1 (addTransaction now ?nt d1)"
    using addTransaction_known [of ?nt d1] by auto
  have "ensureTransaction now tx s = Some (Inr (), t)"
    using False d1 by (simp add: ensureTransaction_def bindA_Inr t_def)
  moreover have "wf t" using wf_addTransaction [OF wf1] by (simp add: t_def)
  ultimately show ?thesis
    using f k by (intro exI [of _ n] exI [of _ t]) (auto simp: t_def obj_ok_def same_but_transactions_def)
qed

section \<open>Deleting transactions\<close>

lemma delete_transactions_facts:
  fixes P :: "transaction_row \<Rightarrow> bool"
  assumes "wf_db d"
  defines "e \<equiv> delete_transactions P d"
  shows "rows (transactions e) = filter (\<lambda>r. \<not> P r) (rows (transactions d))"
    and "rows (outputs e) = filter (\<lambda>r. \<not> P (trow_of d r)) (rows (outputs d))"
    and "set (rows (inputs e)) = {i \<in> set (rows (inputs d)). i_txnID i \<in> t_txnID ` set (rows (transactions e))
      \<and> i_outID i \<in> o_outID ` set (rows (outputs e))}"
    and "addresses e = addresses d" "hd_accounts e = hd_accounts d" "hd_addresses e = hd_addresses d"
      "blocks e = blocks d" "banned_addresses e = banned_addresses d"
proof -
  let ?d = "d\<lparr>transactions := tbl_delete P (transactions d)\<rparr>"
  have e: "e = cascade ?d" by (simp add: e_def delete_transactions_def)
  have blk: "null_dangling b_blockID (blocks d) (t_blockID r) = t_blockID r" if "r \<in> set (rows (transactions d))" for r
    using wf_refs(4) [OF assms(1) that] by simp
  show tr: "rows (transactions e) = filter (\<lambda>r. \<not> P r) (rows (transactions d))"
    unfolding e cascade_def Let_def by (auto simp: blk intro!: map_idI)
  have gone: "has_id t_txnID (o_txnID r) (tbl_delete P (transactions d)) \<longleftrightarrow> \<not> P (trow_of d r)"
    if "r \<in> set (rows (outputs d))" for r
    using trow_of_iff [OF assms(1) that] by (force simp: has_id_iff)
  have "has_id a_addrID (o_addrID r) (addresses d)" if "r \<in> set (rows (outputs d))" for r
    using wf_refs(2) [OF assms(1) that] by (simp add: output_refs_def)
  then have out: "rows (outputs e) = filter (output_refs ?d) (rows (outputs d))"
    and "filter (output_refs ?d) (rows (outputs d)) = filter (\<lambda>r. \<not> P (trow_of d r)) (rows (outputs d))"
    unfolding e cascade_def Let_def by (auto simp: output_refs_def gone intro!: filter_cong)
  then show "rows (outputs e) = filter (\<lambda>r. \<not> P (trow_of d r)) (rows (outputs d))" by simp
  show "set (rows (inputs e)) = {i \<in> set (rows (inputs d)). i_txnID i \<in> t_txnID ` set (rows (transactions e))
      \<and> i_outID i \<in> o_outID ` set (rows (outputs e))}"
    unfolding tr out by (auto simp: e cascade_def Let_def input_refs_def has_id_iff)
  have h: "hd_address_refs ?d r" if "r \<in> set (rows (hd_addresses d))" for r
    using wf_refs(1) [OF assms(1) that] by (simp add: hd_address_refs_def)
  have b: "null_dangling b_blockID (blocks d) (b_blockParent r) = b_blockParent r" if "r \<in> set (rows (blocks d))" for r
    using wf_refs(5) [OF assms(1) that] by simp
  have "tbl_delete (\<lambda>r. \<not> hd_address_refs ?d r) (hd_addresses d) = hd_addresses d"
    using h by (simp add: tbl_delete_def filter_id_conv)
  moreover have "tbl_update (\<lambda>_. True) (\<lambda>r. r\<lparr>b_blockParent := null_dangling b_blockID (blocks d) (b_blockParent r)\<rparr>) (blocks d) = blocks d"
    using b by (simp add: tbl_update_def map_idI)
  ultimately show "addresses e = addresses d" "hd_accounts e = hd_accounts d" "hd_addresses e = hd_addresses d"
      "blocks e = blocks d" "banned_addresses e = banned_addresses d"
    by (simp_all add: e cascade_def Let_def)
qed

lemma deleteTransactionsByID_facts:
  fixes ids :: "nat list"
  assumes "wf_db d"
  defines "e \<equiv> deleteTransactionsByID ids d"
  shows "set (rows (transactions e)) = {r \<in> set (rows (transactions d)). t_txnID r \<notin> set ids}"
    and "set (rows (outputs e)) = {r \<in> set (rows (outputs d)). o_txnID r \<notin> set ids}"
    and "set (rows (inputs e)) = {i \<in> set (rows (inputs d)). i_txnID i \<notin> set ids
      \<and> i_outID i \<in> o_outID ` set (rows (outputs e))}"
proof -
  have trow: "t_txnID (trow_of d r) = o_txnID r" if "r \<in> set (rows (outputs d))" for r
    using trow_of_iff [OF assms(1) that, of "trow_of d r"] by simp
  have refs: "i_txnID i \<in> t_txnID ` set (rows (transactions d)) \<and> i_outID i \<in> o_outID ` set (rows (outputs d))"
    if "i \<in> set (rows (inputs d))" for i
    using wf_refs(3) [OF assms(1) that] by (simp add: input_refs_def has_id_iff)
  show tr: "set (rows (transactions e)) = {r \<in> set (rows (transactions d)). t_txnID r \<notin> set ids}"
    and out: "set (rows (outputs e)) = {r \<in> set (rows (outputs d)). o_txnID r \<notin> set ids}"
    using trow by (auto simp: e_def deleteTransactionsByID_def delete_transactions_facts [OF assms(1)])
  have "t_txnID ` set (rows (transactions e)) = t_txnID ` set (rows (transactions d)) - set ids"
    by (auto simp: tr)
  then show "set (rows (inputs e)) = {i \<in> set (rows (inputs d)). i_txnID i \<notin> set ids
      \<and> i_outID i \<in> o_outID ` set (rows (outputs e))}"
    using refs delete_transactions_facts(3) [OF assms(1), of "\<lambda>r. t_txnID r \<in> set ids"]
    by (cases "ids = []") (auto simp: e_def deleteTransactionsByID_def)
qed

lemma tx_keys_deleteTransactionsByID:
  "wf_db d \<Longrightarrow> tx_keys (deleteTransactionsByID ids d) = {k \<in> tx_keys d. fst k \<notin> set ids}"
  unfolding tx_keys_def by (subst deleteTransactionsByID_facts(1)) auto

section \<open>The positions of the inputs\<close>

lemma enumerate_js_set:
  assumes "map_of (fold (\<lambda>(i, x) m. js_set (f x) i m) (enumerate 0 xs) []) k = Some i"
  shows "i < length xs \<and> f (xs ! i) = k"
proof -
  let ?P = "\<lambda>m. \<forall>k i. map_of m k = Some i \<longrightarrow> i < length xs \<and> f (xs ! i) = k"
  have "?P (fold (\<lambda>(i, x) m. js_set (f x) i m) (enumerate 0 xs) [])"
    by (rule fold_inv [of ?P]) (auto simp: in_set_enumerate_eq split: if_splits)
  then show ?thesis using assms by blast
qed

lemma dom_fold_js_set:
  "dom (map_of (fold (\<lambda>(i, x) m. js_set (f x) i m) ps m0)) = dom (map_of m0) \<union> f ` snd ` set ps"
  by (induction ps arbitrary: m0) auto

lemma indexedInputs_Some:
  "map_of (indexedInputs tx) k = Some i \<Longrightarrow> i < length (tx_ins tx) \<and> spend (tx_ins tx ! i) = k"
  unfolding indexedInputs_def by (rule enumerate_js_set)

lemma indexedInputs_dom: "k \<in> set (map spend (tx_ins tx)) \<Longrightarrow> \<exists>i. map_of (indexedInputs tx) k = Some i"
proof -
  have "snd ` set (enumerate 0 (tx_ins tx)) = set (tx_ins tx)"
    by (metis list.set_map map_snd_enumerate)
  then show "k \<in> set (map spend (tx_ins tx)) \<Longrightarrow> ?thesis"
    using dom_fold_js_set [of spend "enumerate 0 (tx_ins tx)" "[]"] unfolding indexedInputs_def
    by (auto simp: dom_def)
qed

definition position :: "btx \<Rightarrow> db \<Rightarrow> output_row \<Rightarrow> int" where
  "position tx d o' = int (the (map_of (indexedInputs tx) (outpoint d o')))"

text \<open>An output pays to one address: no two rows share the transaction and the index.\<close>

definition one_owner :: "db \<Rightarrow> bool" where
  "one_owner d \<longleftrightarrow> distinct (map (\<lambda>r. (o_txnID r, o_outIndex r)) (rows (outputs d)))"

lemma outpoint_inj:
  assumes "wf_db d" "one_owner d" "r \<in> set (rows (outputs d))" "q \<in> set (rows (outputs d))"
    and "outpoint d r = outpoint d q"
  shows "r = q"
proof -
  have "(o_txnID r, t_txnTxid (trow_of d r)) \<in> tx_keys d" "(o_txnID q, t_txnTxid (trow_of d q)) \<in> tx_keys d"
    using tx_keys_trow [OF assms(1)] assms(3,4) by blast+
  then have "o_txnID r = o_txnID q" using assms(1,5) tx_keys_unique(2) by (auto simp: outpoint_def)
  then show ?thesis using assms(2-5) unfolding one_owner_def
    by (auto simp: outpoint_def dest: distinct_map_inj)
qed

lemma position_inj:
  assumes "wf_db d" "one_owner d" "r \<in> set (rows (outputs d))" "q \<in> set (rows (outputs d))"
    and "spends_output tx d r" "spends_output tx d q" "position tx d r = position tx d q"
  shows "r = q"
proof -
  obtain i j where "map_of (indexedInputs tx) (outpoint d r) = Some i" "map_of (indexedInputs tx) (outpoint d q) = Some j"
    using assms(5,6) indexedInputs_dom unfolding spends_output_def by metis
  moreover then have "i = j" using assms(7) by (simp add: position_def)
  ultimately have "outpoint d r = outpoint d q" using indexedInputs_Some by metis
  then show ?thesis using outpoint_inj assms(1-4) by blast
qed

text \<open>The entries made for the outputs found: one per output and spender, at the position of its outpoint.\<close>

lemma inputOf_results:
  assumes "wf_db d"
  shows "\<exists>ins. mapE (inputOf tx n) (getOutputSpends (map spend (tx_ins tx)) d) = Inr ins
    \<and> (\<lambda>x. (ni_txnID x, ni_inIndex x, ni_outID x)) ` set ins =
        (\<lambda>r. (n, position tx d r, o_outID r)) ` {r \<in> set (rows (outputs d)). spends_output tx d r}"
proof -
  let ?rs = "getOutputSpends (map spend (tx_ins tx)) d"
  let ?pos = "\<lambda>r. int (the (map_of (indexedInputs tx) (sp_txnTxid r, sp_outIndex r)))"
  define g :: "output_spend \<Rightarrow> new_input" where "g r = \<lparr>ni_txnID = n, ni_outID = sp_outID r, ni_inIndex = ?pos r,
    ni_inSequence = in_sequence (tx_ins tx ! the (map_of (indexedInputs tx) (sp_txnTxid r, sp_outIndex r)))\<rparr>" for r
  have "inputOf tx n r = Inr (g r)" if r: "r \<in> set ?rs" for r
  proof -
    have "(sp_txnTxid r, sp_outIndex r) \<in> set (map spend (tx_ins tx))"
      using r unfolding set_getOutputSpends [OF assms] by metis
    then obtain i where "map_of (indexedInputs tx) (sp_txnTxid r, sp_outIndex r) = Some i"
      using indexedInputs_dom by blast
    then show ?thesis using indexedInputs_Some by (simp add: inputOf_def js_nth_def g_def)
  qed
  then have "mapE (inputOf tx n) ?rs = Inr (map g ?rs)" by (rule mapE_total)
  moreover have "(\<lambda>r. (n, ?pos r, sp_outID r)) ` set ?rs =
      (\<lambda>r. (n, position tx d r, o_outID r)) ` {r \<in> set (rows (outputs d)). spends_output tx d r}" (is "?L = ?R")
  proof (rule set_eqI)
    fix x
    have "x \<in> ?L \<longleftrightarrow> (\<exists>r\<in>set ?rs. x = (n, ?pos r, sp_outID r))" by blast
    also have "\<dots> \<longleftrightarrow> (\<exists>q\<in>set (rows (outputs d)). spends_output tx d q \<and> x = (n, position tx d q, o_outID q))"
    proof
      assume "\<exists>r\<in>set ?rs. x = (n, ?pos r, sp_outID r)"
      then obtain r where r: "r \<in> set ?rs" "x = (n, ?pos r, sp_outID r)" by blast
      from r(1) [unfolded set_getOutputSpends [OF assms]] r(2)
      show "\<exists>q\<in>set (rows (outputs d)). spends_output tx d q \<and> x = (n, position tx d q, o_outID q)"
        unfolding spends_output_def position_def by metis
    next
      assume "\<exists>q\<in>set (rows (outputs d)). spends_output tx d q \<and> x = (n, position tx d q, o_outID q)"
      then obtain q where q: "q \<in> set (rows (outputs d))" "spends_output tx d q" "x = (n, position tx d q, o_outID q)"
        by blast
      obtain sp where sp: "sp \<in> set (spenders d (o_outID q))" using spenders_nonempty
        by (metis list.set_intros(1) neq_Nil_conv)
      let ?r = "\<lparr>sp_addrAddress = addr_of d q, sp_outID = o_outID q, sp_outAmount = o_outAmount q,
        sp_txnTxid = fst (outpoint d q), sp_outIndex = snd (outpoint d q), sp_spendingTxnID = map_option snd sp\<rparr>"
      have "?r \<in> set ?rs"
        unfolding set_getOutputSpends [OF assms] using q sp
        by (intro bexI [of _ q]) (auto simp: spends_output_def)
      then show "\<exists>r\<in>set ?rs. x = (n, ?pos r, sp_outID r)"
        using q(3) by (intro bexI [of _ ?r]) (auto simp: position_def)
    qed
    also have "\<dots> \<longleftrightarrow> x \<in> ?R" by blast
    finally show "x \<in> ?L \<longleftrightarrow> x \<in> ?R" .
  qed
  ultimately show ?thesis by (intro exI [of _ "map g ?rs"]) (simp add: image_image g_def)
qed

lemma spender_txn:
  "(\<exists>sp\<in>set (spenders d k). map_option snd sp = Some i) \<longleftrightarrow>
     (\<exists>j\<in>set (rows (inputs d)). i_outID j = k \<and> i_txnID j = i)"
proof -
  have "(\<exists>sp\<in>set (spenders d k). map_option snd sp = Some i) \<longleftrightarrow> (\<exists>a. Some (a, i) \<in> set (spenders d k))"
    by force
  then show ?thesis by (simp add: set_spenders) blast
qed

lemma set_doubleSpent:
  assumes "wf_db d"
  shows "i \<in> set (doubleSpent n (getOutputSpends (map spend (tx_ins tx)) d)) \<longleftrightarrow>
    i \<noteq> n \<and> (\<exists>q\<in>set (rows (outputs d)). spends_output tx d q
      \<and> (\<exists>j\<in>set (rows (inputs d)). i_outID j = o_outID q \<and> i_txnID j = i))"
proof -
  let ?rs = "getOutputSpends (map spend (tx_ins tx)) d"
  have "i \<in> set (doubleSpent n ?rs) \<longleftrightarrow> i \<noteq> n \<and> (\<exists>r\<in>set ?rs. sp_spendingTxnID r = Some i)"
    by (force simp: doubleSpent_def split: option.splits if_splits)
  also have "(\<exists>r\<in>set ?rs. sp_spendingTxnID r = Some i) \<longleftrightarrow>
      (\<exists>q\<in>set (rows (outputs d)). spends_output tx d q
        \<and> (\<exists>sp\<in>set (spenders d (o_outID q)). map_option snd sp = Some i))"
  proof
    assume "\<exists>r\<in>set ?rs. sp_spendingTxnID r = Some i"
    then obtain r where r: "r \<in> set ?rs" "sp_spendingTxnID r = Some i" by blast
    from r(1) [unfolded set_getOutputSpends [OF assms]] r(2)
    show "\<exists>q\<in>set (rows (outputs d)). spends_output tx d q
        \<and> (\<exists>sp\<in>set (spenders d (o_outID q)). map_option snd sp = Some i)"
      unfolding spends_output_def by metis
  next
    assume "\<exists>q\<in>set (rows (outputs d)). spends_output tx d q
        \<and> (\<exists>sp\<in>set (spenders d (o_outID q)). map_option snd sp = Some i)"
    then obtain q sp where q: "q \<in> set (rows (outputs d))" "spends_output tx d q"
      "sp \<in> set (spenders d (o_outID q))" "map_option snd sp = Some i" by blast
    let ?r = "\<lparr>sp_addrAddress = addr_of d q, sp_outID = o_outID q, sp_outAmount = o_outAmount q,
        sp_txnTxid = fst (outpoint d q), sp_outIndex = snd (outpoint d q), sp_spendingTxnID = Some i\<rparr>"
    have "?r \<in> set ?rs"
      unfolding set_getOutputSpends [OF assms] using q
      by (intro bexI [of _ q]) (auto simp: spends_output_def intro: rev_bexI)
    then show "\<exists>r\<in>set ?rs. sp_spendingTxnID r = Some i" by (intro bexI [of _ ?r]) simp_all
  qed
  also have "\<dots> \<longleftrightarrow> (\<exists>q\<in>set (rows (outputs d)). spends_output tx d q
      \<and> (\<exists>j\<in>set (rows (inputs d)). i_outID j = o_outID q \<and> i_txnID j = i))"
    by (simp only: spender_txn)
  finally show ?thesis .
qed

section \<open>The inputs recorded\<close>

text \<open>A transaction that spends an output the transaction \<open>tx\<close> spends too.\<close>

definition conflicts :: "btx \<Rightarrow> db \<Rightarrow> nat \<Rightarrow> bool" where
  "conflicts tx d i \<longleftrightarrow> (i, tx_id tx) \<notin> tx_keys d \<and>
     (\<exists>q\<in>set (rows (outputs d)). spends_output tx d q
        \<and> (\<exists>j\<in>set (rows (inputs d)). i_outID j = o_outID q \<and> i_txnID j = i))"

lemma last_entry_mem: "last_entry ins k = Some v \<Longrightarrow> \<exists>x\<in>set ins. (ni_txnID x, ni_inIndex x) = k \<and> ni_outID x = v"
  unfolding last_entry_def by (drule map_of_SomeD) auto

lemma last_entry_known: "x \<in> set ins \<Longrightarrow> last_entry ins (ni_txnID x, ni_inIndex x) \<noteq> None"
  by (auto simp: last_entry_def map_of_eq_None_iff image_iff)

lemma processInputs_recorded:
  fixes tx :: btx
  assumes wf: "wf_db d" and one: "one_owner d" and add: "addInputs ins d1 = Inr d2" and wf1: "wf_db d1"
    and same: "inputs d1 = inputs d" "outputs d1 = outputs d"
    and ins: "(\<lambda>x. (ni_txnID x, ni_inIndex x, ni_outID x)) ` set ins =
        (\<lambda>r. (n, position tx d r, o_outID r)) ` {r \<in> set (rows (outputs d)). spends_output tx d r}"
    and q: "q \<in> set (rows (outputs d))" "spends_output tx d q"
  shows "\<exists>i\<in>set (rows (inputs d2)). i_outID i = o_outID q \<and> i_txnID i = n"
    and "\<lbrakk>i \<in> set (rows (inputs d2)); i_txnID i \<noteq> n\<rbrakk> \<Longrightarrow> i \<in> set (rows (inputs d))"
proof -
  note facts = addInputs_Inr [OF add wf1, unfolded same]
  have mem: "\<exists>r\<in>set (rows (outputs d)). spends_output tx d r \<and> ni_txnID x = n \<and> ni_inIndex x = position tx d r
      \<and> ni_outID x = o_outID r" if "x \<in> set ins" for x
  proof -
    have "(ni_txnID x, ni_inIndex x, ni_outID x) \<in> (\<lambda>x. (ni_txnID x, ni_inIndex x, ni_outID x)) ` set ins"
      using that by blast
    then show ?thesis unfolding ins by blast
  qed
  have last: "v = o_outID q" if le: "last_entry ins (n, position tx d q) = Some v" for v
  proof -
    obtain x where x: "x \<in> set ins" "ni_inIndex x = position tx d q" "ni_outID x = v"
      using last_entry_mem [OF le] by blast
    obtain r where r: "r \<in> set (rows (outputs d))" "spends_output tx d r" "ni_inIndex x = position tx d r"
      "ni_outID x = o_outID r" using mem [OF x(1)] by blast
    have "position tx d r = position tx d q" using r(3) x(2) by (rule trans [OF sym])
    then have "r = q" by (rule position_inj [OF wf one r(1) q(1) r(2) q(2)])
    then show ?thesis using r(4) x(3) by simp
  qed
  obtain x where "x \<in> set ins" "ni_txnID x = n" "ni_inIndex x = position tx d q"
  proof -
    have "(n, position tx d q, o_outID q) \<in> (\<lambda>x. (ni_txnID x, ni_inIndex x, ni_outID x)) ` set ins"
      unfolding ins using q by blast
    then show ?thesis using that by auto
  qed
  then have "last_entry ins (n, position tx d q) \<noteq> None" using last_entry_known by metis
  then have "(n, position tx d q) \<in> input_key ` set (rows (inputs d2))" using facts by blast
  then obtain j where j: "j \<in> set (rows (inputs d2))" "input_key j = (n, position tx d q)" by auto
  then have "i_outID j = o_outID q"
    using facts \<open>last_entry ins (n, position tx d q) \<noteq> None\<close> last by fastforce
  then show "\<exists>i\<in>set (rows (inputs d2)). i_outID i = o_outID q \<and> i_txnID i = n" using j by auto
  show "i \<in> set (rows (inputs d))" if i: "i \<in> set (rows (inputs d2))" "i_txnID i \<noteq> n"
  proof -
    have "last_entry ins (input_key i) = None"
      using last_entry_mem [of ins "input_key i"] mem i(2) by (cases "last_entry ins (input_key i)") fastforce+
    then show ?thesis using facts i(1) by fastforce
  qed
qed

lemma addInputs_succeeds:
  assumes "wf_db d" and "\<And>x. x \<in> set ins \<Longrightarrow> has_id t_txnID (ni_txnID x) (transactions d)
      \<and> has_id o_outID (ni_outID x) (outputs d)"
  shows "\<exists>e. addInputs ins d = Inr e"
  using addInputs_fails_iff [OF assms(1), of ins] assms(2) by (cases "addInputs ins d") auto

text \<open>How a run on outputs of interest goes.\<close>

lemma processInputs_run:
  assumes wf: "wf s" and ok: "obj_ok tx s" and one: "one_owner (w_db s)"
    and some: "\<exists>q\<in>set (rows (outputs (w_db s))). spends_output tx (w_db s) q"
  shows "\<exists>n d1 d2 ins t. processInputs now tx s = Some (Inr (), t) \<and> wf t \<and> obj_ok tx t \<and> doBroadcast (w_obj t)
    \<and> wf_db d1 \<and> wf_db d2 \<and> (n, tx_id tx) \<in> tx_keys d1 \<and> tx_keys d1 = insert (n, tx_id tx) (tx_keys (w_db s))
    \<and> same_but_transactions (w_db s) d1 \<and> addInputs ins d1 = Inr d2
    \<and> (\<lambda>x. (ni_txnID x, ni_inIndex x, ni_outID x)) ` set ins = (\<lambda>r. (n, position tx (w_db s) r, o_outID r))
         ` {r \<in> set (rows (outputs (w_db s))). spends_output tx (w_db s) r}
    \<and> w_db t = deleteTransactionsByID (doubleSpent n (getOutputSpends (map spend (tx_ins tx)) (w_db s))) d2
    \<and> w_cache t = fold (\<lambda>x c. c(x := None))
         (map t_txnTxid (getTransactionsById (doubleSpent n (getOutputSpends (map spend (tx_ins tx)) (w_db s))) d2)) (w_cache s)"
proof -
  let ?res = "getOutputSpends (map spend (tx_ins tx)) (w_db s)"
  define s0 where "s0 = s\<lparr>w_obj := (w_obj s)\<lparr>doBroadcast := True\<rparr>\<rparr>"
  have s0: "wf s0" "obj_ok tx s0" "w_db s0 = w_db s" "w_cache s0 = w_cache s" "doBroadcast (w_obj s0)"
    using wf ok by (simp_all add: s0_def obj_ok_def)
  obtain n s1 where s1: "ensureTransaction now tx s0 = Some (Inr (), s1)" "wf s1" "obj_ok tx s1"
    "storing (w_obj s1)" "storedTxnID (w_obj s1) = Some n" "(n, tx_id tx) \<in> tx_keys (w_db s1)"
    "tx_keys (w_db s1) = insert (n, tx_id tx) (tx_keys (w_db s))"
    "same_but_transactions (w_db s) (w_db s1)" "w_cache s1 = w_cache s" "doBroadcast (w_obj s1)"
    using ensureTransaction_spec [OF s0(1,2), of now] s0(3-5) by metis
  obtain ins where ins: "mapE (inputOf tx n) ?res = Inr ins"
    "(\<lambda>x. (ni_txnID x, ni_inIndex x, ni_outID x)) ` set ins = (\<lambda>r. (n, position tx (w_db s) r, o_outID r))
         ` {r \<in> set (rows (outputs (w_db s))). spends_output tx (w_db s) r}"
    using inputOf_results [OF wf, of tx n] by blast
  have "has_id t_txnID (ni_txnID x) (transactions (w_db s1)) \<and> has_id o_outID (ni_outID x) (outputs (w_db s1))"
    if "x \<in> set ins" for x
  proof -
    have "(ni_txnID x, ni_inIndex x, ni_outID x) \<in> (\<lambda>x. (ni_txnID x, ni_inIndex x, ni_outID x)) ` set ins"
      using that by blast
    then have "ni_txnID x = n" "ni_outID x \<in> o_outID ` set (rows (outputs (w_db s)))" unfolding ins(2) by auto
    then show ?thesis using s1(6,8) by (auto simp: has_id_iff tx_keys_def same_but_transactions_def image_iff)
  qed
  then obtain d2 where d2: "addInputs ins (w_db s1) = Inr d2"
    using addInputs_succeeds [OF s1(2)] by blast
  have wf2: "wf_db d2" using wf_addInputs [OF d2 s1(2)] .
  define ids where "ids = doubleSpent n ?res"
  define t where "t = s1\<lparr>w_db := deleteTransactionsByID ids d2,
    w_cache := fold (\<lambda>x c. c(x := None)) (map t_txnTxid (getTransactionsById ids d2)) (w_cache s1)\<rparr>"
  have ne: "?res \<noteq> []" using getOutputSpends_empty_iff [OF wf] some by blast
  have run: "processInputs now tx s = Some (Inr (), t)"
  proof -
    have ensure: "bindA (ensureTransaction now tx) k s0 = k () s1" for k :: "unit \<Rightarrow> ('a tx_state_scheme, 'c) act"
      using s1(1) by (simp add: bindA_eval)
    have stored: "bindA storedId k s1 = k n s1" for k :: "nat \<Rightarrow> ('a tx_state_scheme, 'c) act"
      using s1(5) by (simp add: storedId_def bindA_def ask_def ret_def)
    have lft: "bindA (lift (Inr a)) k u = k a u" for a :: 'd and u :: 'e and k :: "'d \<Rightarrow> ('e, 'c) act"
      by (simp add: bindA_def lift_def)
    have tri: "bindA (tryDb (addInputs ins)) k s1 = k () (s1\<lparr>w_db := d2\<rparr>)" for k :: "unit \<Rightarrow> ('a tx_state_scheme, 'c) act"
      by (rule bindA_eval) (simp add: d2)
    have "processInputs now tx s = (if ids = [] then ret ()
                 else bindA (askDb (getTransactionsById ids)) (\<lambda>txs.
                      bindA (cacheDelete (map t_txnTxid txs)) (\<lambda>_.
                        onDb (deleteTransactionsByID ids)))) (s1\<lparr>w_db := d2\<rparr>)"
      using ne by (simp add: processInputs_def setBroadcast_def s0_def [symmetric] ensure stored ins(1) lft tri ids_def Let_def)
    also have "\<dots> = Some (Inr (), t)"
      by (cases "ids = []") (simp_all add: t_def cacheDelete_def deleteTransactionsByID_def getTransactionsById_def)
    finally show ?thesis .
  qed
  have "wf t" using wf_deleteTransactionsByID [OF wf2] by (simp add: t_def)
  moreover have "obj_ok tx t"
  proof -
    have tk: "tx_keys d2 = tx_keys (w_db s1)" using addInputs_Inr [OF d2 s1(2)] by (auto simp: tx_keys_def)
    have "n \<notin> set ids" by (simp add: ids_def set_doubleSpent [OF wf])
    then have "(n, tx_id tx) \<in> tx_keys (deleteTransactionsByID ids d2)"
      using s1(6) tk by (simp add: tx_keys_deleteTransactionsByID [OF wf2])
    then show ?thesis using s1(4,5) by (simp add: obj_ok_def t_def)
  qed
  ultimately show ?thesis
    using run s1 d2 wf2 ins(2)
    by (intro exI [of _ n] exI [of _ "w_db s1"] exI [of _ d2] exI [of _ ins] exI [of _ t])
      (simp add: t_def ids_def)
qed

lemma input_tx_key:
  assumes "wf_db d" and "j \<in> set (rows (inputs d))"
  shows "\<exists>x. (i_txnID j, x) \<in> tx_keys d"
proof -
  have "i_txnID j \<in> t_txnID ` set (rows (transactions d))"
    using wf_refs(3) [OF assms] by (simp add: input_refs_def has_id_iff)
  then show ?thesis by (auto simp: tx_keys_def)
qed

lemma fold_cache_delete: "fold (\<lambda>x c. c(x := None)) xs c y = (if y \<in> set xs then None else c y)"
  by (induction xs arbitrary: c) auto

text \<open>
  C4. Processing the inputs always returns and keeps the schema. When the transaction spends no
  output of the database nothing changes. Otherwise the transaction is stored and flagged for
  broadcast, and afterwards every such output is spent by this transaction and by no other; exactly
  the transactions that spent one of these outputs before are removed, with their outputs and from
  the cache, and all the others are kept.
\<close>

theorem processInputs_spec:
  assumes "wf s" and "obj_ok tx s" and "one_owner (w_db s)"
  shows "\<exists>t. processInputs now tx s = Some (Inr (), t) \<and> wf t \<and>
    (if \<forall>q\<in>set (rows (outputs (w_db s))). \<not> spends_output tx (w_db s) q then t = s
     else \<exists>n. doBroadcast (w_obj t)
       \<and> tx_keys (w_db t) = insert (n, tx_id tx) {k \<in> tx_keys (w_db s). \<not> conflicts tx (w_db s) (fst k)}
       \<and> set (rows (outputs (w_db t))) = {q \<in> set (rows (outputs (w_db s))). \<not> conflicts tx (w_db s) (o_txnID q)}
       \<and> (\<forall>q\<in>set (rows (outputs (w_db t))). spends_output tx (w_db s) q \<longrightarrow>
            i_txnID ` {i \<in> set (rows (inputs (w_db t))). i_outID i = o_outID q} = {n})
       \<and> (\<forall>x. w_cache t x = (if \<exists>i. (i, x) \<in> tx_keys (w_db s) \<and> conflicts tx (w_db s) i then None else w_cache s x)))"
proof (cases "\<forall>q\<in>set (rows (outputs (w_db s))). \<not> spends_output tx (w_db s) q")
  case True
  then have "getOutputSpends (map spend (tx_ins tx)) (w_db s) = []"
    using getOutputSpends_empty_iff [OF assms(1)] by blast
  then show ?thesis using True assms(1) by (simp add: processInputs_def)
next
  case False
  let ?d = "w_db s"
  have some: "\<exists>q\<in>set (rows (outputs ?d)). spends_output tx ?d q" using False by blast
  obtain n d1 d2 ins t where run: "processInputs now tx s = Some (Inr (), t)" "wf t" "doBroadcast (w_obj t)"
    "wf_db d1" "wf_db d2" "(n, tx_id tx) \<in> tx_keys d1" "tx_keys d1 = insert (n, tx_id tx) (tx_keys ?d)"
    "same_but_transactions ?d d1" "addInputs ins d1 = Inr d2"
    "(\<lambda>x. (ni_txnID x, ni_inIndex x, ni_outID x)) ` set ins =
       (\<lambda>r. (n, position tx ?d r, o_outID r)) ` {r \<in> set (rows (outputs ?d)). spends_output tx ?d r}"
    "w_db t = deleteTransactionsByID (doubleSpent n (getOutputSpends (map spend (tx_ins tx)) ?d)) d2"
    "w_cache t = fold (\<lambda>x c. c(x := None)) (map t_txnTxid
       (getTransactionsById (doubleSpent n (getOutputSpends (map spend (tx_ins tx)) ?d)) d2)) (w_cache s)"
    using processInputs_run [OF assms some, of now] by (elim exE conjE) (rule that)
  define ids where "ids = doubleSpent n (getOutputSpends (map spend (tx_ins tx)) ?d)"
  have same: "inputs d1 = inputs ?d" "outputs d1 = outputs ?d"
    using run(8) by (simp_all add: same_but_transactions_def)
  obtain tb where "d2 = d1\<lparr>inputs := tb\<rparr>" using addInputs_Inr [OF run(9,4)] by blast
  then have d2: "outputs d2 = outputs ?d" "tx_keys d2 = tx_keys d1" "transactions d2 = transactions d1"
    by (simp_all add: same tx_keys_def)
  have ids: "i \<in> set ids \<longleftrightarrow> conflicts tx ?d i" for i
  proof -
    have "i \<noteq> n \<longleftrightarrow> (i, tx_id tx) \<notin> tx_keys ?d" if "i \<in> i_txnID ` set (rows (inputs ?d))"
    proof -
      have "\<exists>x. (i, x) \<in> tx_keys ?d"
        using that by (auto intro: input_tx_key [OF assms(1)])
      then show ?thesis using run(7) tx_keys_unique [OF run(4)] by blast
    qed
    then show ?thesis by (auto simp: ids_def set_doubleSpent [OF assms(1)] conflicts_def)
  qed
  have n: "n \<notin> set ids" by (simp add: ids_def set_doubleSpent [OF assms(1)])
  have e: "w_db t = deleteTransactionsByID ids d2" using run(11) by (simp add: ids_def)
  note del = deleteTransactionsByID_facts [OF run(5), of ids, folded e]
  have out: "set (rows (outputs (w_db t))) = {q \<in> set (rows (outputs ?d)). \<not> conflicts tx ?d (o_txnID q)}"
    by (simp add: del(2) d2(1) ids)
  have keys: "tx_keys (w_db t) = insert (n, tx_id tx) {k \<in> tx_keys ?d. \<not> conflicts tx ?d (fst k)}"
  proof -
    have "tx_keys (w_db t) = {k \<in> insert (n, tx_id tx) (tx_keys ?d). fst k \<notin> set ids}"
      unfolding e tx_keys_deleteTransactionsByID [OF run(5)] d2(2) run(7) ..
    moreover have "\<not> conflicts tx ?d n" using n ids by blast
    ultimately show ?thesis by (simp only: ids) force
  qed
  have spent: "i_txnID ` {i \<in> set (rows (inputs (w_db t))). i_outID i = o_outID q} = {n}"
    if q: "q \<in> set (rows (outputs (w_db t)))" "spends_output tx ?d q" for q
  proof -
    have qd: "q \<in> set (rows (outputs ?d))" using q(1) out by blast
    note rec = processInputs_recorded [OF assms(1,3) run(9,4) same run(10) qd q(2)]
    obtain i where i: "i \<in> set (rows (inputs d2))" "i_outID i = o_outID q" "i_txnID i = n" using rec(1) by blast
    have "i \<in> set (rows (inputs (w_db t)))" using i n q(1) by (simp add: del(3))
    moreover have "i_txnID j = n" if j: "j \<in> set (rows (inputs (w_db t)))" "i_outID j = o_outID q" for j
    proof (rule ccontr)
      assume ne: "i_txnID j \<noteq> n"
      have j2: "j \<in> set (rows (inputs d2))" "i_txnID j \<notin> set ids" using j(1) by (simp_all add: del(3))
      have "j \<in> set (rows (inputs ?d))" using rec(2) [OF j2(1) ne] .
      then have "i_txnID j \<in> set ids"
        using ne qd q(2) j(2) by (auto simp: ids_def set_doubleSpent [OF assms(1)])
      then show False using j2(2) by blast
    qed
    ultimately show ?thesis using i(2,3) by blast
  qed
  have cache: "w_cache t x = (if \<exists>i. (i, x) \<in> tx_keys ?d \<and> conflicts tx ?d i then None else w_cache s x)" for x
  proof -
    have "x \<in> t_txnTxid ` set (getTransactionsById ids d2) \<longleftrightarrow> (\<exists>i\<in>set ids. (i, x) \<in> tx_keys d2)"
      by (auto simp: getTransactionsById_def tx_keys_def)
    also have "\<dots> \<longleftrightarrow> (\<exists>i. (i, x) \<in> tx_keys ?d \<and> conflicts tx ?d i)"
      using n by (auto simp: d2(2) run(7) ids)
    finally show ?thesis by (simp add: run(12) fold_cache_delete ids_def)
  qed
  show ?thesis using False run(1-3) keys out spent cache by auto
qed

text \<open>A transaction \<open>0c\<close> that spends the output \<open>t2\<close> spent before.\<close>

definition demo_hex_db :: db where
  "demo_hex_db = demo_db\<lparr>transactions := \<lparr>rows =
        [\<lparr>t_txnID = 1, t_txnTxid = ''0a'', t_txnCreated = 10, t_txnVersion = 1, t_txnLocktime = 0, t_blockID = Some 1\<rparr>,
         \<lparr>t_txnID = 2, t_txnTxid = ''0b'', t_txnCreated = 20, t_txnVersion = 1, t_txnLocktime = 0, t_blockID = Some 2\<rparr>], next_id = 3\<rparr>\<rparr>"

lemma wf_demo_hex_db: "wf_db demo_hex_db"
  by (simp add: wf_defs demo_hex_db_def demo_db_def table_ok_def has_id_def nullable_ref_def empty_table_def)

definition demo_spend :: btx where
  "demo_spend = \<lparr>tx_id = ''0c'', tx_version = 2, tx_locktime = 0,
     tx_ins = [\<lparr>in_hash = [9], in_index = 3, in_sequence = 1\<rparr>, \<lparr>in_hash = [10], in_index = 0, in_sequence = 5\<rparr>],
     tx_outs = []\<rparr>"

definition demo_state :: "db \<Rightarrow> tx_state" where
  "demo_state d = \<lparr>w_db = d, w_cache = [''0a'' \<mapsto> True, ''0b'' \<mapsto> True], w_obj = new_object\<rparr>"

lemma demo_spend_keys: "map spend (tx_ins demo_spend) = [(''09'', 3), (''0a'', 0)]"
  by (simp add: demo_spend_def spend_def hex_of_bytes_def hex_of_byte_def hex_digit_def)

lemma demo_conflicts:
  "conflicts demo_spend demo_hex_db i \<longleftrightarrow> i = 2"
  unfolding conflicts_def spends_output_def demo_spend_keys
  by (auto simp: demo_hex_db_def demo_db_def outpoint_def trow_of_def tx_keys_def demo_spend_def)

lemma processInputs_spec_witness:
  "\<exists>t n. processInputs 7 demo_spend (demo_state demo_hex_db) = Some (Inr (), t)
     \<and> tx_keys (w_db t) = {(1, ''0a''), (n, ''0c'')} \<and> w_cache t = [''0a'' \<mapsto> True]"
proof -
  let ?s = "demo_state demo_hex_db"
  have hyp: "wf ?s" "obj_ok demo_spend ?s" "one_owner (w_db ?s)"
    by (simp_all add: demo_state_def wf_demo_hex_db obj_ok_def new_object_def)
      (simp add: one_owner_def demo_hex_db_def demo_db_def)
  have ne: "\<not> (\<forall>q\<in>set (rows (outputs (w_db ?s))). \<not> spends_output demo_spend (w_db ?s) q)"
    using demo_conflicts [of 2] by (auto simp: conflicts_def demo_state_def)
  obtain t n where
    t: "processInputs 7 demo_spend ?s = Some (Inr (), t)"
    "tx_keys (w_db t) = insert (n, tx_id demo_spend) {k \<in> tx_keys (w_db ?s). \<not> conflicts demo_spend (w_db ?s) (fst k)}"
    "\<forall>x. w_cache t x = (if \<exists>i. (i, x) \<in> tx_keys (w_db ?s) \<and> conflicts demo_spend (w_db ?s) i then None else w_cache ?s x)"
    using processInputs_spec [OF hyp, of 7, unfolded if_not_P [OF ne]] by (elim exE conjE) (rule that)
  have d: "w_db ?s = demo_hex_db" "tx_id demo_spend = ''0c''" by (simp_all add: demo_state_def demo_spend_def)
  have k: "tx_keys demo_hex_db = {(1, ''0a''), (2, ''0b'')}" by (auto simp: demo_hex_db_def tx_keys_def)
  have "tx_keys (w_db t) = {(1, ''0a''), (n, ''0c'')}"
    unfolding t(2) d k demo_conflicts by auto
  moreover have "w_cache t = [''0a'' \<mapsto> True]"
    using t(3) unfolding d k demo_conflicts by (auto simp: fun_eq_iff demo_state_def)
  ultimately show ?thesis using t(1) by blast
qed

end
