(* ===== verification/Tracker_Outputs.thy ===== *)
theory Tracker_Outputs
  imports Tracker_Inputs
begin

text \<open>
  What \<open>processOutputs\<close> of \<^verbatim>\<open>tracker/transaction.ts\<close> does to the database: the outputs paid to
  tracked addresses are recorded, and accounts are extended with new addresses.
\<close>

section \<open>The loop that derives addresses\<close>

text \<open>
  What the derivations are known to do: those that succeed give addresses of the indices asked for,
  in order of the indices and on the chain, and an address has one index.
\<close>

definition derives :: "(int list \<Rightarrow> derived list result) \<Rightarrow> derived \<Rightarrow> bool" where
  "derives dv x \<longleftrightarrow> (\<exists>is ds. dv is = Inr ds \<and> x \<in> set ds)"

definition ordered :: "int \<Rightarrow> (int list \<Rightarrow> derived list result) \<Rightarrow> bool" where
  "ordered chain dv \<longleftrightarrow> (\<forall>is ds. dv is = Inr ds \<longrightarrow> map d_index ds = is \<and> (\<forall>x\<in>set ds. d_chain x = chain))"

definition one_index :: "(int list \<Rightarrow> derived list result) \<Rightarrow> (string \<Rightarrow> int) \<Rightarrow> bool" where
  "one_index dv ix \<longleftrightarrow> (\<forall>is ds. dv is = Inr ds \<longrightarrow>
     (\<forall>x\<in>set ds. d_index x \<in> set is \<and> ix (d_address x) = d_index x))"

lemma map_of_dom: "map_of m a \<noteq> None \<longleftrightarrow> a \<in> fst ` set m"
  by (simp add: map_of_eq_None_iff)

lemma deriveLoop_returns:
  assumes "one_index dv ix"
    and "card {a \<in> fst ` set outs. derivedIndex < ix a} < fuel"
  shows "deriveLoop fuel dv gap outs derivedIndex maxUsed acc \<noteq> None"
  using assms(2)
proof (induction fuel arbitrary: derivedIndex maxUsed acc)
  case (Suc n)
  let ?is = "range (derivedIndex + 1) (maxUsed + gap + 1)"
  show ?case
  proof (cases "dv ?is")
    case (Inr ds)
    define hits where "hits = filter (\<lambda>d. map_of outs (d_address d) \<noteq> None) ds"
    show ?thesis
    proof (cases "hits = []")
      case True
      then show ?thesis using Inr by (simp add: hits_def)
    next
      case False
      then obtain x where x: "x \<in> set ds" "d_address x \<in> fst ` set outs"
        using map_of_dom [of outs] by (auto simp: hits_def filter_empty_conv)
      have ix: "d_index x \<in> set ?is" "ix (d_address x) = d_index x"
        using assms(1) Inr x(1) unfolding one_index_def by blast+
      let ?A = "\<lambda>i. {a \<in> fst ` set outs. i < ix a}"
      have "?A (maxUsed + gap) \<subset> ?A derivedIndex"
      proof (rule psubsetI)
        show "?A (maxUsed + gap) \<subseteq> ?A derivedIndex" using ix(1) by auto
        have "d_address x \<in> ?A derivedIndex" "d_address x \<notin> ?A (maxUsed + gap)" using ix x(2) by auto
        then show "?A (maxUsed + gap) \<noteq> ?A derivedIndex" by metis
      qed
      then have "card (?A (maxUsed + gap)) < card (?A derivedIndex)"
        by (intro psubset_card_mono) auto
      then have "card (?A (maxUsed + gap)) < n" using Suc.prems by simp
      then have "deriveLoop n dv gap outs (maxUsed + gap) (d_index (last hits))
          (fst acc @ ds, fold (\<lambda>d. js_set (d_address d) d) hits (snd acc)) \<noteq> None"
        by (rule Suc.IH)
      then show ?thesis using Inr False by (simp add: hits_def Let_def)
    qed
  qed simp
qed simp

lemma fst_fold_js_set: "fst ` set (fold (\<lambda>d. js_set (k d) d) ds m) = fst ` set m \<union> k ` set ds"
  by (induction ds arbitrary: m) (auto simp: keys_js_set)

text \<open>What a run of the loop leaves: the addresses added, and those of them the outputs pay.\<close>

lemma deriveLoop_result:
  assumes "deriveLoop fuel dv gap outs derivedIndex maxUsed acc = Some (Inr (news, used))"
  shows "\<exists>new. news = fst acc @ new \<and> (\<forall>x\<in>set new. derives dv x)
    \<and> fst ` set used = fst ` set (snd acc) \<union> {a \<in> d_address ` set new. a \<in> fst ` set outs}"
  using assms
proof (induction fuel arbitrary: derivedIndex maxUsed acc)
  case (Suc n)
  then obtain ds where ds: "dv (range (derivedIndex + 1) (maxUsed + gap + 1)) = Inr ds"
    by (auto split: sum.splits)
  define hits where "hits = filter (\<lambda>d. map_of outs (d_address d) \<noteq> None) ds"
  define acc' where "acc' = (fst acc @ ds, fold (\<lambda>d. js_set (d_address d) d) hits (snd acc))"
  have hits: "d_address ` set hits = {a \<in> d_address ` set ds. a \<in> fst ` set outs}"
    using map_of_dom [of outs] by (auto simp: hits_def)
  have der: "\<forall>x\<in>set ds. derives dv x" using ds unfolding derives_def by blast
  show ?case
  proof (cases "hits = []")
    case True
    then have "acc' = (news, used)" using Suc.prems ds by (simp add: hits_def acc'_def Let_def)
    then have "news = fst acc @ ds" "used = fold (\<lambda>d. js_set (d_address d) d) hits (snd acc)"
      by (simp_all add: acc'_def)
    then show ?thesis using der hits by (intro exI [of _ ds]) (simp add: fst_fold_js_set)
  next
    case False
    then have "deriveLoop n dv gap outs (maxUsed + gap) (d_index (last hits)) acc' = Some (Inr (news, used))"
      using Suc.prems ds by (simp add: hits_def acc'_def Let_def)
    from Suc.IH [OF this] obtain new where new: "news = fst acc' @ new" "\<forall>x\<in>set new. derives dv x"
      "fst ` set used = fst ` set (snd acc') \<union> {a \<in> d_address ` set new. a \<in> fst ` set outs}" by blast
    show ?thesis
      using new der hits by (intro exI [of _ "ds @ new"]) (auto simp: acc'_def fst_fold_js_set)
  qed
qed simp

text \<open>The gap: with ordered derivations the loop stops \<open>gap\<close> indices beyond the last address paid.\<close>

lemma sorted_last: "\<lbrakk>sorted (map f xs); x \<in> set xs\<rbrakk> \<Longrightarrow> (f x :: int) \<le> f (last xs)"
  by (induction xs) auto

lemma deriveLoop_gap:
  assumes "ordered chain dv"
    and "deriveLoop fuel dv gap outs derivedIndex maxUsed (pre @ cur, used0) = Some (Inr (news, used))"
    and "\<forall>i. lo < i \<and> i \<le> derivedIndex \<longrightarrow> P i \<or> (\<exists>x\<in>set cur. d_index x = i)"
    and "\<forall>x\<in>set cur. maxUsed < d_index x \<longrightarrow> d_address x \<notin> fst ` set outs"
    and "m0 \<le> maxUsed" "maxUsed \<le> derivedIndex"
  shows "\<exists>new M. news = pre @ new \<and> m0 \<le> M
    \<and> (\<forall>i. lo < i \<and> i \<le> M + gap \<longrightarrow> P i \<or> (\<exists>x\<in>set new. d_index x = i))
    \<and> (\<forall>x\<in>set new. M < d_index x \<longrightarrow> d_address x \<notin> fst ` set outs)"
  using assms(2-)
proof (induction fuel arbitrary: derivedIndex maxUsed cur used0)
  case (Suc n)
  let ?is = "range (derivedIndex + 1) (maxUsed + gap + 1)"
  obtain ds where ds: "dv ?is = Inr ds" using Suc.prems(1) by (auto split: sum.splits)
  then have idx: "map d_index ds = ?is" using assms(1) unfolding ordered_def by blast
  have ds_idx: "i \<in> d_index ` set ds \<longleftrightarrow> derivedIndex < i \<and> i \<le> maxUsed + gap" for i
    using arg_cong [OF idx, of set] by auto
  have cov: "\<forall>i. lo < i \<and> i \<le> maxUsed + gap \<longrightarrow> P i \<or> (\<exists>x\<in>set (cur @ ds). d_index x = i)"
  proof (intro allI impI)
    fix i assume i: "lo < i \<and> i \<le> maxUsed + gap"
    show "P i \<or> (\<exists>x\<in>set (cur @ ds). d_index x = i)"
    proof (cases "i \<le> derivedIndex")
      case True
      then show ?thesis using Suc.prems(2) i by auto
    next
      case False
      then have "i \<in> d_index ` set ds" using i by (simp add: ds_idx)
      then show ?thesis by auto
    qed
  qed
  define hits where "hits = filter (\<lambda>d. map_of outs (d_address d) \<noteq> None) ds"
  have hits: "x \<in> set hits \<longleftrightarrow> x \<in> set ds \<and> d_address x \<in> fst ` set outs" for x
    using map_of_dom [of outs] by (auto simp: hits_def)
  show ?case
  proof (cases "hits = []")
    case True
    then have "news = pre @ cur @ ds" using Suc.prems(1) ds by (simp add: hits_def Let_def)
    moreover have "\<forall>x\<in>set (cur @ ds). maxUsed < d_index x \<longrightarrow> d_address x \<notin> fst ` set outs"
      using Suc.prems(3) True hits by auto
    ultimately show ?thesis using cov Suc.prems(4) by (intro exI [of _ "cur @ ds"] exI [of _ maxUsed]) auto
  next
    case False
    define m where "m = d_index (last hits)"
    have "last hits \<in> set ds" using False hits last_in_set by blast
    then have m: "derivedIndex < m" "m \<le> maxUsed + gap" using ds_idx [of m] by (auto simp: m_def)
    have "sorted (map d_index ds)" by (simp add: idx range_def)
    then have sorted: "sorted (map d_index hits)" unfolding hits_def by (rule sorted_filter)
    then have top: "d_index x \<le> m" if "x \<in> set hits" for x
      unfolding m_def using sorted_last [OF sorted] that by simp
    have "deriveLoop n dv gap outs (maxUsed + gap) m (pre @ cur @ ds, fold (\<lambda>d. js_set (d_address d) d) hits used0)
        = Some (Inr (news, used))"
      using Suc.prems(1) ds False by (simp add: hits_def m_def Let_def)
    moreover have "\<forall>x\<in>set (cur @ ds). m < d_index x \<longrightarrow> d_address x \<notin> fst ` set outs"
    proof (intro ballI impI)
      fix x assume x: "x \<in> set (cur @ ds)" "m < d_index x"
      show "d_address x \<notin> fst ` set outs"
      proof (cases "x \<in> set cur")
        case True
        then show ?thesis using Suc.prems(3,5) m(1) x(2) by auto
      next
        case False
        then have "x \<in> set ds" "x \<notin> set hits" using x top [of x] by auto
        then show ?thesis using hits by blast
      qed
    qed
    ultimately show ?thesis
      using Suc.IH [of "maxUsed + gap" m "cur @ ds"] cov m Suc.prems(4,5) by simp
  qed
qed simp

section \<open>The addresses added to an account\<close>

lemma deriveChain_cases:
  assumes "deriveChain cfg fuel xpub g outs d chain acc = Some (Inr res)"
  obtains (skip) "res = acc"
  | (loop) a i where "maxBy (\<lambda>_. True) oa_hdAddrIndex (filter (\<lambda>a. oa_hdAddrChain a = chain) (g_addresses g)) = Some a"
      "deriveLoop fuel (dvOf cfg xpub g chain) (gapLimit cfg chain) outs i (oa_hdAddrIndex a) acc = Some (Inr res)"
proof (cases "maxBy (\<lambda>_. True) oa_hdAddrIndex (filter (\<lambda>a. oa_hdAddrChain a = chain) (g_addresses g))")
  case None
  then show ?thesis using assms skip by (simp add: deriveChain_def Let_def)
next
  case (Some a)
  have "res = acc \<or> (\<exists>i. deriveLoop fuel (dvOf cfg xpub g chain) (gapLimit cfg chain) outs i (oa_hdAddrIndex a) acc = Some (Inr res))"
    using assms unfolding deriveChain_def Let_def Some option.case
    by (simp only: option.inject sum.inject split: if_split_asm) blast+
  then show ?thesis using skip loop [OF Some] by blast
qed

lemma deriveChain_result:
  assumes "deriveChain cfg fuel xpub g outs d chain acc = Some (Inr (news, used))"
  shows "\<exists>new. news = fst acc @ new \<and> (\<forall>x\<in>set new. derives (dvOf cfg xpub g chain) x)
    \<and> fst ` set used = fst ` set (snd acc) \<union> {a \<in> d_address ` set new. a \<in> fst ` set outs}"
  using assms
proof (cases rule: deriveChain_cases)
  case skip
  then have "news = fst acc" "used = snd acc" by (metis fst_conv snd_conv)+
  then show ?thesis by auto
qed (rule deriveLoop_result)

lemma deriveNewAddresses_Inr:
  assumes "deriveNewAddresses cfg fuel xpub g outs s = Some (Inr used, t)"
  shows "\<exists>new0 new1 acc. deriveChain cfg fuel xpub g outs (w_db s) 0 ([], []) = Some (Inr acc) \<and> fst acc = new0
    \<and> (\<exists>u. deriveChain cfg fuel xpub g outs (w_db s) 1 acc = Some (Inr (new0 @ new1, u)) \<and> used = map fst u)
    \<and> addAddressesToHDAccount xpub (new0 @ new1) (w_db s) = Inr (w_db t) \<and> t = s\<lparr>w_db := w_db t\<rparr>
    \<and> set used = {a \<in> d_address ` set (new0 @ new1). a \<in> fst ` set outs}"
proof -
  obtain acc where acc: "deriveChain cfg fuel xpub g outs (w_db s) 0 ([], []) = Some (Inr acc)"
    using assms by (auto simp: deriveNewAddresses_def split: option.splits sum.splits)
  then obtain news u where u: "deriveChain cfg fuel xpub g outs (w_db s) 1 acc = Some (Inr (news, u))"
    and add: "addAddressesToHDAccount xpub news (w_db s) = Inr (w_db t)" "t = s\<lparr>w_db := w_db t\<rparr>" "used = map fst u"
    using assms by (auto simp: deriveNewAddresses_def bindA_Inr split: option.splits sum.splits)
  obtain n0 u0 where n0: "acc = (n0, u0)" by (cases acc)
  have a: "fst ` set u0 = {a \<in> d_address ` set n0. a \<in> fst ` set outs}"
    using deriveChain_result [OF acc [unfolded n0]] by auto
  obtain n1 where n1: "news = n0 @ n1"
    "fst ` set u = fst ` set u0 \<union> {a \<in> d_address ` set n1. a \<in> fst ` set outs}"
    using deriveChain_result [OF u] n0 by auto
  have "set used = {a \<in> d_address ` set (n0 @ n1). a \<in> fst ` set outs}"
    using n1(2) a add(3) by auto
  then show ?thesis using acc u add n1(1) n0 by (intro exI [of _ n0] exI [of _ n1] exI [of _ acc]) auto
qed

text \<open>How many indices of a window an account has.\<close>

lemma nbDerived_card:
  assumes "wf_db d" and "hd_account xpub d = Some h"
  shows "getHDAccountNbDerivedIndices xpub chain lo hi d = int (card {l \<in> set (rows (hd_addresses d)).
    ha_hdID l = h_hdID h \<and> ha_hdAddrChain l = chain \<and> lo \<le> ha_hdAddrIndex l \<and> ha_hdAddrIndex l \<le> hi})"
proof -
  have h: "find_by h_hdXpub xpub (rows (hd_accounts d)) = Some h" using assms(2) by (simp add: hd_account_def)
  have u: "distinct (map h_hdXpub (rows (hd_accounts d)))"
    using table_ok_distinct [OF wf_tables(3) [OF assms(1)]] by blast
  let ?Q = "\<lambda>l. ha_hdAddrChain l = chain \<and> lo \<le> ha_hdAddrIndex l \<and> ha_hdAddrIndex l \<le> hi"
  have row: "concat (map (\<lambda>k. if ha_hdID l = h_hdID k \<and> h_hdXpub k = xpub \<and> ?Q l then [l] else []) (rows (hd_accounts d)))
      = (if ha_hdID l = h_hdID h \<and> ?Q l then [l] else [])" for l
  proof -
    have eq: "(\<lambda>k. if ha_hdID l = h_hdID k \<and> h_hdXpub k = xpub \<and> ?Q l then [l] else []) =
        (\<lambda>k. if h_hdXpub k = xpub \<and> (ha_hdID l = h_hdID k \<and> ?Q l) then [l] else [])" by auto
    show ?thesis unfolding eq
      using join_unique' [OF u, of xpub "\<lambda>k. ha_hdID l = h_hdID k \<and> ?Q l" "\<lambda>_. [l]"] unfolding h by simp
  qed
  have "getHDAccountNbDerivedIndices xpub chain lo hi d =
      int (length (filter (\<lambda>l. ha_hdID l = h_hdID h \<and> ?Q l) (rows (hd_addresses d))))"
    unfolding getHDAccountNbDerivedIndices_def row by (simp add: concat_if_filter)
  moreover have "distinct (rows (hd_addresses d))"
    using table_ok_distinct [OF wf_tables(4) [OF assms(1)]] by (simp add: distinct_map)
  then have "length (filter (\<lambda>l. ha_hdID l = h_hdID h \<and> ?Q l) (rows (hd_addresses d))) =
      card (set (filter (\<lambda>l. ha_hdID l = h_hdID h \<and> ?Q l) (rows (hd_addresses d))))"
    by (intro distinct_card [symmetric] distinct_filter)
  ultimately show ?thesis by simp
qed

lemma link_derived:
  assumes "wf_db d" "hd_account xpub d = Some h" "l \<in> set (rows (hd_addresses d))" "ha_hdID l = h_hdID h"
    and "chain = 0 \<or> chain = 1" "ha_hdAddrChain l = chain"
  shows "ha_hdAddrIndex l \<le> entry chain (getHDAccountDerivedIndices xpub d)"
proof -
  have mem: "l \<in> set (account_links xpub d)" using assms by (auto simp: set_account_links)
  then have "filter (\<lambda>l. ha_hdAddrChain l = chain) (account_links xpub d) \<noteq> []"
    using assms(6) by (auto simp: filter_empty_conv)
  then have "chain_max (account_links xpub d) chain \<noteq> None" by (simp add: chain_max_def)
  then obtain m where m: "chain_max (account_links xpub d) chain = Some m" by blast
  then have "ha_hdAddrIndex l \<le> m"
    using max_list_Some [of _ m] mem assms(6) unfolding chain_max_def by force
  then show ?thesis using m assms(5) by (auto simp: getHDAccountDerivedIndices_def entry_def)
qed

text \<open>An account has an address at an index: an old link, or the address derived there.\<close>

definition has_index :: "'n tracker \<Rightarrow> string \<Rightarrow> hd_group \<Rightarrow> int \<Rightarrow> hd_row \<Rightarrow> db \<Rightarrow> int \<Rightarrow> bool" where
  "has_index cfg xpub g chain h d i \<longleftrightarrow>
     (\<exists>l\<in>set (rows (hd_addresses d)). ha_hdID l = h_hdID h \<and> ha_hdAddrChain l = chain \<and> ha_hdAddrIndex l = i)
   \<or> (\<exists>x. derives (dvOf cfg xpub g chain) x \<and> d_index x = i \<and> owns_address d (h_hdID h) (d_address x))"

lemma window_full:
  fixes gap :: int
  assumes "finite L" "inj_on f L" "\<And>l. l \<in> L \<Longrightarrow> m \<le> f l \<and> f l \<le> m + gap" "gap + 1 \<le> int (card L)"
    and "m \<le> i" "i \<le> m + gap"
  shows "\<exists>l\<in>L. f l = i"
proof -
  have "f ` L \<subseteq> {m..m + gap}" using assms(3) by auto
  moreover have "card {m..m + gap} \<le> card (f ` L)"
    using assms(2,4-6) by (simp add: card_image)
  ultimately have "f ` L = {m..m + gap}" by (intro card_seteq) auto
  then show ?thesis using assms(5,6) by (metis atLeastAtMost_iff imageE)
qed

text \<open>What one chain derives, as the gap it leaves.\<close>

lemma deriveChain_gap:
  assumes wf: "wf_db d" and h: "hd_account xpub d = Some h" and ord: "ordered chain (dvOf cfg xpub g chain)"
    and chain: "chain = 0 \<or> chain = 1"
    and run: "deriveChain cfg fuel xpub g outs d chain (pre, used0) = Some (Inr (news, used))"
    and a: "a \<in> set (g_addresses g)" "oa_hdAddrChain a = chain"
      "\<forall>b\<in>set (g_addresses g). oa_hdAddrChain b = chain \<longrightarrow> oa_hdAddrIndex b \<le> oa_hdAddrIndex a"
    and link: "l \<in> set (rows (hd_addresses d))" "ha_hdID l = h_hdID h" "ha_hdAddrChain l = chain" "ha_hdAddrIndex l = oa_hdAddrIndex a"
    and nxt: "entry chain (getHDAccountNextUnusedIndices xpub d) \<le> oa_hdAddrIndex a"
    and distinct: "inj_on (\<lambda>l. (ha_hdAddrChain l, ha_hdAddrIndex l)) {l \<in> set (rows (hd_addresses d)). ha_hdID l = h_hdID h}"
    and holes: "entry chain (getHDAccountDerivedIndices xpub d) < oa_hdAddrIndex a + gapLimit cfg chain \<Longrightarrow>
      \<forall>i. oa_hdAddrIndex a < i \<and> i \<le> entry chain (getHDAccountDerivedIndices xpub d) \<longrightarrow> has_index cfg xpub g chain h d i"
  shows "\<exists>new M. news = pre @ new \<and> oa_hdAddrIndex a \<le> M
    \<and> (\<forall>i. oa_hdAddrIndex a < i \<and> i \<le> M + gapLimit cfg chain \<longrightarrow>
         has_index cfg xpub g chain h d i \<or> (\<exists>x\<in>set new. d_index x = i))
    \<and> (\<forall>x\<in>set new. M < d_index x \<longrightarrow> d_address x \<notin> fst ` set outs)"
proof -
  let ?A = "filter (\<lambda>a. oa_hdAddrChain a = chain) (g_addresses g)"
  let ?m = "oa_hdAddrIndex a" and ?gap = "gapLimit cfg chain" and ?P = "has_index cfg xpub g chain h d"
  let ?last = "entry chain (getHDAccountDerivedIndices xpub d)"
  have "maxBy (\<lambda>_. True) oa_hdAddrIndex ?A \<noteq> None" using a by (auto simp: maxBy_None_iff filter_empty_conv)
  then obtain b where b: "maxBy (\<lambda>_. True) oa_hdAddrIndex ?A = Some b" by blast
  have "b \<in> set ?A \<and> (\<forall>x\<in>set ?A. oa_hdAddrIndex x \<le> oa_hdAddrIndex b)" by (rule maxBy_max [OF _ b]) simp
  then have bm: "oa_hdAddrIndex b = ?m" using a by (auto intro: antisym)
  have m_last: "?m \<le> ?last" using link_derived [OF wf h link(1,2) chain link(3)] link(4) by simp
  have ahead: "\<not> ?m < entry chain (getHDAccountNextUnusedIndices xpub d)" using nxt by (simp only: not_less not_False_eq_True)
  have step: "deriveChain cfg fuel xpub g outs d chain acc =
     (if ?m + ?gap \<le> ?last
      then (if getHDAccountNbDerivedIndices xpub chain ?m (?m + ?gap) d < ?gap + 1
            then deriveLoop fuel (dvOf cfg xpub g chain) ?gap outs ?m ?m acc else Some (Inr acc))
      else deriveLoop fuel (dvOf cfg xpub g chain) ?gap outs ?last ?m acc)" for acc
    unfolding deriveChain_def Let_def b option.case bm by (simp only: if_not_P [OF ahead])
  note run = run [unfolded step]
  show ?thesis
  proof (cases "?m + ?gap \<le> ?last")
    case True
    note run = run [unfolded if_P [OF True]]
    show ?thesis
    proof (cases "getHDAccountNbDerivedIndices xpub chain ?m (?m + ?gap) d < ?gap + 1")
      case True
      show ?thesis
        by (rule deriveLoop_gap [OF ord, of fuel ?gap outs ?m ?m pre "[]" used0 news used ?m ?P ?m])
          (use run [unfolded if_P [OF True]] in auto)
    next
      case False
      have full: "news = pre" using run [unfolded if_not_P [OF False]] by simp
      have "?P i" if i: "?m < i" "i \<le> ?m + ?gap" for i
      proof -
        let ?L = "{l \<in> set (rows (hd_addresses d)). ha_hdID l = h_hdID h \<and> ha_hdAddrChain l = chain
          \<and> ?m \<le> ha_hdAddrIndex l \<and> ha_hdAddrIndex l \<le> ?m + ?gap}"
        have "inj_on ha_hdAddrIndex ?L" using distinct by (auto simp: inj_on_def)
        moreover have "?gap + 1 \<le> int (card ?L)" using False by (simp only: nbDerived_card [OF wf h] not_less)
        ultimately have "\<exists>l\<in>?L. ha_hdAddrIndex l = i"
          using i by (intro window_full [of ?L ha_hdAddrIndex ?m ?gap]) auto
        then show ?thesis by (auto simp: has_index_def)
      qed
      then show ?thesis using full by (intro exI [of _ "[]"] exI [of _ ?m]) simp
    qed
  next
    case False
    note run = run [unfolded if_not_P [OF False]]
    show ?thesis
      by (rule deriveLoop_gap [OF ord, of fuel ?gap outs ?last ?m pre "[]" used0 news used ?m ?P ?m])
        (use run holes m_last False in auto)
  qed
qed

lemma ordered_dvOf:
  assumes "\<not> tr_external cfg"
    and "\<And>ns. fresh_node (tr_lib cfg) (Some xpub) = Inr (Some ns) \<Longrightarrow> \<not> isPostmixAcct (tr_lib cfg) ns"
  shows "ordered chain (dvOf cfg xpub g chain)"
  unfolding ordered_def
proof (intro allI impI)
  fix ixs ds assume dv: "dvOf cfg xpub g chain ixs = Inr ds"
  obtain ns scheme where "derive_all (tr_lib cfg) chain (chain_node ns chain) ixs scheme False = Inr ds"
    using dv assms by (fastforce simp: dvOf_def deriveAddresses_def bindE_Inr_iff Let_def split: option.splits if_splits)
  from derive_all_shape [OF this] show "map d_index ds = ixs \<and> (\<forall>x\<in>set ds. d_chain x = chain)" by simp
qed

lemma derives_chain: "\<lbrakk>ordered c dv; derives dv x\<rbrakk> \<Longrightarrow> d_chain x = c"
  unfolding ordered_def derives_def by blast

lemma deriveChain_returns:
  assumes "one_index (dvOf cfg xpub g chain) ix" and "length outs < fuel"
  shows "deriveChain cfg fuel xpub g outs d chain acc \<noteq> None"
proof -
  have "card {a \<in> fst ` set outs. i < ix a} < fuel" for i
  proof -
    have "card {a \<in> fst ` set outs. i < ix a} \<le> card (fst ` set outs)" by (intro card_mono) auto
    also have "\<dots> \<le> length outs" using card_image_le [of "set outs" fst] card_length [of outs] by simp
    finally show ?thesis using assms(2) by simp
  qed
  note loop = deriveLoop_returns [OF assms(1) this]
  show ?thesis
    unfolding deriveChain_def Let_def by (auto simp del: deriveLoop.simps not_None_eq simp: loop split: option.splits)
qed

lemma has_index_grows:
  assumes "has_index cfg xpub g chain h d i" and "set (rows (hd_addresses d)) \<subseteq> set (rows (hd_addresses e))"
    and "\<And>a j. address_id a d = Some j \<Longrightarrow> address_id a e = Some j"
  shows "has_index cfg xpub g chain h e i"
proof -
  have "owns_address e k a" if own: "owns_address d k a" for k a
  proof -
    obtain j where j: "address_id a d = Some j" "(k, j) \<in> link_key ` set (rows (hd_addresses d))"
      using own by (auto simp: owns_address_def split: option.splits)
    have "(k, j) \<in> link_key ` set (rows (hd_addresses e))" by (rule subsetD [OF image_mono [OF assms(2)] j(2)])
    then show ?thesis using assms(3) [OF j(1)] by (simp add: owns_address_def)
  qed
  then show ?thesis using assms(1,2) unfolding has_index_def by blast
qed

lemma deriveNewAddresses_returns:
  assumes "one_index (dvOf cfg xpub g 0) ix0" "one_index (dvOf cfg xpub g 1) ix1" "length outs < fuel"
  shows "\<exists>r t. deriveNewAddresses cfg fuel xpub g outs s = Some (r, t)"
proof (cases "deriveNewAddresses cfg fuel xpub g outs s")
  case None
  then show ?thesis
    by (auto simp del: not_None_eq simp: deriveChain_returns [OF assms(1,3)] deriveChain_returns [OF assms(2,3)]
      deriveNewAddresses_def bindA_def tryDb_def tryModify_def ret_def split: option.splits sum.splits)
next
  case (Some p)
  then show ?thesis by (cases p) simp
qed

lemma deriveNewAddresses_Inl:
  assumes "wf s" "hd_account xpub (w_db s) = Some h" "deriveNewAddresses cfg fuel xpub g outs s = Some (Inl err, t)"
  shows "t = s"
  using assms(3) addAddressesToHDAccount_account [OF assms(1,2)] unfolding deriveNewAddresses_def
  by (auto simp: bindA_Some tryDb_def tryModify_Some split: option.splits sum.splits)

text \<open>
  C27. The gap limit. Deriving the new addresses of an account always returns. When it does not
  throw, the account has an address at every index from the highest one paid up to the gap limit
  beyond an index \<open>M\<close>, and no address added beyond \<open>M\<close> is paid by the transaction: so \<open>gap\<close> unpaid
  addresses follow the last one paid. This is for an account that is not a postmix account, on
  a chain with an address at or beyond the next unused index, when the indices below a derivation
  shorter than the gap have no hole (a hole within the gap is found and filled by the code).
\<close>

theorem deriveNewAddresses_gap:
  fixes xpub :: string and cfg :: "'n tracker" and s :: "'s tx_state_scheme"
  assumes "wf s" and h: "hd_account xpub (w_db s) = Some h" and "\<not> tr_external cfg"
    and "\<And>ns. fresh_node (tr_lib cfg) (Some xpub) = Inr (Some ns) \<Longrightarrow> \<not> isPostmixAcct (tr_lib cfg) ns"
    and ix: "one_index (dvOf cfg xpub g 0) ix0" "one_index (dvOf cfg xpub g 1) ix1" "length outs < fuel"
    and chain: "chain = 0 \<or> chain = 1"
    and a: "a \<in> set (g_addresses g)" "oa_hdAddrChain a = chain"
      "\<forall>b\<in>set (g_addresses g). oa_hdAddrChain b = chain \<longrightarrow> oa_hdAddrIndex b \<le> oa_hdAddrIndex a"
    and link: "l \<in> set (rows (hd_addresses (w_db s)))" "ha_hdID l = h_hdID h" "ha_hdAddrChain l = chain"
      "ha_hdAddrIndex l = oa_hdAddrIndex a"
    and nxt: "entry chain (getHDAccountNextUnusedIndices xpub (w_db s)) \<le> oa_hdAddrIndex a"
    and distinct: "inj_on (\<lambda>l. (ha_hdAddrChain l, ha_hdAddrIndex l))
      {l \<in> set (rows (hd_addresses (w_db s))). ha_hdID l = h_hdID h}"
    and holes: "entry chain (getHDAccountDerivedIndices xpub (w_db s)) < oa_hdAddrIndex a + gapLimit cfg chain \<Longrightarrow>
      \<forall>i. oa_hdAddrIndex a < i \<and> i \<le> entry chain (getHDAccountDerivedIndices xpub (w_db s))
        \<longrightarrow> has_index cfg xpub g chain h (w_db s) i"
  shows "\<exists>r t. deriveNewAddresses cfg fuel xpub g outs s = Some (r, t) \<and>
    (case r of Inl err \<Rightarrow> t = s
     | Inr used \<Rightarrow> wf t \<and> set used \<subseteq> fst ` set outs \<and>
        (\<exists>M. oa_hdAddrIndex a \<le> M
          \<and> (\<forall>i. oa_hdAddrIndex a < i \<and> i \<le> M + gapLimit cfg chain \<longrightarrow> has_index cfg xpub g chain h (w_db t) i)
          \<and> (\<forall>k\<in>set (rows (hd_addresses (w_db t))) - set (rows (hd_addresses (w_db s))).
               ha_hdAddrChain k = chain \<and> M < ha_hdAddrIndex k \<longrightarrow>
               (\<forall>x. address_id x (w_db t) = Some (ha_addrID k) \<longrightarrow> x \<notin> fst ` set outs))))"
proof -
  have ord: "ordered c (dvOf cfg xpub g c)" for c using assms(3,4) by (rule ordered_dvOf)
  obtain r t where run: "deriveNewAddresses cfg fuel xpub g outs s = Some (r, t)"
    using deriveNewAddresses_returns [OF ix] by blast
  show ?thesis
  proof (cases r)
    case (Inl err)
    then have "t = s" using deriveNewAddresses_Inl [OF assms(1) h] run by simp
    then show ?thesis using run Inl by auto
  next
    case (Inr used)
    let ?d = "w_db s" and ?e = "w_db t"
    obtain new0 new1 acc u where n: "deriveChain cfg fuel xpub g outs ?d 0 ([], []) = Some (Inr acc)" "fst acc = new0"
      "deriveChain cfg fuel xpub g outs ?d 1 acc = Some (Inr (new0 @ new1, u))"
      "addAddressesToHDAccount xpub (new0 @ new1) ?d = Inr ?e"
      "set used = {a \<in> d_address ` set (new0 @ new1). a \<in> fst ` set outs}"
      using deriveNewAddresses_Inr [OF run [unfolded Inr]] by blast
    have d0: "\<forall>x\<in>set new0. derives (dvOf cfg xpub g 0) x"
      using deriveChain_result [of cfg fuel xpub g outs ?d 0 "([], [])" "fst acc" "snd acc"] n(1,2) by auto
    have d1: "\<forall>x\<in>set new1. derives (dvOf cfg xpub g 1) x" using deriveChain_result [OF n(3)] n(2) by auto
    have chains: "\<forall>x\<in>set new0. d_chain x = 0" "\<forall>x\<in>set new1. d_chain x = 1"
      using d0 d1 ord derives_chain by blast+
    define new where "new = (if chain = 0 then new0 else new1)"
    have der: "\<forall>x\<in>set new. derives (dvOf cfg xpub g chain) x \<and> d_chain x = chain"
      using d0 d1 chain chains by (auto simp: new_def)
    note gap = deriveChain_gap [OF assms(1) h ord chain _ a link nxt distinct holes]
    obtain M where M: "oa_hdAddrIndex a \<le> M"
      "\<forall>i. oa_hdAddrIndex a < i \<and> i \<le> M + gapLimit cfg chain \<longrightarrow> has_index cfg xpub g chain h ?d i \<or> (\<exists>x\<in>set new. d_index x = i)"
      "\<forall>x\<in>set new. M < d_index x \<longrightarrow> d_address x \<notin> fst ` set outs"
    proof (cases "chain = 0")
      case True
      have "deriveChain cfg fuel xpub g outs ?d chain ([], []) = Some (Inr (new0, snd acc))" using n(1,2) True by auto
      from gap [OF this] show ?thesis using that True by (auto simp: new_def)
    next
      case False
      have acc: "acc = (new0, snd acc)" using n(2) by auto
      have "deriveChain cfg fuel xpub g outs ?d chain (new0, snd acc) = Some (Inr (new0 @ new1, u))"
        using n(3) acc chain False by simp
      from gap [OF this] show ?thesis using that False by (auto simp: new_def)
    qed
    from addAddressesToHDAccount_account [OF assms(1) h, of "new0 @ new1"] n(4)
    have e: "wf_db ?e" "set (rows (hd_addresses ?d)) \<subseteq> set (rows (hd_addresses ?e))"
      "\<forall>x\<in>set (new0 @ new1). owns_address ?e (h_hdID h) (d_address x)"
      "\<forall>l\<in>set (rows (hd_addresses ?e)) - set (rows (hd_addresses ?d)). \<exists>x\<in>set (new0 @ new1).
         address_id (d_address x) ?e = Some (ha_addrID l) \<and> ha_hdAddrChain l = d_chain x \<and> ha_hdAddrIndex l = d_index x"
      "\<forall>a. address_id a ?e = address_id a (addAddresses (map d_address (new0 @ new1)) ?d)"
      by auto
    have keep: "address_id a ?e = Some j" if "address_id a ?d = Some j" for a j
      using e(5) that address_ids.ensure_all_keeps [OF assms(1)] by (simp add: addAddresses_ensure_all)
    have "has_index cfg xpub g chain h ?e i" if i: "oa_hdAddrIndex a < i" "i \<le> M + gapLimit cfg chain" for i
    proof (cases "has_index cfg xpub g chain h ?d i")
      case True
      then show ?thesis using e(2) keep by (rule has_index_grows)
    next
      case False
      then obtain x where x: "x \<in> set new" "d_index x = i" using M(2) i by blast
      then have "owns_address ?e (h_hdID h) (d_address x)" using e(3) by (auto simp: new_def split: if_splits)
      then show ?thesis using x der unfolding has_index_def by blast
    qed
    moreover have "y \<notin> fst ` set outs"
      if k: "k \<in> set (rows (hd_addresses ?e)) - set (rows (hd_addresses ?d))" "ha_hdAddrChain k = chain"
        "M < ha_hdAddrIndex k" "address_id y ?e = Some (ha_addrID k)" for k y
    proof -
      obtain x where x: "x \<in> set (new0 @ new1)" "address_id (d_address x) ?e = Some (ha_addrID k)"
        "ha_hdAddrChain k = d_chain x" "ha_hdAddrIndex k = d_index x" using e(4) k(1) by blast
      have "y = d_address x" using address_ids.lookup_inj [OF e(1) k(4) x(2)] .
      moreover have "x \<in> set new" using x(1,3) k(2) chains chain by (auto simp: new_def)
      ultimately show ?thesis using M(3) k(3) x(4) by auto
    qed
    ultimately have "\<exists>M. oa_hdAddrIndex a \<le> M
          \<and> (\<forall>i. oa_hdAddrIndex a < i \<and> i \<le> M + gapLimit cfg chain \<longrightarrow> has_index cfg xpub g chain h ?e i)
          \<and> (\<forall>k\<in>set (rows (hd_addresses ?e)) - set (rows (hd_addresses ?d)).
               ha_hdAddrChain k = chain \<and> M < ha_hdAddrIndex k \<longrightarrow>
               (\<forall>x. address_id x ?e = Some (ha_addrID k) \<longrightarrow> x \<notin> fst ` set outs))"
      using M(1) by blast
    moreover have "set used \<subseteq> fst ` set outs" using n(5) by auto
    ultimately show ?thesis using run Inr e(1) by simp
  qed
qed

text \<open>An account with one address, paid together with one that is still to be derived.\<close>

definition demo_small :: "int list hd_lib" where
  "demo_small = (demo_lib 0)\<lparr>derive := (\<lambda>n i. if 0 \<le> i \<and> i < 10 then Some (n @ [i]) else None)\<rparr>"

definition demo_tracker :: "int list tracker" where
  "demo_tracker = \<lparr>tr_lib = demo_small, tr_external = False, tr_threshold = 0, tr_exec = Inr,
     tr_pay = (\<lambda>p s. Inr (Some (map (\<lambda>b. char_of (unat b)) (take 3 (drop 2 s))))),
     tr_gap_external = 2, tr_gap_internal = 2, tr_evict = (\<lambda>c. c)\<rparr>"

definition demo_account_db :: db where
  "demo_account_db = demo_db\<lparr>
     addresses := \<lparr>rows = [\<lparr>a_addrID = 1, a_addrAddress = ''b00''\<rparr>, \<lparr>a_addrID = 2, a_addrAddress = ''b''\<rparr>], next_id = 3\<rparr>,
     hd_accounts := \<lparr>rows = [\<lparr>h_hdID = 1, h_hdXpub = demo_zpub, h_hdCreated = 5, h_hdType = BIP84\<rparr>], next_id = 2\<rparr>,
     inputs := empty_table, outputs := empty_table\<rparr>"

lemma wf_demo_account_db: "wf_db demo_account_db"
  by (simp add: wf_defs demo_account_db_def demo_db_def table_ok_def has_id_def nullable_ref_def empty_table_def)

lemma demo_small_node: "fresh_node demo_small (Some demo_zpub) = Inr (Some ([0], [1], []))"
proof -
  have f: "b58_decode demo_small = b58_decode (demo_lib 0)" "b58_encode demo_small = b58_encode (demo_lib 0)"
    by (simp_all add: demo_small_def)
  have "xlatXPUB demo_small x = xlatXPUB (demo_lib 0) x" for x unfolding xlatXPUB_def f ..
  moreover have "isZpub (Some demo_zpub)" by (simp add: isZpub_def starts_with_def demo_zpub_def)
  ultimately show ?thesis
    by (simp add: fresh_node_def parse_node_def demo_xlat) (simp add: demo_small_def demo_lib_def)
qed

lemma demo_small_not_postmix: "\<not> isPostmixAcct demo_small ns"
  by (simp add: isPostmixAcct_def demo_small_def demo_lib_def POSTMIX_ACCT_def MAX_SAFE_INT_32_def)

definition demo_group :: hd_group where
  "demo_group = \<lparr>g_hdID = 1, g_hdType = BIP84,
     g_addresses = [\<lparr>oa_addrID = 1, oa_addrAddress = ''b00'', oa_hdAddrChain = 0, oa_hdAddrIndex = 0\<rparr>]\<rparr>"

lemma demo_small_derive:
  assumes "deriveAddress demo_small c [c] i BIP84 = Inr x"
  shows "0 \<le> i \<and> i < 10 \<and> d_index x = i \<and> int (of_char (d_address x ! 2)) - 48 = i"
proof -
  have "0 \<le> i \<and> i < 10" using assms by (auto simp: deriveAddress_def demo_small_def split: if_splits)
  then have "i = 0 \<or> i = 1 \<or> i = 2 \<or> i = 3 \<or> i = 4 \<or> i = 5 \<or> i = 6 \<or> i = 7 \<or> i = 8 \<or> i = 9" by presburger
  moreover have "x = \<lparr>d_chain = c, d_index = i, d_address = p2wpkhAddress demo_small (map word_of_int [c, i])\<rparr>"
    using assms by (auto simp: deriveAddress_def demo_small_def demo_lib_def hd_types split: if_splits)
  ultimately show ?thesis
    by (auto simp: p2wpkhAddress_def demo_small_def demo_lib_def toLowerCase_def)
qed

lemma demo_one_index:
  assumes "c = 0 \<or> c = 1"
  shows "one_index (dvOf demo_tracker demo_zpub demo_group c) (\<lambda>a. int (of_char (a ! 2)) - 48)"
  unfolding one_index_def
proof (intro allI impI ballI)
  fix ixs ds x assume dv: "dvOf demo_tracker demo_zpub demo_group c ixs = Inr ds" and x: "x \<in> set ds"
  have ty: "ty_type (classify BIP84) = Some BIP84" by (simp add: classify_def hd_types)
  have "dvOf demo_tracker demo_zpub demo_group c ixs = derive_all demo_small c [c] ixs BIP84 False"
    using assms by (elim disjE) (simp_all add: dvOf_def deriveAddresses_def demo_tracker_def demo_small_node
      demo_group_def ty demo_small_not_postmix chain_node_def)
  then have "derive_all demo_small c [c] ixs BIP84 False = Inr ds" using dv by simp
  then have "list_all2 (\<lambda>i x. deriveAddress demo_small c [c] i BIP84 = Inr x) ixs ds"
    by (simp add: derive_all_def mapE_Inr_iff list_all2_map1)
  moreover obtain k where "k < length ds" "ds ! k = x" using x by (auto simp: in_set_conv_nth)
  ultimately have "ixs ! k \<in> set ixs" "deriveAddress demo_small c [c] (ixs ! k) BIP84 = Inr x"
    by (auto simp: list_all2_conv_all_nth)
  then show "d_index x \<in> set ixs \<and> int (of_char (d_address x ! 2)) - 48 = d_index x"
    using demo_small_derive by auto
qed

lemma deriveNewAddresses_gap_witness:
  "\<exists>r t. deriveNewAddresses demo_tracker 3 demo_zpub demo_group
       [(''b00'', []), (''b02'', [])] (demo_state demo_account_db) = Some (r, t)
     \<and> (\<forall>used. r = Inr used \<longrightarrow> (\<exists>M\<ge>0. \<forall>i. 0 < i \<and> i \<le> M + 2 \<longrightarrow>
          has_index demo_tracker demo_zpub demo_group 0 \<lparr>h_hdID = 1, h_hdXpub = demo_zpub, h_hdCreated = 5, h_hdType = BIP84\<rparr>
            (w_db t) i))"
proof -
  let ?s = "demo_state demo_account_db" and ?h = "\<lparr>h_hdID = 1, h_hdXpub = demo_zpub, h_hdCreated = 5, h_hdType = BIP84\<rparr>"
  let ?l = "\<lparr>ha_hdAddrID = 1, ha_hdID = 1, ha_addrID = 1, ha_hdAddrChain = 0, ha_hdAddrIndex = 0\<rparr>"
  let ?a = "\<lparr>oa_addrID = 1, oa_addrAddress = ''b00'', oa_hdAddrChain = 0, oa_hdAddrIndex = 0\<rparr>"
  have s: "wf ?s" "hd_account demo_zpub (w_db ?s) = Some ?h"
    by (simp_all add: demo_state_def wf_demo_account_db) (simp add: hd_account_def demo_account_db_def)
  have links: "rows (hd_addresses (w_db ?s)) = [?l]"
    by (simp add: demo_state_def demo_account_db_def demo_db_def)
  have idx: "entry 0 (getHDAccountDerivedIndices demo_zpub (w_db ?s)) = 0"
    "entry 0 (getHDAccountNextUnusedIndices demo_zpub (w_db ?s)) = 0"
    by (simp_all add: demo_state_def demo_account_db_def demo_db_def empty_table_def getHDAccountDerivedIndices_def
      getHDAccountNextUnusedIndices_def account_links_def used_links_def chain_max_def max_list_def entry_def)
  have nodes: "\<not> isPostmixAcct (tr_lib demo_tracker) ns" for ns
    by (simp add: demo_tracker_def demo_small_not_postmix)
  have gap: "gapLimit demo_tracker 0 = 2" by (simp add: gapLimit_def demo_tracker_def)
  have "\<exists>r t. deriveNewAddresses demo_tracker 3 demo_zpub demo_group [(''b00'', []), (''b02'', [])] ?s = Some (r, t) \<and>
    (case r of Inl err \<Rightarrow> t = ?s
     | Inr used \<Rightarrow> wf t \<and> set used \<subseteq> fst ` set [(''b00'', [] :: indexed_output list), (''b02'', [])] \<and>
        (\<exists>M. oa_hdAddrIndex ?a \<le> M
          \<and> (\<forall>i. oa_hdAddrIndex ?a < i \<and> i \<le> M + gapLimit demo_tracker 0 \<longrightarrow> has_index demo_tracker demo_zpub demo_group 0 ?h (w_db t) i)
          \<and> (\<forall>k\<in>set (rows (hd_addresses (w_db t))) - set (rows (hd_addresses (w_db ?s))).
               ha_hdAddrChain k = 0 \<and> M < ha_hdAddrIndex k \<longrightarrow>
               (\<forall>x. address_id x (w_db t) = Some (ha_addrID k) \<longrightarrow> x \<notin> fst ` set [(''b00'', [] :: indexed_output list), (''b02'', [])]))))"
    by (rule deriveNewAddresses_gap [where a = ?a and l = ?l, OF s _ nodes demo_one_index demo_one_index])
      (auto simp: demo_tracker_def demo_group_def links idx inj_on_def)
  then obtain r t where rt: "deriveNewAddresses demo_tracker 3 demo_zpub demo_group [(''b00'', []), (''b02'', [])] ?s = Some (r, t)"
    and imp: "\<And>used. r = Inr used \<Longrightarrow> \<exists>M. oa_hdAddrIndex ?a \<le> M \<and> (\<forall>i. oa_hdAddrIndex ?a < i \<and> i \<le> M + 2 \<longrightarrow>
      has_index demo_tracker demo_zpub demo_group 0 ?h (w_db t) i)" unfolding gap by fastforce
  have "\<forall>used. r = Inr used \<longrightarrow> (\<exists>M\<ge>0. \<forall>i. 0 < i \<and> i \<le> M + 2 \<longrightarrow>
      has_index demo_tracker demo_zpub demo_group 0 ?h (w_db t) i)" using imp by simp
  then show ?thesis using rt by blast
qed

end
