(* ===== verification/Tracker_Check.thy ===== *)
theory Tracker_Check
  imports Tracker_Outputs
begin

text \<open>
  The outputs \<open>processOutputs\<close> of \<^verbatim>\<open>tracker/transaction.ts\<close> records: exactly those paid to
  addresses that are tracked once it is done.
\<close>

section \<open>Outputs by address\<close>

definition pays :: "'n tracker \<Rightarrow> btx \<Rightarrow> nat \<Rightarrow> string \<Rightarrow> bool" where
  "pays cfg tx k a \<longleftrightarrow> k < length (tx_outs tx) \<and> a \<noteq> ''''
     \<and> outputScript2Address (tr_pay cfg) (out_script (tx_outs tx ! k)) = Some a"

definition index_output :: "btx \<Rightarrow> nat \<Rightarrow> indexed_output" where
  "index_output tx k = \<lparr>io_index = k, io_value = out_value (tx_outs tx ! k),
     io_script = hex_of_bytes (out_script (tx_outs tx ! k))\<rparr>"

definition js_entries :: "('k \<times> 'v list) list \<Rightarrow> 'k \<Rightarrow> 'v list" where
  "js_entries m k = (case map_of m k of None \<Rightarrow> [] | Some vs \<Rightarrow> vs)"

lemma js_entries_push: "js_entries (js_push k v m) k' = js_entries m k' @ (if k' = k then [v] else [])"
  by (simp add: js_entries_def map_of_js_push split: option.splits)

lemma indexOutput_entries:
  "set (js_entries (indexOutput cfg p m) a) = set (js_entries m a) \<union>
     (if outputScript2Address (tr_pay cfg) (out_script (snd p)) = Some a \<and> a \<noteq> ''''
      then {\<lparr>io_index = fst p, io_value = out_value (snd p), io_script = hex_of_bytes (out_script (snd p))\<rparr>} else {})"
  by (auto simp: indexOutput_def js_entries_push split: option.splits)

lemma indexedOutputs_fold:
  "set (js_entries (fold (indexOutput cfg) ps m) a) = set (js_entries m a) \<union>
     (\<lambda>p. \<lparr>io_index = fst p, io_value = out_value (snd p), io_script = hex_of_bytes (out_script (snd p))\<rparr>) `
       {p \<in> set ps. outputScript2Address (tr_pay cfg) (out_script (snd p)) = Some a \<and> a \<noteq> ''''}"
proof (induction ps arbitrary: m)
  case (Cons p ps)
  show ?case unfolding fold_simps Cons.IH indexOutput_entries by auto
qed simp

lemma indexedOutputs_iff:
  "x \<in> set (js_entries (indexedOutputs cfg tx) a) \<longleftrightarrow> (\<exists>k. pays cfg tx k a \<and> x = index_output tx k)"
  unfolding indexedOutputs_def indexedOutputs_fold
  by (auto simp: js_entries_def in_set_enumerate_eq pays_def index_output_def image_iff)

lemma pays_outs: "pays cfg tx k a \<Longrightarrow> a \<in> fst ` set (indexedOutputs cfg tx)"
  using indexedOutputs_iff [of "index_output tx k" cfg tx a] map_of_dom [of "indexedOutputs cfg tx" a]
  by (auto simp: js_entries_def split: option.splits)

lemma set_fund:
  "x \<in> set (fund (indexedOutputs cfg tx) (i, a)) \<longleftrightarrow> (\<exists>k. pays cfg tx k a \<and>
     x = \<lparr>f_addrID = i, f_outIndex = int k, f_outAmount = out_value (tx_outs tx ! k),
          f_outScript = hex_of_bytes (out_script (tx_outs tx ! k))\<rparr>)"
proof -
  have eq: "set (fund (indexedOutputs cfg tx) (i, a)) = (\<lambda>oo. \<lparr>f_addrID = i, f_outIndex = int (io_index oo),
      f_outAmount = io_value oo, f_outScript = io_script oo\<rparr>) ` set (js_entries (indexedOutputs cfg tx) a)"
    by (cases "map_of (indexedOutputs cfg tx) a") (simp_all add: fund_def js_entries_def)
  show ?thesis unfolding eq image_iff Bex_def indexedOutputs_iff by (auto simp: index_output_def)
qed

section \<open>The accounts that are extended\<close>

definition same_but_accounts :: "db \<Rightarrow> db \<Rightarrow> bool" where
  "same_but_accounts d e \<longleftrightarrow> hd_accounts e = hd_accounts d \<and> outputs e = outputs d \<and> inputs e = inputs d
     \<and> transactions e = transactions d \<and> blocks e = blocks d \<and> banned_addresses e = banned_addresses d
     \<and> (\<forall>a i. address_id a d = Some i \<longrightarrow> address_id a e = Some i)"

lemma deriveNewAddresses_step:
  assumes "wf s" "hd_account xpub (w_db s) = Some h"
    and "deriveNewAddresses cfg fuel xpub g outs s = Some (Inr used, t)"
  shows "wf t \<and> t = s\<lparr>w_db := w_db t\<rparr> \<and> same_but_accounts (w_db s) (w_db t)
    \<and> (\<forall>a\<in>set used. a \<in> fst ` set outs \<and> address_id a (w_db t) \<noteq> None)
    \<and> (\<forall>a\<in>fst ` set outs. address_id a (w_db s) = None \<and> address_id a (w_db t) \<noteq> None \<longrightarrow> a \<in> set used)"
proof -
  obtain new where new: "addAddressesToHDAccount xpub new (w_db s) = Inr (w_db t)" "t = s\<lparr>w_db := w_db t\<rparr>"
    "set used = {a \<in> d_address ` set new. a \<in> fst ` set outs}"
    using deriveNewAddresses_Inr [OF assms(3)] by blast
  obtain d where d: "addAddressesToHDAccount xpub new (w_db s) = Inr d"
    "wf_db d" "hd_accounts d = hd_accounts (w_db s)" "outputs d = outputs (w_db s)"
    "inputs d = inputs (w_db s)" "transactions d = transactions (w_db s)" "blocks d = blocks (w_db s)"
    "banned_addresses d = banned_addresses (w_db s)"
    "\<forall>a. address_id a d = address_id a (addAddresses (map d_address new) (w_db s))"
    using addAddressesToHDAccount_account [OF assms(1,2), of new] by (elim exE conjE) (rule that)
  have "d = w_db t" using d(1) new(1) by simp
  note e = d(2-) [unfolded this]
  have known: "address_id a (w_db t) \<noteq> None \<longleftrightarrow> a \<in> d_address ` set new \<or> address_id a (w_db s) \<noteq> None" for a
    using e(8) addAddresses_known [OF assms(1), of a "map d_address new"] by simp
  have keep: "address_id a (w_db t) = Some i" if "address_id a (w_db s) = Some i" for a i
    using e(8) that address_ids.ensure_all_keeps [OF assms(1)] by (simp add: addAddresses_ensure_all)
  have u: "a \<in> set used \<longleftrightarrow> a \<in> d_address ` set new \<and> a \<in> fst ` set outs" for a
    unfolding new(3) by simp
  have c1: "\<forall>a\<in>set used. a \<in> fst ` set outs \<and> address_id a (w_db t) \<noteq> None"
  proof (intro ballI conjI)
    fix a assume "a \<in> set used"
    then have "a \<in> d_address ` set new" "a \<in> fst ` set outs" unfolding u by blast+
    then show "address_id a (w_db t) \<noteq> None" "a \<in> fst ` set outs" unfolding known by blast+
  qed
  have c2: "\<forall>a\<in>fst ` set outs. address_id a (w_db s) = None \<and> address_id a (w_db t) \<noteq> None \<longrightarrow> a \<in> set used"
  proof (intro ballI impI, elim conjE)
    fix a assume "a \<in> fst ` set outs" "address_id a (w_db s) = None" "address_id a (w_db t) \<noteq> None"
    then show "a \<in> set used" unfolding u known by blast
  qed
  have same: "same_but_accounts (w_db s) (w_db t)"
    unfolding same_but_accounts_def by (intro conjI e(2-7) allI impI keep)
  show ?thesis using e(1) new(2) same c1 c2 by (intro conjI)
qed

text \<open>What one account contributes, and what all of them do.\<close>

lemma getAddresses_pairs:
  assumes "wf_db d"
  shows "(i, a) \<in> set (map (\<lambda>r. (a_addrID r, a_addrAddress r)) (getAddresses as d)) \<longleftrightarrow>
    a \<in> set as \<and> address_id a d = Some i"
proof -
  have "address_id a d = Some i \<longleftrightarrow> (\<exists>r\<in>set (rows (addresses d)). a_addrAddress r = a \<and> a_addrID r = i)"
    using table_find [OF wf_tables(1) [OF assms]] by (auto simp: address_id_def)
  then show ?thesis by (auto simp: getAddresses_def)
qed

lemma accounts_loop:
  assumes "mapA (processAccount cfg fuel outs) groups s = Some (Inr ls, t)"
    and "wf s" and "\<forall>(x, g)\<in>set groups. hd_account x (w_db s) \<noteq> None"
    and "\<forall>(x, g)\<in>set groups. \<forall>(i, a)\<in>set (account_pairs g). address_id a (w_db s) = Some i"
  shows "wf t \<and> t = s\<lparr>w_db := w_db t\<rparr> \<and> same_but_accounts (w_db s) (w_db t)
    \<and> (\<forall>f\<in>set (concat ls). \<exists>i a. f \<in> set (fund outs (i, a)) \<and> address_id a (w_db t) = Some i)
    \<and> (\<forall>(x, g)\<in>set groups. \<forall>p\<in>set (account_pairs g). set (fund outs p) \<subseteq> set (concat ls))
    \<and> (\<forall>a\<in>fst ` set outs. \<forall>i. address_id a (w_db s) = None \<and> address_id a (w_db t) = Some i
         \<longrightarrow> set (fund outs (i, a)) \<subseteq> set (concat ls))"
  using assms
proof (induction groups arbitrary: s ls)
  case Nil
  then show ?case by (auto simp: same_but_accounts_def)
next
  case (Cons p groups)
  obtain x g where p: "p = (x, g)" by (cases p)
  obtain used u l1 l2 where run: "deriveNewAddresses cfg fuel x g outs s = Some (Inr used, u)" "ls = l1 # l2"
    "l1 = concat (map (fund outs) (account_pairs g @ map (\<lambda>r. (a_addrID r, a_addrAddress r)) (getAddresses used (w_db u))))"
    "mapA (processAccount cfg fuel outs) groups u = Some (Inr l2, t)"
  proof -
    obtain l1 u l2 where "processAccount cfg fuel outs (x, g) s = Some (Inr l1, u)"
      "mapA (processAccount cfg fuel outs) groups u = Some (Inr l2, t)" "ls = l1 # l2"
      using Cons.prems(1) by (auto simp: p bindA_Inr)
    then show ?thesis using that by (auto simp: processAccount_def bindA_Inr)
  qed
  obtain h where h: "hd_account x (w_db s) = Some h" using Cons.prems(3) p by auto
  note st = deriveNewAddresses_step [OF Cons.prems(2) h run(1)]
  have keep: "address_id a (w_db u) = Some i" if "address_id a (w_db s) = Some i" for a i
    using st that by (simp add: same_but_accounts_def)
  have IH: "wf t \<and> t = u\<lparr>w_db := w_db t\<rparr> \<and> same_but_accounts (w_db u) (w_db t)
    \<and> (\<forall>f\<in>set (concat l2). \<exists>i a. f \<in> set (fund outs (i, a)) \<and> address_id a (w_db t) = Some i)
    \<and> (\<forall>(x, g)\<in>set groups. \<forall>p\<in>set (account_pairs g). set (fund outs p) \<subseteq> set (concat l2))
    \<and> (\<forall>a\<in>fst ` set outs. \<forall>i. address_id a (w_db u) = None \<and> address_id a (w_db t) = Some i
         \<longrightarrow> set (fund outs (i, a)) \<subseteq> set (concat l2))"
  proof (rule Cons.IH [OF run(4)])
    show "wf u" using st by blast
    show "\<forall>(x, g)\<in>set groups. hd_account x (w_db u) \<noteq> None"
      using Cons.prems(3) st by (auto simp: same_but_accounts_def hd_account_def)
    show "\<forall>(x, g)\<in>set groups. \<forall>(i, a)\<in>set (account_pairs g). address_id a (w_db u) = Some i"
      using Cons.prems(4) keep by fastforce
  qed
  from IH have f1: "\<forall>f\<in>set (concat l2). \<exists>i a. f \<in> set (fund outs (i, a)) \<and> address_id a (w_db t) = Some i"
    by (elim conjE)
  from IH have f2: "\<forall>(x, g)\<in>set groups. \<forall>p\<in>set (account_pairs g). set (fund outs p) \<subseteq> set (concat l2)"
    by (elim conjE)
  from IH have f3: "\<forall>a\<in>fst ` set outs. \<forall>i. address_id a (w_db u) = None \<and> address_id a (w_db t) = Some i
         \<longrightarrow> set (fund outs (i, a)) \<subseteq> set (concat l2)" by (elim conjE)
  have ls: "set (concat ls) = set l1 \<union> set (concat l2)" by (simp add: run(2))
  have same: "same_but_accounts (w_db s) (w_db t)"
    using st IH unfolding same_but_accounts_def by metis
  have l1: "x \<in> set l1 \<longleftrightarrow> (\<exists>p\<in>set (account_pairs g). x \<in> set (fund outs p))
      \<or> (\<exists>i a. a \<in> set used \<and> address_id a (w_db u) = Some i \<and> x \<in> set (fund outs (i, a)))" for x
  proof -
    have pairs: "set (map (\<lambda>r. (a_addrID r, a_addrAddress r)) (getAddresses used (w_db u))) =
        {(i, a). a \<in> set used \<and> address_id a (w_db u) = Some i}"
      using getAddresses_pairs [OF conjunct1 [OF st], of _ _ used] by blast
    show ?thesis unfolding run(3) set_concat set_map [of "fund outs"] set_append pairs by auto
  qed
  have g1: "\<exists>i a. f \<in> set (fund outs (i, a)) \<and> address_id a (w_db t) = Some i" if "f \<in> set (concat ls)" for f
  proof (cases "f \<in> set l1")
    case True
    then consider i a where "(i, a) \<in> set (account_pairs g)" "f \<in> set (fund outs (i, a))"
      | i a where "address_id a (w_db u) = Some i" "f \<in> set (fund outs (i, a))"
      unfolding l1 by auto
    then show ?thesis
    proof cases
      case 1
      then have "address_id a (w_db s) = Some i" using Cons.prems(4) p by fastforce
      then show ?thesis using same 1(2) unfolding same_but_accounts_def by blast
    next
      case 2
      then show ?thesis using IH unfolding same_but_accounts_def by blast
    qed
  next
    case False
    then show ?thesis using that f1 ls by blast
  qed
  have g2: "set (fund outs q) \<subseteq> set (concat ls)" if "(y, k) \<in> set (p # groups)" "q \<in> set (account_pairs k)" for y k q
  proof (cases "(y, k) = (x, g)")
    case True
    then show ?thesis using l1 ls that(2) by blast
  next
    case False
    then have "(y, k) \<in> set groups" using that(1) by (auto simp: p)
    then show ?thesis using f2 ls that(2) by blast
  qed
  have g3: "set (fund outs (i, a)) \<subseteq> set (concat ls)"
    if a: "a \<in> fst ` set outs" "address_id a (w_db s) = None" "address_id a (w_db t) = Some i" for a i
  proof (cases "address_id a (w_db u)")
    case None
    then show ?thesis using f3 a ls by blast
  next
    case (Some j)
    then have "a \<in> set used" using st a by blast
    moreover have "j = i" using Some IH a(3) unfolding same_but_accounts_def by (metis option.inject)
    ultimately show ?thesis using Some l1 ls by blast
  qed
  have "t = s\<lparr>w_db := w_db t\<rparr>"
  proof -
    obtain d e where "t = u\<lparr>w_db := d\<rparr>" "u = s\<lparr>w_db := e\<rparr>" using IH st by (elim conjE) (rule that)
    then show ?thesis by simp
  qed
  moreover have "wf t" using IH by (elim conjE)
  ultimately show ?case using same g1 g2 g3 by (intro conjI) blast+
qed

section \<open>The rows that are inserted\<close>

lemma add_output_new:
  assumes "r \<in> set (rows (outputs (add_output n d)))" "r \<notin> set (rows (outputs d))"
  shows "r = mk_output n (o_outID r)"
  using assms by (auto simp: add_output_def rows_insert mk_output_def split: if_splits)

lemma add_output_mono: "set (rows (outputs d)) \<subseteq> set (rows (outputs (add_output n d)))"
  by (auto simp: add_output_def rows_insert)

lemma add_output_row:
  assumes "has_id t_txnID (no_txnID n) (transactions d)" "has_id a_addrID (no_addrID n) (addresses d)"
  shows "\<exists>r\<in>set (rows (outputs (add_output n d))). output_key r = (no_txnID n, no_addrID n, no_outIndex n)"
proof (cases "find_by output_key (no_txnID n, no_addrID n, no_outIndex n) (rows (outputs d))")
  case None
  then show ?thesis using assms by (auto simp: add_output_def rows_insert mk_output_def)
next
  case (Some r)
  then show ?thesis using assms find_by_SomeD [OF Some] by (auto simp: add_output_def rows_insert)
qed

lemma addOutputs_new:
  "\<lbrakk>r \<in> set (rows (outputs (addOutputs ns d))); r \<notin> set (rows (outputs d))\<rbrakk> \<Longrightarrow> \<exists>n\<in>set ns. r = mk_output n (o_outID r)"
proof (induction ns arbitrary: d)
  case (Cons n ns)
  then show ?case using add_output_new [of r n d] by (fastforce simp: addOutputs_def)
qed (simp add: addOutputs_def)

lemma addOutputs_mono: "set (rows (outputs d)) \<subseteq> set (rows (outputs (addOutputs ns d)))"
proof (induction ns arbitrary: d)
  case (Cons n ns)
  then show ?case using add_output_mono [of d n] by (fastforce simp: addOutputs_def)
qed (simp add: addOutputs_def)

lemma addOutputs_row:
  assumes "n \<in> set ns" "has_id t_txnID (no_txnID n) (transactions d)" "has_id a_addrID (no_addrID n) (addresses d)"
  shows "\<exists>r\<in>set (rows (outputs (addOutputs ns d))). output_key r = (no_txnID n, no_addrID n, no_outIndex n)"
  using assms
proof (induction ns arbitrary: d)
  case (Cons m ns)
  show ?case
  proof (cases "m = n")
    case True
    have "addOutputs (m # ns) d = addOutputs ns (add_output n d)" by (simp add: addOutputs_def True)
    then show ?thesis
      using add_output_row [OF Cons.prems(2,3)] addOutputs_mono [of "add_output n d" ns] by auto
  next
    case False
    then show ?thesis using Cons.IH [of "add_output m d"] Cons.prems by (simp add: addOutputs_def frame)
  qed
qed simp

section \<open>The groups of the accounts\<close>

lemma distinct_by_hd: "distinct (map fst (by_hd (getHDAccountsByAddresses addrs d)))"
proof -
  have "distinct (map fst (by_hd (fold group_row rs res)))" if "distinct (map fst (by_hd res))" for rs res
    using that
  proof (induction rs arbitrary: res)
    case (Cons r rs)
    then have "distinct (map fst (by_hd (group_row r res)))"
      by (auto simp: group_row_def Let_def split: option.splits)
    then show ?case using Cons.IH by simp
  qed simp
  then show ?thesis by (simp add: getHDAccountsByAddresses_def)
qed

lemma account_groups:
  assumes "wf_db d" "(x, g) \<in> set (by_hd (getHDAccountsByAddresses addrs d))"
  shows "hd_account x d \<noteq> None" "\<forall>(i, a)\<in>set (account_pairs g). address_id a d = Some i"
proof -
  let ?res = "getHDAccountsByAddresses addrs d"
  have g: "map_of (by_hd ?res) x = Some g" using distinct_by_hd assms(2) by simp
  note groups = getHDAccountsByAddresses_groups [OF assms(1)]
  show "hd_account x d \<noteq> None" using groups(3) g by blast
  show "\<forall>(i, a)\<in>set (account_pairs g). address_id a d = Some i"
  proof (intro ballI, clarify)
    fix i a assume "(i, a) \<in> set (account_pairs g)"
    then obtain c n where "\<lparr>oa_addrID = i, oa_addrAddress = a, oa_hdAddrChain = c, oa_hdAddrIndex = n\<rparr> \<in> set (group_addresses x ?res)"
      by (auto simp: account_pairs_def group_addresses_def g) (metis owned_address.cases owned_address.select_convs(1,2))
    then show "address_id a d = Some i" unfolding groups(2) by blast
  qed
qed

lemma known_address_groups:
  assumes "wf_db d" "a \<in> set addrs" "a \<notin> set (banned_addresses d)" "address_id a d = Some i"
  defines "res \<equiv> getHDAccountsByAddresses addrs d"
  shows "(i, a) \<in> set (by_loose res) \<or> (\<exists>(x, g)\<in>set (by_hd res). (i, a) \<in> set (account_pairs g))"
proof (cases "\<forall>l\<in>set (rows (hd_addresses d)). ha_addrID l \<noteq> i")
  case True
  then show ?thesis using getHDAccountsByAddresses_groups(1) [OF assms(1)] assms(2-) by simp
next
  case False
  then obtain l where l: "l \<in> set (rows (hd_addresses d))" "ha_addrID l = i" by blast
  obtain h where h: "h \<in> set (rows (hd_accounts d))" "h_hdID h = ha_hdID l"
    using wf_refs(1) [OF assms(1) l(1)] by (auto simp: hd_address_refs_def has_id_def list_ex_iff)
  have "hd_account (h_hdXpub h) d = Some h"
    using h(1) table_find [OF wf_tables(3) [OF assms(1)]] by (simp add: hd_account_def)
  then have "\<lparr>oa_addrID = i, oa_addrAddress = a, oa_hdAddrChain = ha_hdAddrChain l, oa_hdAddrIndex = ha_hdAddrIndex l\<rparr>
      \<in> set (group_addresses (h_hdXpub h) res)"
    unfolding res_def getHDAccountsByAddresses_groups(2) [OF assms(1)] using assms(2-4) l h(2) by metis
  note mem = this
  then obtain g where g: "map_of (by_hd res) (h_hdXpub h) = Some g"
    by (cases "map_of (by_hd res) (h_hdXpub h)") (simp_all add: group_addresses_def)
  have "(oa_addrID o', oa_addrAddress o') \<in> set (account_pairs g)" if "o' \<in> set (group_addresses (h_hdXpub h) res)" for o'
    using that by (simp add: group_addresses_def g account_pairs_def)
  from this [OF mem] have "(i, a) \<in> set (account_pairs g)" by simp
  moreover have "(h_hdXpub h, g) \<in> set (by_hd res)" using g by (rule map_of_SomeD)
  ultimately show ?thesis by blast
qed

section \<open>The outputs that are recorded\<close>

lemma same_but_accounts_known:
  "\<lbrakk>same_but_accounts d e; address_id a d = Some i\<rbrakk> \<Longrightarrow> address_id a e = Some i"
  by (simp add: same_but_accounts_def)

text \<open>The entries that are collected from the loose addresses and from the accounts.\<close>

lemma funded_entries:
  assumes "wf s" and "res = getHDAccountsByAddresses (map fst (indexedOutputs cfg tx)) (w_db s)"
    and "loose = processOutputsLooseAddresses (by_loose res) (indexedOutputs cfg tx)"
    and "processOutputsHdAccounts cfg fuel (by_hd res) (indexedOutputs cfg tx) s = Some (Inr fs, t)"
  shows "wf t" "t = s\<lparr>w_db := w_db t\<rparr>" "same_but_accounts (w_db s) (w_db t)"
    "f \<in> set (loose @ fs) \<Longrightarrow> \<exists>i a. f \<in> set (fund (indexedOutputs cfg tx) (i, a)) \<and> address_id a (w_db t) = Some i"
    "\<lbrakk>pays cfg tx k a; a \<notin> set (banned_addresses (w_db t)); address_id a (w_db t) = Some i\<rbrakk>
       \<Longrightarrow> set (fund (indexedOutputs cfg tx) (i, a)) \<subseteq> set (loose @ fs)"
proof -
  let ?outs = "indexedOutputs cfg tx"
  obtain ls where ls: "mapA (processAccount cfg fuel ?outs) (by_hd res) s = Some (Inr ls, t)" "fs = concat ls"
    using assms(4) by (auto simp: processOutputsHdAccounts_def bindA_Inr)
  have "wf t \<and> t = s\<lparr>w_db := w_db t\<rparr> \<and> same_but_accounts (w_db s) (w_db t)
    \<and> (\<forall>f\<in>set (concat ls). \<exists>i a. f \<in> set (fund ?outs (i, a)) \<and> address_id a (w_db t) = Some i)
    \<and> (\<forall>(x, g)\<in>set (by_hd res). \<forall>p\<in>set (account_pairs g). set (fund ?outs p) \<subseteq> set (concat ls))
    \<and> (\<forall>a\<in>fst ` set ?outs. \<forall>i. address_id a (w_db s) = None \<and> address_id a (w_db t) = Some i
         \<longrightarrow> set (fund ?outs (i, a)) \<subseteq> set (concat ls))"
  proof (rule accounts_loop [OF ls(1) assms(1)])
    show "\<forall>(x, g)\<in>set (by_hd res). hd_account x (w_db s) \<noteq> None"
      using account_groups(1) [OF assms(1)] unfolding assms(2) by blast
    show "\<forall>(x, g)\<in>set (by_hd res). \<forall>(i, a)\<in>set (account_pairs g). address_id a (w_db s) = Some i"
      using account_groups(2) [OF assms(1)] unfolding assms(2) by blast
  qed
  note l = this [folded ls(2)]
  have same: "same_but_accounts (w_db s) (w_db t)" using l by blast
  have lset: "f \<in> set loose \<longleftrightarrow> (\<exists>p\<in>set (by_loose res). f \<in> set (fund ?outs p))" for f
    by (simp add: assms(3) processOutputsLooseAddresses_def)
  note groups = getHDAccountsByAddresses_groups [where addrs = "map fst ?outs", OF assms(1), folded assms(2)]
  have "\<exists>i a. f \<in> set (fund ?outs (i, a)) \<and> address_id a (w_db t) = Some i" if f: "f \<in> set loose" for f
  proof -
    obtain p where "p \<in> set (by_loose res)" "f \<in> set (fund ?outs p)" using f unfolding lset by blast
    then have "(fst p, snd p) \<in> set (by_loose res)" "f \<in> set (fund ?outs (fst p, snd p))" by simp_all
    then show ?thesis using groups(1) same_but_accounts_known [OF same] by blast
  qed
  then show "\<exists>i a. f \<in> set (fund ?outs (i, a)) \<and> address_id a (w_db t) = Some i" if "f \<in> set (loose @ fs)"
    using that l unfolding set_append by blast
  show "set (fund ?outs (i, a)) \<subseteq> set (loose @ fs)"
    if p: "pays cfg tx k a" "a \<notin> set (banned_addresses (w_db t))" "address_id a (w_db t) = Some i"
  proof (cases "address_id a (w_db s)")
    case None
    have "set (fund ?outs (i, a)) \<subseteq> set fs" using l p(3) None pays_outs [OF p(1)] by blast
    then show ?thesis by auto
  next
    case (Some j)
    have "j = i" using same_but_accounts_known [OF same Some] p(3) by simp
    moreover have "a \<notin> set (banned_addresses (w_db s))" using p(2) same by (simp add: same_but_accounts_def)
    ultimately consider "(i, a) \<in> set (by_loose res)"
      | x g where "(x, g) \<in> set (by_hd res)" "(i, a) \<in> set (account_pairs g)"
      using known_address_groups [OF assms(1), of a "map fst ?outs" i] pays_outs [OF p(1)] Some
      unfolding assms(2) by auto
    then show ?thesis
    proof cases
      case 1
      then show ?thesis using lset by auto
    next
      case 2
      then show ?thesis using l by fastforce
    qed
  qed
  show "wf t" "t = s\<lparr>w_db := w_db t\<rparr>" "same_but_accounts (w_db s) (w_db t)" using l by blast+
qed


lemma has_id_tx_keys: "(n, x) \<in> tx_keys d \<Longrightarrow> has_id t_txnID n (transactions d)"
  by (auto simp: tx_keys_def has_id_def list_ex_iff)

lemma has_id_address_id: "address_id a d = Some i \<Longrightarrow> has_id a_addrID i (addresses d)"
  by (auto simp: address_id_def has_id_def list_ex_iff dest: find_by_SomeD)

lemma setBroadcast_eval: "setBroadcast s = Some (Inr (), s\<lparr>w_obj := (w_obj s)\<lparr>doBroadcast := True\<rparr>\<rparr>)"
  by (simp add: setBroadcast_def modify_def)

text \<open>The end of \<open>processOutputs\<close>: the transaction is stored and its outputs are inserted.\<close>

lemma store_outputs:
  assumes "wf u" "obj_ok tx u"
    and "bindA setBroadcast (\<lambda>_. bindA (ensureTransaction now tx) (\<lambda>_. bindA storedId (\<lambda>txnID.
           onDb (addOutputs (map (outputOf txnID) fs))))) u = Some (Inr (), t)"
  obtains n d where "w_db t = addOutputs (map (outputOf n) fs) d" "same_but_transactions (w_db u) d"
    "(n, tx_id tx) \<in> tx_keys d" "doBroadcast (w_obj t)" "wf t"
proof -
  define u1 where "u1 = u\<lparr>w_obj := (w_obj u)\<lparr>doBroadcast := True\<rparr>\<rparr>"
  have u1: "wf u1" "obj_ok tx u1" "w_db u1 = w_db u" "doBroadcast (w_obj u1)"
    using assms(1,2) by (simp_all add: u1_def obj_ok_def)
  obtain n v where v: "ensureTransaction now tx u1 = Some (Inr (), v)" "wf v" "storedTxnID (w_obj v) = Some n"
    "(n, tx_id tx) \<in> tx_keys (w_db v)" "same_but_transactions (w_db u1) (w_db v)"
    "doBroadcast (w_obj v) = doBroadcast (w_obj u1)"
    using ensureTransaction_spec [OF u1(1,2), of now] by (elim exE conjE) (rule that)
  have t: "t = v\<lparr>w_db := addOutputs (map (outputOf n) fs) (w_db v)\<rparr>"
    using assms(3) by (simp add: setBroadcast_eval bindA_def u1_def [symmetric] v(1,3) storedId_def ask_def ret_def onDb_def modify_def)
  show thesis
    by (rule that [of n "w_db v"]) (use v u1 in \<open>auto simp: t intro: wf_addOutputs\<close>)
qed

lemma addOutputs_banned: "banned_addresses (addOutputs ns d) = banned_addresses d"
  unfolding addOutputs_def by (induction ns arbitrary: d) (simp_all add: add_output_def)

definition row_of_funded :: "funded \<Rightarrow> output_row \<Rightarrow> bool" where
  "row_of_funded f r \<longleftrightarrow> o_addrID r = f_addrID f \<and> o_outIndex r = f_outIndex f
     \<and> o_outAmount r = f_outAmount f \<and> o_outScript r = f_outScript f"

lemma store_outputs_rows:
  assumes "wf u" "obj_ok tx u"
    and "bindA setBroadcast (\<lambda>_. bindA (ensureTransaction now tx) (\<lambda>_. bindA storedId (\<lambda>txnID.
           onDb (addOutputs (map (outputOf txnID) fs))))) u = Some (Inr (), t)"
  shows "wf t" "doBroadcast (w_obj t)" "inputs (w_db t) = inputs (w_db u)"
    "banned_addresses (w_db t) = banned_addresses (w_db u)" "\<And>a. address_id a (w_db t) = address_id a (w_db u)"
    "set (rows (outputs (w_db u))) \<subseteq> set (rows (outputs (w_db t)))"
    "\<lbrakk>f \<in> set fs; has_id a_addrID (f_addrID f) (addresses (w_db u))\<rbrakk> \<Longrightarrow>
      \<exists>r\<in>set (rows (outputs (w_db t))). o_outIndex r = f_outIndex f \<and> o_addrID r = f_addrID f
        \<and> (o_txnID r, tx_id tx) \<in> tx_keys (w_db t)"
    "\<lbrakk>r \<in> set (rows (outputs (w_db t))); r \<notin> set (rows (outputs (w_db u)))\<rbrakk> \<Longrightarrow>
      (o_txnID r, tx_id tx) \<in> tx_keys (w_db t) \<and> (\<exists>f\<in>set fs. row_of_funded f r)"
proof -
  obtain n d where d: "w_db t = addOutputs (map (outputOf n) fs) d" "same_but_transactions (w_db u) d"
    "(n, tx_id tx) \<in> tx_keys d" "doBroadcast (w_obj t)" "wf t"
    by (rule store_outputs [OF assms])
  have du: "outputs d = outputs (w_db u)" "inputs d = inputs (w_db u)" "addresses d = addresses (w_db u)"
    "banned_addresses d = banned_addresses (w_db u)"
    using d(2) by (simp_all add: same_but_transactions_def)
  have keys: "(n, tx_id tx) \<in> tx_keys (w_db t)" using d(3) by (simp add: d(1) tx_keys_def frame)
  show "wf t" "doBroadcast (w_obj t)" by (rule d(5), rule d(4))
  show "inputs (w_db t) = inputs (w_db u)" "banned_addresses (w_db t) = banned_addresses (w_db u)"
    "\<And>a. address_id a (w_db t) = address_id a (w_db u)"
    by (simp_all add: d(1) address_id_def frame du addOutputs_banned)
  show "set (rows (outputs (w_db u))) \<subseteq> set (rows (outputs (w_db t)))"
    using addOutputs_mono [of d] unfolding d(1) du(1) .
  show "\<exists>r\<in>set (rows (outputs (w_db t))). o_outIndex r = f_outIndex f \<and> o_addrID r = f_addrID f
        \<and> (o_txnID r, tx_id tx) \<in> tx_keys (w_db t)"
    if f: "f \<in> set fs" "has_id a_addrID (f_addrID f) (addresses (w_db u))"
  proof -
    have mem: "outputOf n f \<in> set (map (outputOf n) fs)" using f(1) by (simp only: set_map imageI)
    have "\<exists>r\<in>set (rows (outputs (w_db t))). output_key r = (n, f_addrID f, f_outIndex f)"
      using addOutputs_row [OF mem, of d] has_id_tx_keys [OF d(3)] f(2) unfolding d(1) du(3) by (simp add: outputOf_def)
    then show ?thesis using keys by auto
  qed
  show "(o_txnID r, tx_id tx) \<in> tx_keys (w_db t) \<and> (\<exists>f\<in>set fs. row_of_funded f r)"
    if r: "r \<in> set (rows (outputs (w_db t)))" "r \<notin> set (rows (outputs (w_db u)))"
  proof -
    obtain f where f: "f \<in> set fs" "r = mk_output (outputOf n f) (o_outID r)"
      using addOutputs_new [of r "map (outputOf n) fs" d] r unfolding d(1) du(1) set_map by blast
    have "row_of_funded f r" "o_txnID r = n"
      by (subst f(2), simp add: mk_output_def outputOf_def row_of_funded_def)+
    then show ?thesis using f(1) keys by blast
  qed
qed

text \<open>The steps of a run of \<open>processOutputs\<close> that returned.\<close>

lemma processOutputs_parts:
  assumes "wf s" and "obj_ok tx s" and "processOutputs now cfg fuel tx s = Some (Inr (), t)"
  obtains fs u where "wf u" "obj_ok tx u" "u = s\<lparr>w_db := w_db u\<rparr>" "same_but_accounts (w_db s) (w_db u)"
    "\<And>f. f \<in> set fs \<Longrightarrow> \<exists>i a. f \<in> set (fund (indexedOutputs cfg tx) (i, a)) \<and> address_id a (w_db u) = Some i"
    "\<And>k a i. \<lbrakk>pays cfg tx k a; a \<notin> set (banned_addresses (w_db u)); address_id a (w_db u) = Some i\<rbrakk>
       \<Longrightarrow> set (fund (indexedOutputs cfg tx) (i, a)) \<subseteq> set fs"
    "(if fs = [] then ret () else bindA setBroadcast (\<lambda>_. bindA (ensureTransaction now tx) (\<lambda>_.
        bindA storedId (\<lambda>txnID. onDb (addOutputs (map (outputOf txnID) fs)))))) u = Some (Inr (), t)"
proof -
  let ?outs = "indexedOutputs cfg tx"
  define res where "res = getHDAccountsByAddresses (map fst ?outs) (w_db s)"
  define loose where "loose = processOutputsLooseAddresses (by_loose res) ?outs"
  obtain fs u where run: "processOutputsHdAccounts cfg fuel (by_hd res) ?outs s = Some (Inr fs, u)"
    "(if loose @ fs = [] then ret () else bindA setBroadcast (\<lambda>_. bindA (ensureTransaction now tx) (\<lambda>_.
        bindA storedId (\<lambda>txnID. onDb (addOutputs (map (outputOf txnID) (loose @ fs))))))) u = Some (Inr (), t)"
    using assms(3) unfolding processOutputs_def Let_def db_call_bind bindA_Inr res_def [symmetric] loose_def [symmetric]
    by blast
  note l = funded_entries [OF assms(1) res_def loose_def run(1)]
  have "w_obj u = w_obj s" by (subst l(2)) simp
  moreover have "tx_keys (w_db u) = tx_keys (w_db s)"
    using l(3) by (simp add: same_but_accounts_def tx_keys_def)
  ultimately have "obj_ok tx u" using assms(2) by (simp add: obj_ok_def)
  then show thesis
    by (intro that [OF l(1) _ l(2,3) _ _ run(2)]) (assumption | rule l(4,5))+
qed

section \<open>Every run returns\<close>

text \<open>An address has one index on each chain of each account.\<close>

definition one_index_each :: "'n tracker \<Rightarrow> bool" where
  "one_index_each cfg \<longleftrightarrow> (\<forall>xpub g. (\<exists>ix. one_index (dvOf cfg xpub g 0) ix) \<and> (\<exists>ix. one_index (dvOf cfg xpub g 1) ix))"

lemma length_js_set: "length (js_set k v m) \<le> Suc (length m)"
  by (induction m) auto

lemma length_indexedOutputs: "length (indexedOutputs cfg tx) \<le> length (tx_outs tx)"
proof -
  have step: "length (indexOutput cfg p m) \<le> Suc (length m)" for p m
    by (simp add: indexOutput_def js_push_def length_js_set split: option.splits)
  have "length (fold (indexOutput cfg) ps m) \<le> length m + length ps" for ps m
  proof (induction ps arbitrary: m)
    case (Cons p ps)
    have "length (fold (indexOutput cfg) (p # ps) m) \<le> length (indexOutput cfg p m) + length ps"
      using Cons.IH by simp
    then show ?case using step [of p m] by simp
  qed simp
  from this [of "enumerate 0 (tx_outs tx)" "[]"] show ?thesis by (simp add: indexedOutputs_def)
qed

lemma returns_setBroadcast [returns_intros]: "returns setBroadcast"
  by (simp add: setBroadcast_def returns_basic)

lemma returns_ensureTransaction [returns_intros]: "returns (ensureTransaction now tx)"
  unfolding ensureTransaction_def by (intro returns_intros)

lemma returns_storedId [returns_intros]: "returns storedId"
  unfolding storedId_def by (intro returns_intros)

lemma returns_processOutputs:
  assumes "one_index_each cfg" "length (tx_outs tx) < fuel"
  shows "returns (processOutputs now cfg fuel tx)"
proof -
  have "returns (deriveNewAddresses cfg fuel xpub g (indexedOutputs cfg tx))" for xpub g
  proof -
    obtain ix0 ix1 where "one_index (dvOf cfg xpub g 0) ix0" "one_index (dvOf cfg xpub g 1) ix1"
      using assms(1) unfolding one_index_each_def by blast
    moreover have "length (indexedOutputs cfg tx) < fuel" using assms(2) length_indexedOutputs [of cfg tx] by simp
    ultimately show ?thesis unfolding returns_def using deriveNewAddresses_returns by fastforce
  qed
  then show ?thesis
    unfolding processOutputs_def processOutputsHdAccounts_def Let_def
    by (intro returns_intros) (auto simp: processAccount_def intro!: returns_intros)
qed

text \<open>An error is one of a derivation, and what came before it only extended accounts.\<close>

lemma deriveLoop_Inl: "deriveLoop fuel dv gap outs i m acc = Some (Inl e) \<Longrightarrow> \<exists>is. dv is = Inl e"
proof (induction fuel arbitrary: i m acc)
  case (Suc fuel)
  then show ?case by (cases "dv (range (i + 1) (m + gap + 1))") (auto simp: Let_def split: if_splits)
qed simp

lemma deriveChain_Inl: "deriveChain cfg fuel xpub g outs d chain acc = Some (Inl e) \<Longrightarrow> \<exists>is. dvOf cfg xpub g chain is = Inl e"
  by (auto simp: deriveChain_def Let_def split: option.splits if_splits dest: deriveLoop_Inl)

lemma deriveNewAddresses_error:
  assumes "wf s" "hd_account xpub (w_db s) = Some h" "deriveNewAddresses cfg fuel xpub g outs s = Some (Inl e, t)"
  shows "\<exists>chain is. dvOf cfg xpub g chain is = Inl e"
proof -
  have "\<exists>d. addAddressesToHDAccount xpub new (w_db s) = Inr d" for new
    using addAddressesToHDAccount_account [OF assms(1,2), of new] by blast
  then have add: "addAddressesToHDAccount xpub new (w_db s) \<noteq> Inl e" for new by (metis sum.distinct(1))
  from assms(3) consider "deriveChain cfg fuel xpub g outs (w_db s) 0 ([], []) = Some (Inl e)"
    | acc where "deriveChain cfg fuel xpub g outs (w_db s) 1 acc = Some (Inl e)"
    unfolding deriveNewAddresses_def
    by (auto simp: bindA_Some tryDb_def tryModify_Some add split: option.splits sum.splits)
  then show ?thesis by cases (blast dest: deriveChain_Inl)+
qed

lemma accounts_error:
  assumes "mapA (processAccount cfg fuel outs) groups s = Some (Inl e, t)"
    and "wf s" and "\<forall>(x, g)\<in>set groups. hd_account x (w_db s) \<noteq> None"
  shows "same_but_accounts (w_db s) (w_db t) \<and> (\<exists>x g chain is. hd_account x (w_db s) \<noteq> None \<and> dvOf cfg x g chain is = Inl e)"
  using assms
proof (induction groups arbitrary: s)
  case (Cons p groups)
  obtain x g where p: "p = (x, g)" by (cases p)
  obtain h where h: "hd_account x (w_db s) = Some h" using Cons.prems(3) p by auto
  from Cons.prems(1) consider (here) "deriveNewAddresses cfg fuel x g outs s = Some (Inl e, t)"
    | (later) used u where "deriveNewAddresses cfg fuel x g outs s = Some (Inr used, u)"
      "mapA (processAccount cfg fuel outs) groups u = Some (Inl e, t)"
    by (auto simp: p processAccount_def bindA_Some)
  then show ?case
  proof cases
    case here
    have "same_but_accounts (w_db s) (w_db t)" using deriveNewAddresses_Inl [OF Cons.prems(2) h here] by (simp add: same_but_accounts_def)
    then show ?thesis using deriveNewAddresses_error [OF Cons.prems(2) h here] h by blast
  next
    case later
    note st = deriveNewAddresses_step [OF Cons.prems(2) h later(1)]
    have known: "hd_account y (w_db u) = hd_account y (w_db s)" for y using st by (auto simp: same_but_accounts_def hd_account_def)
    have "\<forall>(x, g)\<in>set groups. hd_account x (w_db u) \<noteq> None" using Cons.prems(3) by (simp add: known)
    from Cons.IH [OF later(2) _ this] st show ?thesis unfolding known by (auto simp: same_but_accounts_def)
  qed
qed simp

text \<open>Once the accounts are extended, nothing fails.\<close>

lemma store_runs:
  assumes "wf u" and "obj_ok tx u"
  shows "\<exists>t. (if fs = [] then ret () else bindA setBroadcast (\<lambda>_. bindA (ensureTransaction now tx) (\<lambda>_. bindA storedId (\<lambda>txnID.
      onDb (addOutputs (map (outputOf txnID) fs)))))) u = Some (Inr (), t)
    \<and> banned_addresses (w_db t) = banned_addresses (w_db u) \<and> (\<forall>a. address_id a (w_db t) = address_id a (w_db u))"
proof (cases "fs = []")
  case False
  let ?u = "u\<lparr>w_obj := (w_obj u)\<lparr>doBroadcast := True\<rparr>\<rparr>"
  have ok: "wf ?u" "obj_ok tx ?u" using assms by (simp_all add: obj_ok_def)
  obtain n v where "ensureTransaction now tx ?u = Some (Inr (), v)" "storedTxnID (w_obj v) = Some n"
    using ensureTransaction_spec [OF ok, of now] by blast
  then have "bindA setBroadcast (\<lambda>_. bindA (ensureTransaction now tx) (\<lambda>_. bindA storedId (\<lambda>txnID.
      onDb (addOutputs (map (outputOf txnID) fs))))) u = Some (Inr (), v\<lparr>w_db := addOutputs (map (outputOf n) fs) (w_db v)\<rparr>)"
    by (simp add: setBroadcast_eval bindA_def storedId_def ask_def ret_def onDb_def modify_def)
  then show ?thesis using store_outputs_rows(4,5) [OF assms] False by fastforce
qed (simp add: ret_def)

lemma processOutputs_runs:
  assumes "wf s" and "obj_ok tx s" and "res = getHDAccountsByAddresses (map fst (indexedOutputs cfg tx)) (w_db s)"
    and "processOutputsHdAccounts cfg fuel (by_hd res) (indexedOutputs cfg tx) s = Some (Inr fs, u)"
  shows "\<exists>t. processOutputs now cfg fuel tx s = Some (Inr (), t)
    \<and> banned_addresses (w_db t) = banned_addresses (w_db u) \<and> (\<forall>a. address_id a (w_db t) = address_id a (w_db u))"
proof -
  note l = funded_entries [OF assms(1,3) refl assms(4)]
  have "w_obj u = w_obj s" by (subst l(2)) simp
  moreover have "tx_keys (w_db u) = tx_keys (w_db s)" using l(3) by (simp add: same_but_accounts_def tx_keys_def)
  ultimately have "obj_ok tx u" using assms(2) by (simp add: obj_ok_def)
  from store_runs [OF l(1) this, of "processOutputsLooseAddresses (by_loose res) (indexedOutputs cfg tx) @ fs" now]
  show ?thesis unfolding processOutputs_def Let_def db_call_bind bindA_def [of "processOutputsHdAccounts _ _ _ _"]
    assms(3) [symmetric] assms(4) option.case sum.case prod.case .
qed

lemma processOutputs_error:
  assumes "wf s" and "obj_ok tx s" and "processOutputs now cfg fuel tx s = Some (Inl e, t)"
  shows "same_but_accounts (w_db s) (w_db t) \<and> (\<exists>x g chain is. hd_account x (w_db s) \<noteq> None \<and> dvOf cfg x g chain is = Inl e)"
proof -
  let ?outs = "indexedOutputs cfg tx"
  define res where "res = getHDAccountsByAddresses (map fst ?outs) (w_db s)"
  have "processOutputsHdAccounts cfg fuel (by_hd res) ?outs s \<noteq> Some (Inr fs, u)" for fs u
    using processOutputs_runs [OF assms(1,2) res_def, of fuel fs u now] assms(3) by auto
  then have "processOutputsHdAccounts cfg fuel (by_hd res) ?outs s = Some (Inl e, t)"
    using assms(3) unfolding processOutputs_def Let_def db_call_bind bindA_Some res_def [symmetric] by blast
  then have "mapA (processAccount cfg fuel ?outs) (by_hd res) s = Some (Inl e, t)"
    by (auto simp: processOutputsHdAccounts_def bindA_Some)
  then show ?thesis
    using accounts_error [OF _ assms(1)] account_groups(1) [OF assms(1)] unfolding res_def by blast
qed

lemma processOutputs_keeps_tracked:
  assumes "wf s" and "obj_ok tx s" and "processOutputs now cfg fuel tx s = Some (Inr (), t)"
  shows "banned_addresses (w_db t) = banned_addresses (w_db s)"
    "\<And>a i. address_id a (w_db s) = Some i \<Longrightarrow> address_id a (w_db t) = Some i"
proof -
  obtain fs u where u: "wf u" "obj_ok tx u" "same_but_accounts (w_db s) (w_db u)"
    "(if fs = [] then ret () else bindA setBroadcast (\<lambda>_. bindA (ensureTransaction now tx) (\<lambda>_.
        bindA storedId (\<lambda>txnID. onDb (addOutputs (map (outputOf txnID) fs)))))) u = Some (Inr (), t)"
    by (rule processOutputs_parts [OF assms]) (rule that)
  have "banned_addresses (w_db t) = banned_addresses (w_db u) \<and> (\<forall>a. address_id a (w_db t) = address_id a (w_db u))"
  proof (cases "fs = []")
    case False
    then show ?thesis using store_outputs_rows(4,5) [OF u(1,2), of now fs t] u(4) by simp
  qed (use u(4) in simp)
  then show "banned_addresses (w_db t) = banned_addresses (w_db s)"
    "\<And>a i. address_id a (w_db s) = Some i \<Longrightarrow> address_id a (w_db t) = Some i"
    using u(3) by (simp_all add: same_but_accounts_def)
qed

lemma processOutputs_result:
  assumes "wf s" and "obj_ok tx s" and "processOutputs now cfg fuel tx s = Some (Inr (), t)"
  shows "wf t \<and> inputs (w_db t) = inputs (w_db s)
   \<and> set (rows (outputs (w_db s))) \<subseteq> set (rows (outputs (w_db t)))
   \<and> (\<forall>k a i. pays cfg tx k a \<and> a \<notin> set (banned_addresses (w_db t)) \<and> address_id a (w_db t) = Some i \<longrightarrow>
        doBroadcast (w_obj t) \<and> (\<exists>r\<in>set (rows (outputs (w_db t))). o_outIndex r = int k \<and> o_addrID r = i
          \<and> (o_txnID r, tx_id tx) \<in> tx_keys (w_db t)))
   \<and> (\<forall>r\<in>set (rows (outputs (w_db t))) - set (rows (outputs (w_db s))).
        \<exists>k a. pays cfg tx k a \<and> address_id a (w_db t) = Some (o_addrID r) \<and> o_outIndex r = int k
          \<and> o_outAmount r = out_value (tx_outs tx ! k) \<and> o_outScript r = hex_of_bytes (out_script (tx_outs tx ! k))
          \<and> (o_txnID r, tx_id tx) \<in> tx_keys (w_db t))"
proof -
  let ?outs = "indexedOutputs cfg tx"
  obtain fs u where l: "wf u" "obj_ok tx u" "u = s\<lparr>w_db := w_db u\<rparr>" "same_but_accounts (w_db s) (w_db u)"
    "\<And>f. f \<in> set fs \<Longrightarrow> \<exists>i a. f \<in> set (fund ?outs (i, a)) \<and> address_id a (w_db u) = Some i"
    "\<And>k a i. \<lbrakk>pays cfg tx k a; a \<notin> set (banned_addresses (w_db u)); address_id a (w_db u) = Some i\<rbrakk>
       \<Longrightarrow> set (fund ?outs (i, a)) \<subseteq> set fs"
    and run: "(if fs = [] then ret () else bindA setBroadcast (\<lambda>_. bindA (ensureTransaction now tx) (\<lambda>_.
        bindA storedId (\<lambda>txnID. onDb (addOutputs (map (outputOf txnID) fs)))))) u = Some (Inr (), t)"
    by (rule processOutputs_parts [OF assms]) (rule that)
  have io: "outputs (w_db u) = outputs (w_db s)" "inputs (w_db u) = inputs (w_db s)"
    using l(4) by (simp_all add: same_but_accounts_def)
  have paid: "\<exists>f\<in>set (fs). f_outIndex f = int k \<and> f_addrID f = i"
    if p: "pays cfg tx k a" "a \<notin> set (banned_addresses (w_db u))" "address_id a (w_db u) = Some i" for k a i
  proof -
    let ?f = "\<lparr>f_addrID = i, f_outIndex = int k, f_outAmount = out_value (tx_outs tx ! k),
        f_outScript = hex_of_bytes (out_script (tx_outs tx ! k))\<rparr>"
    have "?f \<in> set (fund ?outs (i, a))" unfolding set_fund using p(1) by blast
    then have "?f \<in> set (fs)" using l(6) [OF p] by blast
    then show ?thesis by (rule rev_bexI) simp
  qed
  have origin: "\<exists>k a. pays cfg tx k a \<and> address_id a (w_db u) = Some (o_addrID r) \<and> o_outIndex r = int k
      \<and> o_outAmount r = out_value (tx_outs tx ! k) \<and> o_outScript r = hex_of_bytes (out_script (tx_outs tx ! k))"
    if f: "f \<in> set (fs)" "row_of_funded f r" for f r
  proof -
    obtain i a where "f \<in> set (fund ?outs (i, a))" "address_id a (w_db u) = Some i" using l(5) [OF f(1)] by blast
    then show ?thesis using f(2) unfolding set_fund row_of_funded_def by auto
  qed
  show ?thesis
  proof (cases "fs = []")
    case True
    then have tu: "t = u" using run by simp
    have False if "pays cfg tx k a" "a \<notin> set (banned_addresses (w_db u))" "address_id a (w_db u) = Some i" for k a i
      using paid [OF that] unfolding True by simp
    then show ?thesis using l(1) unfolding tu io(1,2) by (intro conjI) blast+
  next
    case False
    note st = store_outputs_rows [OF l(1,2) run [unfolded if_not_P [OF False]]]
    have "doBroadcast (w_obj t) \<and> (\<exists>r\<in>set (rows (outputs (w_db t))). o_outIndex r = int k \<and> o_addrID r = i
          \<and> (o_txnID r, tx_id tx) \<in> tx_keys (w_db t))"
      if p: "pays cfg tx k a" "a \<notin> set (banned_addresses (w_db u))" "address_id a (w_db u) = Some i" for k a i
      using paid [OF p] st(2,7) has_id_address_id [OF p(3)] by metis
    moreover have "\<exists>k a. pays cfg tx k a \<and> address_id a (w_db t) = Some (o_addrID r) \<and> o_outIndex r = int k
          \<and> o_outAmount r = out_value (tx_outs tx ! k) \<and> o_outScript r = hex_of_bytes (out_script (tx_outs tx ! k))
          \<and> (o_txnID r, tx_id tx) \<in> tx_keys (w_db t)"
      if "r \<in> set (rows (outputs (w_db t)))" "r \<notin> set (rows (outputs (w_db u)))" for r
      using st(8) [OF that] origin unfolding st(5) by metis
    ultimately show ?thesis using st(1,3,6) unfolding st(4,5) io(1,2) by (intro conjI) blast+
  qed
qed

text \<open>
  C3. \<open>processOutputs\<close> returns, with fuel for one more derivation than the transaction has outputs.
  No row that was there is lost. It fails only when a derivation of an account fails: then its error is the one of
  the derivation, and no output is recorded. Otherwise every output of the transaction that pays an address
  tracked by then (and not banned), the addresses it has just derived included, has a row under the
  identifier of the transaction; every row it added is one of the outputs of the transaction, with its index,
  amount, script and tracked address; and if some output is tracked, the transaction will be announced
  to the clients.
\<close>

theorem processOutputs_spec:
  assumes "wf s" and "obj_ok tx s" and "one_index_each cfg" and "length (tx_outs tx) < fuel"
  shows "\<exists>r t. processOutputs now cfg fuel tx s = Some (r, t) \<and> wf t \<and> inputs (w_db t) = inputs (w_db s)
   \<and> set (rows (outputs (w_db s))) \<subseteq> set (rows (outputs (w_db t)))
   \<and> (case r of
        Inl e \<Rightarrow> outputs (w_db t) = outputs (w_db s) \<and> transactions (w_db t) = transactions (w_db s)
          \<and> (\<exists>x g chain is. hd_account x (w_db s) \<noteq> None \<and> dvOf cfg x g chain is = Inl e)
      | Inr _ \<Rightarrow>
          (\<forall>k a i. pays cfg tx k a \<and> a \<notin> set (banned_addresses (w_db t)) \<and> address_id a (w_db t) = Some i \<longrightarrow>
             doBroadcast (w_obj t) \<and> (\<exists>r\<in>set (rows (outputs (w_db t))). o_outIndex r = int k \<and> o_addrID r = i
               \<and> (o_txnID r, tx_id tx) \<in> tx_keys (w_db t)))
          \<and> (\<forall>r\<in>set (rows (outputs (w_db t))) - set (rows (outputs (w_db s))).
               \<exists>k a. pays cfg tx k a \<and> address_id a (w_db t) = Some (o_addrID r) \<and> o_outIndex r = int k
                 \<and> o_outAmount r = out_value (tx_outs tx ! k) \<and> o_outScript r = hex_of_bytes (out_script (tx_outs tx ! k))
                 \<and> (o_txnID r, tx_id tx) \<in> tx_keys (w_db t)))"
proof -
  obtain r t where run: "processOutputs now cfg fuel tx s = Some (r, t)"
    using returnsD [OF returns_processOutputs [OF assms(3,4)]] by blast
  show ?thesis
  proof (cases r)
    case (Inl e)
    have "wf t" using keepsD [OF keeps_wf_processOutputs run] assms(1) by simp
    then show ?thesis
      using run Inl processOutputs_error [OF assms(1,2) run [unfolded Inl]] unfolding same_but_accounts_def
      by (intro exI [of _ r] exI [of _ t]) auto
  next
    case (Inr u)
    have "processOutputs now cfg fuel tx s = Some (Inr (), t)" using run Inr by simp
    from processOutputs_result [OF assms(1,2) this] show ?thesis
      using run Inr by (intro exI [of _ r] exI [of _ t]) simp
  qed
qed

text \<open>A transaction that pays the loose address \<open>b\<close>.\<close>

definition demo_pay :: "int list tracker" where
  "demo_pay = demo_tracker\<lparr>tr_pay := (\<lambda>p s. Inr (Some ''b''))\<rparr>"

definition demo_payment :: btx where
  "demo_payment = \<lparr>tx_id = ''0e'', tx_version = 2, tx_locktime = 0, tx_ins = [],
     tx_outs = [\<lparr>out_script = template P2WPKH (replicate 20 7), out_value = 55\<rparr>]\<rparr>"

lemma demo_payment_address: "outputScript2Address (tr_pay demo_pay) (template P2WPKH (replicate 20 7)) = Some ''b''"
  by (subst outputScript2Address_pays_to [of P2WPKH]) (auto simp: pays_to_def demo_pay_def intro!: exI [of _ "replicate 20 7"])

lemma demo_payment_outs: "map fst (indexedOutputs demo_pay demo_payment) = [''b'']"
  by (simp add: indexedOutputs_def indexOutput_def demo_payment_def demo_payment_address js_push_def del: template.simps)

lemma demo_pay_derive:
  assumes "deriveAddress demo_small c [c] i t = Inr x" "t = BIP44 \<or> t = BIP49 \<or> t = BIP84" "c = 0 \<or> c = 1"
  shows "0 \<le> i \<and> i < 10 \<and> d_index x = i \<and> int (of_char (d_address x ! 2)) - 48 = i"
proof -
  have i: "0 \<le> i \<and> i < 10" and x: "d_index x = i"
    using assms(1) by (auto simp: deriveAddress_def demo_small_def split: if_splits)
  then have "i = 0 \<or> i = 1 \<or> i = 2 \<or> i = 3 \<or> i = 4 \<or> i = 5 \<or> i = 6 \<or> i = 7 \<or> i = 8 \<or> i = 9" by presburger
  then have "int (of_char (d_address x ! 2)) - 48 = i"
    using assms by (elim disjE) (auto simp: deriveAddress_def demo_small_def demo_lib_def hd_types p2pkhAddress_def
      p2wpkhP2shAddress_def p2wpkhAddress_def toLowerCase_def)
  then show ?thesis using i x by blast
qed

lemma demo_one_index_each:
  assumes lib: "tr_lib cfg = demo_small" "\<not> tr_external cfg"
  shows "one_index_each cfg"
proof -
  have "one_index (dvOf cfg xpub g c) (\<lambda>a. int (of_char (a ! 2)) - 48)" if c: "c = 0 \<or> c = 1" for xpub g c
    unfolding one_index_def
  proof (intro allI impI ballI)
    fix ixs ds x assume dv: "dvOf cfg xpub g c ixs = Inr ds" and x: "x \<in> set ds"
    obtain ns t where t: "fresh_node demo_small (Some xpub) = Inr (Some ns)" "ty_type (classify (g_hdType g)) = Some t"
      "derive_all demo_small c (chain_node ns c) ixs t False = Inr ds"
      using dv c by (auto simp: dvOf_def deriveAddresses_def lib demo_small_not_postmix bindE_def split: sum.splits option.splits if_splits)
    have "ns = ([0], [1], [])"
      using fresh_node_Some [OF t(1)] by (auto simp: demo_small_def demo_lib_def)
    then have node: "chain_node ns c = [c]" using c by (auto simp: chain_node_def)
    have "t = BIP44 \<or> t = BIP49 \<or> t = BIP84"
      using t(2) by (auto simp: classify_def hd_types Let_def split: if_splits)
    note d = demo_pay_derive [OF _ this c]
    have "list_all2 (\<lambda>i x. deriveAddress demo_small c [c] i t = Inr x) ixs ds"
      using t(3) unfolding node by (simp add: derive_all_def mapE_Inr_iff list_all2_map1)
    moreover obtain k where "k < length ds" "ds ! k = x" using x by (auto simp: in_set_conv_nth)
    ultimately have "ixs ! k \<in> set ixs" "deriveAddress demo_small c [c] (ixs ! k) t = Inr x"
      by (auto simp: list_all2_conv_all_nth)
    then show "d_index x \<in> set ixs \<and> int (of_char (d_address x ! 2)) - 48 = d_index x" using d by auto
  qed
  then show ?thesis unfolding one_index_each_def by blast
qed

lemma demo_pay_one_index: "one_index_each demo_pay"
  by (rule demo_one_index_each) (simp_all add: demo_pay_def demo_tracker_def)

text \<open>A transaction that pays the address of the account and one that it has yet to derive.\<close>

definition demo_bytes :: "string \<Rightarrow> byte list" where
  "demo_bytes a = map (\<lambda>c. word_of_nat (of_char c)) a @ replicate 17 0"

definition demo_derived :: btx where
  "demo_derived = \<lparr>tx_id = ''0f'', tx_version = 2, tx_locktime = 0, tx_ins = [],
     tx_outs = [\<lparr>out_script = template P2WPKH (demo_bytes ''b00''), out_value = 55\<rparr>,
       \<lparr>out_script = template P2WPKH (demo_bytes ''b02''), out_value = 44\<rparr>]\<rparr>"

lemma demo_derived_address:
  "outputScript2Address (tr_pay demo_tracker) (template P2WPKH (demo_bytes ''b00'')) = Some ''b00''"
  "outputScript2Address (tr_pay demo_tracker) (template P2WPKH (demo_bytes ''b02'')) = Some ''b02''"
proof -
  show "outputScript2Address (tr_pay demo_tracker) (template P2WPKH (demo_bytes ''b00'')) = Some ''b00''"
    by (subst outputScript2Address_pays_to [of P2WPKH])
      (auto simp: pays_to_def demo_tracker_def demo_bytes_def char_of_def bit_0 intro!: exI [of _ "demo_bytes ''b00''"])
  show "outputScript2Address (tr_pay demo_tracker) (template P2WPKH (demo_bytes ''b02'')) = Some ''b02''"
    by (subst outputScript2Address_pays_to [of P2WPKH])
      (auto simp: pays_to_def demo_tracker_def demo_bytes_def char_of_def bit_0 intro!: exI [of _ "demo_bytes ''b02''"])
qed

lemma demo_derived_outs: "map fst (indexedOutputs demo_tracker demo_derived) = [''b00'', ''b02'']"
  by (simp add: indexedOutputs_def indexOutput_def demo_derived_def demo_derived_address js_push_def del: template.simps)

lemma demo_derived_groups:
  "getHDAccountsByAddresses [''b00'', ''b02''] demo_account_db = \<lparr>by_hd = [(demo_zpub, demo_group)], by_loose = []\<rparr>"
  by (simp add: demo_account_db_def demo_db_def getHDAccountsByAddresses_def getUngroupedHDAccountsByAddresses_def
      ownership_rows_def group_row_def demo_group_def)

lemma demo_dv:
  "dvOf demo_tracker demo_zpub demo_group 0 [1, 2] = Inr [\<lparr>d_chain = 0, d_index = 1, d_address = ''b01''\<rparr>, \<lparr>d_chain = 0, d_index = 2, d_address = ''b02''\<rparr>]"
  "dvOf demo_tracker demo_zpub demo_group 0 [3, 4] = Inr [\<lparr>d_chain = 0, d_index = 3, d_address = ''b03''\<rparr>, \<lparr>d_chain = 0, d_index = 4, d_address = ''b04''\<rparr>]"
proof -
  have ty: "ty_type (classify BIP84) = Some BIP84" by (simp add: classify_def hd_types)
  have "dvOf demo_tracker demo_zpub demo_group 0 ixs = derive_all demo_small 0 [0] ixs BIP84 False" for ixs
    by (simp add: dvOf_def deriveAddresses_def demo_tracker_def demo_small_node demo_group_def ty demo_small_not_postmix chain_node_def)
  note dv = this
  show "dvOf demo_tracker demo_zpub demo_group 0 [1, 2] = Inr [\<lparr>d_chain = 0, d_index = 1, d_address = ''b01''\<rparr>, \<lparr>d_chain = 0, d_index = 2, d_address = ''b02''\<rparr>]"
    "dvOf demo_tracker demo_zpub demo_group 0 [3, 4] = Inr [\<lparr>d_chain = 0, d_index = 3, d_address = ''b03''\<rparr>, \<lparr>d_chain = 0, d_index = 4, d_address = ''b04''\<rparr>]"
    unfolding dv by (simp_all add: derive_all_def deriveAddress_def demo_small_def demo_lib_def hd_types p2wpkhAddress_def
      toLowerCase_def char_of_def bit_0)
qed

lemma demo_new_addresses:
  assumes outs: "map fst outs = [''b00'', ''b02'']"
  shows "\<exists>t. deriveNewAddresses demo_tracker 3 demo_zpub demo_group outs (demo_state demo_account_db) = Some (Inr [''b02''], t)
    \<and> address_id ''b02'' (w_db t) \<noteq> None"
proof -
  let ?s = "demo_state demo_account_db"
  have s: "wf ?s" "hd_account demo_zpub (w_db ?s) = Some \<lparr>h_hdID = 1, h_hdXpub = demo_zpub, h_hdCreated = 5, h_hdType = BIP84\<rparr>"
    by (simp_all add: demo_state_def wf_demo_account_db) (simp add: hd_account_def demo_account_db_def)
  have idx: "entry c (getHDAccountDerivedIndices demo_zpub (w_db ?s)) = (if c = 0 then 0 else - 1)"
    "entry 0 (getHDAccountNextUnusedIndices demo_zpub (w_db ?s)) = 0" for c
    by (simp_all add: demo_state_def demo_account_db_def demo_db_def empty_table_def getHDAccountDerivedIndices_def
      getHDAccountNextUnusedIndices_def account_links_def used_links_def chain_max_def max_list_def entry_def)
  have paid: "map_of outs a \<noteq> None \<longleftrightarrow> a = ''b00'' \<or> a = ''b02''" for a
    using arg_cong [OF outs, of set] unfolding map_of_dom by auto
  have ranges: "range 1 3 = [1, 2]" "range 3 5 = [3, 4 :: int]" by (simp_all add: range_def upto.simps)
  let ?new = "[\<lparr>d_chain = 0, d_index = 1, d_address = ''b01''\<rparr>, \<lparr>d_chain = 0, d_index = 2, d_address = ''b02''\<rparr>,
      \<lparr>d_chain = 0, d_index = 3, d_address = ''b03''\<rparr>, \<lparr>d_chain = 0, d_index = 4, d_address = ''b04''\<rparr>]"
  let ?used = "[(''b02'', \<lparr>d_chain = 0, d_index = 2, d_address = ''b02''\<rparr>)]"
  have "deriveLoop 3 (dvOf demo_tracker demo_zpub demo_group 0) 2 outs 0 0 ([], []) = Some (Inr (?new, ?used))"
    unfolding numeral_3_eq_3 by (simp add: ranges demo_dv paid del: not_None_eq)
  then have c0: "deriveChain demo_tracker 3 demo_zpub demo_group outs (w_db ?s) 0 ([], []) = Some (Inr (?new, ?used))"
    by (simp add: deriveChain_def idx gapLimit_def demo_group_def maxBy_def) (simp add: demo_tracker_def)
  have c1: "deriveChain demo_tracker 3 demo_zpub demo_group outs (w_db ?s) 1 acc = Some (Inr acc)" for acc
    by (simp add: deriveChain_def demo_group_def maxBy_def)
  obtain e where e: "addAddressesToHDAccount demo_zpub ?new (w_db ?s) = Inr e"
    "\<forall>a. address_id a e = address_id a (addAddresses (map d_address ?new) (w_db ?s))"
    using addAddressesToHDAccount_account [OF s, of ?new] by (elim exE conjE) (rule that)
  have "address_id ''b02'' e \<noteq> None"
    using e(2) addAddresses_known [OF s(1), of "''b02''" "map d_address ?new"] by simp
  then show ?thesis
    by (simp add: deriveNewAddresses_def c0 c1 bindA_def tryDb_def tryModify_def e(1) ret_def)
qed

lemma demo_derived_runs:
  "\<exists>t. processOutputs 7 demo_tracker 3 demo_derived (demo_state demo_account_db) = Some (Inr (), t)
    \<and> banned_addresses (w_db t) = [] \<and> address_id ''b02'' (w_db t) \<noteq> None"
proof -
  let ?s = "demo_state demo_account_db" and ?outs = "indexedOutputs demo_tracker demo_derived"
  have ok: "wf ?s" "obj_ok demo_derived ?s" "w_db ?s = demo_account_db"
    by (simp_all add: demo_state_def wf_demo_account_db obj_ok_def new_object_def)
  obtain u where u: "deriveNewAddresses demo_tracker 3 demo_zpub demo_group ?outs ?s = Some (Inr [''b02''], u)"
    "address_id ''b02'' (w_db u) \<noteq> None" using demo_new_addresses [OF demo_derived_outs] by blast
  have res: "\<lparr>by_hd = [(demo_zpub, demo_group)], by_loose = []\<rparr> = getHDAccountsByAddresses (map fst ?outs) (w_db ?s)"
    by (simp add: demo_derived_outs demo_derived_groups ok(3))
  obtain fs where run: "processOutputsHdAccounts demo_tracker 3 [(demo_zpub, demo_group)] ?outs ?s = Some (Inr fs, u)"
    by (simp add: processOutputsHdAccounts_def processAccount_def bindA_def u(1) askDb_def ask_def ret_def)
  have "banned_addresses (w_db u) = banned_addresses (w_db ?s)"
    using funded_entries(3) [OF ok(1) res refl] run by (simp add: same_but_accounts_def)
  also have "\<dots> = []" by (simp add: ok(3)) (simp add: demo_account_db_def demo_db_def)
  finally show ?thesis using processOutputs_runs [OF ok(1,2) res, of 3 fs u 7] run u(2) by auto
qed

lemma processOutputs_spec_witness:
  "\<exists>t r. processOutputs 7 demo_tracker 3 demo_derived (demo_state demo_account_db) = Some (Inr (), t)
     \<and> address_id ''b02'' demo_account_db = None \<and> r \<in> set (rows (outputs (w_db t)))
     \<and> address_id ''b02'' (w_db t) = Some (o_addrID r) \<and> o_outIndex r = 1 \<and> o_outAmount r = 44"
proof -
  let ?s = "demo_state demo_account_db"
  have hyp: "wf ?s" "obj_ok demo_derived ?s" "one_index_each demo_tracker" "length (tx_outs demo_derived) < 3"
    by (simp_all add: demo_state_def wf_demo_account_db obj_ok_def new_object_def demo_derived_def)
      (rule demo_one_index_each, simp_all add: demo_tracker_def)
  obtain t i where t: "processOutputs 7 demo_tracker 3 demo_derived ?s = Some (Inr (), t)" "banned_addresses (w_db t) = []"
    "address_id ''b02'' (w_db t) = Some i" using demo_derived_runs by auto
  have none: "rows (outputs (w_db ?s)) = []" "address_id ''b02'' demo_account_db = None"
    by (simp_all add: demo_state_def demo_account_db_def empty_table_def address_id_def)
  have pays: "pays demo_tracker demo_derived k a \<longleftrightarrow> k = 0 \<and> a = ''b00'' \<or> k = 1 \<and> a = ''b02''" for k a
    unfolding pays_def demo_derived_def
    by (cases "k = 0 \<or> k = 1") (auto simp: demo_derived_address less_Suc_eq simp del: template.simps)
  have spec: "(\<forall>k a i. pays demo_tracker demo_derived k a \<and> a \<notin> set (banned_addresses (w_db t)) \<and> address_id a (w_db t) = Some i \<longrightarrow>
        (\<exists>r\<in>set (rows (outputs (w_db t))). o_outIndex r = int k \<and> o_addrID r = i))
      \<and> (\<forall>r\<in>set (rows (outputs (w_db t))) - set (rows (outputs (w_db ?s))). \<exists>k a. pays demo_tracker demo_derived k a
          \<and> o_outIndex r = int k \<and> o_outAmount r = out_value (tx_outs demo_derived ! k))"
    using processOutputs_spec [OF hyp, of 7] t(1) by fastforce
  then obtain r where r: "r \<in> set (rows (outputs (w_db t)))" "o_addrID r = i" "o_outIndex r = int 1"
    using t(2,3) pays [of 1 "''b02''"] by fastforce
  then obtain k a where "pays demo_tracker demo_derived k a" "o_outIndex r = int k" "o_outAmount r = out_value (tx_outs demo_derived ! k)"
    using spec none(1) by auto
  then have "o_outAmount r = 44" using r(3) pays by (auto simp: demo_derived_def)
  then show ?thesis using t(1,3) r none(2) by auto
qed

end
