(* ===== verification/Tracker_Bundle.thy ===== *)
theory Tracker_Bundle
  imports Tracker_Check Util
begin

text \<open>
  \<^verbatim>\<open>tracker/transactions-bundle.ts\<close>: the transactions of a set (a block, the mempool buffer) that
  concern the addresses of the database, found with one query for a slice of the set. A transaction
  of the set goes with its position, which stands for the identity of its object.
\<close>

section \<open>Finding the transactions of interest\<close>

type_synonym bundle_tx = "nat \<times> btx"

type_synonym tx_cache = "string \<rightharpoonup> bool"

text \<open>The transactions seen before, the keys to look up, and the positions for each key.\<close>

record 'k slice_index =
  si_seen :: "bundle_tx list"
  si_keys :: "'k list"
  si_positions :: "('k \<times> nat list) list"

definition indexTx :: "(btx \<Rightarrow> 'k list) \<Rightarrow> tx_cache \<Rightarrow> nat \<times> bundle_tx \<Rightarrow> 'k slice_index \<Rightarrow> 'k slice_index" where
  "indexTx keysOf cache p ix =
     (case cache (tx_id (snd (snd p))) of
        Some interest \<Rightarrow> if interest then ix\<lparr>si_seen := si_seen ix @ [snd p]\<rparr> else ix
      | None \<Rightarrow> fold (\<lambda>k ix. ix\<lparr>si_keys := si_keys ix @ [k], si_positions := js_push k (fst p) (si_positions ix)\<rparr>)
                  (keysOf (snd (snd p))) ix)"

definition indexSlice :: "(btx \<Rightarrow> 'k list) \<Rightarrow> tx_cache \<Rightarrow> bundle_tx list \<Rightarrow> 'k slice_index" where
  "indexSlice keysOf cache txs =
     fold (indexTx keysOf cache) (enumerate 0 txs) \<lparr>si_seen = [], si_keys = [], si_positions = []\<rparr>"

definition push_new :: "'a \<Rightarrow> 'a list \<Rightarrow> 'a list" where
  "push_new x xs = (if x \<in> set xs then xs else xs @ [x])"

definition filteredIndexTxs :: "('k \<times> nat list) list \<Rightarrow> 'k list \<Rightarrow> nat list" where
  "filteredIndexTxs positions found =
     fold (\<lambda>key acc. case map_of positions key of None \<Rightarrow> acc | Some indexTxs \<Rightarrow> fold push_new indexTxs acc) found []"

definition outputAddresses :: "'n tracker \<Rightarrow> btx \<Rightarrow> string list" where
  "outputAddresses cfg tx =
     concat (map (\<lambda>out. case outputScript2Address (tr_pay cfg) (out_script out) of
       None \<Rightarrow> [] | Some address \<Rightarrow> if address = '''' then [] else [address]) (tx_outs tx))"

definition prefilterOutputsSlice :: "'n tracker \<Rightarrow> tx_cache \<Rightarrow> db \<Rightarrow> bundle_tx list \<Rightarrow> bundle_tx list" where
  "prefilterOutputsSlice cfg cache d txs =
     (let ix = indexSlice (outputAddresses cfg) cache txs;
          outRes = getUngroupedHDAccountsByAddresses (si_keys ix) d
      in si_seen ix @ map (\<lambda>x. txs ! x) (filteredIndexTxs (si_positions ix) (map ow_addrAddress outRes)))"

definition prefilterInputsSlice :: "tx_cache \<Rightarrow> db \<Rightarrow> bundle_tx list \<Rightarrow> bundle_tx list option" where
  "prefilterInputsSlice cache d txs =
     (let ix = indexSlice (\<lambda>tx. map spend (tx_ins tx)) cache txs
      in case splitList (si_keys ix) 1000 of
           None \<Rightarrow> None
         | Some slices \<Rightarrow>
             (let inRes = concat (map (\<lambda>list. getOutputSpends list d) slices)
              in Some (si_seen ix @ map (\<lambda>x. txs ! x)
                   (filteredIndexTxs (si_positions ix) (map (\<lambda>r. (sp_txnTxid r, sp_outIndex r)) inRes)))))"

text \<open>The slices of 5000: a list that cannot be split is a loop that does not end.\<close>

definition prefilterByOutputs :: "'n tracker \<Rightarrow> tx_cache \<Rightarrow> db \<Rightarrow> bundle_tx list \<Rightarrow> bundle_tx list option" where
  "prefilterByOutputs cfg cache d batch =
     (case splitList batch 5000 of
        None \<Rightarrow> None
      | Some slices \<Rightarrow> Some (concat (map (prefilterOutputsSlice cfg cache d) slices)))"

definition prefilterByInputs :: "tx_cache \<Rightarrow> db \<Rightarrow> bundle_tx list \<Rightarrow> bundle_tx list option" where
  "prefilterByInputs cache d batch =
     (case splitList batch 5000 of
        None \<Rightarrow> None
      | Some slices \<Rightarrow> map_option concat (those (map (prefilterInputsSlice cache d) slices)))"

section \<open>The index of a slice\<close>

definition uncached :: "tx_cache \<Rightarrow> bundle_tx \<Rightarrow> bool" where
  "uncached cache p \<longleftrightarrow> cache (tx_id (snd p)) = None"

lemma fold_keys:
  "fold (\<lambda>k ix. ix\<lparr>si_keys := si_keys ix @ [k], si_positions := js_push k i (si_positions ix)\<rparr>) ks ix =
     ix\<lparr>si_keys := si_keys ix @ ks, si_positions := fold (\<lambda>k. js_push k i) ks (si_positions ix)\<rparr>"
  by (induction ks arbitrary: ix) simp_all

lemma entries_fold_push:
  "set (js_entries (fold (\<lambda>k. js_push k i) ks m) k') = set (js_entries m k') \<union> (if k' \<in> set ks then {i} else {})"
  by (induction ks arbitrary: m) (auto simp: js_entries_push)

lemma indexTx_parts:
  "si_seen (indexTx keysOf cache p ix) = si_seen ix @ (if cache (tx_id (snd (snd p))) = Some True then [snd p] else [])"
  "set (si_keys (indexTx keysOf cache p ix)) = set (si_keys ix) \<union> (if uncached cache (snd p) then set (keysOf (snd (snd p))) else {})"
  "set (js_entries (si_positions (indexTx keysOf cache p ix)) k) = set (js_entries (si_positions ix) k)
     \<union> (if uncached cache (snd p) \<and> k \<in> set (keysOf (snd (snd p))) then {fst p} else {})"
  by (auto simp: indexTx_def fold_keys uncached_def entries_fold_push split: option.splits)

lemma indexTx_fold:
  "si_seen (fold (indexTx keysOf cache) ps ix) = si_seen ix @ filter (\<lambda>p. cache (tx_id (snd p)) = Some True) (map snd ps)"
  "set (si_keys (fold (indexTx keysOf cache) ps ix)) = set (si_keys ix)
     \<union> (\<Union>p\<in>{p \<in> set ps. uncached cache (snd p)}. set (keysOf (snd (snd p))))"
  "set (js_entries (si_positions (fold (indexTx keysOf cache) ps ix)) k) = set (js_entries (si_positions ix) k)
     \<union> fst ` {p \<in> set ps. uncached cache (snd p) \<and> k \<in> set (keysOf (snd (snd p)))}"
proof (induction ps arbitrary: ix)
  case (Cons p ps)
  {
    case 1
    show ?case unfolding fold_simps Cons.IH indexTx_parts by simp
  next
    case 2
    show ?case unfolding fold_simps Cons.IH indexTx_parts by auto
  next
    case 3
    show ?case unfolding fold_simps Cons.IH indexTx_parts by auto
  }
qed simp_all

lemma indexSlice_parts:
  "si_seen (indexSlice keysOf cache txs) = filter (\<lambda>p. cache (tx_id (snd p)) = Some True) txs"
  "k \<in> set (si_keys (indexSlice keysOf cache txs)) \<longleftrightarrow> (\<exists>p\<in>set txs. uncached cache p \<and> k \<in> set (keysOf (snd p)))"
  "i \<in> set (js_entries (si_positions (indexSlice keysOf cache txs)) k) \<longleftrightarrow>
     i < length txs \<and> uncached cache (txs ! i) \<and> k \<in> set (keysOf (snd (txs ! i)))"
proof -
  have mem: "q \<in> set (enumerate 0 txs) \<longleftrightarrow> fst q < length txs \<and> snd q = txs ! fst q" for q
    by (cases q) (auto simp: in_set_enumerate_eq)
  have ex: "(\<exists>q\<in>set (enumerate 0 txs). P (snd q)) \<longleftrightarrow> (\<exists>p\<in>set txs. P p)" for P
    by (metis (no_types, lifting) image_iff list.set_map map_snd_enumerate)
  show "si_seen (indexSlice keysOf cache txs) = filter (\<lambda>p. cache (tx_id (snd p)) = Some True) txs"
    by (simp add: indexSlice_def indexTx_fold)
  show "k \<in> set (si_keys (indexSlice keysOf cache txs)) \<longleftrightarrow> (\<exists>p\<in>set txs. uncached cache p \<and> k \<in> set (keysOf (snd p)))"
  proof -
    have "k \<in> set (si_keys (indexSlice keysOf cache txs)) \<longleftrightarrow>
        (\<exists>q\<in>set (enumerate 0 txs). uncached cache (snd q) \<and> k \<in> set (keysOf (snd (snd q))))"
      unfolding indexSlice_def indexTx_fold by (simp add: Bex_def conj_assoc)
    then show ?thesis unfolding ex [of "\<lambda>p. uncached cache p \<and> k \<in> set (keysOf (snd p))"] .
  qed
  show "i \<in> set (js_entries (si_positions (indexSlice keysOf cache txs)) k) \<longleftrightarrow>
     i < length txs \<and> uncached cache (txs ! i) \<and> k \<in> set (keysOf (snd (txs ! i)))"
    unfolding indexSlice_def indexTx_fold image_iff Bex_def mem_Collect_eq Un_iff mem
    by (auto simp: js_entries_def)
qed

lemma push_new_fold: "distinct acc \<Longrightarrow> distinct (fold push_new xs acc) \<and> set (fold push_new xs acc) = set acc \<union> set xs"
  by (induction xs arbitrary: acc) (auto simp: push_new_def)

lemma filteredIndexTxs_parts:
  "distinct (filteredIndexTxs positions found)
   \<and> set (filteredIndexTxs positions found) = (\<Union>k\<in>set found. set (js_entries positions k))"
proof -
  let ?f = "\<lambda>key acc. case map_of positions key of None \<Rightarrow> acc | Some indexTxs \<Rightarrow> fold push_new indexTxs acc"
  have "distinct (fold ?f ks acc) \<and> set (fold ?f ks acc) = set acc \<union> (\<Union>k\<in>set ks. set (js_entries positions k))"
    if "distinct acc" for ks acc
    using that
  proof (induction ks arbitrary: acc)
    case (Cons k ks)
    have "distinct (?f k acc)" "set (?f k acc) = set acc \<union> set (js_entries positions k)"
      using push_new_fold [OF Cons.prems] Cons.prems by (simp_all add: js_entries_def split: option.splits)
    then show ?case using Cons.IH [of "?f k acc"] by auto
  qed simp
  from this [of "[]" found] show ?thesis by (simp add: filteredIndexTxs_def)
qed

text \<open>What both filters return: the transactions known to matter and those with a key that is found.\<close>

lemma slice_result:
  fixes keysOf :: "btx \<Rightarrow> 'k list"
  defines "ix \<equiv> \<lambda>cache txs. indexSlice keysOf cache txs"
  assumes "set found = {k \<in> set (si_keys (ix cache txs)). Q k}"
  shows "p \<in> set (si_seen (ix cache txs) @ map (\<lambda>x. txs ! x) (filteredIndexTxs (si_positions (ix cache txs)) found)) \<longleftrightarrow>
    p \<in> set txs \<and> (cache (tx_id (snd p)) = Some True
      \<or> (cache (tx_id (snd p)) = None \<and> (\<exists>k\<in>set (keysOf (snd p)). Q k)))"
proof -
  have "p \<in> (\<lambda>x. txs ! x) ` set (filteredIndexTxs (si_positions (ix cache txs)) found) \<longleftrightarrow>
      p \<in> set txs \<and> uncached cache p \<and> (\<exists>k\<in>set (keysOf (snd p)). Q k)"
  proof -
    let ?pos = "\<lambda>k. set (js_entries (si_positions (ix cache txs)) k)"
    have "p \<in> (\<lambda>x. txs ! x) ` set (filteredIndexTxs (si_positions (ix cache txs)) found)
        \<longleftrightarrow> (\<exists>k i. k \<in> set found \<and> i \<in> ?pos k \<and> p = txs ! i)"
      unfolding conjunct2 [OF filteredIndexTxs_parts] by blast
    also have "\<dots> \<longleftrightarrow> (\<exists>i. i < length txs \<and> p = txs ! i \<and> uncached cache p \<and> (\<exists>k\<in>set (keysOf (snd p)). Q k))"
      unfolding assms(2) ix_def mem_Collect_eq indexSlice_parts by (metis nth_mem)
    also have "\<dots> \<longleftrightarrow> p \<in> set txs \<and> uncached cache p \<and> (\<exists>k\<in>set (keysOf (snd p)). Q k)"
      by (auto simp: in_set_conv_nth)
    finally show ?thesis .
  qed
  then show ?thesis by (auto simp: ix_def indexSlice_parts(1) uncached_def)
qed

lemma slice_distinct:
  assumes "distinct txs"
  shows "distinct (si_seen (indexSlice keysOf cache txs)
    @ map (\<lambda>x. txs ! x) (filteredIndexTxs (si_positions (indexSlice keysOf cache txs)) found))"
proof -
  let ?l = "filteredIndexTxs (si_positions (indexSlice keysOf cache txs)) found"
  have pos: "i < length txs \<and> uncached cache (txs ! i)" if "i \<in> set ?l" for i
    using that unfolding conjunct2 [OF filteredIndexTxs_parts] by (auto simp: indexSlice_parts)
  have "inj_on (\<lambda>x. txs ! x) (set ?l)" using pos assms by (auto simp: inj_on_def nth_eq_iff_index_eq)
  then have "distinct (map (\<lambda>x. txs ! x) ?l)"
    using filteredIndexTxs_parts by (auto simp: distinct_map)
  moreover have "p \<notin> set (si_seen (indexSlice keysOf cache txs))" if "p \<in> set (map (\<lambda>x. txs ! x) ?l)" for p
    using that pos by (auto simp: indexSlice_parts(1) uncached_def)
  ultimately show ?thesis using assms by (auto simp: indexSlice_parts(1))
qed

section \<open>The two filters\<close>

text \<open>What makes a transaction matter, and what is known of it from the cache.\<close>

definition pays_tracked :: "'n tracker \<Rightarrow> db \<Rightarrow> btx \<Rightarrow> bool" where
  "pays_tracked cfg d tx \<longleftrightarrow> (\<exists>k a. pays cfg tx k a \<and> a \<notin> set (banned_addresses d) \<and> address_id a d \<noteq> None)"

definition spends_tracked :: "db \<Rightarrow> btx \<Rightarrow> bool" where
  "spends_tracked d tx \<longleftrightarrow> (\<exists>q\<in>set (rows (outputs d)). spends_output tx d q)"

lemma set_outputAddresses: "a \<in> set (outputAddresses cfg tx) \<longleftrightarrow> (\<exists>k. pays cfg tx k a)"
proof -
  let ?to = "\<lambda>q. outputScript2Address (tr_pay cfg) (out_script q) = Some a \<and> a \<noteq> ''''"
  have one: "a \<in> set (case x of None \<Rightarrow> [] | Some address \<Rightarrow> if address = [] then [] else [address])
      \<longleftrightarrow> x = Some a \<and> a \<noteq> ''''" for x by (cases x) auto
  have "a \<in> set (outputAddresses cfg tx) \<longleftrightarrow> (\<exists>q\<in>set (tx_outs tx). ?to q)"
    unfolding outputAddresses_def set_concat set_map UN_simps UN_iff
    by (rule bex_cong [OF refl]) (simp only: one)
  also have "\<dots> \<longleftrightarrow> (\<exists>k<length (tx_outs tx). ?to (tx_outs tx ! k))" by (metis in_set_conv_nth)
  finally show ?thesis unfolding pays_def by blast
qed

lemma pays_tracked_iff:
  "(\<exists>a\<in>set (outputAddresses cfg tx). a \<notin> set (banned_addresses d) \<and> address_id a d \<noteq> None) \<longleftrightarrow> pays_tracked cfg d tx"
  unfolding Bex_def set_outputAddresses pays_tracked_def by blast

lemma address_id_row:
  assumes "address_id a d = Some i"
  obtains r where "r \<in> set (rows (addresses d))" "a_addrAddress r = a" "a_addrID r = i"
  using assms find_by_SomeD by (fastforce simp: address_id_def)

lemma ungrouped_addresses:
  assumes "wf_db d"
  shows "set (map ow_addrAddress (getUngroupedHDAccountsByAddresses addrs d)) =
    {a \<in> set addrs. a \<notin> set (banned_addresses d) \<and> address_id a d \<noteq> None}"
proof -
  have "\<exists>r. ow_addrAddress r = a \<and> ow_addrID r = i \<and> ownership_ok d r" if a: "address_id a d = Some i" for a i
  proof -
    obtain r where r: "r \<in> set (rows (addresses d))" "a_addrAddress r = a" "a_addrID r = i"
      by (rule address_id_row [OF a])
    have "ownership_rows d r \<noteq> []" by (simp add: ownership_rows_def Let_def)
    then show ?thesis using ownership_rows_iff [OF assms r(1)] r(2,3) by (metis list.set_intros(1) neq_Nil_conv)
  qed
  then show ?thesis unfolding set_map set_eq_iff image_iff Bex_def ungrouped_iff [OF assms] by auto
qed

lemma prefilterOutputsSlice_iff:
  assumes "wf_db d"
  shows "p \<in> set (prefilterOutputsSlice cfg cache d txs) \<longleftrightarrow> p \<in> set txs \<and>
    (cache (tx_id (snd p)) = Some True \<or> (cache (tx_id (snd p)) = None \<and> pays_tracked cfg d (snd p)))"
  unfolding prefilterOutputsSlice_def Let_def slice_result [OF ungrouped_addresses [OF assms]] pays_tracked_iff ..

lemma those_map_Some: "(\<And>x. f x = Some (g x)) \<Longrightarrow> those (map f xs) = Some (map g xs)"
  by (induction xs) simp_all

lemma getOutputSpends_keys:
  assumes "wf_db d"
  shows "k \<in> (\<lambda>r. (sp_txnTxid r, sp_outIndex r)) ` set (getOutputSpends spends d) \<longleftrightarrow>
    k \<in> set spends \<and> (\<exists>q\<in>set (rows (outputs d)). outpoint d q = k)"
proof -
  have "\<exists>r\<in>set (getOutputSpends spends d). (sp_txnTxid r, sp_outIndex r) = outpoint d q"
    if q: "q \<in> set (rows (outputs d))" "outpoint d q \<in> set spends" for q
  proof -
    obtain s where "s \<in> set (spenders d (o_outID q))"
      using spenders_nonempty [of d "o_outID q"] by (cases "spenders d (o_outID q)") auto
    then have "\<lparr>sp_addrAddress = addr_of d q, sp_outID = o_outID q, sp_outAmount = o_outAmount q,
        sp_txnTxid = fst (outpoint d q), sp_outIndex = snd (outpoint d q), sp_spendingTxnID = map_option snd s\<rparr>
      \<in> set (getOutputSpends spends d)"
      unfolding set_getOutputSpends [OF assms] using q by auto
    then show ?thesis by (rule rev_bexI) simp
  qed
  moreover have "\<exists>q\<in>set (rows (outputs d)). outpoint d q = (sp_txnTxid r, sp_outIndex r)"
    "(sp_txnTxid r, sp_outIndex r) \<in> set spends" if "r \<in> set (getOutputSpends spends d)" for r
    using that unfolding set_getOutputSpends [OF assms] by metis+
  ultimately show ?thesis unfolding image_iff by (metis (no_types))
qed

definition inRes_keys :: "db \<Rightarrow> (string \<times> int) list \<Rightarrow> (string \<times> int) list" where
  "inRes_keys d spends = map (\<lambda>r. (sp_txnTxid r, sp_outIndex r)) (concat (map (\<lambda>list. getOutputSpends list d) (chunks 1000 spends)))"

lemma set_inRes_keys:
  assumes "wf_db d"
  shows "set (inRes_keys d spends) = {k \<in> set spends. \<exists>q\<in>set (rows (outputs d)). outpoint d q = k}"
proof -
  have "set (inRes_keys d spends) = (\<Union>c\<in>set (chunks 1000 spends).
      (\<lambda>r. (sp_txnTxid r, sp_outIndex r)) ` set (getOutputSpends c d))"
    by (auto simp: inRes_keys_def)
  also have "\<dots> = {k \<in> (\<Union>c\<in>set (chunks 1000 spends). set c). \<exists>q\<in>set (rows (outputs d)). outpoint d q = k}"
    unfolding set_eq_iff UN_iff getOutputSpends_keys [OF assms] by blast
  finally show ?thesis by (simp add: set_chunks)
qed

definition spend_list :: "btx \<Rightarrow> (string \<times> int) list" where
  "spend_list tx = map spend (tx_ins tx)"

definition inputsSlice :: "tx_cache \<Rightarrow> db \<Rightarrow> bundle_tx list \<Rightarrow> bundle_tx list" where
  "inputsSlice cache d txs =
     si_seen (indexSlice spend_list cache txs) @ map (\<lambda>x. txs ! x)
       (filteredIndexTxs (si_positions (indexSlice spend_list cache txs))
         (inRes_keys d (si_keys (indexSlice spend_list cache txs))))"

lemma prefilterInputsSlice_eq: "prefilterInputsSlice cache d txs = Some (inputsSlice cache d txs)"
  using splitList_chunks [of 1000 "si_keys (indexSlice spend_list cache txs)"]
  by (simp add: prefilterInputsSlice_def inputsSlice_def Let_def inRes_keys_def spend_list_def [abs_def])

lemma inputsSlice_iff:
  assumes "wf_db d"
  shows "p \<in> set (inputsSlice cache d txs) \<longleftrightarrow> p \<in> set txs \<and>
    (cache (tx_id (snd p)) = Some True \<or> (cache (tx_id (snd p)) = None \<and> spends_tracked d (snd p)))"
  unfolding inputsSlice_def slice_result [OF set_inRes_keys [OF assms]] spends_tracked_def spends_output_def
  by (metis (no_types, lifting) spend_list_def)

lemma prefilterByOutputs_eq:
  "prefilterByOutputs cfg cache d batch = Some (concat (map (prefilterOutputsSlice cfg cache d) (chunks 5000 batch)))"
  using splitList_chunks [of 5000 batch] by (simp add: prefilterByOutputs_def)

lemma prefilterByInputs_eq:
  "prefilterByInputs cache d batch = Some (concat (map (inputsSlice cache d) (chunks 5000 batch)))"
  using splitList_chunks [of 5000 batch]
  by (simp add: prefilterByInputs_def those_map_Some [OF prefilterInputsSlice_eq])

lemma concat_slices:
  assumes "\<And>txs p. p \<in> set (f txs) \<longleftrightarrow> p \<in> set txs \<and> Q p"
  shows "p \<in> set (concat (map f (chunks 5000 batch))) \<longleftrightarrow> p \<in> set batch \<and> Q p"
  using set_chunks [of 5000 batch] by (auto simp: assms)

lemma distinct_slices:
  assumes "distinct batch" "\<And>txs. distinct txs \<Longrightarrow> distinct (f txs)" "\<And>txs. set (f txs) \<subseteq> set txs"
  shows "distinct (concat (map f (chunks 5000 batch)))"
proof -
  have "distinct (concat (map f cs)) \<and> set (concat (map f cs)) \<subseteq> set (concat cs)" if "distinct (concat cs)" for cs
    using that
  proof (induction cs)
    case (Cons c cs)
    then show ?case using assms(2) [of c] assms(3) [of c] by auto
  qed simp
  from this [of "chunks 5000 batch"] show ?thesis using assms(1) by simp
qed

text \<open>
  C28. The two filters of a set of transactions always return, keep no transaction twice, and keep
  exactly these: the ones the cache knows to matter, and of those the cache does not know, the ones
  that pay a tracked address that is not banned (by outputs) or spend a recorded output (by
  inputs), whatever the slices of 5000 transactions and 1000 outpoints cut.
\<close>

theorem prefilter_spec:
  assumes "wf_db d" and "distinct batch"
  shows "\<exists>byOutputs byInputs. prefilterByOutputs cfg cache d batch = Some byOutputs
     \<and> prefilterByInputs cache d batch = Some byInputs \<and> distinct byOutputs \<and> distinct byInputs
     \<and> (\<forall>p. p \<in> set byOutputs \<longleftrightarrow> p \<in> set batch \<and> (cache (tx_id (snd p)) = Some True
           \<or> (cache (tx_id (snd p)) = None \<and> pays_tracked cfg d (snd p))))
     \<and> (\<forall>p. p \<in> set byInputs \<longleftrightarrow> p \<in> set batch \<and> (cache (tx_id (snd p)) = Some True
           \<or> (cache (tx_id (snd p)) = None \<and> spends_tracked d (snd p))))"
proof -
  have d1: "distinct (concat (map (prefilterOutputsSlice cfg cache d) (chunks 5000 batch)))"
  proof (rule distinct_slices [OF assms(2)])
    show "set (prefilterOutputsSlice cfg cache d txs) \<subseteq> set txs" for txs
      using prefilterOutputsSlice_iff [OF assms(1)] by blast
    show "distinct txs \<Longrightarrow> distinct (prefilterOutputsSlice cfg cache d txs)" for txs
      unfolding prefilterOutputsSlice_def Let_def by (rule slice_distinct)
  qed
  have d2: "distinct (concat (map (inputsSlice cache d) (chunks 5000 batch)))"
  proof (rule distinct_slices [OF assms(2)])
    show "set (inputsSlice cache d txs) \<subseteq> set txs" for txs
      using inputsSlice_iff [OF assms(1)] by blast
    show "distinct txs \<Longrightarrow> distinct (inputsSlice cache d txs)" for txs
      unfolding inputsSlice_def by (rule slice_distinct)
  qed
  show ?thesis
    by (intro exI conjI allI)
      (rule prefilterByOutputs_eq prefilterByInputs_eq d1 d2 concat_slices [OF prefilterOutputsSlice_iff [OF assms(1)]] concat_slices [OF inputsSlice_iff [OF assms(1)]])+
qed

text \<open>Two transactions: one that pays a tracked address and is not in the cache, one the cache discards.\<close>

lemma prefilter_spec_witness:
  "\<exists>l. prefilterByOutputs demo_pay [''0f'' \<mapsto> False] demo_account_db
       [(0, demo_payment), (1, demo_payment\<lparr>tx_id := ''0f''\<rparr>)] = Some l \<and> set l = {(0, demo_payment)}"
proof -
  let ?b = "[(0, demo_payment), (1, demo_payment\<lparr>tx_id := ''0f''\<rparr>)]"
  let ?c = "[''0f'' \<mapsto> False]"
  have distinct_demo: "distinct ?b" by (simp add: demo_payment_def)
  obtain l where l: "prefilterByOutputs demo_pay ?c demo_account_db ?b = Some l"
    "\<forall>p. p \<in> set l \<longleftrightarrow> p \<in> set ?b \<and> (?c (tx_id (snd p)) = Some True
        \<or> (?c (tx_id (snd p)) = None \<and> pays_tracked demo_pay demo_account_db (snd p)))"
    using prefilter_spec [OF wf_demo_account_db, of ?b demo_pay ?c, OF distinct_demo] by (elim exE conjE) (rule that)
  have "pays_tracked demo_pay demo_account_db demo_payment"
    unfolding pays_tracked_def
    by (intro exI [of _ 0] exI [of _ "''b''"])
      (simp add: pays_def demo_payment_def demo_payment_address demo_account_db_def demo_db_def address_id_def del: template.simps)
  then have "set l = {(0, demo_payment)}"
    unfolding set_eq_iff l(2) [THEN spec] by (auto simp: demo_payment_def)
  then show ?thesis using l(1) by blast
qed

end
