(* ===== verification/Tracker_Block.thy ===== *)
theory Tracker_Block
  imports Tracker_Bundle
begin

text \<open>
  \<^verbatim>\<open>tracker/block.ts\<close>: the transactions of a block that matter are recorded and confirmed by it. The
  objects of the transactions are kept by position; the filters run before their loops, and the
  loops of \<open>asyncPool\<close> run in order, the outputs of the block before its inputs.
\<close>

section \<open>The block\<close>

record block_header =
  header_height :: int
  header_hash :: string
  header_time :: int
  previousblockhash :: string

record bundle_state = tracker_state +
  w_objs :: "nat \<Rightarrow> tx_object"

text \<open>A handler of the transaction at a position runs on the fields of its own object.\<close>

definition onTx :: "nat \<Rightarrow> (tx_state, 'a) act \<Rightarrow> ('s bundle_state_scheme, 'a) act" where
  "onTx i m = (\<lambda>s.
     case m \<lparr>w_db = w_db s, w_cache = w_cache s, w_obj = w_objs s i\<rparr> of
       None \<Rightarrow> None
     | Some (r, t) \<Rightarrow> Some (r, s\<lparr>w_db := w_db t, w_cache := w_cache t, w_objs := (w_objs s)(i := w_obj t)\<rparr>))"

definition processFiltered :: "(btx \<Rightarrow> (tx_state, unit) act) \<Rightarrow> bundle_tx list \<Rightarrow> ('s bundle_state_scheme, btx list) act" where
  "processFiltered handler filteredTxs =
     bindA (mapA (\<lambda>p. bindA (onTx (fst p) (handler (snd p))) (\<lambda>_.
              bindA (ask (\<lambda>s. doBroadcast (w_objs s (fst p)))) (\<lambda>b. ret (if b then [snd p] else [])))) filteredTxs)
       (\<lambda>l. ret (concat l))"

definition blockProcessOutputs :: "int \<Rightarrow> 'n tracker \<Rightarrow> nat \<Rightarrow> bundle_tx list \<Rightarrow> ('s bundle_state_scheme, btx list) act" where
  "blockProcessOutputs now cfg fuel txs =
     bindA (ask (\<lambda>s. prefilterByOutputs cfg (w_cache s) (w_db s) txs)) (\<lambda>filtered. case filtered of
       None \<Rightarrow> unending
     | Some filteredTxs \<Rightarrow> processFiltered (processOutputs now cfg fuel) filteredTxs)"

definition blockProcessInputs :: "int \<Rightarrow> bundle_tx list \<Rightarrow> ('s bundle_state_scheme, btx list) act" where
  "blockProcessInputs now txs =
     bindA (ask (\<lambda>s. prefilterByInputs (w_cache s) (w_db s) txs)) (\<lambda>filtered. case filtered of
       None \<Rightarrow> unending
     | Some filteredTxs \<Rightarrow> processFiltered (processInputs now) filteredTxs)"

text \<open>A block id of zero is as good as none.\<close>

definition registerBlock :: "block_header \<Rightarrow> db \<Rightarrow> (nat \<times> db) result" where
  "registerBlock header d =
     (let previousID = (case getBlockByHash (previousblockhash header) d of
            None \<Rightarrow> None | Some b \<Rightarrow> if b_blockID b = 0 then None else Some (b_blockID b))
      in addBlock \<lparr>nb_blockHash = header_hash header, nb_blockParent = previousID,
           nb_blockHeight = header_height header, nb_blockTime = header_time header\<rparr> d)"

definition blockConfirmTransactions :: "string list \<Rightarrow> nat \<Rightarrow> ('s bundle_state_scheme, unit) act" where
  "blockConfirmTransactions txids blockId =
     (case splitList txids 100 of
        None \<Rightarrow> unending
      | Some txidLists \<Rightarrow> forA (\<lambda>list. tryDb (confirmTransactions list blockId)) txidLists)"

definition processBlock ::
  "int \<Rightarrow> 'n tracker \<Rightarrow> nat \<Rightarrow> block_header \<Rightarrow> bundle_tx list \<Rightarrow> ('s bundle_state_scheme, btx list) act" where
  "processBlock now cfg fuel header txs =
     bindA (blockProcessOutputs now cfg fuel txs) (\<lambda>txsForBroadcast1.
     bindA (blockProcessInputs now txs) (\<lambda>txsForBroadcast2.
       let txsForBroadcast = fold (\<lambda>tx. js_set (tx_id tx) tx) (txsForBroadcast1 @ txsForBroadcast2) []
       in bindA (getDb (registerBlock header)) (\<lambda>blockId.
          bindA (blockConfirmTransactions (map fst txsForBroadcast) blockId) (\<lambda>_.
            ret (map snd txsForBroadcast)))))"

definition checkBlockHeader :: "block_header \<Rightarrow> nat option \<Rightarrow> ('s world_scheme, nat) act" where
  "checkBlockHeader header prevBlockID =
     getDb (addBlock \<lparr>nb_blockHash = header_hash header, nb_blockParent = prevBlockID,
       nb_blockHeight = header_height header, nb_blockTime = header_time header\<rparr>)"

section \<open>Every loop ends\<close>

lemma returns_processInputs [returns_intros]: "returns (processInputs now tx)"
  unfolding processInputs_def Let_def cacheDelete_def by (intro returns_intros)

lemma returns_onTx [returns_intros]: "returns m \<Longrightarrow> returns (onTx i m)"
  by (auto simp: returns_def onTx_def split: option.split)

lemma returns_processFiltered [returns_intros]:
  "(\<And>p. p \<in> set ps \<Longrightarrow> returns (h (snd p))) \<Longrightarrow> returns (processFiltered h ps)"
  unfolding processFiltered_def by (intro returns_intros)

lemma blockProcessInputs_eq:
  "blockProcessInputs now txs s =
     processFiltered (processInputs now) (concat (map (inputsSlice (w_cache s) (w_db s)) (chunks 5000 txs))) s"
  by (simp add: blockProcessInputs_def prefilterByInputs_eq)

lemma blockProcessOutputs_eq:
  "blockProcessOutputs now cfg fuel txs s = processFiltered (processOutputs now cfg fuel)
     (concat (map (prefilterOutputsSlice cfg (w_cache s) (w_db s)) (chunks 5000 txs))) s"
  by (simp add: blockProcessOutputs_def prefilterByOutputs_eq)

lemma slice_subset:
  "set (si_seen (indexSlice keysOf cache txs) @ map (\<lambda>x. txs ! x)
     (filteredIndexTxs (si_positions (indexSlice keysOf cache txs)) found)) \<subseteq> set txs"
  using indexSlice_parts(3) [of _ keysOf cache txs] filteredIndexTxs_parts [of "si_positions (indexSlice keysOf cache txs)" found]
  by (fastforce simp: indexSlice_parts(1))

lemma prefiltered_subset:
  "set (concat (map (prefilterOutputsSlice cfg cache d) (chunks 5000 txs))) \<subseteq> set txs"
  "set (concat (map (inputsSlice cache d) (chunks 5000 txs))) \<subseteq> set txs"
proof -
  have sub: "set (concat (map f (chunks 5000 txs))) \<subseteq> set txs"
    if "\<And>c. set (f c) \<subseteq> set c" for f :: "bundle_tx list \<Rightarrow> bundle_tx list"
    using set_chunks [of 5000 txs] that by fastforce
  show "set (concat (map (prefilterOutputsSlice cfg cache d) (chunks 5000 txs))) \<subseteq> set txs"
    by (rule sub) (simp only: prefilterOutputsSlice_def Let_def slice_subset)
  show "set (concat (map (inputsSlice cache d) (chunks 5000 txs))) \<subseteq> set txs"
    by (rule sub) (simp only: inputsSlice_def slice_subset)
qed

lemma returns_blockConfirm [returns_intros]: "returns (blockConfirmTransactions ids b)"
  using splitList_chunks [of 100 ids] by (auto simp: blockConfirmTransactions_def intro!: returns_intros)

lemma returns_blockProcessOutputs:
  assumes "one_index_each cfg" "\<And>p. p \<in> set txs \<Longrightarrow> length (tx_outs (snd p)) < fuel"
  shows "returns (blockProcessOutputs now cfg fuel txs :: ('s bundle_state_scheme, btx list) act)"
  unfolding returns_def blockProcessOutputs_eq
proof
  fix s :: "'s bundle_state_scheme"
  let ?l = "concat (map (prefilterOutputsSlice cfg (w_cache s) (w_db s)) (chunks 5000 txs))"
  have "returns (processFiltered (processOutputs now cfg fuel) ?l)"
    using prefiltered_subset(1) by (intro returns_processFiltered returns_processOutputs assms) blast
  then show "processFiltered (processOutputs now cfg fuel) ?l s \<noteq> None" unfolding returns_def by blast
qed

lemma returns_blockProcessInputs [returns_intros]: "returns (blockProcessInputs now txs)"
  unfolding returns_def blockProcessInputs_eq
  using returns_processFiltered [of _ "processInputs now"] returns_processInputs unfolding returns_def by metis

lemma returns_processBlock:
  assumes "one_index_each cfg" "\<And>p. p \<in> set txs \<Longrightarrow> length (tx_outs (snd p)) < fuel"
  shows "returns (processBlock now cfg fuel header txs)"
  unfolding processBlock_def Let_def
  by (intro returns_intros returns_blockProcessOutputs assms)

section \<open>What the steps keep\<close>

lemma keeps_wf_onTx [keeps_intros]:
  assumes "keeps wf m"
  shows "keeps wf (onTx i m)"
  unfolding keeps_def onTx_def using keepsD [OF assms] by (fastforce split: option.splits prod.splits)

lemma keeps_wf_processFiltered [keeps_intros]: "(\<And>tx. keeps wf (h tx)) \<Longrightarrow> keeps wf (processFiltered h ps)"
  unfolding processFiltered_def by (intro keeps_intros)

lemma wf_registerBlock [wf_intros]: "\<lbrakk>registerBlock h d = Inr (i, e); wf_db d\<rbrakk> \<Longrightarrow> wf_db e"
  unfolding registerBlock_def Let_def by (rule wf_addBlock)

lemma keeps_wf_processBlock: "keeps wf (processBlock now cfg fuel header txs)"
  unfolding processBlock_def blockProcessOutputs_def blockProcessInputs_def blockConfirmTransactions_def Let_def
  by (intro keeps_intros) (auto intro: wf_registerBlock wf_confirmTransactions)

lemma onTx_Inr:
  "onTx i m s = Some (Inr a, t) \<longleftrightarrow> (\<exists>u. m \<lparr>w_db = w_db s, w_cache = w_cache s, w_obj = w_objs s i\<rparr> = Some (Inr a, u)
     \<and> t = s\<lparr>w_db := w_db u, w_cache := w_cache u, w_objs := (w_objs s)(i := w_obj u)\<rparr>)"
  by (auto simp: onTx_def split: option.splits)

lemma processOutputs_broadcasts:
  assumes "wf s" "obj_ok tx s" "processOutputs now cfg fuel tx s = Some (Inr (), t)" "pays_tracked cfg (w_db s) tx"
  shows "doBroadcast (w_obj t)"
proof -
  obtain k a i where a: "pays cfg tx k a" "a \<notin> set (banned_addresses (w_db s))" "address_id a (w_db s) = Some i"
    using assms(4) by (auto simp: pays_tracked_def)
  obtain fs u where u: "wf u" "obj_ok tx u" "same_but_accounts (w_db s) (w_db u)"
    "\<And>k a i. \<lbrakk>pays cfg tx k a; a \<notin> set (banned_addresses (w_db u)); address_id a (w_db u) = Some i\<rbrakk>
       \<Longrightarrow> set (fund (indexedOutputs cfg tx) (i, a)) \<subseteq> set fs"
    "(if fs = [] then ret () else bindA setBroadcast (\<lambda>_. bindA (ensureTransaction now tx) (\<lambda>_.
        bindA storedId (\<lambda>txnID. onDb (addOutputs (map (outputOf txnID) fs)))))) u = Some (Inr (), t)"
    by (rule processOutputs_parts [OF assms(1-3)]) (rule that)
  have "address_id a (w_db u) = Some i" "a \<notin> set (banned_addresses (w_db u))"
    using u(3) a(2,3) by (simp_all add: same_but_accounts_def)
  then have "set (fund (indexedOutputs cfg tx) (i, a)) \<subseteq> set fs" using u(4) a(1) by blast
  moreover have "\<exists>f. f \<in> set (fund (indexedOutputs cfg tx) (i, a))" unfolding set_fund using a(1) by blast
  ultimately have "fs \<noteq> []" by auto
  from store_outputs_rows(2) [OF u(1,2) u(5) [unfolded if_not_P [OF this]]] show ?thesis .
qed

text \<open>The database before a step of the outputs, and what is tracked after it.\<close>

definition still_tracked :: "db \<Rightarrow> db \<Rightarrow> bool" where
  "still_tracked d e \<longleftrightarrow> banned_addresses e = banned_addresses d
     \<and> (\<forall>a i. address_id a d = Some i \<longrightarrow> address_id a e = Some i)"

lemma still_tracked_pays: "\<lbrakk>still_tracked d e; pays_tracked cfg d tx\<rbrakk> \<Longrightarrow> pays_tracked cfg e tx"
  unfolding pays_tracked_def still_tracked_def by fastforce

lemma outputs_phase:
  assumes run: "processFiltered (processOutputs now cfg fuel) ps s = Some (Inr l, t)"
    and "wf s" "distinct (map fst ps)" "\<forall>p\<in>set ps. \<not> storing (w_objs s (fst p))"
  shows "wf t \<and> set l \<subseteq> snd ` set ps \<and> (\<forall>p\<in>set ps. pays_tracked cfg (w_db s) (snd p) \<longrightarrow> snd p \<in> set l)"
proof -
  define step :: "bundle_tx \<Rightarrow> ('a bundle_state_scheme, btx list) act" where
    "step = (\<lambda>p. bindA (onTx (fst p) (processOutputs now cfg fuel (snd p))) (\<lambda>_.
        bindA (ask (\<lambda>s. doBroadcast (w_objs s (fst p)))) (\<lambda>b. ret (if b then [snd p] else []))))"
  define I where "I pre zs v \<longleftrightarrow> wf v \<and> still_tracked (w_db s) (w_db v) \<and> (\<forall>i. i \<notin> fst ` set pre \<longrightarrow> w_objs v i = w_objs s i)
      \<and> set (concat zs) \<subseteq> snd ` set pre \<and> (\<forall>p\<in>set pre. pays_tracked cfg (w_db s) (snd p) \<longrightarrow> snd p \<in> set (concat zs))"
    for pre :: "bundle_tx list" and zs :: "btx list list" and v :: "'a bundle_state_scheme"
  obtain ls where ls: "mapA step ps s = Some (Inr ls, t)" "l = concat ls"
    using run by (auto simp: processFiltered_def step_def bindA_Inr)
  have "I ps ls t"
  proof (rule mapA_rule [where I = I, OF ls(1)])
    show "I [] [] s" using assms(2) by (simp add: I_def still_tracked_def)
    fix pre zs p v z w
    assume pre: "\<exists>post. ps = pre @ p # post" and I: "I pre zs v" and st: "step p v = Some (Inr z, w)"
    let ?v = "\<lparr>w_db = w_db v, w_cache = w_cache v, w_obj = w_objs v (fst p)\<rparr>"
    obtain u where u: "processOutputs now cfg fuel (snd p) ?v = Some (Inr (), u)"
      "w = v\<lparr>w_db := w_db u, w_cache := w_cache u, w_objs := (w_objs v)(fst p := w_obj u)\<rparr>"
      "z = (if doBroadcast (w_obj u) then [snd p] else [])"
      using st by (auto simp: step_def bindA_Inr onTx_Inr)
    obtain post where "ps = pre @ p # post" using pre by blast
    then have fresh: "fst p \<notin> fst ` set pre" "p \<in> set ps" using assms(3) by (simp_all add: image_iff)
    then have "w_objs v (fst p) = w_objs s (fst p)" using I by (simp add: I_def)
    then have ok: "wf ?v" "obj_ok (snd p) ?v" using I assms(4) fresh(2) by (simp_all add: I_def obj_ok_def)
    have "wf u" using keepsD [OF keeps_wf_processOutputs u(1)] ok(1) by simp
    moreover have tr: "still_tracked (w_db s) (w_db u)"
      using processOutputs_keeps_tracked [OF ok u(1)] I by (simp add: I_def still_tracked_def)
    moreover have "doBroadcast (w_obj u)" if "pays_tracked cfg (w_db s) (snd p)"
      using processOutputs_broadcasts [OF ok u(1)] still_tracked_pays that I by (auto simp: I_def)
    ultimately show "I (pre @ [p]) (zs @ [z]) w" using I by (auto simp: I_def u(2,3))
  qed
  then show ?thesis by (simp add: I_def ls(2))
qed

lemma inputs_phase:
  assumes run: "processFiltered (processInputs now) ps s = Some (Inr l, t)" and "wf s"
  shows "wf t \<and> set l \<subseteq> snd ` set ps"
proof -
  have "wf t" using keepsD [OF keeps_wf_processFiltered run] assms(2) keeps_wf_processInputs by blast
  moreover have "set l \<subseteq> snd ` set ps"
  proof -
    obtain ls where ls: "mapA (\<lambda>p. bindA (onTx (fst p) (processInputs now (snd p))) (\<lambda>_.
        bindA (ask (\<lambda>s. doBroadcast (w_objs s (fst p)))) (\<lambda>b. ret (if b then [snd p] else [])))) ps s = Some (Inr ls, t)"
      and l: "l = concat ls"
      using run by (auto simp: processFiltered_def bindA_Inr)
    show ?thesis unfolding l
      by (rule mapA_rule [where I = "\<lambda>pre zs _. set (concat zs) \<subseteq> snd ` set pre", OF ls])
        (auto simp: bindA_Inr split: if_splits)
  qed
  ultimately show ?thesis ..
qed

section \<open>Confirming the transactions\<close>

lemma confirm_step:
  assumes "confirmTransactions ids b d = Inr e"
  shows "rows (transactions e) = map (\<lambda>r. if t_txnTxid r \<in> set ids then r\<lparr>t_blockID := Some b\<rparr> else r) (rows (transactions d))
     \<and> blocks e = blocks d"
proof (cases "ids = []")
  case True
  then show ?thesis using assms by (simp add: confirmTransactions_def)
next
  case False
  then show ?thesis using assms by (auto simp: confirmTransactions_def set_block_def split: if_splits)
qed

lemma blockConfirm_spec:
  assumes "blockConfirmTransactions ids b s = Some (Inr (), t)"
  shows "rows (transactions (w_db t)) =
      map (\<lambda>r. if t_txnTxid r \<in> set ids then r\<lparr>t_blockID := Some b\<rparr> else r) (rows (transactions (w_db s)))
     \<and> blocks (w_db t) = blocks (w_db s)"
proof -
  have run: "forA (\<lambda>list. tryDb (confirmTransactions list b)) (chunks 100 ids) s = Some (Inr (), t)"
    using assms splitList_chunks [of 100 ids] by (simp add: blockConfirmTransactions_def)
  let ?f = "\<lambda>I r. if t_txnTxid r \<in> I then r\<lparr>t_blockID := Some b\<rparr> else r"
  have "rows (transactions (w_db t)) = map (?f (set (concat (chunks 100 ids)))) (rows (transactions (w_db s)))
     \<and> blocks (w_db t) = blocks (w_db s)"
    by (rule forA_rule [where I = "\<lambda>pre v. rows (transactions (w_db v)) = map (?f (set (concat pre))) (rows (transactions (w_db s)))
          \<and> blocks (w_db v) = blocks (w_db s)", OF run])
      (auto dest!: confirm_step simp: map_idI)
  then show ?thesis by simp
qed

section \<open>A block\<close>

lemma addBlock_row:
  assumes "addBlock n d = Inr (i, e)"
  shows "(\<exists>b. block (nb_blockHash n) e = Some b \<and> b_blockID b = i) \<and> transactions e = transactions d"
proof (cases "block (nb_blockHash n) d")
  case None
  then have "e = d\<lparr>blocks := snd (tbl_add (mk_block n) (blocks d))\<rparr>" "i = next_id (blocks d)"
    using assms by (auto simp: addBlock_def tbl_add_def split: if_splits)
  then show ?thesis using None by (simp add: block_def tbl_add_def find_by_append mk_block_def)
next
  case (Some b)
  then show ?thesis using assms by (simp add: addBlock_def)
qed

lemma registerBlock_row:
  assumes "registerBlock h d = Inr (i, e)"
  shows "(\<exists>b. getBlockByHash (header_hash h) e = Some b \<and> b_blockID b = i) \<and> transactions e = transactions d"
  using addBlock_row [OF assms [unfolded registerBlock_def Let_def]] by (simp add: getBlockByHash_def)

lemma fold_by_id: "fst ` set (fold (\<lambda>tx. js_set (tx_id tx) tx) l m) = fst ` set m \<union> tx_id ` set l"
  by (rule fst_fold_js_set)

lemma fold_by_id_ok:
  fixes l :: "btx list"
  shows "(\<forall>p\<in>set m. fst p = tx_id (snd p)) \<Longrightarrow> \<forall>p\<in>set (fold (\<lambda>tx. js_set (tx_id tx) tx) l m). fst p = tx_id (snd p) \<and> (snd p \<in> set l \<or> p \<in> set m)"
proof (induction l arbitrary: m)
  case (Cons tx l)
  have sub: "set (js_set k v m) \<subseteq> insert (k, v) (set m)" for k :: string and v :: btx and m
    by (induction m) (auto split: if_splits)
  have "fst q = tx_id (snd q)" if "q \<in> set (js_set (tx_id tx) tx m)" for q
    using subsetD [OF sub that] Cons.prems by auto
  then have "\<forall>p\<in>set (fold (\<lambda>tx. js_set (tx_id tx) tx) l (js_set (tx_id tx) tx m)).
      fst p = tx_id (snd p) \<and> (snd p \<in> set l \<or> p \<in> set (js_set (tx_id tx) tx m))"
    using Cons.IH by blast
  then show ?case using subsetD [OF sub] by fastforce
qed simp

lemma distinct_filtered_outputs:
  assumes "wf_db d" "distinct (map fst txs)"
  shows "distinct (map fst (concat (map (prefilterOutputsSlice cfg cache d) (chunks 5000 txs))))" (is "distinct (map fst ?o)")
proof -
  have "distinct ?o"
  proof (rule distinct_slices)
    show "distinct txs" using assms(2) by (simp add: distinct_map)
    show "set (prefilterOutputsSlice cfg cache d c) \<subseteq> set c" for c
      using prefilterOutputsSlice_iff [OF assms(1)] by blast
    show "distinct c \<Longrightarrow> distinct (prefilterOutputsSlice cfg cache d c)" for c
      unfolding prefilterOutputsSlice_def Let_def by (rule slice_distinct)
  qed
  then show ?thesis
    using assms(2) prefiltered_subset(1) [of cfg cache d txs] by (auto simp only: distinct_map intro: inj_on_subset)
qed

text \<open>
  C2. Processing a block always returns or throws. When it does not throw, the database is well
  formed and has the block; the transactions returned are transactions of the block; every
  transaction of the block that the cache does not discard and that pays an address tracked before
  the block is among them; and every recorded transaction among them is confirmed by this block.
\<close>

theorem processBlock_spec:
  assumes "one_index_each cfg" "\<forall>p\<in>set txs. length (tx_outs (snd p)) < fuel"
    and "wf s" "distinct (map fst txs)" "\<forall>i. w_objs s i = new_object"
  shows "\<exists>r t. processBlock now cfg fuel header txs s = Some (r, t) \<and> wf t \<and> (\<forall>result. r = Inr result \<longrightarrow>
     tx_id ` set result \<subseteq> tx_id ` snd ` set txs
   \<and> (\<forall>p\<in>set txs. w_cache s (tx_id (snd p)) \<noteq> Some False \<and> pays_tracked cfg (w_db s) (snd p)
        \<longrightarrow> tx_id (snd p) \<in> tx_id ` set result)
   \<and> (\<exists>b. getBlockByHash (header_hash header) (w_db t) = Some b
        \<and> (\<forall>row\<in>set (rows (transactions (w_db t))). t_txnTxid row \<in> tx_id ` set result \<longrightarrow> t_blockID row = Some (b_blockID b))))"
proof -
  have "\<And>p. p \<in> set txs \<Longrightarrow> length (tx_outs (snd p)) < fuel" using assms(2) by blast
  then obtain r t where run: "processBlock now cfg fuel header txs s = Some (r, t)"
    using returnsD [OF returns_processBlock [OF assms(1)]] by blast
  have wf: "wf t" using keepsD [OF keeps_wf_processBlock run assms(3)] .
  have "tx_id ` set result \<subseteq> tx_id ` snd ` set txs
     \<and> (\<forall>p\<in>set txs. w_cache s (tx_id (snd p)) \<noteq> Some False \<and> pays_tracked cfg (w_db s) (snd p)
          \<longrightarrow> tx_id (snd p) \<in> tx_id ` set result)
     \<and> (\<exists>b. getBlockByHash (header_hash header) (w_db t) = Some b
        \<and> (\<forall>row\<in>set (rows (transactions (w_db t))). t_txnTxid row \<in> tx_id ` set result \<longrightarrow> t_blockID row = Some (b_blockID b)))"
    if r: "r = Inr result" for result
  proof -
    define m where "m l1 l2 = fold (\<lambda>tx. js_set (tx_id tx) tx) (l1 @ l2) ([] :: (string \<times> btx) list)" for l1 l2
    obtain l1 u l2 v d i w where l: "blockProcessOutputs now cfg fuel txs s = Some (Inr l1, u)"
      "blockProcessInputs now txs u = Some (Inr l2, v)" "registerBlock header (w_db v) = Inr (i, d)"
      "blockConfirmTransactions (map fst (m l1 l2)) i (v\<lparr>w_db := d\<rparr>) = Some (Inr (), t)" "result = map snd (m l1 l2)"
      using run unfolding r processBlock_def Let_def m_def [symmetric] bindA_Inr db_call_simps act_simps by auto
    let ?o = "concat (map (prefilterOutputsSlice cfg (w_cache s) (w_db s)) (chunks 5000 txs))"
    have oi: "p \<in> set ?o \<longleftrightarrow> p \<in> set txs \<and> (w_cache s (tx_id (snd p)) = Some True
        \<or> (w_cache s (tx_id (snd p)) = None \<and> pays_tracked cfg (w_db s) (snd p)))" for p
      by (rule concat_slices [OF prefilterOutputsSlice_iff [OF assms(3)]])
    have dist: "distinct (map fst ?o)" by (rule distinct_filtered_outputs [OF assms(3,4)])
    have o: "wf u \<and> set l1 \<subseteq> snd ` set ?o \<and> (\<forall>p\<in>set ?o. pays_tracked cfg (w_db s) (snd p) \<longrightarrow> snd p \<in> set l1)"
      using l(1) assms(3) dist assms(5) unfolding blockProcessOutputs_eq
      by (intro outputs_phase) (auto simp: new_object_def)
    have i: "set l2 \<subseteq> snd ` set txs"
      using inputs_phase [OF l(2) [unfolded blockProcessInputs_eq]] o prefiltered_subset(2) by blast
    have mids: "fst ` set (m l1 l2) = tx_id ` set (l1 @ l2)"
      unfolding m_def fold_by_id by simp
    have mok: "\<forall>p\<in>set (m l1 l2). fst p = tx_id (snd p) \<and> (snd p \<in> set (l1 @ l2) \<or> p \<in> set [])"
      unfolding m_def by (rule fold_by_id_ok) simp
    have ids: "tx_id ` set result = set (map fst (m l1 l2))"
      unfolding l(5) set_map image_image using mok by (intro image_cong) auto
    have sub: "tx_id ` set result \<subseteq> tx_id ` snd ` set txs"
    proof -
      have "set l1 \<subseteq> snd ` set ?o" using o by blast
      also have "\<dots> \<subseteq> snd ` set txs" by (rule image_mono [OF prefiltered_subset(1)])
      finally have "set (l1 @ l2) \<subseteq> snd ` set txs" using i by simp
      then show ?thesis unfolding ids set_map mids by (rule image_mono)
    qed
    have all: "tx_id (snd p) \<in> tx_id ` set result"
      if "p \<in> set txs" "w_cache s (tx_id (snd p)) \<noteq> Some False" "pays_tracked cfg (w_db s) (snd p)" for p
    proof -
      have "p \<in> set ?o" unfolding oi using that by (cases "w_cache s (tx_id (snd p))") auto
      then have "snd p \<in> set (l1 @ l2)" using o that(3) unfolding set_append by blast
      then show ?thesis unfolding ids set_map mids by (rule imageI)
    qed
    obtain b where b: "getBlockByHash (header_hash header) d = Some b" "b_blockID b = i"
      using registerBlock_row [OF l(3)] by blast
    note conf = blockConfirm_spec [OF l(4)]
    have "getBlockByHash (header_hash header) (w_db t) = Some b"
      using conf b(1) by (simp add: getBlockByHash_def block_def)
    moreover have "t_blockID row = Some (b_blockID b)"
      if "row \<in> set (rows (transactions (w_db t)))" "t_txnTxid row \<in> tx_id ` set result" for row
      using that conf unfolding ids b(2) by (auto split: if_splits)
    ultimately show ?thesis using sub all by blast
  qed
  then show ?thesis using run wf by blast
qed

text \<open>A third block with the payment to \<open>b\<close>.\<close>

definition demo_block_state :: "bundle_state" where
  "demo_block_state = \<lparr>w_db = demo_account_db, w_cache = (\<lambda>_. None), w_objs = (\<lambda>_. new_object)\<rparr>"

definition demo_header :: block_header where
  "demo_header = \<lparr>header_height = 3, header_hash = ''B3'', header_time = 30, previousblockhash = ''B2''\<rparr>"

lemma processBlock_spec_witness:
  "\<exists>r t. processBlock 7 demo_pay 2 demo_header [(0, demo_payment)] demo_block_state = Some (r, t) \<and> wf t
     \<and> (\<forall>result. r = Inr result \<longrightarrow> ''0e'' \<in> tx_id ` set result)"
proof -
  have hyp: "\<forall>p\<in>set [(0, demo_payment)]. length (tx_outs (snd p)) < 2" "wf demo_block_state"
    "distinct (map fst [(0::nat, demo_payment)])" "\<forall>i. w_objs demo_block_state i = new_object"
    by (simp_all add: demo_payment_def demo_block_state_def wf_demo_account_db)
  have "pays_tracked demo_pay (w_db demo_block_state) demo_payment"
    unfolding pays_tracked_def
    by (intro exI [of _ 0] exI [of _ "''b''"])
      (simp add: pays_def demo_payment_def demo_payment_address demo_account_db_def demo_db_def address_id_def
        demo_block_state_def del: template.simps)
  moreover have "w_cache demo_block_state x \<noteq> Some False" "tx_id demo_payment = ''0e''" for x
    by (simp_all add: demo_block_state_def demo_payment_def)
  ultimately show ?thesis
    using processBlock_spec [OF demo_pay_one_index hyp, of 7 demo_header] by (elim exE conjE) fastforce
qed

end
