(* ===== verification/Blockchain.thy ===== *)
theory Blockchain
  imports Tracker_Block
begin

text \<open>
  \<^verbatim>\<open>tracker/blockchain-processor.ts\<close>: the database follows the chain of the node. The node is a
  parameter, whose answers do not change while a handler runs (the answers of \<open>getblockchaininfo\<close>
  are numbered). The semaphore of \<open>onBlockHash\<close> makes its calls follow one another; a queue treats its
  items in order, one at a time, and an error of its function, which nothing handles, ends the
  process like \<open>process.exit()\<close>. Delays and logs are left out.
\<close>

section \<open>The node\<close>

record rpc_header =
  rh_hash :: string
  rh_height :: int
  rh_time :: int
  rh_prev :: "string option"

record rpc_block =
  rb_id :: string
  rb_timestamp :: int
  rb_prevHash :: "byte list"
  rb_transactions :: "btx list"

record blockchain_info =
  info_blocks :: int
  info_headers :: int

record node =
  getblockheader :: "string \<Rightarrow> rpc_header result"
  getblockhash :: "int \<Rightarrow> string result"
  getblock :: "string \<Rightarrow> rpc_block result"
  getblockchaininfo :: "nat \<Rightarrow> blockchain_info result"

datatype notification =
    TransactionMessage string
  | BlockMessage int string

record chain_state = tracker_state +
  w_ibd :: bool
  w_sent :: "notification list"
  w_calls :: nat

section \<open>Blocks\<close>

text \<open>A failure the code ends the process for.\<close>

definition orExit :: "('s, 'a) act \<Rightarrow> ('s, 'a) act" where
  "orExit m = catchA m (\<lambda>e. throw Exit)"

definition fetchBlock :: "node \<Rightarrow> int \<Rightarrow> (block_header \<times> btx list) result" where
  "fetchBlock node height =
     bindE (getblockhash node height) (\<lambda>hash.
     bindE (getblock node hash) (\<lambda>b.
       Inr (\<lparr>header_height = height, header_hash = rb_id b, header_time = rb_timestamp b,
             previousblockhash = hex_of_bytes (rev (rb_prevHash b))\<rparr>, rb_transactions b)))"

text \<open>A new object for the block and for each of its transactions.\<close>

definition runBlock ::
  "int \<Rightarrow> 'n tracker \<Rightarrow> nat \<Rightarrow> block_header \<times> btx list \<Rightarrow> ('s chain_state_scheme, btx list) act" where
  "runBlock now cfg fuel blk = (\<lambda>s.
     case processBlock now cfg fuel (fst blk) (enumerate 0 (snd blk))
         \<lparr>w_db = w_db s, w_cache = w_cache s, w_objs = (\<lambda>_. new_object)\<rparr> of
       None \<Rightarrow> None
     | Some (r, t) \<Rightarrow> Some (r, s\<lparr>w_db := w_db t, w_cache := w_cache t\<rparr>))"

definition notify :: "notification list \<Rightarrow> ('s chain_state_scheme, unit) act" where
  "notify ms = modify (\<lambda>s. s\<lparr>w_sent := w_sent s @ ms\<rparr>)"

definition processQueuedBlock ::
  "int \<Rightarrow> 'n tracker \<Rightarrow> nat \<Rightarrow> block_header \<times> btx list \<Rightarrow> ('s chain_state_scheme, unit) act" where
  "processQueuedBlock now cfg fuel blk =
     orExit (bindA (runBlock now cfg fuel blk) (\<lambda>txsForBroadcast.
       notify (map (\<lambda>tx. TransactionMessage (tx_id tx)) txsForBroadcast
         @ [BlockMessage (header_height (fst blk)) (header_hash (fst blk))])))"

definition processBlockRange :: "int \<Rightarrow> 'n tracker \<Rightarrow> nat \<Rightarrow> node \<Rightarrow> int list \<Rightarrow> ('s chain_state_scheme, unit) act" where
  "processBlockRange now cfg fuel node heights =
     (case splitList heights 10 of
        None \<Rightarrow> unending
      | Some blockRangeChunks \<Rightarrow>
          forA (\<lambda>blockRangeChunk.
            bindA (orExit (lift (mapE (fetchBlock node) blockRangeChunk))) (\<lambda>blocks.
              forA (processQueuedBlock now cfg fuel) blocks)) blockRangeChunks)"

section \<open>A new block\<close>

fun chainBacktrace :: "nat \<Rightarrow> node \<Rightarrow> rpc_header list \<Rightarrow> ('s chain_state_scheme, rpc_header list) act" where
  "chainBacktrace 0 node headers = unending"
| "chainBacktrace (Suc n) node headers =
     (case rh_prev (last headers) of
        None \<Rightarrow> ret headers
      | Some previous \<Rightarrow>
          if previous = '''' then ret headers
          else bindA (askDb (getBlockByHash previous)) (\<lambda>blk. case blk of
                 None \<Rightarrow> bindA (lift (getblockheader node previous)) (\<lambda>header.
                           chainBacktrace n node (headers @ [header]))
               | Some _ \<Rightarrow> ret headers))"

definition rewind :: "int \<Rightarrow> ('s chain_state_scheme, unit) act" where
  "rewind height =
     bindA (askDb (getTransactionIdsConfirmedAfterHeight height)) (\<lambda>txids.
     bindA (if txids = [] then ret ()
            else (case splitList txids 1000 of
                    None \<Rightarrow> unending
                  | Some txidsPool \<Rightarrow> forA (\<lambda>txidList. onDb (unconfirmTransactions txidList)) txidsPool)) (\<lambda>_.
       onDb (deleteBlocksAfterHeight height)))"

definition onBlockHash ::
  "nat \<Rightarrow> int \<Rightarrow> 'n tracker \<Rightarrow> nat \<Rightarrow> node \<Rightarrow> string \<Rightarrow> ('s chain_state_scheme, unit) act" where
  "onBlockHash depth now cfg fuel node blockHash =
     catchLog
       (bindA (catchLog (bindA (lift (getblockheader node blockHash)) (\<lambda>header.
                 bindA (chainBacktrace depth node [header]) (\<lambda>headers. ret (Some headers)))) None)
          (\<lambda>headers. case headers of
             None \<Rightarrow> ret ()
           | Some headers \<Rightarrow>
               (let headers = rev headers;
                    knownHeight = rh_height (hd headers) - 1
                in bindA (rewind knownHeight) (\<lambda>_.
                     processBlockRange now cfg fuel node (map rh_height headers))))) ()"

definition rescanBlocks ::
  "int \<Rightarrow> 'n tracker \<Rightarrow> nat \<Rightarrow> node \<Rightarrow> int \<Rightarrow> int option \<Rightarrow> ('s chain_state_scheme, unit) act" where
  "rescanBlocks now cfg fuel node fromHeight toHeight =
     bindA (askDb getHighestBlock) (\<lambda>highest.
       let toHeight = min (case toHeight of None \<Rightarrow> fromHeight | Some h \<Rightarrow> h) (snd highest)
       in processBlockRange now cfg fuel node (range fromHeight (toHeight + 1)))"

section \<open>Start of the tracker\<close>

definition blockchainInfo :: "node \<Rightarrow> ('s chain_state_scheme, blockchain_info) act" where
  "blockchainInfo node =
     bindA (ask w_calls) (\<lambda>k. bindA (modify (\<lambda>s. s\<lparr>w_calls := k + 1\<rparr>)) (\<lambda>_. lift (getblockchaininfo node k)))"

definition fetchHeader :: "node \<Rightarrow> int \<Rightarrow> rpc_header result" where
  "fetchHeader node height = bindE (getblockhash node height) (getblockheader node)"

definition header_of :: "rpc_header \<Rightarrow> block_header" where
  "header_of h = \<lparr>header_height = rh_height h, header_hash = rh_hash h, header_time = rh_time h,
     previousblockhash = (case rh_prev h of None \<Rightarrow> '''' | Some p \<Rightarrow> p)\<rparr>"

definition processBlockHeader :: "rpc_header \<Rightarrow> nat option \<Rightarrow> ('s chain_state_scheme, nat) act" where
  "processBlockHeader header prevBlockID = checkBlockHeader (header_of header) prevBlockID"

text \<open>The queue of headers: \<open>previousBlockId\<close> goes from one to the next.\<close>

fun processHeaders :: "nat option \<Rightarrow> rpc_header list \<Rightarrow> ('s chain_state_scheme, nat option) act" where
  "processHeaders previousBlockId [] = ret previousBlockId"
| "processHeaders previousBlockId (header # headers) =
     bindA (orExit (processBlockHeader header previousBlockId)) (\<lambda>blockId. processHeaders (Some blockId) headers)"

fun importHeaders :: "node \<Rightarrow> nat option \<Rightarrow> int list list \<Rightarrow> ('s chain_state_scheme, nat option) act" where
  "importHeaders node previousBlockId [] = ret previousBlockId"
| "importHeaders node previousBlockId (chunk # rest) =
     bindA (orExit (lift (mapE (fetchHeader node) chunk))) (\<lambda>headers.
     bindA (processHeaders previousBlockId headers) (\<lambda>previousBlockId.
       importHeaders node previousBlockId rest))"

fun catchupIBDMode :: "nat \<Rightarrow> node \<Rightarrow> ('s chain_state_scheme, unit) act" where
  "catchupIBDMode 0 node = unending"
| "catchupIBDMode (Suc n) node =
     bindA (askDb getHighestBlock) (\<lambda>highest.
     bindA (blockchainInfo node) (\<lambda>info.
       let daemonNbBlocks = info_blocks info; daemonNbHeaders = info_headers info; dbMaxHeight = snd highest
       in if daemonNbHeaders = 0 \<or> daemonNbBlocks = 0 then catchupIBDMode n node
          else if daemonNbHeaders - 1 > dbMaxHeight
            then (if daemonNbBlocks - 1 \<le> dbMaxHeight then catchupIBDMode n node
                  else (case splitList (range (dbMaxHeight + 1) (daemonNbBlocks + 1)) 40 of
                          None \<Rightarrow> unending
                        | Some blockRangeChunks \<Rightarrow>
                            bindA (importHeaders node (fst highest) blockRangeChunks) (\<lambda>_. catchupIBDMode n node)))
            else modify (\<lambda>s. s\<lparr>w_ibd := False\<rparr>)))"

definition catchupNormalMode :: "int \<Rightarrow> 'n tracker \<Rightarrow> nat \<Rightarrow> node \<Rightarrow> ('s chain_state_scheme, unit) act" where
  "catchupNormalMode now cfg fuel node =
     catchLog (bindA (askDb getHighestBlock) (\<lambda>highest.
       bindA (blockchainInfo node) (\<lambda>info.
         if info_blocks info = snd highest then ret ()
         else orExit (processBlockRange now cfg fuel node (range (snd highest) (info_blocks info + 1)))))) ()"

text \<open>An error before the choice of the mode starts over; the mode is not awaited inside the \<open>try\<close>.\<close>

fun catchup :: "nat \<Rightarrow> int \<Rightarrow> 'n tracker \<Rightarrow> nat \<Rightarrow> int \<Rightarrow> node \<Rightarrow> ('s chain_state_scheme, unit) act" where
  "catchup 0 now cfg fuel ibdBlockHeight node = unending"
| "catchup (Suc n) now cfg fuel ibdBlockHeight node = (\<lambda>s.
     case bindA (askDb getHighestBlock) (\<lambda>highest. bindA (blockchainInfo node) (\<lambda>info. ret (highest, info))) s of
       None \<Rightarrow> None
     | Some (Inl e, t) \<Rightarrow> catchup n now cfg fuel ibdBlockHeight node t
     | Some (Inr (highest, info), t) \<Rightarrow>
         (let ibd = (snd highest < ibdBlockHeight \<or> snd highest < info_headers info - 13000)
          in bindA (modify (\<lambda>s. s\<lparr>w_ibd := ibd\<rparr>)) (\<lambda>_.
               if ibd then catchupIBDMode n node else catchupNormalMode now cfg fuel node) t))"

section \<open>The blocks of the database\<close>

definition block_keys :: "db \<Rightarrow> (string \<times> int) set" where
  "block_keys d = (\<lambda>b. (b_blockHash b, b_blockHeight b)) ` set (rows (blocks d))"

lemma block_keys_cong: "blocks e = blocks d \<Longrightarrow> block_keys e = block_keys d"
  by (simp add: block_keys_def)

lemma block_keys_cascade: "block_keys (cascade d) = block_keys d"
  by (simp add: block_keys_def cascade_def Let_def image_image)

lemma block_keys_addInputs: "addInputs ins d = Inr e \<Longrightarrow> block_keys e = block_keys d"
proof (induction ins arbitrary: d)
  case (Cons n ins)
  then obtain e' where "add_input d n = Inr e'" "addInputs ins e' = Inr e"
    by (auto simp: addInputs_def split: sum.splits)
  moreover have "block_keys e' = block_keys d"
    using calculation(1) by (auto simp: add_input_def block_keys_def split: if_splits option.splits prod.splits)
  ultimately show ?case using Cons.IH by simp
qed (simp add: addInputs_def)

lemma block_keys_addAddressesToHDAccount:
  assumes "addAddressesToHDAccount xpub l d = Inr e"
  shows "block_keys e = block_keys d"
proof -
  have "blocks (fold (add_link h m) l d) = blocks d" for h m d
    by (induction l arbitrary: d) (simp_all add: frame)
  then show ?thesis using assms
    by (auto simp: addAddressesToHDAccount_def Let_def bindE_Inr_iff frame block_keys_def split: if_splits)
qed

lemma block_keys_ensureTransactionId: "block_keys (snd (ensureTransactionId now txid d)) = block_keys d"
  by (rule block_keys_cong) (simp add: ensureTransactionId_db)

lemma block_keys_addTransaction: "block_keys (addTransaction now tx d) = block_keys d"
  by (rule block_keys_cong) (simp add: addTransaction_def split: option.split prod.split)

lemma block_keys_addOutputs: "block_keys (addOutputs outs d) = block_keys d"
  by (rule block_keys_cong) (simp add: frame)

lemma block_keys_deleteTransactionsByID: "block_keys (deleteTransactionsByID ids d) = block_keys d"
  by (simp add: deleteTransactionsByID_def delete_transactions_def block_keys_cascade) (simp add: block_keys_def)

lemma block_keys_unconfirmTransactions: "block_keys (unconfirmTransactions txids d) = block_keys d"
  by (rule block_keys_cong) (simp add: unconfirmTransactions_def set_block_def)

lemmas block_keys_ops = block_keys_ensureTransactionId block_keys_addTransaction block_keys_addOutputs
  block_keys_deleteTransactionsByID block_keys_unconfirmTransactions

abbreviation has_blocks :: "(string \<times> int) set \<Rightarrow> 's world_scheme \<Rightarrow> bool" where
  "has_blocks B s \<equiv> block_keys (w_db s) = B"

lemma keeps_blocks_calls [keeps_intros]:
  "(\<And>d. block_keys (g d) = block_keys d) \<Longrightarrow> keeps (has_blocks B) (onDb g)"
  "(\<And>d e. k d = Inr e \<Longrightarrow> block_keys e = block_keys d) \<Longrightarrow> keeps (has_blocks B) (tryDb k)"
  "(\<And>d. block_keys (snd (h d)) = block_keys d) \<Longrightarrow> keeps (has_blocks B) (callDb h)"
  by (auto simp: keeps_def onDb_def tryDb_def callDb_def modify_def tryModify_Some split: sum.splits)

lemma keeps_blocks_obj [keeps_intros]:
  "keeps (has_blocks B) (modify (\<lambda>s. s\<lparr>w_obj := f s\<rparr>))" "keeps (has_blocks B) (modify (\<lambda>s. s\<lparr>w_cache := g s\<rparr>))"
  by (auto intro: keeps_modify)

lemma keeps_blocks_ensureTransaction [keeps_intros]: "keeps (has_blocks B) (ensureTransaction now tx)"
  unfolding ensureTransaction_def by (intro keeps_intros block_keys_ops)

lemma keeps_blocks_processInputs [keeps_intros]: "keeps (has_blocks B) (processInputs now tx)"
  unfolding processInputs_def setBroadcast_def storedId_def cacheDelete_def Let_def
  by (intro keeps_intros block_keys_ops) (rule block_keys_addInputs)

lemma keeps_blocks_processAccount [keeps_intros]: "keeps (has_blocks B) (processAccount cfg fuel outs p)"
proof -
  have k: "keeps (has_blocks B) (bindA (tryDb (addAddressesToHDAccount xpub news)) (\<lambda>_. ret used))" for xpub news used
    by (intro keeps_intros) (rule block_keys_addAddressesToHDAccount)
  have "keeps (has_blocks B) (deriveNewAddresses cfg fuel xpub g outs)" for xpub g
    unfolding keeps_def deriveNewAddresses_def
    by (auto split: option.splits sum.splits prod.splits dest: keepsD [OF k])
  then show ?thesis unfolding processAccount_def by (cases p) (auto intro!: keeps_intros)
qed

lemma keeps_blocks_processOutputs [keeps_intros]: "keeps (has_blocks B) (processOutputs now cfg fuel tx)"
  unfolding processOutputs_def processOutputsHdAccounts_def setBroadcast_def storedId_def Let_def
  by (intro keeps_intros block_keys_ops)

lemma keeps_blocks_onTx [keeps_intros]:
  assumes "keeps (has_blocks B) m"
  shows "keeps (has_blocks B) (onTx i m)"
  unfolding keeps_def onTx_def using keepsD [OF assms] by (fastforce split: option.splits prod.splits)

lemma keeps_blocks_processFiltered [keeps_intros]:
  "(\<And>tx. keeps (has_blocks B) (h tx)) \<Longrightarrow> keeps (has_blocks B) (processFiltered h ps)"
  unfolding processFiltered_def by (intro keeps_intros)

lemma addBlock_keys:
  assumes "addBlock n d = Inr (i, e)" "\<forall>k. (nb_blockHash n, k) \<in> block_keys d \<longrightarrow> k = nb_blockHeight n"
  shows "block_keys e = insert (nb_blockHash n, nb_blockHeight n) (block_keys d)"
proof (cases "block (nb_blockHash n) d")
  case None
  then have "e = d\<lparr>blocks := snd (tbl_add (mk_block n) (blocks d))\<rparr>"
    using assms(1) by (auto simp: addBlock_def tbl_add_def split: if_splits)
  then show ?thesis by (simp add: block_keys_def tbl_add_def mk_block_def)
next
  case (Some b)
  then have "b \<in> set (rows (blocks d))" "b_blockHash b = nb_blockHash n"
    using find_by_SomeD by (fastforce simp: block_def)+
  then have "(nb_blockHash n, b_blockHeight b) \<in> block_keys d" by (force simp: block_keys_def)
  then have "(nb_blockHash n, nb_blockHeight n) \<in> block_keys d" using assms(2) by metis
  moreover have "e = d" using Some assms(1) by (simp add: addBlock_def)
  ultimately show ?thesis by auto
qed

lemma processBlock_keys:
  assumes "processBlock now cfg fuel header txs s = Some (Inr l, t)"
    and "\<forall>k. (header_hash header, k) \<in> block_keys (w_db s) \<longrightarrow> k = header_height header"
  shows "block_keys (w_db t) = insert (header_hash header, header_height header) (block_keys (w_db s))"
proof -
  obtain l1 u l2 v d i where l: "blockProcessOutputs now cfg fuel txs s = Some (Inr l1, u)"
    "blockProcessInputs now txs u = Some (Inr l2, v)" "registerBlock header (w_db v) = Inr (i, d)"
    "blockConfirmTransactions (map fst (fold (\<lambda>tx. js_set (tx_id tx) tx) (l1 @ l2) [])) i (v\<lparr>w_db := d\<rparr>) = Some (Inr (), t)"
    using assms(1) unfolding processBlock_def Let_def bindA_Inr db_call_simps act_simps by auto
  have k: "keeps (has_blocks B) (blockProcessOutputs now cfg fuel txs)" "keeps (has_blocks B) (blockProcessInputs now txs)" for B
    unfolding blockProcessOutputs_def blockProcessInputs_def by (intro keeps_intros)+
  have v: "block_keys (w_db v) = block_keys (w_db s)"
    by (rule keepsD [OF k(2) l(2)], rule keepsD [OF k(1) l(1)]) (rule refl)
  have "block_keys d = insert (header_hash header, header_height header) (block_keys (w_db v))"
    using addBlock_keys [OF l(3) [unfolded registerBlock_def Let_def]] assms(2) v by simp
  moreover have "block_keys (w_db t) = block_keys d"
    using blockConfirm_spec [OF l(4)] by (intro block_keys_cong) simp
  ultimately show ?thesis using v by simp
qed

section \<open>A range of blocks\<close>

lemma orExit_Inr: "orExit m s = Some (Inr a, t) \<longleftrightarrow> m s = Some (Inr a, t)"
  by (auto simp: orExit_def catchA_Some)

lemma runBlock_keys:
  assumes "runBlock now cfg fuel b s = Some (Inr l, t)"
    and "\<forall>k. (header_hash (fst b), k) \<in> block_keys (w_db s) \<longrightarrow> k = header_height (fst b)"
  shows "block_keys (w_db t) = insert (header_hash (fst b), header_height (fst b)) (block_keys (w_db s))"
proof -
  obtain u where u: "processBlock now cfg fuel (fst b) (enumerate 0 (snd b))
      \<lparr>w_db = w_db s, w_cache = w_cache s, w_objs = (\<lambda>_. new_object)\<rparr> = Some (Inr l, u)" "w_db t = w_db u"
    using assms(1) by (auto simp: runBlock_def split: option.splits)
  show ?thesis using processBlock_keys [OF u(1)] assms(2) u(2) by simp
qed

lemma processQueuedBlock_keys:
  assumes "processQueuedBlock now cfg fuel b s = Some (Inr (), t)"
    and "\<forall>k. (header_hash (fst b), k) \<in> block_keys (w_db s) \<longrightarrow> k = header_height (fst b)"
  shows "block_keys (w_db t) = insert (header_hash (fst b), header_height (fst b)) (block_keys (w_db s))
    \<and> (\<exists>ms. w_sent t = ms @ [BlockMessage (header_height (fst b)) (header_hash (fst b))])"
proof -
  obtain l u where "runBlock now cfg fuel b s = Some (Inr l, u)"
    "t = u\<lparr>w_sent := w_sent u @ map (\<lambda>tx. TransactionMessage (tx_id tx)) l
       @ [BlockMessage (header_height (fst b)) (header_hash (fst b))]\<rparr>"
    using assms(1) by (auto simp: processQueuedBlock_def orExit_Inr bindA_Inr notify_def)
  then show ?thesis using runBlock_keys [OF _ assms(2)] by simp
qed

text \<open>The hashes of the node's chain, and what the node answers for its blocks.\<close>

definition follows :: "node \<Rightarrow> (int \<Rightarrow> string) \<Rightarrow> int \<Rightarrow> bool" where
  "follows node f tip \<longleftrightarrow> 0 \<le> tip \<and> (\<forall>h. 0 \<le> h \<and> h \<le> tip \<longrightarrow>
       f h \<noteq> '''' \<and> getblockhash node h = Inr (f h)
     \<and> (\<exists>x. getblockheader node (f h) = Inr x \<and> rh_hash x = f h \<and> rh_height x = h
          \<and> rh_prev x = (if h = 0 then None else Some (f (h - 1))))
     \<and> (\<exists>b. getblock node (f h) = Inr b \<and> rb_id b = f h))"

definition heights_right :: "(int \<Rightarrow> string) \<Rightarrow> int \<Rightarrow> (string \<times> int) set \<Rightarrow> bool" where
  "heights_right f tip B \<longleftrightarrow> (\<forall>h k. 0 \<le> h \<and> h \<le> tip \<and> (f h, k) \<in> B \<longrightarrow> k = h)"

lemma follows_inj:
  assumes "follows node f tip" "0 \<le> h" "h \<le> tip" "0 \<le> k" "k \<le> tip" "f h = f k"
  shows "h = k"
  using assms unfolding follows_def by (metis Inr_inject)

lemma heights_right_insert:
  "\<lbrakk>follows node f tip; heights_right f tip B; 0 \<le> h; h \<le> tip\<rbrakk> \<Longrightarrow> heights_right f tip (insert (f h, h) B)"
  unfolding heights_right_def using follows_inj [of node f tip] by blast

lemma fetchBlock_follows:
  assumes "follows node f tip" "0 \<le> h" "h \<le> tip"
  shows "\<exists>b. fetchBlock node h = Inr b \<and> header_hash (fst b) = f h \<and> header_height (fst b) = h"
proof -
  obtain b where "getblockhash node h = Inr (f h)" "getblock node (f h) = Inr b" "rb_id b = f h"
    using assms unfolding follows_def by blast
  then show ?thesis by (simp add: fetchBlock_def)
qed

lemma queued_blocks:
  assumes "forA (processQueuedBlock now cfg fuel) bs s = Some (Inr (), t)"
    and fol: "follows node f tip" and hs: "\<forall>h\<in>set hs. 0 \<le> h \<and> h \<le> tip"
    and bs: "map (\<lambda>b. (header_hash (fst b), header_height (fst b))) bs = map (\<lambda>h. (f h, h)) hs"
    and right: "heights_right f tip (block_keys (w_db s))"
  shows "block_keys (w_db t) = block_keys (w_db s) \<union> (\<lambda>h. (f h, h)) ` set hs
    \<and> heights_right f tip (block_keys (w_db t))
    \<and> (hs \<noteq> [] \<longrightarrow> (\<exists>ms. w_sent t = ms @ [BlockMessage (last hs) (f (last hs))]))"
  using assms(1) hs bs right
proof (induction bs arbitrary: s hs)
  case (Cons b bs)
  then obtain h hs' where h: "hs = h # hs'" "header_hash (fst b) = f h" "header_height (fst b) = h"
    "map (\<lambda>b. (header_hash (fst b), header_height (fst b))) bs = map (\<lambda>h. (f h, h)) hs'" by auto
  obtain u where u: "processQueuedBlock now cfg fuel b s = Some (Inr (), u)"
    "forA (processQueuedBlock now cfg fuel) bs u = Some (Inr (), t)"
    using Cons.prems(1) by (auto simp: bindA_Inr)
  have hr: "0 \<le> h" "h \<le> tip" using Cons.prems(2) h(1) by auto
  have k: "block_keys (w_db u) = insert (f h, h) (block_keys (w_db s))"
    "\<exists>ms. w_sent u = ms @ [BlockMessage h (f h)]"
    using processQueuedBlock_keys [OF u(1)] Cons.prems(4) hr unfolding h(2,3) heights_right_def by blast+
  have "heights_right f tip (block_keys (w_db u))"
    unfolding k(1) by (rule heights_right_insert [OF fol Cons.prems(4) hr])
  then have IH: "block_keys (w_db t) = block_keys (w_db u) \<union> (\<lambda>h. (f h, h)) ` set hs'
    \<and> heights_right f tip (block_keys (w_db t))
    \<and> (hs' \<noteq> [] \<longrightarrow> (\<exists>ms. w_sent t = ms @ [BlockMessage (last hs') (f (last hs'))]))"
    using Cons.prems(2) h(1) by (intro Cons.IH [OF u(2) _ h(4)]) simp_all
  show ?case
  proof (cases "hs' = []")
    case True
    then have "bs = []" using h(4) by simp
    then have "t = u" using u(2) by simp
    then show ?thesis using IH k True h(1) by simp
  next
    case False
    have "block_keys (w_db t) = block_keys (w_db s) \<union> (\<lambda>h. (f h, h)) ` set hs" using IH k(1) h(1) by auto
    moreover have "heights_right f tip (block_keys (w_db t))" using IH by blast
    moreover have "\<exists>ms. w_sent t = ms @ [BlockMessage (last hs) (f (last hs))]" using False IH h(1) by simp
    ultimately show ?thesis by blast
  qed
qed simp

lemma processBlockRange_keys:
  assumes run: "processBlockRange now cfg fuel node hs s = Some (Inr (), t)"
    and fol: "follows node f tip" and hs: "\<forall>h\<in>set hs. 0 \<le> h \<and> h \<le> tip" "hs \<noteq> []"
    and right: "heights_right f tip (block_keys (w_db s))"
  shows "block_keys (w_db t) = block_keys (w_db s) \<union> (\<lambda>h. (f h, h)) ` set hs
    \<and> (\<exists>ms. w_sent t = ms @ [BlockMessage (last hs) (f (last hs))])"
proof -
  let ?step = "\<lambda>c. bindA (orExit (lift (mapE (fetchBlock node) c))) (\<lambda>blocks. forA (processQueuedBlock now cfg fuel) blocks)"
  define I where "I pre v \<longleftrightarrow> block_keys (w_db v) = block_keys (w_db s) \<union> (\<lambda>h. (f h, h)) ` set (concat pre)
      \<and> heights_right f tip (block_keys (w_db v))
      \<and> (pre \<noteq> [] \<longrightarrow> (\<exists>ms. w_sent v = ms @ [BlockMessage (last (concat pre)) (f (last (concat pre)))]))"
    for pre and v :: "'a chain_state_scheme"
  have loop: "forA ?step (chunks 10 hs) s = Some (Inr (), t)"
    using run splitList_chunks [of 10 hs] by (simp add: processBlockRange_def)
  have "I (chunks 10 hs) t"
  proof (rule forA_rule [where I = I, OF loop])
    show "I [] s" using right by (simp add: I_def)
    fix pre c v w
    assume pre: "\<exists>post. chunks 10 hs = pre @ c # post" and I: "I pre v" and st: "?step c v = Some (Inr (), w)"
    have c: "c \<in> set (chunks 10 hs)" using pre by auto
    then have ne: "c \<noteq> []" and sub: "\<forall>h\<in>set c. 0 \<le> h \<and> h \<le> tip"
      using chunks_size [OF c] hs(1) set_chunks [of 10 hs] by auto
    obtain bs where bs: "mapE (fetchBlock node) c = Inr bs" "forA (processQueuedBlock now cfg fuel) bs v = Some (Inr (), w)"
      using st by (auto simp: bindA_Inr orExit_Inr dest: sym)
    have keys: "map (\<lambda>b. (header_hash (fst b), header_height (fst b))) bs = map (\<lambda>h. (f h, h)) c"
      using bs(1) sub
    proof (induction c arbitrary: bs)
      case (Cons h c)
      then obtain b bs' where "fetchBlock node h = Inr b" "mapE (fetchBlock node) c = Inr bs'" "bs = b # bs'"
        by (auto simp: bindE_Inr_iff)
      then show ?case using Cons.IH Cons.prems(2) fetchBlock_follows [OF fol, of h] by auto
    qed simp
    have "heights_right f tip (block_keys (w_db v))" using I unfolding I_def by blast
    from queued_blocks [OF bs(2) fol sub keys this]
    have q: "block_keys (w_db w) = block_keys (w_db v) \<union> (\<lambda>h. (f h, h)) ` set c
        \<and> heights_right f tip (block_keys (w_db w))
        \<and> (c \<noteq> [] \<longrightarrow> (\<exists>ms. w_sent w = ms @ [BlockMessage (last c) (f (last c))]))"
.
    then have "block_keys (w_db w) = block_keys (w_db s) \<union> (\<lambda>h. (f h, h)) ` set (concat (pre @ [c]))"
      using I unfolding I_def concat_append set_append image_Un by (simp add: Un_assoc)
    moreover have "\<exists>ms. w_sent w = ms @ [BlockMessage (last (concat (pre @ [c]))) (f (last (concat (pre @ [c]))))]"
      using q ne by simp
    ultimately show "I (pre @ [c]) w" using q unfolding I_def by blast
  qed
  moreover have "chunks 10 hs \<noteq> []" using hs(2) by (simp add: chunks_rec)
  ultimately show ?thesis by (simp add: I_def)
qed

section \<open>Going back\<close>

lemma rewind_run:
  "\<exists>t. rewind height s = Some (Inr (), t) \<and> w_sent t = w_sent s
     \<and> block_keys (w_db t) = {p \<in> block_keys (w_db s). snd p \<le> height} \<and> (wf s \<longrightarrow> wf t)"
proof -
  define ids where "ids = getTransactionIdsConfirmedAfterHeight height (w_db s)"
  define un where "un = (if ids = [] then ret ()
      else forA (\<lambda>txidList. onDb (unconfirmTransactions txidList)) (chunks 1000 ids) :: ('a chain_state_scheme, unit) act)"
  let ?P = "\<lambda>v. block_keys (w_db v) = block_keys (w_db s) \<and> w_sent v = w_sent s \<and> (wf s \<longrightarrow> wf v)"
  have "\<exists>u. un s = Some (Inr (), u) \<and> ?P u"
  proof (cases "ids = []")
    case False
    have "\<exists>u. forA (\<lambda>txidList. onDb (unconfirmTransactions txidList)) (chunks 1000 ids) s = Some (Inr (), u) \<and> ?P u"
      by (rule forA_returns) (auto simp: block_keys_unconfirmTransactions intro: wf_unconfirmTransactions)
    then show ?thesis using False by (simp add: un_def)
  qed (simp add: un_def)
  then obtain u where u: "un s = Some (Inr (), u)" "?P u" by blast
  have "rewind height s = bindA un (\<lambda>_. onDb (deleteBlocksAfterHeight height)) s"
    using splitList_chunks [of 1000 ids] by (simp add: rewind_def ids_def [symmetric] un_def)
  also have "\<dots> = Some (Inr (), u\<lparr>w_db := deleteBlocksAfterHeight height (w_db u)\<rparr>)"
    by (simp add: bindA_def u(1))
  finally have run: "rewind height s = Some (Inr (), u\<lparr>w_db := deleteBlocksAfterHeight height (w_db u)\<rparr>)" .
  have "block_keys (deleteBlocksAfterHeight height d) = {p \<in> block_keys d. snd p \<le> height}" for d
    by (auto simp: deleteBlocksAfterHeight_def block_keys_cascade) (auto simp: block_keys_def)
  then show ?thesis using run u(2) by (auto intro: wf_deleteBlocksAfterHeight)
qed

text \<open>The header of the node at a height, and the headers from one height down to another.\<close>

definition header_at :: "node \<Rightarrow> (int \<Rightarrow> string) \<Rightarrow> int \<Rightarrow> rpc_header" where
  "header_at node f h = (case getblockheader node (f h) of Inr x \<Rightarrow> x | Inl _ \<Rightarrow> undefined)"

lemma header_at:
  assumes "follows node f tip" "0 \<le> h" "h \<le> tip"
  shows "getblockheader node (f h) = Inr (header_at node f h)" "rh_height (header_at node f h) = h"
    "rh_prev (header_at node f h) = (if h = 0 then None else Some (f (h - 1)))"
  using assms unfolding follows_def header_at_def by (metis sum.simps(6))+

definition known_block :: "(int \<Rightarrow> string) \<Rightarrow> db \<Rightarrow> int \<Rightarrow> bool" where
  "known_block f d h \<longleftrightarrow> h = - 1 \<or> getBlockByHash (f h) d \<noteq> None"

lemma chainBacktrace_run:
  assumes "follows node f tip" "0 \<le> h" "h \<le> tip" "headers \<noteq> []" "last headers = header_at node f h" "nat h < n"
  shows "\<exists>k. - 1 \<le> k \<and> k < h \<and> known_block f (w_db s) k
    \<and> chainBacktrace n node headers s = Some (Inr (headers @ map (header_at node f) (rev [k + 1..h - 1])), s)"
  using assms(2-)
proof (induction n arbitrary: h headers)
  case (Suc n)
  note hd = header_at [OF assms(1) Suc.prems(1,2)]
  show ?case
  proof (cases "h = 0")
    case True
    then show ?thesis using hd(3) Suc.prems(4) by (intro exI [of _ "- 1"]) (simp add: known_block_def)
  next
    case False
    then have lt: "0 \<le> h - 1" "h - 1 \<le> tip" using Suc.prems(1,2) by auto
    then have prev: "rh_prev (last headers) = Some (f (h - 1))" "f (h - 1) \<noteq> ''''"
      using False hd(3) assms(1) Suc.prems(4) by (auto simp: follows_def)
    show ?thesis
    proof (cases "getBlockByHash (f (h - 1)) (w_db s)")
      case None
      let ?hs = "headers @ [header_at node f (h - 1)]"
      have step: "chainBacktrace (Suc n) node headers s = chainBacktrace n node ?hs s"
        using prev None header_at(1) [OF assms(1) lt] by (simp add: bindA_def lift_def askDb_def ask_def)
      obtain k where k: "- 1 \<le> k" "k < h - 1" "known_block f (w_db s) k"
        "chainBacktrace n node ?hs s = Some (Inr (?hs @ map (header_at node f) (rev [k + 1..h - 1 - 1])), s)"
      proof -
        have "nat (h - 1) < n" using Suc.prems(5) lt by linarith
        then show ?thesis using Suc.IH [of "h - 1" ?hs] lt that by auto
      qed
      have "[k + 1..h - 1] = [k + 1..h - 1 - 1] @ [h - 1]" using k(2) upto_rec2 [of "k + 1" "h - 1"] by simp
      then show ?thesis using k step by (intro exI [of _ k]) simp
    next
      case (Some b)
      then show ?thesis using prev lt by (intro exI [of _ "h - 1"]) (simp add: known_block_def)
    qed
  qed
qed simp

section \<open>A notification\<close>

text \<open>
  The blocks of the database are on one chain: \<open>parent\<close> gives the hash a block commits to, and
  a lower block is an ancestor of a higher one.
\<close>

definition one_chain :: "(string \<Rightarrow> string) \<Rightarrow> (string \<times> int) set \<Rightarrow> bool" where
  "one_chain parent B \<longleftrightarrow> (\<forall>(x, i)\<in>B. \<forall>(y, j)\<in>B. i \<le> j \<longrightarrow> x = (parent ^^ nat (j - i)) y)"

lemma ancestors:
  assumes "\<forall>h. 0 < h \<and> h \<le> tip \<longrightarrow> parent (f h) = f (h - 1)" "0 \<le> i" "i \<le> j" "j \<le> tip"
  shows "(parent ^^ nat (j - i)) (f j) = f i"
  using assms(3,4)
proof (induction "nat (j - i)" arbitrary: j)
  case (Suc n)
  then have "j \<noteq> i" "n = nat ((j - 1) - i)" by auto
  then have "(parent ^^ n) (f (j - 1)) = f i" using Suc.hyps(1) [of "j - 1"] Suc.prems by auto
  moreover have "parent (f j) = f (j - 1)" using assms(1,2) Suc.prems \<open>j \<noteq> i\<close> by auto
  ultimately show ?case using Suc.hyps(2) by (metis comp_apply funpow_Suc_right)
qed auto

lemma one_chain_extend:
  assumes par: "\<forall>h. 0 < h \<and> h \<le> tip \<longrightarrow> parent (f h) = f (h - 1)"
    and B: "one_chain parent B" "\<forall>p\<in>B. 0 \<le> snd p \<and> snd p \<le> k" and k: "k = - 1 \<or> (f k, k) \<in> B" "- 1 \<le> k"
  shows "one_chain parent (B \<union> (\<lambda>h. (f h, h)) ` {k + 1..tip})"
proof -
  have up: "x = (parent ^^ nat (j - i)) (f j)" if "(x, i) \<in> B" "k < j" "j \<le> tip" for x i j
  proof -
    have i: "0 \<le> i" "i \<le> k" using B(2) that(1) by auto
    then have "(f k, k) \<in> B" using k by auto
    then have "x = (parent ^^ nat (k - i)) (f k)" using B(1) that(1) i unfolding one_chain_def by blast
    also have "f k = (parent ^^ nat (j - k)) (f j)" using ancestors [OF par, of k j] i that by simp
    also have "(parent ^^ nat (k - i)) ((parent ^^ nat (j - k)) (f j)) = (parent ^^ (nat (k - i) + nat (j - k))) (f j)"
      by (simp add: funpow_add)
    also have "nat (k - i) + nat (j - k) = nat (j - i)" using i that by simp
    finally show ?thesis .
  qed
  have anc: "f i = (parent ^^ nat (j - i)) (f j)" if "k < i" "i \<le> j" "j \<le> tip" for i j
    using ancestors [OF par, of i j] that k(2) by simp
  show ?thesis unfolding one_chain_def
  proof (intro ballI, clarify)
    fix x i y j assume x: "(x, i) \<in> B \<union> (\<lambda>h. (f h, h)) ` {k + 1..tip}"
      and y: "(y, j) \<in> B \<union> (\<lambda>h. (f h, h)) ` {k + 1..tip}" and le: "i \<le> j"
    consider "(x, i) \<in> B" "(y, j) \<in> B" | "(x, i) \<in> B" "y = f j" "k < j" "j \<le> tip"
      | "x = f i" "k < i" "y = f j" "j \<le> tip" | "k < i" "(y, j) \<in> B"
      using x y by fastforce
    then show "x = (parent ^^ nat (j - i)) y"
    proof cases
      case 1
      then show ?thesis using B(1) le unfolding one_chain_def by blast
    next
      case 2
      then show ?thesis using up by blast
    next
      case 3
      then show ?thesis using anc le by blast
    next
      case 4
      then show ?thesis using B(2) le by fastforce
    qed
  qed
qed

lemma keeps_wf_runBlock [keeps_intros]: "keeps wf (runBlock now cfg fuel b)"
  unfolding keeps_def runBlock_def using keepsD [OF keeps_wf_processBlock] by (fastforce split: option.splits prod.splits)

lemma keeps_wf_notify [keeps_intros]: "keeps wf (notify ms)"
  unfolding notify_def by (auto intro: keeps_modify)

lemma keeps_wf_processBlockRange [keeps_intros]: "keeps wf (processBlockRange now cfg fuel node hs)"
  unfolding processBlockRange_def processQueuedBlock_def orExit_def by (intro keeps_intros)

lemma returns_orExit [returns_intros]: "returns m \<Longrightarrow> returns (orExit m)"
  unfolding orExit_def by (intro returns_intros)

lemma returns_processBlockRange:
  assumes "one_index_each cfg"
    and "\<And>h hash b. \<lbrakk>h \<in> set hs; getblockhash node h = Inr hash; getblock node hash = Inr b\<rbrakk>
          \<Longrightarrow> \<forall>tx\<in>set (rb_transactions b). length (tx_outs tx) < fuel"
  shows "returns (processBlockRange now cfg fuel node hs)"
proof -
  have run: "returns (processQueuedBlock now cfg fuel b)" if "\<forall>tx\<in>set (snd b). length (tx_outs tx) < fuel" for b
  proof -
    have "returns (processBlock now cfg fuel (fst b) (enumerate 0 (snd b)))"
      by (rule returns_processBlock [OF assms(1)]) (use that in \<open>auto simp: in_set_enumerate_eq\<close>)
    then have "returns (runBlock now cfg fuel b)"
      by (auto simp: returns_def runBlock_def split: option.split)
    then show ?thesis unfolding processQueuedBlock_def notify_def by (intro returns_intros)
  qed
  have fetched: "\<forall>b\<in>set bs. \<forall>tx\<in>set (snd b). length (tx_outs tx) < fuel"
    if "mapE (fetchBlock node) c = Inr bs" "set c \<subseteq> set hs" for c bs
    using that
  proof (induction c arbitrary: bs)
    case (Cons h c)
    then show ?case using assms(2) by (fastforce simp: bindE_Inr_iff fetchBlock_def)
  qed simp
  have step: "returns (bindA (orExit (lift (mapE (fetchBlock node) c))) (\<lambda>blocks. forA (processQueuedBlock now cfg fuel) blocks))"
    if c: "c \<in> set (chunks 10 hs)" for c
  proof (cases "mapE (fetchBlock node) c")
    case (Inl e)
    then show ?thesis by (simp add: returns_def bindA_def orExit_def catchA_def lift_def throw_def)
  next
    case (Inr bs)
    have "set c \<subseteq> set hs" using c set_chunks [of 10 hs] by auto
    then have "returns (forA (processQueuedBlock now cfg fuel) bs)"
      using fetched [OF Inr] run by (intro returns_intros) blast
    then show ?thesis using Inr by (simp add: returns_def bindA_def orExit_def catchA_def lift_def)
  qed
  show ?thesis using splitList_chunks [of 10 hs] by (auto simp: processBlockRange_def intro!: returns_for step)
qed

text \<open>The handler on the tip of such a chain: back to the first block known, then forward.\<close>

lemma onBlockHash_run:
  assumes fol: "follows node f tip" and "nat tip < depth" "wf s"
  obtains k u where "- 1 \<le> k" "k < tip" "known_block f (w_db s) k" "w_sent u = w_sent s"
    "block_keys (w_db u) = {p \<in> block_keys (w_db s). snd p \<le> k}" "wf u"
    "onBlockHash depth now cfg fuel node (f tip) s = catchLog (processBlockRange now cfg fuel node [k + 1..tip]) () u"
proof -
  have tip: "0 \<le> tip" using fol by (simp add: follows_def)
  note hdr = header_at [OF fol tip order_refl]
  obtain k where k: "- 1 \<le> k" "k < tip" "known_block f (w_db s) k"
    "chainBacktrace depth node [header_at node f tip] s =
       Some (Inr ([header_at node f tip] @ map (header_at node f) (rev [k + 1..tip - 1])), s)"
    using chainBacktrace_run [OF fol tip order_refl, of "[header_at node f tip]" depth s] assms(2) by auto
  let ?hs = "[k + 1..tip]"
  define L where "L = [header_at node f tip] @ map (header_at node f) (rev [k + 1..tip - 1])"
  have hs: "?hs = [k + 1..tip - 1] @ [tip]" using k(2) upto_rec2 [of "k + 1" tip] by simp
  then have rev: "rev L = map (header_at node f) ?hs"
    by (simp add: rev_map L_def)
  have at: "rh_height (header_at node f h) = h" if "h \<in> set ?hs" for h
    using header_at(2) [OF fol] that k(1) by simp
  have heights: "map rh_height (map (header_at node f) ?hs) = ?hs" unfolding map_map by (rule map_idI) (simp add: at)
  have first: "rh_height (hd (map (header_at node f) ?hs)) - 1 = k"
    using at [of "hd ?hs"] k(2) by (simp add: hd_map upto_rec1)
  obtain u where u: "rewind k s = Some (Inr (), u)" "w_sent u = w_sent s"
    "block_keys (w_db u) = {p \<in> block_keys (w_db s). snd p \<le> k}" "wf u"
    using rewind_run [of k s] assms(3) by blast
  have "onBlockHash depth now cfg fuel node (f tip) s = catchLog (processBlockRange now cfg fuel node ?hs) () u"
    unfolding onBlockHash_def catchLog_def
    by (simp add: bindA_def catchA_def lift_def ret_def hdr(1) k(4) [folded L_def] rev heights first u(1) Let_def del: map_map
        cong: option.case_cong sum.case_cong)
  then show thesis using that k(1-3) u(2-4) by blast
qed

lemma known_block_key:
  assumes "known_block f d k" "heights_right f tip (block_keys d)" "- 1 \<le> k" "k < tip"
  shows "k = - 1 \<or> (f k, k) \<in> block_keys d"
proof (cases "k = - 1")
  case False
  then obtain b where "block (f k) d = Some b" using assms(1) by (auto simp: known_block_def getBlockByHash_def)
  then have "b \<in> set (rows (blocks d))" "b_blockHash b = f k" by (auto simp: block_def dest: find_by_SomeD)
  then have "(f k, b_blockHeight b) \<in> block_keys d" by (force simp: block_keys_def)
  moreover have "b_blockHeight b = k" using calculation assms(2-4) False unfolding heights_right_def by auto
  ultimately show ?thesis by simp
qed simp

lemma processBlockRange_exits:
  "processBlockRange now cfg fuel node hs s = Some (Inl e, t) \<Longrightarrow> e = Exit"
proof -
  have loop: "e = Exit" if "forA g xs v = Some (Inl e, t)" "\<And>x v t e. g x v = Some (Inl e, t) \<Longrightarrow> e = Exit"
    for g :: "'x \<Rightarrow> ('s, unit) act" and xs v t e
    using that(1) by (induction xs arbitrary: v) (auto simp: bindA_Some dest: that(2))
  have q: "e = Exit" if "processQueuedBlock now cfg fuel b v = Some (Inl e, t)" for b v t e
    using that by (auto simp: processQueuedBlock_def orExit_def catchA_Some)
  have "e = Exit" if "bindA (orExit (lift (mapE (fetchBlock node) c))) (\<lambda>blocks. forA (processQueuedBlock now cfg fuel) blocks) v
      = Some (Inl e, t)" for c v t e
    using that loop [OF _ q] by (auto simp: bindA_Some orExit_def catchA_Some)
  note step = this
  show "processBlockRange now cfg fuel node hs s = Some (Inl e, t) \<Longrightarrow> e = Exit"
    using splitList_chunks [of 10 hs] loop [OF _ step] by (simp add: processBlockRange_def)
qed

text \<open>
  C1. A block notification. For the tip of a chain of which the node gives every block, the handler
  returns, whatever the depth of the reorganisation. Unless it ends the process, the blocks of the
  database are again on one chain, with the announced block on it and none above it; no block of
  the chain at or above the first one processed is missing; and the announcement of the tip is the
  last message sent. (A transaction confirmed by a block that went away is unconfirmed: the
  database is well formed.)
\<close>

theorem onBlockHash_spec:
  fixes s :: "'s chain_state_scheme"
  assumes "follows node f tip" "\<forall>h. 0 < h \<and> h \<le> tip \<longrightarrow> parent (f h) = f (h - 1)"
    and "\<forall>h b. 0 \<le> h \<and> h \<le> tip \<and> getblock node (f h) = Inr b \<longrightarrow> (\<forall>tx\<in>set (rb_transactions b). length (tx_outs tx) < fuel)"
    and "one_index_each cfg" "nat tip < depth"
    and "wf s" "one_chain parent (block_keys (w_db s))" "heights_right f tip (block_keys (w_db s))"
    and "\<forall>p\<in>block_keys (w_db s). 0 \<le> snd p"
  shows "\<exists>r t. onBlockHash depth now cfg fuel node (f tip) s = Some (r, t) \<and> wf t \<and> (r = Inr () \<longrightarrow>
     one_chain parent (block_keys (w_db t)) \<and> (f tip, tip) \<in> block_keys (w_db t)
   \<and> (\<forall>p\<in>block_keys (w_db t). 0 \<le> snd p \<and> snd p \<le> tip)
   \<and> (\<exists>k<tip. (k = - 1 \<or> (f k, k) \<in> block_keys (w_db s)) \<and> (\<forall>h. k < h \<and> h \<le> tip \<longrightarrow> (f h, h) \<in> block_keys (w_db t)))
   \<and> (\<exists>ms. w_sent t = ms @ [BlockMessage tip (f tip)]))"
proof -
  obtain k u where k: "- 1 \<le> k" "k < tip" "known_block f (w_db s) k" "w_sent u = w_sent s"
    "block_keys (w_db u) = {p \<in> block_keys (w_db s). snd p \<le> k}" "wf u"
    and run: "onBlockHash depth now cfg fuel node (f tip) s = catchLog (processBlockRange now cfg fuel node [k + 1..tip]) () u"
    by (rule onBlockHash_run [OF assms(1,5,6)])
  have retn: "returns (processBlockRange now cfg fuel node [k + 1..tip] :: ('s chain_state_scheme, unit) act)"
  proof (rule returns_processBlockRange [OF assms(4)])
    fix h hash b assume h: "h \<in> set [k + 1..tip]" "getblockhash node h = Inr hash" "getblock node hash = Inr b"
    then have range: "0 \<le> h" "h \<le> tip" using k(1) by auto
    then have "hash = f h" using h(2) assms(1) by (simp add: follows_def)
    then show "\<forall>tx\<in>set (rb_transactions b). length (tx_outs tx) < fuel" using assms(3) range h(3) by blast
  qed
  obtain r v where v: "processBlockRange now cfg fuel node [k + 1..tip] u = Some (r, v)"
    using returnsD [OF retn, of u] by blast
  have wf: "wf v" using keepsD [OF keeps_wf_processBlockRange v k(6)] .
  have key: "k = - 1 \<or> (f k, k) \<in> block_keys (w_db s)"
    by (rule known_block_key [OF k(3) assms(8) k(1,2)])
  show ?thesis
  proof (cases r)
    case (Inl e)
    then have "onBlockHash depth now cfg fuel node (f tip) s = Some (Inl Exit, v)"
      using v processBlockRange_exits unfolding run by (auto simp: catchLog_def catchA_def throw_def)
    then show ?thesis using wf by blast
  next
    case (Inr a)
    then have ret: "onBlockHash depth now cfg fuel node (f tip) s = Some (Inr (), v)"
      using v unfolding run by (simp add: catchLog_def catchA_def)
    have right: "heights_right f tip (block_keys (w_db u))" using assms(8) k(5) by (auto simp: heights_right_def)
    have hs: "\<forall>h\<in>set [k + 1..tip]. 0 \<le> h \<and> h \<le> tip" "[k + 1..tip] \<noteq> []" using k(1,2) by auto
    have keys: "block_keys (w_db v) = {p \<in> block_keys (w_db s). snd p \<le> k} \<union> (\<lambda>h. (f h, h)) ` {k + 1..tip}"
      "\<exists>ms. w_sent v = ms @ [BlockMessage tip (f tip)]"
      using processBlockRange_keys [OF v [unfolded Inr, simplified] assms(1) hs right] k(2,5) upto_rec2 [of "k + 1" tip]
      by auto
    have "one_chain parent {p \<in> block_keys (w_db s). snd p \<le> k}"
      using assms(7) by (auto simp: one_chain_def)
    then have "one_chain parent (block_keys (w_db v))"
      unfolding keys(1) using key k(1) assms(9) by (intro one_chain_extend [OF assms(2)]) auto
    moreover have "\<forall>p\<in>block_keys (w_db v). 0 \<le> snd p \<and> snd p \<le> tip"
      unfolding keys(1) using assms(9) k(1,2) by auto
    moreover have "(f h, h) \<in> block_keys (w_db v)" if "k < h" "h \<le> tip" for h
      unfolding keys(1) using that by auto
    ultimately show ?thesis using ret wf k(2) key keys(2) by blast
  qed
qed

text \<open>
  A reorganisation: the database has \<open>B1\<close> and \<open>B2\<close>, the node's chain is \<open>B0\<close>, \<open>B1\<close>, \<open>C2\<close>, \<open>C3\<close>.
  The blocks of the example have no transaction, so that nothing can fail.
\<close>

lemma registerBlock_Inr: "wf_db d \<Longrightarrow> \<exists>i e. registerBlock h d = Inr (i, e)"
proof (cases "block (header_hash h) d")
  case None
  assume wf: "wf_db d"
  let ?p = "case getBlockByHash (previousblockhash h) d of None \<Rightarrow> None | Some b \<Rightarrow> if b_blockID b = 0 then None else Some (b_blockID b)"
  have "nullable_ref b_blockID (blocks d) ?p"
    by (auto simp: getBlockByHash_def block_def nullable_ref_def has_id_iff split: option.split dest!: find_by_SomeD)
  then show ?thesis using None by (simp add: registerBlock_def addBlock_def Let_def split_beta)
qed (simp add: registerBlock_def addBlock_def Let_def)

lemma processBlock_empty: "wf s \<Longrightarrow> \<exists>t. processBlock now cfg fuel header [] s = Some (Inr [], t)"
proof -
  assume wf: "wf s"
  obtain i e where r: "registerBlock header (w_db s) = Inr (i, e)" using registerBlock_Inr [OF wf] by blast
  have "blockProcessOutputs now cfg fuel [] s = Some (Inr [], s)" "blockProcessInputs now [] s = Some (Inr [], s)"
    by (simp_all add: blockProcessOutputs_eq blockProcessInputs_eq processFiltered_def)
  moreover have "blockConfirmTransactions [] i u = Some (Inr (), u)" for u :: "'a bundle_state_scheme"
    using splitList_chunks [of 100 "[] :: string list"] by (simp add: blockConfirmTransactions_def)
  ultimately show ?thesis by (simp add: processBlock_def bindA_def getDb_def r ret_def)
qed

lemma processQueuedBlock_empty: "wf s \<Longrightarrow> \<exists>t. processQueuedBlock now cfg fuel (h, []) s = Some (Inr (), t) \<and> wf t"
proof -
  assume wf: "wf s"
  let ?s = "\<lparr>w_db = w_db s, w_cache = w_cache s, w_objs = (\<lambda>_. new_object)\<rparr> :: bundle_state"
  have ws: "wf ?s" using wf by simp
  obtain t where t: "processBlock now cfg fuel h [] ?s = Some (Inr [], t)" using processBlock_empty [OF ws] by blast
  have "wf t" using keepsD [OF keeps_wf_processBlock t ws] .
  then show ?thesis using t by (simp add: processQueuedBlock_def orExit_def catchA_def bindA_def runBlock_def notify_def modify_def)
qed

definition demo_chain :: "int \<Rightarrow> string" where
  "demo_chain h = (if h = 0 then ''B0'' else if h = 1 then ''B1'' else if h = 2 then ''C2'' else ''C3'')"

definition demo_parent :: "string \<Rightarrow> string" where
  "demo_parent x = (if x = ''C3'' then ''C2'' else if x = ''C2'' \<or> x = ''B2'' then ''B1'' else ''B0'')"

definition demo_node :: node where
  "demo_node = \<lparr>
     getblockheader = (\<lambda>x. let h = (if x = ''B0'' then 0 else if x = ''B1'' then 1 else if x = ''C2'' then 2 else 3)
       in Inr \<lparr>rh_hash = x, rh_height = h, rh_time = 10 * h, rh_prev = (if h = 0 then None else Some (demo_parent x))\<rparr>),
     getblockhash = (\<lambda>h. Inr (demo_chain h)),
     getblock = (\<lambda>x. Inr \<lparr>rb_id = x, rb_timestamp = 0, rb_prevHash = [], rb_transactions = []\<rparr>),
     getblockchaininfo = (\<lambda>_. Inr \<lparr>info_blocks = 3, info_headers = 3\<rparr>)\<rparr>"

definition demo_chain_state :: chain_state where
  "demo_chain_state = \<lparr>w_db = demo_account_db, w_cache = (\<lambda>_. None), w_ibd = False, w_sent = [], w_calls = 0\<rparr>"

lemma demo_follows: "follows demo_node demo_chain 3"
proof -
  have h: "h = 0 \<or> h = 1 \<or> h = 2 \<or> h = (3::int)" if "0 \<le> h" "h \<le> 3" for h using that by presburger
  show ?thesis
    unfolding follows_def using h by (auto simp: demo_node_def demo_chain_def demo_parent_def Let_def)
qed

lemma demo_block_keys: "block_keys (w_db demo_chain_state) = {(''B1'', 1), (''B2'', 2)}"
  by (simp add: block_keys_def demo_chain_state_def demo_account_db_def demo_db_def)

lemma demo_range:
  assumes "wf s"
  shows "\<exists>t. processBlockRange now cfg fuel demo_node hs s = Some (Inr (), t)"
proof -
  have "mapE (fetchBlock demo_node) c = Inr (map (\<lambda>h. (\<lparr>header_height = h, header_hash = demo_chain h, header_time = 0,
      previousblockhash = ''''\<rparr>, [])) c)" for c
    by (induction c) (simp_all add: fetchBlock_def demo_node_def hex_of_bytes_def)
  note fetched = this
  let ?step = "\<lambda>c. bindA (orExit (lift (mapE (fetchBlock demo_node) c))) (\<lambda>blocks. forA (processQueuedBlock now cfg fuel) blocks)"
  have step: "\<exists>t. ?step c v = Some (Inr (), t) \<and> wf t" if wf: "wf v" for c v
  proof -
    have "?step c v = forA (processQueuedBlock now cfg fuel) (map (\<lambda>h. (\<lparr>header_height = h, header_hash = demo_chain h,
        header_time = 0, previousblockhash = ''''\<rparr>, [])) c) v"
      by (simp add: fetched orExit_def catchA_def bindA_def lift_def)
    moreover have "\<exists>t. forA (processQueuedBlock now cfg fuel) (map (\<lambda>h. (\<lparr>header_height = h, header_hash = demo_chain h,
        header_time = 0, previousblockhash = ''''\<rparr>, [])) c) v = Some (Inr (), t) \<and> wf t"
      by (rule forA_returns [where P = wf, OF _ wf]) (use processQueuedBlock_empty in auto)
    ultimately show ?thesis by (simp only:)
  qed
  have "\<exists>t. forA ?step (chunks 10 hs) s = Some (Inr (), t) \<and> wf t"
    by (rule forA_returns [where P = wf, OF _ assms]) (rule step)
  then show ?thesis using splitList_chunks [of 10 hs] by (auto simp: processBlockRange_def)
qed

lemma onBlockHash_spec_witness:
  "\<exists>t. onBlockHash 4 7 demo_pay 1 demo_node ''C3'' demo_chain_state = Some (Inr (), t)
     \<and> (''C3'', 3) \<in> block_keys (w_db t) \<and> (''C2'', 2) \<in> block_keys (w_db t) \<and> (''B2'', 2) \<notin> block_keys (w_db t)"
proof -
  have par: "\<forall>h. 0 < h \<and> h \<le> 3 \<longrightarrow> demo_parent (demo_chain h) = demo_chain (h - 1)"
  proof (intro allI impI)
    fix h :: int assume "0 < h \<and> h \<le> 3"
    then have "h = 1 \<or> h = 2 \<or> h = 3" by presburger
    then show "demo_parent (demo_chain h) = demo_chain (h - 1)" by (auto simp: demo_chain_def demo_parent_def)
  qed
  have txs: "\<forall>h b. 0 \<le> h \<and> h \<le> 3 \<and> getblock demo_node (demo_chain h) = Inr b \<longrightarrow>
      (\<forall>tx\<in>set (rb_transactions b). length (tx_outs tx) < 1)" by (auto simp: demo_node_def)
  have wf: "wf demo_chain_state" by (simp add: demo_chain_state_def wf_demo_account_db)
  have one: "one_chain demo_parent (block_keys (w_db demo_chain_state))"
    by (simp add: demo_block_keys one_chain_def demo_parent_def)
  have right: "heights_right demo_chain 3 (block_keys (w_db demo_chain_state))"
    by (auto simp: demo_block_keys heights_right_def demo_chain_def split: if_splits)
  have pos: "\<forall>p\<in>block_keys (w_db demo_chain_state). 0 \<le> snd p" by (simp add: demo_block_keys)
  have depth: "nat 3 < 4" by simp
  have c3: "demo_chain 3 = ''C3''" "demo_chain 2 = ''C2''" by (simp_all add: demo_chain_def)
  obtain r t where t: "onBlockHash 4 7 demo_pay 1 demo_node ''C3'' demo_chain_state = Some (r, t)"
    and spec: "r = Inr () \<Longrightarrow> one_chain demo_parent (block_keys (w_db t)) \<and> (''C3'', 3) \<in> block_keys (w_db t)
      \<and> (\<exists>k<3. (k = - 1 \<or> (demo_chain k, k) \<in> block_keys (w_db demo_chain_state))
           \<and> (\<forall>h. k < h \<and> h \<le> 3 \<longrightarrow> (demo_chain h, h) \<in> block_keys (w_db t)))"
    using onBlockHash_spec [OF demo_follows par txs demo_pay_one_index depth wf one right pos] unfolding c3 by blast
  have "\<exists>v. onBlockHash 4 7 demo_pay 1 demo_node ''C3'' demo_chain_state = Some (Inr (), v)"
  proof (rule onBlockHash_run [OF demo_follows depth wf, unfolded c3, of 7 demo_pay 1])
    fix k u assume "wf u" and run: "onBlockHash 4 7 demo_pay 1 demo_node ''C3'' demo_chain_state =
        catchLog (processBlockRange 7 demo_pay 1 demo_node [k + 1..3]) () u"
    then obtain v where "processBlockRange 7 demo_pay 1 demo_node [k + 1..3] u = Some (Inr (), v)"
      using demo_range by blast
    then show ?thesis unfolding run by (simp add: catchLog_def catchA_def)
  qed
  then have r: "r = Inr ()" using t by simp
  then obtain k where k: "k < 3" "k = - 1 \<or> (demo_chain k, k) \<in> {(''B1'', 1), (''B2'', 2)}"
    "\<forall>h. k < h \<and> h \<le> 3 \<longrightarrow> (demo_chain h, h) \<in> block_keys (w_db t)"
    using spec unfolding demo_block_keys by blast
  have "k < 2" using k(2) by (auto simp: demo_chain_def split: if_splits)
  then have c2: "(''C2'', 2) \<in> block_keys (w_db t)" using k(3) c3 by force
  moreover have "(''B2'', 2) \<notin> block_keys (w_db t)"
    using spec [OF r] c2 unfolding one_chain_def by fastforce
  ultimately show ?thesis using t r spec by blast
qed

end
