(* ===== verification/Mempool.thy ===== *)
theory Mempool
  imports Blockchain
begin

text \<open>
  \<^verbatim>\<open>tracker/mempool-processor.ts\<close>: the transactions of the node's memory pool are buffered and
  checked in turn, and the unconfirmed transactions of the database are settled against the node.
  Timers and sockets call the handlers; the node's answers are parameters.
\<close>

section \<open>The buffer\<close>

record mempool_state = tracker_state +
  w_buffer :: "btx list"
  w_active :: bool
  w_processingUnconfirmed :: bool
  w_notified :: "string list"

definition onTx_mempool :: "btx result \<Rightarrow> ('s mempool_state_scheme, unit) act" where
  "onTx_mempool parsed =
     bindA (ask w_active) (\<lambda>isActive.
       if isActive then bindA (lift parsed) (\<lambda>tx. modify (\<lambda>s. s\<lparr>w_buffer := w_buffer s @ [tx]\<rparr>))
       else ret ())"

definition notifyTx :: "string \<Rightarrow> ('s mempool_state_scheme, unit) act" where
  "notifyTx txid = modify (\<lambda>s. s\<lparr>w_notified := w_notified s @ [txid]\<rparr>)"

text \<open>\<open>checkTransaction\<close> on a new object: its result, and \<open>doBroadcast\<close> of the object.\<close>

definition runCheck :: "int \<Rightarrow> 'n tracker \<Rightarrow> nat \<Rightarrow> btx \<Rightarrow> ('s mempool_state_scheme, bool) act" where
  "runCheck now cfg fuel tx = (\<lambda>s.
     case checkTransaction now cfg fuel tx \<lparr>w_db = w_db s, w_cache = w_cache s, w_obj = new_object\<rparr> of
       None \<Rightarrow> None
     | Some (r, t) \<Rightarrow> Some (r, s\<lparr>w_db := w_db t, w_cache := w_cache t\<rparr>))"

definition checkAndNotify :: "int \<Rightarrow> 'n tracker \<Rightarrow> nat \<Rightarrow> btx \<Rightarrow> ('s mempool_state_scheme, unit) act" where
  "checkAndNotify now cfg fuel tx =
     bindA (ask w_cache) (\<lambda>cache.
       if cache (tx_id tx) \<noteq> None then ret ()
       else bindA (runCheck now cfg fuel tx) (\<lambda>broadcast. if broadcast then notifyTx (tx_id tx) else ret ()))"

text \<open>An error of \<open>getblockcount\<close> leaves the flag as it is.\<close>

definition refreshActiveStatus :: "int \<Rightarrow> int result \<Rightarrow> ('s mempool_state_scheme, unit) act" where
  "refreshActiveStatus ibdBlockHeight blockcount =
     catchLog (bindA (askDb getHighestBlock) (\<lambda>highestBlock.
       bindA (lift blockcount) (\<lambda>blockHeight.
         modify (\<lambda>s. s\<lparr>w_active := (snd highestBlock \<noteq> 0 \<and> ibdBlockHeight \<le> blockHeight
           \<and> blockHeight \<le> snd highestBlock + 6)\<rparr>)))) ()"

definition processMempool ::
  "int \<Rightarrow> int result \<Rightarrow> int \<Rightarrow> 'n tracker \<Rightarrow> nat \<Rightarrow> ('s mempool_state_scheme, unit) act" where
  "processMempool ibdBlockHeight blockcount now cfg fuel =
     bindA (refreshActiveStatus ibdBlockHeight blockcount) (\<lambda>_.
     bindA (ask w_buffer) (\<lambda>currentMempool.
     bindA (modify (\<lambda>s. s\<lparr>w_buffer := []\<rparr>)) (\<lambda>_.
       forA (checkAndNotify now cfg fuel) currentMempool)))"

definition onPushTx :: "int \<Rightarrow> 'n tracker \<Rightarrow> nat \<Rightarrow> btx result \<Rightarrow> ('s mempool_state_scheme, unit) act" where
  "onPushTx now cfg fuel parsed = bindA (lift parsed) (checkAndNotify now cfg fuel)"

section \<open>Synchronisation\<close>

text \<open>An answer of the node for a raw transaction: an error, or the parse of the text it sent, if any.\<close>

datatype raw_answer = RawError | RawResult "btx result option"

definition freshTxIds :: "tx_cache \<Rightarrow> db \<Rightarrow> string list \<Rightarrow> string list" where
  "freshTxIds cache d txids =
     (let filtered = filter (\<lambda>txid. cache txid = None) txids;
          dbTransactions = map_of (getTransactionsIds filtered d)
      in filter (\<lambda>txid. case dbTransactions txid of None \<Rightarrow> True | Some i \<Rightarrow> i = 0) filtered)"

definition bufferAnswer :: "raw_answer \<Rightarrow> ('s mempool_state_scheme, unit) act" where
  "bufferAnswer a =
     (case a of
        RawError \<Rightarrow> ret ()
      | RawResult result \<Rightarrow> (case result of
            None \<Rightarrow> ret ()
          | Some parsed \<Rightarrow> bindA (lift parsed) (\<lambda>tx. modify (\<lambda>s. s\<lparr>w_buffer := w_buffer s @ [tx]\<rparr>))))"

definition syncMempool ::
  "string list \<Rightarrow> (string list \<Rightarrow> raw_answer list result) \<Rightarrow> ('s mempool_state_scheme, unit) act" where
  "syncMempool mempoolTxIds batch =
     (case splitList mempoolTxIds 10 of
        None \<Rightarrow> unending
      | Some txIdLists \<Rightarrow>
          forA (\<lambda>txids.
            bindA (ask (\<lambda>s. freshTxIds (w_cache s) (w_db s) txids)) (\<lambda>fresh.
              if fresh = [] then ret ()
              else catchLog (bindA (lift (batch fresh)) (\<lambda>txs. forA bufferAnswer txs)) ())) txIdLists)"

section \<open>Unconfirmed transactions\<close>

text \<open>What the node says of a transaction: unknown, in the memory pool, or in the block of that hash.\<close>

datatype tx_status = NotFound | InMempool | InBlock string

definition settleTx :: "(string \<Rightarrow> tx_status) \<Rightarrow> string \<Rightarrow> ('s mempool_state_scheme, unit) act" where
  "settleTx answer txid =
     (case answer txid of
        NotFound \<Rightarrow> bindA (modify (\<lambda>s. s\<lparr>w_cache := (w_cache s)(txid := None)\<rparr>)) (\<lambda>_. onDb (deleteTransaction txid))
      | InMempool \<Rightarrow> ret ()
      | InBlock hash \<Rightarrow>
          bindA (askDb (getBlockByHash hash)) (\<lambda>blk. case blk of
            None \<Rightarrow> ret ()
          | Some b \<Rightarrow> if b_blockID b = 0 then ret () else tryDb (confirmTransactions [txid] (b_blockID b))))"

text \<open>A failed batch of requests ends the round; the flag is reset in any case.\<close>

definition checkUnconfirmed ::
  "(string list \<Rightarrow> (string \<Rightarrow> tx_status) result) \<Rightarrow> ('s mempool_state_scheme, unit) act" where
  "checkUnconfirmed batch =
     bindA (ask w_processingUnconfirmed) (\<lambda>running.
       if running then ret ()
       else bindA (askDb getUnconfirmedTransactionIds) (\<lambda>unconfirmedTxs.
            bindA (catchLog
              (if unconfirmedTxs = [] then ret ()
               else bindA (modify (\<lambda>s. s\<lparr>w_processingUnconfirmed := True\<rparr>)) (\<lambda>_.
                    (case splitList unconfirmedTxs 10 of
                       None \<Rightarrow> unending
                     | Some unconfirmedTxLists \<Rightarrow>
                         forA (\<lambda>txList. bindA (lift (batch txList)) (\<lambda>answer.
                           forA (settleTx answer) txList)) unconfirmedTxLists))) ()) (\<lambda>_.
              modify (\<lambda>s. s\<lparr>w_processingUnconfirmed := False\<rparr>))))"

section \<open>What a round settles\<close>

text \<open>What becomes of a row: gone, confirmed by a known block, or unchanged.\<close>

definition settled :: "(string \<Rightarrow> tx_status) \<Rightarrow> db \<Rightarrow> transaction_row \<Rightarrow> transaction_row list" where
  "settled answer d r =
     (case answer (t_txnTxid r) of
        NotFound \<Rightarrow> []
      | InMempool \<Rightarrow> [r]
      | InBlock hash \<Rightarrow> (case getBlockByHash hash d of
            None \<Rightarrow> [r] | Some b \<Rightarrow> if b_blockID b = 0 then [r] else [r\<lparr>t_blockID := Some (b_blockID b)\<rparr>]))"

definition settle_rows :: "(string \<Rightarrow> tx_status) \<Rightarrow> db \<Rightarrow> string set \<Rightarrow> transaction_row list \<Rightarrow> transaction_row list" where
  "settle_rows answer d X rs = concat (map (\<lambda>r. if t_txnTxid r \<in> X then settled answer d r else [r]) rs)"

lemma settled_txid: "q \<in> set (settled answer d r) \<Longrightarrow> t_txnTxid q = t_txnTxid r"
  by (auto simp: settled_def split: tx_status.splits option.splits if_splits)

lemma settle_rows_insert:
  assumes "x \<notin> X"
  shows "settle_rows answer d {x} (settle_rows answer d X rs) = settle_rows answer d (insert x X) rs"
proof -
  have other: "concat (map (\<lambda>r. if t_txnTxid r \<in> {x} then settled answer d r else [r]) qs) = qs"
    if "\<forall>q\<in>set qs. t_txnTxid q \<noteq> x" for qs
    using that by (induction qs) auto
  show ?thesis unfolding settle_rows_def
  proof (induction rs)
    case (Cons r rs)
    show ?case using Cons.IH assms other [of "settled answer d r"] settled_txid [of _ answer d r] by auto
  qed simp
qed

lemma settle_rows_cong: "blocks d = blocks e \<Longrightarrow> settle_rows answer d X rs = settle_rows answer e X rs"
proof -
  assume "blocks d = blocks e"
  then have g: "getBlockByHash h d = getBlockByHash h e" for h by (simp add: getBlockByHash_def block_def)
  have "settled answer d r = settled answer e r" for r
    by (simp add: settled_def g cong: tx_status.case_cong option.case_cong)
  then have "settled answer d = settled answer e" by (rule ext)
  then show ?thesis by (simp only: settle_rows_def)
qed

lemma settle_rows_one:
  "settle_rows answer d {x} rs = (case answer x of
     NotFound \<Rightarrow> filter (\<lambda>r. t_txnTxid r \<noteq> x) rs
   | InMempool \<Rightarrow> rs
   | InBlock hash \<Rightarrow> (case getBlockByHash hash d of
        None \<Rightarrow> rs
      | Some b \<Rightarrow> if b_blockID b = 0 then rs
          else map (\<lambda>r. if t_txnTxid r = x then r\<lparr>t_blockID := Some (b_blockID b)\<rparr> else r) rs))"
  by (induction rs) (auto simp: settle_rows_def settled_def split: tx_status.splits option.splits)

lemma settleTx_run:
  assumes "wf v"
  shows "\<exists>w. settleTx answer x v = Some (Inr (), w) \<and> wf w \<and> blocks (w_db w) = blocks (w_db v)
    \<and> rows (transactions (w_db w)) = settle_rows answer (w_db v) {x} (rows (transactions (w_db v)))
    \<and> w_cache w = (if answer x = NotFound then (w_cache v)(x := None) else w_cache v)"
proof (cases "answer x")
  case NotFound
  have f: "rows (transactions (deleteTransaction x (w_db v))) = filter (\<lambda>r. t_txnTxid r \<noteq> x) (rows (transactions (w_db v)))"
    "blocks (deleteTransaction x (w_db v)) = blocks (w_db v)"
    unfolding deleteTransaction_def by (simp_all add: delete_transactions_facts [OF assms])
  show ?thesis using NotFound assms by (simp add: settleTx_def settle_rows_one f wf_deleteTransaction)
next
  case InMempool
  then show ?thesis using assms by (simp add: settleTx_def settle_rows_one ret_def)
next
  case (InBlock hash)
  show ?thesis
  proof (cases "getBlockByHash hash (w_db v)")
    case None
    then show ?thesis using InBlock assms by (simp add: settleTx_def settle_rows_one ret_def)
  next
    case (Some b)
    show ?thesis
    proof (cases "b_blockID b = 0")
      case True
      then show ?thesis using InBlock Some assms by (simp add: settleTx_def settle_rows_one ret_def)
    next
      case False
      have "has_id b_blockID (b_blockID b) (blocks (w_db v))"
        using Some find_by_SomeD by (fastforce simp: getBlockByHash_def block_def has_id_iff)
      then have c: "confirmTransactions [x] (b_blockID b) (w_db v) = Inr (set_block (Some (b_blockID b)) [x] (w_db v))"
        by (simp add: confirmTransactions_def)
      then have "settleTx answer x v = Some (Inr (), v\<lparr>w_db := set_block (Some (b_blockID b)) [x] (w_db v)\<rparr>)"
        using InBlock Some False by (simp add: settleTx_def tryDb_def tryModify_def)
      moreover have "rows (transactions (set_block (Some (b_blockID b)) [x] (w_db v))) =
          settle_rows answer (w_db v) {x} (rows (transactions (w_db v)))"
        using InBlock Some False by (simp add: set_block_def settle_rows_one)
      ultimately show ?thesis using InBlock wf_confirmTransactions [OF c assms] by (simp add: set_block_def)
    qed
  qed
qed

lemma settle_loop:
  assumes "wf s" "distinct xs"
  shows "\<exists>t. forA (settleTx answer) xs s = Some (Inr (), t) \<and> wf t \<and> blocks (w_db t) = blocks (w_db s)
    \<and> rows (transactions (w_db t)) = settle_rows answer (w_db s) (set xs) (rows (transactions (w_db s)))
    \<and> (\<forall>x. w_cache t x = (if x \<in> set xs \<and> answer x = NotFound then None else w_cache s x))"
  using assms
proof (induction xs arbitrary: s rule: rev_induct)
  case Nil
  then show ?case by (simp add: ret_def settle_rows_def)
next
  case (snoc x xs)
  obtain u where u: "forA (settleTx answer) xs s = Some (Inr (), u)" "wf u" "blocks (w_db u) = blocks (w_db s)"
    "rows (transactions (w_db u)) = settle_rows answer (w_db s) (set xs) (rows (transactions (w_db s)))"
    "\<forall>x. w_cache u x = (if x \<in> set xs \<and> answer x = NotFound then None else w_cache s x)"
    using snoc.IH [OF snoc.prems(1)] snoc.prems(2) by auto
  obtain t where t: "settleTx answer x u = Some (Inr (), t)" "wf t" "blocks (w_db t) = blocks (w_db u)"
    "rows (transactions (w_db t)) = settle_rows answer (w_db u) {x} (rows (transactions (w_db u)))"
    "w_cache t = (if answer x = NotFound then (w_cache u)(x := None) else w_cache u)"
    using settleTx_run [OF u(2)] by blast
  have "forA (settleTx answer) (xs @ [x]) s = Some (Inr (), t)"
    unfolding forA_append_Inr using u(1) t(1) by (auto simp: bindA_def ret_def)
  moreover have "rows (transactions (w_db t)) = settle_rows answer (w_db s) (set (xs @ [x])) (rows (transactions (w_db s)))"
    using t(4) snoc.prems(2) settle_rows_insert [of x "set xs"]
    unfolding u(4) settle_rows_cong [OF u(3)] by simp
  ultimately show ?case using t(2,3,5) u(3,5) by auto
qed

lemma returns_settleTx [returns_intros]: "returns (settleTx answer x)"
  by (auto simp: settleTx_def intro!: returns_intros split: tx_status.split option.split)

lemma keeps_wf_settleTx [keeps_intros]: "keeps wf (settleTx answer x)"
  by (auto simp: settleTx_def intro!: keeps_intros wf_deleteTransaction split: tx_status.split option.split
      intro: wf_confirmTransactions)

lemma chunk_loop:
  assumes "\<forall>l. batch l = Inr answer"
  shows "forA (\<lambda>txList. bindA (lift (batch txList)) (\<lambda>answer. forA (settleTx answer) txList)) ls s =
    forA (settleTx answer) (concat ls) s"
proof (induction ls arbitrary: s)
  case (Cons l ls)
  have "forA m (l @ k) v = bindA (forA m l) (\<lambda>_. forA m k) v" for m :: "string \<Rightarrow> ('a mempool_state_scheme, unit) act" and k v
    by (induction l arbitrary: v) (auto simp: bindA_def ret_def split: option.split sum.split)
  then show ?case using Cons.IH assms by (auto simp: bindA_def lift_def split: option.split sum.split)
qed simp

definition round :: "(string list \<Rightarrow> (string \<Rightarrow> tx_status) result) \<Rightarrow> string list list \<Rightarrow> ('s mempool_state_scheme, unit) act" where
  "round batch ls = forA (\<lambda>txList. bindA (lift (batch txList)) (\<lambda>answer. forA (settleTx answer) txList)) ls"

lemma round_run:
  assumes "wf s"
  shows "\<exists>r t. round batch ls s = Some (r, t) \<and> wf t \<and> (\<forall>e. r = Inl e \<longrightarrow> (\<exists>l. batch l = Inl e))"
  using assms
proof (induction ls arbitrary: s)
  case Nil
  then show ?case by (simp add: round_def ret_def)
next
  case (Cons l ls)
  show ?case
  proof (cases "batch l")
    case (Inl e)
    then show ?thesis using Cons.prems by (auto simp: round_def bindA_def lift_def)
  next
    case (Inr answer)
    obtain u where u: "forA (settleTx answer) l s = Some (Inr (), u) \<and> wf u"
      using forA_returns [where P = wf, OF _ Cons.prems, of l "settleTx answer"] settleTx_run by metis
    then have "round batch (l # ls) s = round batch ls u"
      by (simp add: round_def bindA_def lift_def Inr)
    then show ?thesis using Cons.IH u by simp
  qed
qed

lemma checkUnconfirmed_eq:
  assumes "\<not> w_processingUnconfirmed s" and "ids = getUnconfirmedTransactionIds (w_db s)" "ids \<noteq> []"
  shows "checkUnconfirmed batch s = bindA (catchLog (round batch (chunks 10 ids)) ())
    (\<lambda>_. modify (\<lambda>s. s\<lparr>w_processingUnconfirmed := False\<rparr>)) (s\<lparr>w_processingUnconfirmed := True\<rparr>)"
  using assms splitList_chunks [of 10 ids]
  by (simp add: checkUnconfirmed_def round_def catchLog_def catchA_def bindA_def modify_def ask_def askDb_def)

lemma distinct_unconfirmed: "wf_db d \<Longrightarrow> distinct (getUnconfirmedTransactionIds d)"
  using table_ok_distinct [OF wf_tables(7)] by (simp add: getUnconfirmedTransactionIds_def distinct_map_filter)

lemma unconfirmed_rows:
  assumes "wf_db d"
  shows "settle_rows answer e (set (getUnconfirmedTransactionIds d)) (rows (transactions d)) =
    concat (map (\<lambda>r. if t_blockID r = None then settled answer e r else [r]) (rows (transactions d)))"
proof -
  have "t_txnTxid r \<in> set (getUnconfirmedTransactionIds d) \<longleftrightarrow> t_blockID r = None" if "r \<in> set (rows (transactions d))" for r
    using that table_uk_inj [OF wf_tables(7) [OF assms]] by (auto simp: getUnconfirmedTransactionIds_def)
  then show ?thesis unfolding settle_rows_def by (intro arg_cong [of _ _ concat] map_cong) simp_all
qed

text \<open>
  C33. A round over the unconfirmed transactions, when none is running, ends with the flag reset,
  whatever the node answers. When the node answers every batch, the round has deleted the
  transactions the node does not know (and dropped them from the cache), confirmed those in a block
  of the database with that block, and left every other transaction as it was.
\<close>

theorem checkUnconfirmed_spec:
  assumes "wf s" and "\<not> w_processingUnconfirmed s" and "\<forall>l. batch l \<noteq> Inl Exit"
  shows "\<exists>t. checkUnconfirmed batch s = Some (Inr (), t) \<and> wf t \<and> \<not> w_processingUnconfirmed t
   \<and> (\<forall>answer. (\<forall>l. batch l = Inr answer) \<longrightarrow>
        rows (transactions (w_db t)) = concat (map (\<lambda>r. if t_blockID r = None then settled answer (w_db s) r else [r])
          (rows (transactions (w_db s))))
      \<and> (\<forall>x. w_cache t x = (if x \<in> set (getUnconfirmedTransactionIds (w_db s)) \<and> answer x = NotFound
           then None else w_cache s x)))"
proof (cases "getUnconfirmedTransactionIds (w_db s) = []")
  case True
  have "concat (map (\<lambda>r. if t_blockID r = None then settled answer (w_db s) r else [r]) (rows (transactions (w_db s))))
      = rows (transactions (w_db s))" for answer
    using unconfirmed_rows [OF assms(1), of answer "w_db s"] True by (simp add: settle_rows_def)
  moreover have "checkUnconfirmed batch s = Some (Inr (), s)"
    using assms(2) True by (simp add: checkUnconfirmed_def catchLog_def catchA_def bindA_def modify_def ask_def askDb_def ret_def)
  ultimately show ?thesis using assms(1,2) True by simp
next
  case False
  let ?ids = "getUnconfirmedTransactionIds (w_db s)" and ?s = "s\<lparr>w_processingUnconfirmed := True\<rparr>"
  obtain r u where u: "round batch (chunks 10 ?ids) ?s = Some (r, u)" "wf u" "\<forall>e. r = Inl e \<longrightarrow> (\<exists>l. batch l = Inl e)"
    using round_run [of ?s batch "chunks 10 ?ids"] assms(1) by auto
  have "checkUnconfirmed batch s = Some (Inr (), u\<lparr>w_processingUnconfirmed := False\<rparr>)"
    unfolding checkUnconfirmed_eq [OF assms(2) refl False]
    using u(1,3) assms(3) by (cases r) (auto simp: catchLog_def catchA_def bindA_def modify_def ret_def)
  moreover have "rows (transactions (w_db u)) = concat (map (\<lambda>r. if t_blockID r = None then settled answer (w_db s) r else [r])
          (rows (transactions (w_db s))))
      \<and> (\<forall>x. w_cache u x = (if x \<in> set ?ids \<and> answer x = NotFound then None else w_cache s x))"
    if all: "\<forall>l. batch l = Inr answer" for answer
  proof -
    have "forA (settleTx answer) ?ids ?s = Some (r, u)"
      using u(1) chunk_loop [OF all, of "chunks 10 ?ids" ?s] by (simp add: round_def)
    then show ?thesis
      using settle_loop [of ?s ?ids answer] assms(1) distinct_unconfirmed unconfirmed_rows [OF assms(1), of answer "w_db s"] by auto
  qed
  ultimately show ?thesis using u(2) by auto
qed

text \<open>One transaction unknown to the node, one in the second block.\<close>

definition demo_pool :: mempool_state where
  "demo_pool = \<lparr>w_db = unconfirmTransactions [''t1'', ''t2''] demo_db, w_cache = [''t1'' \<mapsto> True], w_buffer = [],
     w_active = True, w_processingUnconfirmed = False, w_notified = []\<rparr>"

lemma checkUnconfirmed_spec_witness:
  "\<exists>t. checkUnconfirmed (\<lambda>l. Inr (\<lambda>x. if x = ''t1'' then NotFound else InBlock ''B2'')) demo_pool = Some (Inr (), t)
     \<and> map (\<lambda>r. (t_txnTxid r, t_blockID r)) (rows (transactions (w_db t))) = [(''t2'', Some 2)] \<and> w_cache t ''t1'' = None"
proof -
  let ?a = "\<lambda>x. if x = ''t1'' then NotFound else InBlock ''B2''"
  have hyp: "wf demo_pool" "\<not> w_processingUnconfirmed demo_pool" "\<forall>l. (\<lambda>l. Inr ?a) l \<noteq> Inl Exit"
    by (simp_all add: demo_pool_def wf_unconfirmTransactions wf_demo_db)
  obtain t where t: "checkUnconfirmed (\<lambda>l. Inr ?a) demo_pool = Some (Inr (), t)"
    "rows (transactions (w_db t)) = concat (map (\<lambda>r. if t_blockID r = None then settled ?a (w_db demo_pool) r else [r])
          (rows (transactions (w_db demo_pool))))"
    "\<forall>x. w_cache t x = (if x \<in> set (getUnconfirmedTransactionIds (w_db demo_pool)) \<and> ?a x = NotFound then None else w_cache demo_pool x)"
    using checkUnconfirmed_spec [OF hyp] by (elim exE conjE allE [of _ ?a] impE) (rule refl [THEN allI], rule that)
  have "map (\<lambda>r. (t_txnTxid r, t_blockID r)) (rows (transactions (w_db t))) = [(''t2'', Some 2)]"
    unfolding t(2) by (simp add: demo_pool_def demo_db_def unconfirmTransactions_def set_block_def settled_def getBlockByHash_def block_def)
  moreover have "w_cache t ''t1'' = None"
    using t(3) by (simp add: demo_pool_def demo_db_def unconfirmTransactions_def set_block_def getUnconfirmedTransactionIds_def)
  ultimately show ?thesis using t(1) by (intro exI [of _ t] conjI)
qed

end
