(* ===== verification/Push_Tx.thy ===== *)
theory Push_Tx
  imports Tracker_Transaction
begin

text \<open>
  \<^verbatim>\<open>pushtx/pushtx-processor.ts\<close> and the counters of \<^verbatim>\<open>pushtx/status.ts\<close>: a transaction is handed to
  the Soroban network or to the local node, and the outputs of a transaction can be checked first.
  The state keeps every transaction handed over, with the answer.
\<close>

section \<open>State and environment\<close>

record push_state = clocked +
  w_sent :: "(string \<times> string option result) list"
  w_emitted :: "(string \<times> string option result) list"
  w_tracked :: "string list"
  w_push_count :: int
  w_push_amount :: int

text \<open>
  The configuration and the third parties: \<open>parse\<close> is \<open>Transaction.fromHex\<close>, \<open>present\<close> whether
  \<open>getrawtransaction\<close> gave something, \<open>ntx\<close> the indexer's addresses with their transactions.
\<close>

record push_env =
  pe_parse :: "string \<Rightarrow> btx result"
  pe_pay :: "payment \<Rightarrow> script \<Rightarrow> string option result"
  pe_ntx :: "nat \<Rightarrow> string list \<Rightarrow> (string \<times> int) list result"
  pe_local_bitcoind :: bool
  pe_present :: "nat \<Rightarrow> string \<Rightarrow> bool result"
  pe_send :: "nat \<Rightarrow> string \<Rightarrow> string option result"
  pe_pando :: bool
  pe_emit :: "nat \<Rightarrow> string \<Rightarrow> string option result"
  pe_secure :: bool

section \<open>Strict mode\<close>

definition strictVout :: "'e push_env_scheme \<Rightarrow> btx \<Rightarrow> db \<Rightarrow> int list \<times> (string \<times> int) list \<Rightarrow> int
    \<Rightarrow> (int list \<times> (string \<times> int) list) result" where
  "strictVout env tx d = (\<lambda>(faultyOutputs, addrMap) vout.
     if int (length (tx_outs tx)) \<le> vout then Inl (Err Txout_VOUT)
     else if vout < 0 then Inl (Exn ''output is undefined'')
     else case outputScript2Address (pe_pay env) (out_script (tx_outs tx ! nat vout)) of
            None \<Rightarrow> Inr (faultyOutputs, addrMap)
          | Some address \<Rightarrow>
              if address = '''' then Inr (faultyOutputs, addrMap)
              else (case getAddressNbTransactions (Some address) d of
                      None \<Rightarrow> Inr (faultyOutputs @ [vout], addrMap)
                    | Some nbTxs \<Rightarrow>
                        if 0 < nbTxs \<or> map_of addrMap address \<noteq> None then Inr (faultyOutputs @ [vout], addrMap)
                        else Inr (faultyOutputs, js_set address vout addrMap)))"

definition indexerFaults :: "(string \<times> int) list \<Rightarrow> (string \<times> int) list \<Rightarrow> int list" where
  "indexerFaults addrMap results =
     concat (map (\<lambda>(address, ntx).
       if 0 < ntx then (case map_of addrMap address of None \<Rightarrow> [] | Some vout \<Rightarrow> [vout]) else []) results)"

definition enforceStrictModeVouts ::
  "'e push_env_scheme \<Rightarrow> string \<Rightarrow> int list \<Rightarrow> ('s push_state_scheme, int list) act" where
  "enforceStrictModeVouts env rawtx vouts =
     bindA (catchA (lift (pe_parse env rawtx)) (\<lambda>_. throw (Err Tx_PARSE))) (\<lambda>tx.
     bindA (bindA (askDb (\<lambda>d. foldE (strictVout env tx d) ([], []) vouts)) lift) (\<lambda>(faultyOutputs, addrMap).
       if addrMap \<noteq> [] \<and> \<not> pe_local_bitcoind env
       then bindA (remote (\<lambda>k. pe_ntx env k (map fst addrMap))) (\<lambda>results.
              ret (faultyOutputs @ indexerFaults addrMap results))
       else ret faultyOutputs))"

section \<open>Push\<close>

definition updateStats :: "int \<Rightarrow> ('s push_state_scheme, unit) act" where
  "updateStats amount =
     modify (\<lambda>s. s\<lparr>w_push_count := w_push_count s + 1, w_push_amount := w_push_amount s + amount\<rparr>)"

definition notifyTracker :: "string \<Rightarrow> ('s push_state_scheme, unit) act" where
  "notifyTracker rawtx = modify (\<lambda>s. s\<lparr>w_tracked := w_tracked s @ [rawtx]\<rparr>)"

definition sendRaw :: "'e push_env_scheme \<Rightarrow> string \<Rightarrow> ('s push_state_scheme, string option) act" where
  "sendRaw env rawtx =
     (\<lambda>s. let r = pe_send env (w_clock s) rawtx
          in Some (r, s\<lparr>w_clock := Suc (w_clock s), w_sent := w_sent s @ [(rawtx, r)]\<rparr>))"

definition emitRaw :: "'e push_env_scheme \<Rightarrow> string \<Rightarrow> ('s push_state_scheme, string option) act" where
  "emitRaw env rawtx =
     (\<lambda>s. let r = pe_emit env (w_clock s) rawtx
          in Some (r, s\<lparr>w_clock := Suc (w_clock s), w_emitted := w_emitted s @ [(rawtx, r)]\<rparr>))"

text \<open>The attempt over PandoTx: the transaction id, and whether the local node is still to be tried.\<close>

definition tryPando :: "'e push_env_scheme \<Rightarrow> string \<Rightarrow> bool \<Rightarrow> string \<Rightarrow> ('s push_state_scheme, string \<times> bool) act" where
  "tryPando env rawtx forceLocalPush txid =
     (if pe_pando env \<and> \<not> forceLocalPush
      then catchA (bindA (emitRaw env rawtx) (\<lambda>emittedTxid. case emittedTxid of
               None \<Rightarrow> throw (Exn ''PandoTx did not return a txid'')
             | Some t \<Rightarrow> ret (t, False)))
           (\<lambda>_. ret (txid, \<not> pe_secure env))
      else ret (txid, True))"

definition pushTx :: "'e push_env_scheme \<Rightarrow> string \<Rightarrow> bool \<Rightarrow> ('s push_state_scheme, string) act" where
  "pushTx env rawtx forceLocalPush =
     bindA (catchA (lift (pe_parse env rawtx)) (\<lambda>_. throw (Err Tx_PARSE))) (\<lambda>tx.
     bindA (catchA (remote (\<lambda>k. pe_present env k (tx_id tx))) (\<lambda>_. ret False)) (\<lambda>present.
       if present then ret (tx_id tx)
       else bindA (tryPando env rawtx forceLocalPush (tx_id tx)) (\<lambda>(txid, processLocalPush).
            bindA (if processLocalPush then sendRaw env rawtx else ret (Some txid)) (\<lambda>txid.
            bindA (updateStats (sum_list (map out_value (tx_outs tx)))) (\<lambda>_.
            bindA (notifyTracker rawtx) (\<lambda>_. case txid of
              None \<Rightarrow> throw (Exn ''PushTx did not return a txid'')
            | Some t \<Rightarrow> ret t))))))"

section \<open>Facts\<close>

lemma act_eval:
  "remote f s = Some (f (w_clock s), s\<lparr>w_clock := Suc (w_clock s)\<rparr>)"
  "updateStats v s = Some (Inr (), s\<lparr>w_push_count := w_push_count s + 1, w_push_amount := w_push_amount s + v\<rparr>)"
  "notifyTracker r s = Some (Inr (), s\<lparr>w_tracked := w_tracked s @ [r]\<rparr>)"
  "sendRaw env r s = Some (pe_send env (w_clock s) r,
     s\<lparr>w_clock := Suc (w_clock s), w_sent := w_sent s @ [(r, pe_send env (w_clock s) r)]\<rparr>)"
  "emitRaw env r s = Some (pe_emit env (w_clock s) r,
     s\<lparr>w_clock := Suc (w_clock s), w_emitted := w_emitted s @ [(r, pe_emit env (w_clock s) r)]\<rparr>)"
  by (simp_all add: sendRaw_def emitRaw_def Let_def remote_def updateStats_def notifyTracker_def)

lemma returns_push_calls [returns_intros]:
  "returns (updateStats v)" "returns (notifyTracker r)" "returns (sendRaw env r)" "returns (emitRaw env r)"
  by (auto simp: updateStats_def notifyTracker_def intro: returns_basic)
    (simp_all add: returns_def sendRaw_def emitRaw_def Let_def)

lemma returns_tryPando [returns_intros]: "returns (tryPando env rawtx force txid)"
  unfolding tryPando_def by (auto intro!: returns_intros split: option.split)

lemma returns_pushTx [returns_intros]: "returns (pushTx env rawtx force)"
  unfolding pushTx_def
  by (intro returns_intros) (auto intro!: returns_intros split: prod.split option.split)

lemma returns_enforceStrictModeVouts [returns_intros]: "returns (enforceStrictModeVouts env rawtx vouts)"
  unfolding enforceStrictModeVouts_def by (intro returns_intros) (auto intro!: returns_intros split: prod.split)

text \<open>The database is left alone; what is handed over or announced is only ever added to.\<close>

definition grown :: "'b set \<Rightarrow> ('a \<Rightarrow> 'b) \<Rightarrow> 'a list \<Rightarrow> 'a list \<Rightarrow> bool" where
  "grown R f xs ys \<longleftrightarrow> (\<exists>l. ys = xs @ l \<and> f ` set l \<subseteq> R)"

lemma grown_simps [simp]: "grown R f xs xs" "f x \<in> R \<Longrightarrow> grown R f xs (xs @ [x])"
  by (auto simp: grown_def)

lemma grown_trans: "\<lbrakk>grown R f xs ys; grown R f ys zs\<rbrakk> \<Longrightarrow> grown R f xs zs"
  unfolding grown_def by (metis (no_types, lifting) append.assoc image_Un le_sup_iff set_append)

lemma grown_mono: "\<lbrakk>grown R f xs ys; R \<subseteq> R'\<rbrakk> \<Longrightarrow> grown R' f xs ys"
  unfolding grown_def by blast

lemma grown_set: "grown R f xs ys \<Longrightarrow> set xs \<subseteq> set ys"
  by (auto simp: grown_def)

definition hands_over :: "string set \<Rightarrow> 's push_state_scheme \<Rightarrow> 's push_state_scheme \<Rightarrow> bool" where
  "hands_over R s t \<longleftrightarrow> grown R (\<lambda>x. x) (w_tracked s) (w_tracked t)
     \<and> grown R fst (w_sent s) (w_sent t) \<and> grown R fst (w_emitted s) (w_emitted t)"

definition push_grows :: "string set \<Rightarrow> 's push_state_scheme \<Rightarrow> 's push_state_scheme \<Rightarrow> bool" where
  "push_grows R s t \<longleftrightarrow> w_db t = w_db s \<and> hands_over R s t"

lemma hands_over_refl [simp]: "hands_over R s s"
  by (simp add: hands_over_def)

lemma hands_over_trans: "\<lbrakk>hands_over R s t; hands_over R t u\<rbrakk> \<Longrightarrow> hands_over R s u"
  unfolding hands_over_def by (auto intro: grown_trans)

lemma hands_over_mono: "\<lbrakk>hands_over R s t; R \<subseteq> R'\<rbrakk> \<Longrightarrow> hands_over R' s t"
  unfolding hands_over_def by (auto intro: grown_mono)

lemma push_grows_refl [simp]: "push_grows R s s"
  by (simp add: push_grows_def)

lemma push_grows_trans: "\<lbrakk>push_grows R s t; push_grows R t u\<rbrakk> \<Longrightarrow> push_grows R s u"
  unfolding push_grows_def by (auto intro: hands_over_trans)

lemma push_grows_mono: "\<lbrakk>push_grows R s t; R \<subseteq> R'\<rbrakk> \<Longrightarrow> push_grows R' s t"
  unfolding push_grows_def by (auto intro: hands_over_mono)

lemma grows_primitives:
  "keeps (push_grows R s) (remote f)" "keeps (push_grows R s) (updateStats v)"
  "raw \<in> R \<Longrightarrow> keeps (push_grows R s) (notifyTracker raw)"
  "raw \<in> R \<Longrightarrow> keeps (push_grows R s) (sendRaw env raw)" "raw \<in> R \<Longrightarrow> keeps (push_grows R s) (emitRaw env raw)"
  unfolding keeps_def
  by (auto simp: act_eval push_grows_def hands_over_def intro: grown_trans)

lemma grows_tryPando: "raw \<in> R \<Longrightarrow> keeps (push_grows R s) (tryPando env raw force txid)"
  unfolding tryPando_def by (auto intro!: keeps_intros grows_primitives split: option.split)

lemma pushTx_grows: "raw \<in> R \<Longrightarrow> keeps (push_grows R s) (pushTx env raw force)"
  unfolding pushTx_def
  by (auto intro!: keeps_intros grows_primitives grows_tryPando split: prod.split option.split)

lemma tryPando_cases:
  assumes "tryPando env rawtx force txid s = Some (r, t)"
  obtains (off) "\<not> (pe_pando env \<and> \<not> force)" "r = Inr (txid, True)" "t = s"
  | (pushed) id where "pe_pando env" "\<not> force" "pe_emit env (w_clock s) rawtx = Inr (Some id)" "r = Inr (id, False)"
      "t = s\<lparr>w_clock := Suc (w_clock s), w_emitted := w_emitted s @ [(rawtx, Inr (Some id))]\<rparr>"
  | (failed) "pe_pando env" "\<not> force" "\<forall>id. pe_emit env (w_clock s) rawtx \<noteq> Inr (Some id)" "r = Inr (txid, \<not> pe_secure env)"
      "t = s\<lparr>w_clock := Suc (w_clock s), w_emitted := w_emitted s @ [(rawtx, pe_emit env (w_clock s) rawtx)]\<rparr>"
proof (cases "pe_pando env \<and> \<not> force")
  case True
  show ?thesis
  proof (cases "pe_emit env (w_clock s) rawtx")
    case (Inl e)
    then show ?thesis using assms True
      by (intro failed) (auto simp: tryPando_def catchA_def bindA_def act_eval ret_def)
  next
    case (Inr x)
    show ?thesis
    proof (cases x)
      case None
      then show ?thesis using assms True Inr
        by (intro failed) (auto simp: tryPando_def catchA_def bindA_def act_eval ret_def throw_def)
    next
      case (Some id)
      then show ?thesis using assms True Inr
        by (intro pushed [of id]) (auto simp: tryPando_def catchA_def bindA_def act_eval ret_def)
    qed
  qed
qed (use assms off in \<open>auto simp: tryPando_def\<close>)

text \<open>One call of \<open>pushTx\<close> with a transaction that parses and that the node does not have.\<close>

lemma pushTx_fresh:
  assumes p: "pe_parse env rawtx = Inr tx" and a: "pe_present env (w_clock s) (tx_id tx) \<noteq> Inr True"
  shows "pushTx env rawtx force s =
    bindA (tryPando env rawtx force (tx_id tx)) (\<lambda>(txid, processLocalPush).
      bindA (if processLocalPush then sendRaw env rawtx else ret (Some txid)) (\<lambda>txid.
      bindA (updateStats (sum_list (map out_value (tx_outs tx)))) (\<lambda>_.
      bindA (notifyTracker rawtx) (\<lambda>_. case txid of
        None \<Rightarrow> throw (Exn ''PushTx did not return a txid'') | Some t \<Rightarrow> ret t)))) (s\<lparr>w_clock := Suc (w_clock s)\<rparr>)"
proof -
  have "catchA (remote (\<lambda>k. pe_present env k (tx_id tx))) (\<lambda>_. ret False) s
      = Some (Inr False, s\<lparr>w_clock := Suc (w_clock s)\<rparr>)"
    using a by (cases "pe_present env (w_clock s) (tx_id tx)") (auto simp: catchA_def act_eval ret_def)
  then show ?thesis
    using p by (simp add: pushTx_def bindA_def catchA_def lift_def)
qed

text \<open>What is left once PandoTx was tried.\<close>

definition pushRest :: "'e push_env_scheme \<Rightarrow> string \<Rightarrow> btx \<Rightarrow> string \<times> bool \<Rightarrow> ('s push_state_scheme, string) act" where
  "pushRest env rawtx tx = (\<lambda>(txid, processLocalPush).
     bindA (if processLocalPush then sendRaw env rawtx else ret (Some txid)) (\<lambda>txid.
     bindA (updateStats (sum_list (map out_value (tx_outs tx)))) (\<lambda>_.
     bindA (notifyTracker rawtx) (\<lambda>_. case txid of
       None \<Rightarrow> throw (Exn ''PushTx did not return a txid'') | Some t \<Rightarrow> ret t))))"

lemma pushRest_done:
  "pushRest env rawtx tx (txid, False) u = Some (Inr txid, u\<lparr>w_push_count := w_push_count u + 1,
     w_push_amount := w_push_amount u + sum_list (map out_value (tx_outs tx)), w_tracked := w_tracked u @ [rawtx]\<rparr>)"
  by (simp add: pushRest_def act_eval bindA_eval(1) ret_def)

lemma pushRest_local:
  "pushRest env rawtx tx (txid, True) u =
    (let q = pe_send env (w_clock u) rawtx; v = u\<lparr>w_clock := Suc (w_clock u), w_sent := w_sent u @ [(rawtx, q)]\<rparr>;
         w = v\<lparr>w_push_count := w_push_count u + 1,
           w_push_amount := w_push_amount u + sum_list (map out_value (tx_outs tx)), w_tracked := w_tracked u @ [rawtx]\<rparr>
     in case q of Inl e \<Rightarrow> Some (Inl e, v)
        | Inr None \<Rightarrow> Some (Inl (Exn ''PushTx did not return a txid''), w)
        | Inr (Some x) \<Rightarrow> Some (Inr x, w))"
  by (simp add: pushRest_def Let_def bindA_def act_eval ret_def throw_def split: sum.split option.split)

text \<open>What a successful push leaves behind.\<close>

lemma pushRest_announces: "pushRest env rawtx tx x u = Some (Inr i, t) \<Longrightarrow> rawtx \<in> set (w_tracked t)"
  by (cases x; cases "snd x")
    (auto simp: pushRest_done pushRest_local Let_def split: sum.splits option.splits)

lemma pushTx_announces:
  assumes "pushTx env rawtx force s = Some (Inr i, t)"
  shows "\<exists>tx. pe_parse env rawtx = Inr tx \<and> (pe_present env (w_clock s) (tx_id tx) = Inr True \<or> rawtx \<in> set (w_tracked t))"
proof (cases "pe_parse env rawtx")
  case (Inl e)
  then show ?thesis using assms by (auto simp: pushTx_def bindA_def catchA_def lift_def throw_def)
next
  case (Inr tx)
  show ?thesis
  proof (cases "pe_present env (w_clock s) (tx_id tx) = Inr True")
    case False
    then have "bindA (tryPando env rawtx force (tx_id tx)) (pushRest env rawtx tx) (s\<lparr>w_clock := Suc (w_clock s)\<rparr>) = Some (Inr i, t)"
      using assms unfolding pushTx_fresh [OF Inr False] pushRest_def by simp
    then show ?thesis using Inr by (auto simp: bindA_Inr dest: pushRest_announces)
  qed (use Inr in simp)
qed

text \<open>
  C11. \<open>pushTx\<close> always ends and never touches the database. A transaction id it returns is that of
  a transaction the node already had, or was given by the node or by PandoTx in answer to this
  very transaction, or, in secure mode only, is that of a transaction PandoTx failed to push: the
  caller is told of a success, the counters and the tracker too. In secure mode the transaction
  is never handed to the local node. An error leaves the counters and the tracker alone, unless
  the node answered without an id.
\<close>

theorem pushTx_spec:
  assumes "pushTx env rawtx force s = Some (r, t)"
  shows "w_db t = w_db s
   \<and> (\<forall>txid. r = Inr txid \<longrightarrow> (\<exists>tx. pe_parse env rawtx = Inr tx \<and>
        (pe_present env (w_clock s) (tx_id tx) = Inr True \<and> txid = tx_id tx \<and> t = s\<lparr>w_clock := Suc (w_clock s)\<rparr>
       \<or> w_tracked t = w_tracked s @ [rawtx] \<and> w_push_count t = w_push_count s + 1
         \<and> w_push_amount t = w_push_amount s + sum_list (map out_value (tx_outs tx))
         \<and> (w_sent t = w_sent s @ [(rawtx, Inr (Some txid))]
            \<or> w_sent t = w_sent s \<and> w_emitted t = w_emitted s @ [(rawtx, Inr (Some txid))]
            \<or> w_sent t = w_sent s \<and> pe_secure env \<and> txid = tx_id tx
              \<and> (\<exists>q. w_emitted t = w_emitted s @ [(rawtx, q)] \<and> (\<forall>id. q \<noteq> Inr (Some id)))))))
   \<and> (\<forall>e. r = Inl e \<longrightarrow> (w_tracked t = w_tracked s \<and> w_push_count t = w_push_count s)
        \<or> e = Exn ''PushTx did not return a txid'')
   \<and> (pe_pando env \<and> pe_secure env \<and> \<not> force \<longrightarrow> w_sent t = w_sent s)"
proof (cases "pe_parse env rawtx")
  case (Inl e)
  then show ?thesis using assms by (auto simp: pushTx_def bindA_def catchA_def lift_def throw_def)
next
  case (Inr tx)
  show ?thesis
  proof (cases "pe_present env (w_clock s) (tx_id tx) = Inr True")
    case True
    then show ?thesis using assms Inr
      by (auto simp: pushTx_def bindA_def catchA_def lift_def act_eval ret_def)
  next
    case False
    let ?s = "s\<lparr>w_clock := Suc (w_clock s)\<rparr>"
    obtain q u where q: "tryPando env rawtx force (tx_id tx) ?s = Some (q, u)"
      using returnsD [OF returns_tryPando] by blast
    have run: "bindA (tryPando env rawtx force (tx_id tx)) (pushRest env rawtx tx) ?s = Some (r, t)"
      using assms unfolding pushTx_fresh [OF Inr False] pushRest_def .
    from q show ?thesis
    proof (cases rule: tryPando_cases)
      case off
      then show ?thesis using run Inr q
        by (auto simp: bindA_def pushRest_local Let_def split: sum.splits option.splits)
    next
      case (pushed id)
      then show ?thesis using run Inr q by (auto simp: bindA_def pushRest_done)
    next
      case failed
      show ?thesis
      proof (cases "pe_secure env")
        case True
        then show ?thesis using run Inr q failed by (auto simp: bindA_def pushRest_done)
      next
        case no: False
        then show ?thesis using run Inr q failed
          by (auto simp: bindA_def pushRest_local Let_def split: sum.splits option.splits)
      qed
    qed
  qed
qed

text \<open>A node that refuses everything, with PandoTx in secure mode and failing.\<close>

definition demo_push_env :: push_env where
  "demo_push_env = \<lparr>pe_parse = (\<lambda>h. if h = ''00'' then Inr \<lparr>tx_id = ''T'', tx_version = 2, tx_locktime = 0, tx_ins = [],
       tx_outs = [\<lparr>out_script = template P2TR (replicate 32 7), out_value = 25\<rparr>]\<rparr> else Inl (Exn ''hex'')),
     pe_pay = (\<lambda>p s. Inr (Some ''a'')), pe_ntx = (\<lambda>k l. Inr [(''a'', 0)]), pe_local_bitcoind = False,
     pe_present = (\<lambda>k txid. Inl Rejected), pe_send = (\<lambda>k h. Inl Rejected),
     pe_pando = True, pe_emit = (\<lambda>k h. Inl Rejected), pe_secure = True\<rparr>"

definition demo_push :: push_state where
  "demo_push = \<lparr>w_db = empty_db, w_clock = 0, w_sent = [], w_emitted = [], w_tracked = [], w_push_count = 0, w_push_amount = 0\<rparr>"

lemma demo_push_run:
  "pushTx demo_push_env ''00'' False demo_push = Some (Inr ''T'', demo_push\<lparr>w_clock := 2, w_emitted := [(''00'', Inl Rejected)],
     w_tracked := [''00''], w_push_count := 1, w_push_amount := 25\<rparr>)"
  by (simp add: pushTx_def demo_push_env_def demo_push_def act_eval bindA_def catchA_def lift_def ret_def tryPando_def)

lemma pushTx_spec_witness:
  "\<exists>r t. pushTx demo_push_env ''00'' False demo_push = Some (r, t) \<and> r = Inr ''T'' \<and> w_sent t = [] \<and> w_tracked t = [''00'']"
  using pushTx_spec [OF demo_push_run] demo_push_run by (auto simp: demo_push_env_def demo_push_def)

section \<open>What strict mode guarantees\<close>

definition paidTo :: "'e push_env_scheme \<Rightarrow> btx \<Rightarrow> int \<Rightarrow> string option" where
  "paidTo env tx vout =
     (case outputScript2Address (pe_pay env) (out_script (tx_outs tx ! nat vout)) of
        None \<Rightarrow> None | Some a \<Rightarrow> if a = '''' then None else Some a)"

definition paidAddresses :: "'e push_env_scheme \<Rightarrow> btx \<Rightarrow> int list \<Rightarrow> string list" where
  "paidAddresses env tx vouts = List.map_filter (paidTo env tx) vouts"

lemma strictVout_Inr:
  "strictVout env tx d (f, m) vout = Inr (g, n) \<longleftrightarrow> 0 \<le> vout \<and> vout < int (length (tx_outs tx))
   \<and> (case paidTo env tx vout of
        None \<Rightarrow> g = f \<and> n = m
      | Some a \<Rightarrow> if 0 < countTransactions [a] [] d \<or> map_of m a \<noteq> None then g = f @ [vout] \<and> n = m
                 else g = f \<and> n = js_set a vout m)"
  by (auto simp: strictVout_def paidTo_def getAddressNbTransactions_def split: option.splits if_splits)

lemma paidAddresses_simps [simp]:
  "paidAddresses env tx [] = []"
  "paidAddresses env tx (v # vs) = (case paidTo env tx v of None \<Rightarrow> [] | Some a \<Rightarrow> [a]) @ paidAddresses env tx vs"
  by (auto simp: paidAddresses_def List.map_filter_simps split: option.split)

lemma js_set_new: "map_of m k = None \<Longrightarrow> js_set k v m = m @ [(k, v)]"
  by (induction m) (auto split: if_splits)

lemma strict_loop_grows: "foldE (strictVout env tx d) (f, m) vouts = Inr (g, n) \<Longrightarrow> \<exists>h. g = f @ h"
proof (induction vouts arbitrary: f m)
  case (Cons v vs)
  then obtain f' m' where f': "strictVout env tx d (f, m) v = Inr (f', m')" "foldE (strictVout env tx d) (f', m') vs = Inr (g, n)"
    by (auto split: sum.splits)
  then have "\<exists>h. f' = f @ h" by (auto simp: strictVout_Inr split: option.splits if_splits)
  then show ?case using Cons.IH [OF f'(2)] by auto
qed simp

text \<open>A loop that found no fault: the map holds the addresses paid, in order, each once and unused.\<close>

lemma strict_loop:
  assumes "foldE (strictVout env tx d) ([], m) vouts = Inr ([], n)" and "distinct (map fst m)"
  shows "(\<forall>v\<in>set vouts. 0 \<le> v \<and> v < int (length (tx_outs tx)))
    \<and> map fst n = map fst m @ paidAddresses env tx vouts \<and> distinct (map fst m @ paidAddresses env tx vouts)
    \<and> (\<forall>a\<in>set (paidAddresses env tx vouts). countTransactions [a] [] d \<le> 0)"
  using assms
proof (induction vouts arbitrary: m)
  case (Cons v vs)
  then obtain f' m' where f': "strictVout env tx d ([], m) v = Inr (f', m')" "foldE (strictVout env tx d) (f', m') vs = Inr ([], n)"
    by (auto split: sum.splits)
  then have e: "f' = []" using strict_loop_grows [OF f'(2)] by simp
  show ?case
  proof (cases "paidTo env tx v")
    case None
    then have "m' = m" "0 \<le> v" "v < int (length (tx_outs tx))" using f'(1) e by (simp_all add: strictVout_Inr)
    then show ?thesis using f'(2) e None Cons.IH [of m] Cons.prems(2) by simp
  next
    case (Some a)
    then have m': "m' = m @ [(a, v)]" and new: "map_of m a = None" and unused: "countTransactions [a] [] d \<le> 0"
      and v: "0 \<le> v" "v < int (length (tx_outs tx))"
      using f'(1) e by (auto simp: strictVout_Inr js_set_new split: if_splits)
    have "distinct (map fst m')" using Cons.prems(2) new by (simp add: m' map_of_eq_None_iff)
    then show ?thesis using f'(2) Cons.IH [of m'] m' unused v Some e by simp
  qed
qed simp

text \<open>
  C29. When strict mode reports no fault, every output checked exists, no two of them pay to the
  same address, none of their addresses has a transaction in the database, and, unless the indexer
  is the local node, the indexer knows no transaction of any of them.
\<close>

theorem enforceStrictModeVouts_safe:
  assumes "enforceStrictModeVouts env rawtx vouts s = Some (Inr [], t)"
  shows "w_db t = w_db s \<and> (\<exists>tx. pe_parse env rawtx = Inr tx
    \<and> (\<forall>v\<in>set vouts. 0 \<le> v \<and> v < int (length (tx_outs tx)))
    \<and> distinct (paidAddresses env tx vouts)
    \<and> (\<forall>a\<in>set (paidAddresses env tx vouts). getAddressNbTransactions (Some a) (w_db s) = Some 0)
    \<and> (paidAddresses env tx vouts \<noteq> [] \<and> \<not> pe_local_bitcoind env \<longrightarrow>
        (\<exists>results. pe_ntx env (w_clock s) (paidAddresses env tx vouts) = Inr results
           \<and> (\<forall>(a, ntx)\<in>set results. a \<in> set (paidAddresses env tx vouts) \<longrightarrow> ntx \<le> 0))))"
proof -
  obtain tx where tx: "pe_parse env rawtx = Inr tx"
    using assms by (cases "pe_parse env rawtx")
      (auto simp: enforceStrictModeVouts_def bindA_def catchA_def lift_def throw_def)
  then obtain f n where l: "foldE (strictVout env tx (w_db s)) ([], []) vouts = Inr (f, n)"
    and run: "(if n \<noteq> [] \<and> \<not> pe_local_bitcoind env
       then bindA (remote (\<lambda>k. pe_ntx env k (map fst n))) (\<lambda>results. ret (f @ indexerFaults n results))
       else ret f) s = Some (Inr [], t)"
    using assms by (cases "foldE (strictVout env tx (w_db s)) ([], []) vouts")
      (auto simp: enforceStrictModeVouts_def bindA_Inr catchA_Some)
  have f: "f = []" using run by (auto simp: bindA_Inr split: if_splits)
  have facts: "\<forall>v\<in>set vouts. 0 \<le> v \<and> v < int (length (tx_outs tx))"
    "map fst n = paidAddresses env tx vouts" "distinct (map fst n)"
    "\<forall>a\<in>set (paidAddresses env tx vouts). countTransactions [a] [] (w_db s) \<le> 0"
    using strict_loop [of env tx "w_db s" "[]" vouts n] l f by auto
  have idx: "\<exists>results. pe_ntx env (w_clock s) (map fst n) = Inr results \<and> (\<forall>(a, ntx)\<in>set results. a \<in> set (map fst n) \<longrightarrow> ntx \<le> 0)"
    if "map fst n \<noteq> [] \<and> \<not> pe_local_bitcoind env"
  proof -
    have *: "n \<noteq> []" "\<not> pe_local_bitcoind env" using that by auto
    then obtain results where r: "pe_ntx env (w_clock s) (map fst n) = Inr results" "indexerFaults n results = []"
      using run f by (auto simp: bindA_Inr act_eval)
    have "ntx \<le> 0" if "(a, ntx) \<in> set results" "a \<in> set (map fst n)" for a ntx
    proof (rule ccontr)
      assume "\<not> ntx \<le> 0"
      moreover obtain v where "map_of n a = Some v"
        using \<open>a \<in> set (map fst n)\<close> by (metis (no_types) map_of_eq_None_iff not_None_eq set_map)
      ultimately show False using r(2) that(1) by (auto simp: indexerFaults_def)
    qed
    then show ?thesis using r(1) by blast
  qed
  have "w_db t = w_db s" using run by (auto simp: bindA_Inr act_eval split: if_splits)
  moreover have "getAddressNbTransactions (Some a) (w_db s) = Some 0" if "a \<in> set (paidAddresses env tx vouts)" for a
    using facts(4) that by (force simp: getAddressNbTransactions_def countTransactions_def)
  ultimately show ?thesis using tx facts(1,3) idx unfolding facts(2) by blast
qed

lemma enforceStrictModeVouts_safe_witness:
  "\<exists>t. enforceStrictModeVouts demo_push_env ''00'' [0] demo_push = Some (Inr [], t)
     \<and> getAddressNbTransactions (Some ''a'') (w_db t) = Some 0"
proof -
  have a: "outputScript2Address (\<lambda>p s. Inr (Some ''a'')) (template P2TR (replicate 32 7)) = Some ''a''"
    using outputScript2Address_pays_to [of P2TR "template P2TR (replicate 32 7)"] by (force simp: pays_to_def)
  then have r: "enforceStrictModeVouts demo_push_env ''00'' [0] demo_push = Some (Inr [], demo_push\<lparr>w_clock := 1\<rparr>)"
    by (simp add: enforceStrictModeVouts_def bindA_def catchA_def lift_def act_eval ret_def askDb_def ask_def strictVout_def
        demo_push_env_def demo_push_def getAddressNbTransactions_def countTransactions_def txids_addr_def empty_db_def empty_table_def
        indexerFaults_def)
  have "paidAddresses demo_push_env tx [0] = [''a'']" if "pe_parse demo_push_env ''00'' = Inr tx" for tx
    using that a by (auto simp: demo_push_env_def paidAddresses_def paidTo_def List.map_filter_simps)
  moreover obtain tx where "pe_parse demo_push_env ''00'' = Inr tx"
    "\<forall>a\<in>set (paidAddresses demo_push_env tx [0]). getAddressNbTransactions (Some a) (w_db demo_push) = Some 0"
    using enforceStrictModeVouts_safe [OF r] by blast
  ultimately show ?thesis using r by simp
qed

end
