(* ===== verification/Push_Scheduler.thy ===== *)
theory Push_Scheduler
  imports Push_Tx
begin

text \<open>
  \<^verbatim>\<open>pushtx/transactions-scheduler.ts\<close>: a script of transactions is checked, the transactions due
  now are pushed, and the others are stored as a chain, each with its delay after its parent.
\<close>

section \<open>The script\<close>

text \<open>An output index that is not a number is \<open>None\<close>.\<close>

record script_entry =
  se_tx :: string
  se_hop :: int
  se_nlocktime :: int
  se_vouts :: "int option list option"
  se_delta :: int

record sched_env = push_env +
  pe_maxNbEntries :: nat
  pe_maxDeltaHeight :: int
  pe_blocks :: "nat \<Rightarrow> int result"

text \<open>\<open>sort\<close> is stable: by hop, then by \<open>nlocktime\<close>.\<close>

definition sortScript :: "script_entry list \<Rightarrow> script_entry list" where
  "sortScript script = sort_key se_hop (sort_key se_nlocktime script)"

section \<open>Checks\<close>

definition checkVouts ::
  "'e sched_env_scheme \<Rightarrow> script_entry \<Rightarrow> ('s push_state_scheme, (string \<times> int \<times> int) list) act" where
  "checkVouts env item =
     (case se_vouts item of
        None \<Rightarrow> ret []
      | Some vouts \<Rightarrow>
          if None \<in> set vouts then throw (Err Txout_VOUT)
          else if vouts = [] then ret []
          else bindA (enforceStrictModeVouts env (se_tx item) (map the vouts)) (\<lambda>faultsTx.
                 if faultsTx = [] then ret []
                 else bindA (lift (pe_parse env (se_tx item))) (\<lambda>tx.
                        ret (map (\<lambda>vout. (tx_id tx, se_hop item, vout)) faultsTx))))"

text \<open>
  The loop of validations: the entries with their \<open>delta\<close> and the height they are scheduled for,
  and the outputs that strict mode refuses.
\<close>

fun validateEntries :: "'e sched_env_scheme \<Rightarrow> int \<Rightarrow> int \<Rightarrow> int \<Rightarrow> int \<Rightarrow> script_entry list
    \<Rightarrow> ('s push_state_scheme, script_entry list \<times> (string \<times> int \<times> int) list) act" where
  "validateEntries env nltTx0 baseHeight lastHopProcessed lastLockTimeProcessed [] = ret ([], [])"
| "validateEntries env nltTx0 baseHeight lastHopProcessed lastLockTimeProcessed (item # script) =
     (let delta = se_nlocktime item - nltTx0 in
      if pe_maxDeltaHeight env < delta then throw (Err Pushtx_SCHEDULED_TOO_FAR)
      else bindA (lift (pe_parse env (se_tx item))) (\<lambda>tx.
        if \<not> (tx_locktime tx \<noteq> 0 \<and> tx_locktime tx = se_nlocktime item) then throw (Err Pushtx_NLOCK_MISMATCH)
        else if se_hop item \<noteq> lastHopProcessed \<and> se_nlocktime item < lastLockTimeProcessed
        then throw (Err Pushtx_SCHEDULED_BAD_ORDER)
        else bindA (checkVouts env item) (\<lambda>faults.
          bindA (validateEntries env nltTx0 baseHeight (se_hop item) (se_nlocktime item) script) (\<lambda>(entries, more).
            ret (item\<lparr>se_delta := delta,
                   se_nlocktime := (if baseHeight \<noteq> nltTx0 then baseHeight + delta else se_nlocktime item)\<rparr> # entries,
                 faults @ more)))))"

section \<open>Dispatch\<close>

text \<open>The transactions due now: the rest of the script, and the last one pushed with its height.\<close>

fun pushDue :: "'e sched_env_scheme \<Rightarrow> int \<Rightarrow> string option \<Rightarrow> int \<Rightarrow> script_entry list
    \<Rightarrow> ('s push_state_scheme, string option \<times> int \<times> script_entry list) act" where
  "pushDue env lastHeight parentTxid parentNlocktime [] = ret (parentTxid, parentNlocktime, [])"
| "pushDue env lastHeight parentTxid parentNlocktime (item # script) =
     (if se_nlocktime item \<le> lastHeight \<and> se_delta item = 0
      then bindA (pushTx env (se_tx item) False) (\<lambda>_.
           bindA (lift (pe_parse env (se_tx item))) (\<lambda>tx.
             pushDue env lastHeight (Some (tx_id tx)) (se_nlocktime item) script))
      else ret (parentTxid, parentNlocktime, item # script))"

fun storeEntries :: "'e sched_env_scheme \<Rightarrow> int \<Rightarrow> nat option \<Rightarrow> string option \<Rightarrow> int \<Rightarrow> script_entry list
    \<Rightarrow> ('s push_state_scheme, unit) act" where
  "storeEntries env now parentId parentTxid parentNlocktime [] = ret ()"
| "storeEntries env now parentId parentTxid parentNlocktime (item # script) =
     bindA (lift (pe_parse env (se_tx item))) (\<lambda>tx.
     bindA (getDb (addScheduledTransaction now
        \<lparr>ns_txid = tx_id tx, ns_created = None, ns_rawTx = se_tx item, ns_parentId = parentId, ns_parentTxid = parentTxid,
         ns_delay = se_nlocktime item - parentNlocktime, ns_trigger = se_nlocktime item\<rparr>)) (\<lambda>i.
       storeEntries env now (Some i) (Some (tx_id tx)) (se_nlocktime item) script))"

text \<open>What precedes the first push: the last height, the base height and the entries.\<close>

definition prepareScript ::
  "'e sched_env_scheme \<Rightarrow> script_entry list \<Rightarrow> ('s push_state_scheme, int \<times> int \<times> script_entry list) act" where
  "prepareScript env script =
     (if pe_maxNbEntries env < length script then throw (Err Body_SCRIPTSIZE)
      else if script = [] then throw (Err Body_NOSCRIPT)
      else let sorted = sortScript script in
        bindA (remote (pe_blocks env)) (\<lambda>lastHeight.
          let nltTx0 = se_nlocktime (hd sorted) in
          if lastHeight + pe_maxDeltaHeight env < nltTx0 then throw (Err Pushtx_SCHEDULED_TOO_FAR)
          else let baseHeight = max lastHeight nltTx0 in
            bindA (validateEntries env nltTx0 baseHeight (- 1) (- 1) sorted) (\<lambda>(entries, faults).
              if faults \<noteq> [] then throw (Faults faults) else ret (lastHeight, baseHeight, entries))))"

definition schedule :: "'e sched_env_scheme \<Rightarrow> int \<Rightarrow> script_entry list \<Rightarrow> ('s push_state_scheme, unit) act" where
  "schedule env now script =
     bindA (prepareScript env script) (\<lambda>(lastHeight, baseHeight, entries).
     bindA (pushDue env lastHeight None baseHeight entries) (\<lambda>(parentTxid, parentNlocktime, rest).
       storeEntries env now None parentTxid parentNlocktime rest))"

section \<open>What the checks change\<close>

text \<open>Everything but the count of calls.\<close>

definition same_but_clock :: "'s push_state_scheme \<Rightarrow> 's push_state_scheme \<Rightarrow> bool" where
  "same_but_clock s t \<longleftrightarrow> t = s\<lparr>w_clock := w_clock t\<rparr>"

lemma same_refl [simp]: "same_but_clock s s"
  by (simp add: same_but_clock_def)

lemma same_tick: "same_but_clock s t \<Longrightarrow> same_but_clock s (t\<lparr>w_clock := n\<rparr>)"
  unfolding same_but_clock_def by (metis (no_types) clocked.surjective clocked.update_convs(1) clocked.select_convs(1))

lemma same_fields:
  assumes "same_but_clock s t"
  shows "w_db t = w_db s" "w_sent t = w_sent s" "w_emitted t = w_emitted s" "w_tracked t = w_tracked s"
    "w_push_count t = w_push_count s" "w_push_amount t = w_push_amount s"
proof -
  have "t = s\<lparr>w_clock := w_clock t\<rparr>" using assms by (simp add: same_but_clock_def)
  then obtain n where "t = s\<lparr>w_clock := n\<rparr>" by blast
  then show "w_db t = w_db s" "w_sent t = w_sent s" "w_emitted t = w_emitted s" "w_tracked t = w_tracked s"
    "w_push_count t = w_push_count s" "w_push_amount t = w_push_amount s" by simp_all
qed

lemma keeps_same_remote [keeps_intros]: "keeps (same_but_clock s) (remote f)"
  by (auto simp: keeps_def act_eval intro: same_tick)

lemma keeps_same_strict [keeps_intros]: "keeps (same_but_clock s) (enforceStrictModeVouts env rawtx vouts)"
  unfolding enforceStrictModeVouts_def by (intro keeps_intros) (auto intro!: keeps_intros keeps_askDb split: prod.split)

lemma keeps_same_checkVouts [keeps_intros]: "keeps (same_but_clock s) (checkVouts env e)"
  unfolding checkVouts_def by (auto intro!: keeps_intros split: option.split)

lemma keeps_same_validate [keeps_intros]: "keeps (same_but_clock s) (validateEntries env n0 b h l script)"
  by (induction script arbitrary: h l) (auto simp: Let_def intro!: keeps_intros split: prod.split)

lemma keeps_same_prepare [keeps_intros]: "keeps (same_but_clock s) (prepareScript env script)"
  unfolding prepareScript_def by (auto simp: Let_def intro!: keeps_intros split: prod.split)

section \<open>The order of the script\<close>

definition lex_before :: "script_entry \<Rightarrow> script_entry \<Rightarrow> bool" where
  "lex_before a b \<longleftrightarrow> se_hop a < se_hop b \<or> se_hop a = se_hop b \<and> se_nlocktime a \<le> se_nlocktime b"

lemma lex_from_keys:
  assumes "sorted (map f xs)" and "\<And>k. sorted (map g (filter (\<lambda>x. f x = k) xs))"
  shows "sorted_wrt (\<lambda>a b. f a < f b \<or> f a = f b \<and> g a \<le> g b) xs"
  using assms
proof (induction xs)
  case (Cons x xs)
  have "sorted (map g (filter (\<lambda>x. f x = k) xs))" for k
    using Cons.prems(2) [of k] by (cases "f x = k") auto
  then have ih: "sorted_wrt (\<lambda>a b. f a < f b \<or> f a = f b \<and> g a \<le> g b) xs"
    using Cons.IH Cons.prems(1) by simp
  have "g x \<le> g y" if "y \<in> set xs" "f x = f y" for y
    using Cons.prems(2) [of "f x"] that by auto
  moreover have "f x \<le> f y" if "y \<in> set xs" for y
    using Cons.prems(1) that by simp
  ultimately show ?case using ih by (auto simp: less_le)
qed simp

lemma sortScript_lex: "sorted_wrt lex_before (sortScript script)"
proof -
  have "sorted (map se_nlocktime (filter (\<lambda>x. se_hop x = k) (sortScript script)))" for k
    unfolding sortScript_def sort_key_stable
    by (rule sorted_filter) (rule sorted_sort_key)
  then show ?thesis
    using lex_from_keys [of se_hop "sortScript script" se_nlocktime]
    by (simp add: sortScript_def lex_before_def [abs_def])
qed

lemma mset_sortScript: "mset (sortScript script) = mset script"
  by (simp add: sortScript_def)

text \<open>The check between consecutive entries.\<close>

fun in_order :: "int \<Rightarrow> int \<Rightarrow> script_entry list \<Rightarrow> bool" where
  "in_order h l [] = True"
| "in_order h l (e # es) = ((se_hop e \<noteq> h \<longrightarrow> l \<le> se_nlocktime e) \<and> in_order (se_hop e) (se_nlocktime e) es)"

lemma in_order_sorted:
  "\<lbrakk>sorted_wrt lex_before es; in_order h l es\<rbrakk> \<Longrightarrow> sorted (map se_nlocktime es)"
proof (induction es arbitrary: h l)
  case (Cons e es)
  have s: "sorted (map se_nlocktime es)" using Cons by auto
  show ?case
  proof (cases es)
    case (Cons f fs)
    then have "se_nlocktime e \<le> se_nlocktime f"
      using \<open>sorted_wrt lex_before (e # es)\<close> \<open>in_order h l (e # es)\<close> by (auto simp: lex_before_def)
    then show ?thesis using s Cons by auto
  qed simp
qed simp

section \<open>What passes the checks\<close>

definition scheduled_at :: "int \<Rightarrow> int \<Rightarrow> script_entry \<Rightarrow> script_entry" where
  "scheduled_at nltTx0 baseHeight e = e\<lparr>se_delta := se_nlocktime e - nltTx0,
     se_nlocktime := baseHeight + (se_nlocktime e - nltTx0)\<rparr>"

definition entry_ok :: "'e sched_env_scheme \<Rightarrow> int \<Rightarrow> script_entry \<Rightarrow> bool" where
  "entry_ok env nltTx0 e \<longleftrightarrow> se_nlocktime e - nltTx0 \<le> pe_maxDeltaHeight env
     \<and> (\<exists>tx. pe_parse env (se_tx e) = Inr tx \<and> tx_locktime tx = se_nlocktime e \<and> tx_locktime tx \<noteq> 0)"

lemma validateEntries_Inr:
  "validateEntries env n0 b h l script s = Some (Inr (es, fs), t) \<Longrightarrow>
     es = map (scheduled_at n0 b) script \<and> (\<forall>e\<in>set script. entry_ok env n0 e) \<and> in_order h l script"
proof (induction script arbitrary: h l s es fs)
  case (Cons e script)
  from Cons.prems obtain tx faults u es' fs' where
    ok: "\<not> pe_maxDeltaHeight env < se_nlocktime e - n0" "pe_parse env (se_tx e) = Inr tx"
      "tx_locktime tx \<noteq> 0" "tx_locktime tx = se_nlocktime e" "\<not> (se_hop e \<noteq> h \<and> se_nlocktime e < l)"
    and rest: "validateEntries env n0 b (se_hop e) (se_nlocktime e) script u = Some (Inr (es', fs'), t)"
    and es: "es = e\<lparr>se_delta := se_nlocktime e - n0, se_nlocktime := (if b \<noteq> n0 then b + (se_nlocktime e - n0) else se_nlocktime e)\<rparr> # es'"
    by (cases "pe_parse env (se_tx e)") (auto simp: Let_def bindA_Inr split: if_splits)
  have "es = scheduled_at n0 b e # es'" unfolding es scheduled_at_def by (cases "b = n0") simp_all
  then show ?case using ok Cons.IH [OF rest] by (auto simp: entry_ok_def)
qed (simp add: act_simps)

lemma prepareScript_Inr:
  assumes "prepareScript env script s = Some (Inr (lastHeight, b, es), t)"
  shows "script \<noteq> [] \<and> length script \<le> pe_maxNbEntries env \<and> pe_blocks env (w_clock s) = Inr lastHeight
    \<and> (let n0 = se_nlocktime (hd (sortScript script)) in n0 \<le> lastHeight + pe_maxDeltaHeight env \<and> b = max lastHeight n0
       \<and> es = map (scheduled_at n0 b) (sortScript script) \<and> (\<forall>e\<in>set script. entry_ok env n0 e)
       \<and> sorted (map se_nlocktime (sortScript script))) \<and> same_but_clock s t"
proof -
  let ?n0 = "se_nlocktime (hd (sortScript script))"
  from assms obtain u where facts: "script \<noteq> []" "length script \<le> pe_maxNbEntries env" "pe_blocks env (w_clock s) = Inr lastHeight"
     "?n0 \<le> lastHeight + pe_maxDeltaHeight env" "b = max lastHeight ?n0"
    and v: "validateEntries env ?n0 b (- 1) (- 1) (sortScript script) u = Some (Inr (es, []), t)"
    by (auto simp: prepareScript_def Let_def bindA_Inr act_eval split: if_splits)
  have "same_but_clock s t" using keepsD [OF keeps_same_prepare assms] by simp
  then show ?thesis
    using facts validateEntries_Inr [OF v] in_order_sorted [OF sortScript_lex] mset_eq_setD [OF mset_sortScript, of script]
    by (auto simp: Let_def)
qed

section \<open>What the dispatch does\<close>

definition due :: "int \<Rightarrow> script_entry \<Rightarrow> bool" where
  "due lastHeight e \<longleftrightarrow> se_nlocktime e \<le> lastHeight \<and> se_delta e = 0"

definition announced :: "'e sched_env_scheme \<Rightarrow> 's push_state_scheme \<Rightarrow> script_entry \<Rightarrow> bool" where
  "announced env s e \<longleftrightarrow> se_tx e \<in> set (w_tracked s)
     \<or> (\<exists>tx k. pe_parse env (se_tx e) = Inr tx \<and> pe_present env k (tx_id tx) = Inr True)"

lemma announced_mono: "\<lbrakk>announced env s e; set (w_tracked s) \<subseteq> set (w_tracked t)\<rbrakk> \<Longrightarrow> announced env t e"
  by (auto simp: announced_def)

lemma pushDue_Inr:
  "pushDue env lastHeight p n es s = Some (Inr (q, m, rest), t) \<Longrightarrow>
     es = takeWhile (due lastHeight) es @ rest \<and> w_db t = w_db s \<and> set (w_tracked s) \<subseteq> set (w_tracked t)
     \<and> (\<forall>e\<in>set (takeWhile (due lastHeight) es). announced env t e)
     \<and> (rest \<noteq> [] \<longrightarrow> \<not> due lastHeight (hd rest))
     \<and> (takeWhile (due lastHeight) es = [] \<and> q = p \<and> m = n
        \<or> takeWhile (due lastHeight) es \<noteq> [] \<and> m = se_nlocktime (last (takeWhile (due lastHeight) es))
          \<and> (\<exists>tx. pe_parse env (se_tx (last (takeWhile (due lastHeight) es))) = Inr tx \<and> q = Some (tx_id tx)))"
proof (induction es arbitrary: p n s)
  case (Cons e es)
  show ?case
  proof (cases "due lastHeight e")
    case False
    then have "pushDue env lastHeight p n (e # es) s = Some (Inr (p, n, e # es), s)"
      by (auto simp: due_def ret_def)
    then have "q = p" "m = n" "rest = e # es" "t = s" using Cons.prems by simp_all
    then show ?thesis using False by simp
  next
    case True
    then obtain i u tx where u: "pushTx env (se_tx e) False s = Some (Inr i, u)" and tx: "pe_parse env (se_tx e) = Inr tx"
      and rest: "pushDue env lastHeight (Some (tx_id tx)) (se_nlocktime e) es u = Some (Inr (q, m, rest), t)"
      using Cons.prems by (cases "pe_parse env (se_tx e)") (auto simp: due_def bindA_Inr)
    have g: "push_grows {se_tx e} s u" using keepsD [OF pushTx_grows u] by simp
    then have db: "w_db u = w_db s" "set (w_tracked s) \<subseteq> set (w_tracked u)" by (auto simp: push_grows_def hands_over_def dest: grown_set)
    have "announced env u e" using pushTx_announces [OF u] tx by (auto simp: announced_def)
    then show ?thesis
      using Cons.IH [OF rest] True tx db announced_mono [of env u e t]
      by (cases "takeWhile (due lastHeight) es = []") auto
  qed
qed (simp add: act_simps)

text \<open>Rows stored as a chain: each one refers to the one before and waits for it.\<close>

fun is_chain :: "nat option \<Rightarrow> string option \<Rightarrow> int \<Rightarrow> scheduled_row list \<Rightarrow> bool" where
  "is_chain parentId parentTxid parentTrigger [] = True"
| "is_chain parentId parentTxid parentTrigger (r # rs) =
     (s_schParentID r = parentId \<and> s_schParentTxid r = parentTxid \<and> s_schDelay r = s_schTrigger r - parentTrigger
      \<and> is_chain (Some (s_schID r)) (Some (s_schTxid r)) (s_schTrigger r) rs)"

definition stores :: "'e sched_env_scheme \<Rightarrow> script_entry \<Rightarrow> scheduled_row \<Rightarrow> bool" where
  "stores env e r \<longleftrightarrow> s_schRaw r = se_tx e \<and> s_schTrigger r = se_nlocktime e
     \<and> (\<exists>tx. pe_parse env (se_tx e) = Inr tx \<and> s_schTxid r = tx_id tx)"

lemma addScheduledTransaction_Inr:
  assumes "addScheduledTransaction now n d = Inr (i, e)"
  shows "i = next_id (scheduled d) \<and> rows (scheduled e) = rows (scheduled d) @ [mk_scheduled now n i]"
  using assms by (auto simp: addScheduledTransaction_def tbl_add_def split: if_splits)

lemma storeEntries_Inr:
  "storeEntries env now i p n es s = Some (Inr (), t) \<Longrightarrow>
     \<exists>new. rows (scheduled (w_db t)) = rows (scheduled (w_db s)) @ new \<and> list_all2 (stores env) es new
       \<and> is_chain i p n new \<and> w_tracked t = w_tracked s"
proof (induction es arbitrary: i p n s)
  case (Cons e es)
  let ?n = "\<lambda>tx. \<lparr>ns_txid = tx_id tx, ns_created = None, ns_rawTx = se_tx e, ns_parentId = i, ns_parentTxid = p,
         ns_delay = se_nlocktime e - n, ns_trigger = se_nlocktime e\<rparr>"
  obtain tx j d where tx: "pe_parse env (se_tx e) = Inr tx" and d: "addScheduledTransaction now (?n tx) (w_db s) = Inr (j, d)"
    and rest: "storeEntries env now (Some j) (Some (tx_id tx)) (se_nlocktime e) es (s\<lparr>w_db := d\<rparr>) = Some (Inr (), t)"
    using Cons.prems by (cases "pe_parse env (se_tx e)") (auto simp: bindA_Inr)
  obtain new where new: "rows (scheduled (w_db t)) = rows (scheduled d) @ new" "list_all2 (stores env) es new"
    "is_chain (Some j) (Some (tx_id tx)) (se_nlocktime e) new" "w_tracked t = w_tracked s"
    using Cons.IH [OF rest] by auto
  let ?r = "mk_scheduled now (?n tx) j"
  have "rows (scheduled (w_db t)) = rows (scheduled (w_db s)) @ ?r # new"
    using new(1) addScheduledTransaction_Inr [OF d] by simp
  moreover have "stores env e ?r" using tx by (simp add: stores_def mk_scheduled_def)
  moreover have "is_chain i p n (?r # new)" using new(3) by (simp add: mk_scheduled_def)
  ultimately show ?case using new(2,4) by (intro exI [of _ "?r # new"]) simp
qed simp

section \<open>Properties\<close>

lemma schedule_Inr:
  assumes "schedule env now script s = Some (Inr (), t)"
  obtains lastHeight b es p m rest u v where
    "prepareScript env script s = Some (Inr (lastHeight, b, es), u)"
    "pushDue env lastHeight None b es u = Some (Inr (p, m, rest), v)"
    "storeEntries env now None p m rest v = Some (Inr (), t)"
  using assms by (auto simp: schedule_def bindA_Inr)

text \<open>The part of a sorted schedule that is not due comes after the last height.\<close>

lemma later_heights:
  assumes "sorted (map se_nlocktime xs)" and "xs \<noteq> []" and "n0 = se_nlocktime (hd xs)" and "b = max lastHeight n0"
    and "map (scheduled_at n0 b) xs = ys @ rest" and "rest \<noteq> [] \<longrightarrow> \<not> due lastHeight (hd rest)"
  shows "\<forall>e\<in>set rest. lastHeight < se_nlocktime e" and "sorted (map se_nlocktime rest)"
proof -
  have "sorted (map se_nlocktime (map (scheduled_at n0 b) xs))"
    using assms(1) by (simp add: scheduled_at_def comp_def sorted_wrt_map)
  then have sorted: "sorted (map se_nlocktime rest)" unfolding assms(5) by (simp add: sorted_append)
  have from_n0: "n0 \<le> se_nlocktime x" if "x \<in> set xs" for x
    using that assms(1,2) unfolding assms(3) by (cases xs) auto
  have "lastHeight < se_nlocktime e" if e: "e \<in> set rest" for e
  proof -
    obtain f fs where f: "rest = f # fs" using e by (cases rest) auto
    then have "f \<in> set (map (scheduled_at n0 b) xs)" unfolding assms(5) by simp
    then obtain x where x: "x \<in> set xs" "f = scheduled_at n0 b x" by auto
    have "lastHeight < se_nlocktime f"
      using assms(4,6) f from_n0 [OF x(1)] by (auto simp: due_def x(2) scheduled_at_def max_def split: if_splits)
    then show ?thesis using e sorted f by auto
  qed
  then show "\<forall>e\<in>set rest. lastHeight < se_nlocktime e" "sorted (map se_nlocktime rest)" using sorted by auto
qed

lemma stores_triggers: "list_all2 (stores env) es new \<Longrightarrow> map s_schTrigger new = map se_nlocktime es"
  by (induction rule: list_all2_induct) (auto simp: stores_def)

text \<open>
  C12. A script that is accepted splits, in its sorted order, into the transactions due at the
  current height, each announced to the tracker or known to the node, and the others, stored in
  order as one chain of rows. The trigger of each is the base height plus its \<open>nlocktime\<close> relative
  to the first one; triggers are in increasing order, all above the current height and within the
  allowed range. Each row refers to the one stored before it, the first to the last transaction
  pushed, and its delay is the distance between their triggers, so delays add up to triggers.
\<close>

theorem schedule_spec:
  assumes "schedule env now script s = Some (Inr (), t)"
  shows "\<exists>lastHeight now_due later new b p. pe_blocks env (w_clock s) = Inr lastHeight
    \<and> sortScript script = now_due @ later \<and> b = max lastHeight (se_nlocktime (hd (sortScript script)))
    \<and> (\<forall>e\<in>set now_due. se_nlocktime e = se_nlocktime (hd (sortScript script)) \<and> se_nlocktime e \<le> lastHeight \<and> announced env t e)
    \<and> rows (scheduled (w_db t)) = rows (scheduled (w_db s)) @ new
    \<and> list_all2 (\<lambda>e r. stores env (scheduled_at (se_nlocktime (hd (sortScript script))) b e) r) later new
    \<and> is_chain None p b new \<and> (p = None \<longleftrightarrow> now_due = [])
    \<and> sorted (map s_schTrigger new)
    \<and> (\<forall>r\<in>set new. lastHeight < s_schTrigger r \<and> s_schTrigger r \<le> b + pe_maxDeltaHeight env)"
proof -
  let ?n0 = "se_nlocktime (hd (sortScript script))" and ?xs = "sortScript script"
  obtain lastHeight b es p m rest u v where runs:
    "prepareScript env script s = Some (Inr (lastHeight, b, es), u)"
    "pushDue env lastHeight None b es u = Some (Inr (p, m, rest), v)"
    "storeEntries env now None p m rest v = Some (Inr (), t)"
    by (rule schedule_Inr [OF assms])
  have p: "pe_blocks env (w_clock s) = Inr lastHeight" "script \<noteq> []" "b = max lastHeight ?n0" "es = map (scheduled_at ?n0 b) ?xs"
    "\<forall>e\<in>set script. entry_ok env ?n0 e" "sorted (map se_nlocktime ?xs)" "w_db u = w_db s"
    using prepareScript_Inr [OF runs(1)] by (auto simp: Let_def dest: same_fields)
  let ?d = "takeWhile (due lastHeight) es"
  have d: "es = ?d @ rest" "w_db v = w_db u" "\<forall>e\<in>set ?d. announced env v e" "rest \<noteq> [] \<longrightarrow> \<not> due lastHeight (hd rest)"
    "?d = [] \<and> p = None \<and> m = b \<or> ?d \<noteq> [] \<and> m = se_nlocktime (last ?d) \<and> p \<noteq> None"
    using pushDue_Inr [OF runs(2)] by (elim conjE; (assumption | blast))+
  obtain new where new: "rows (scheduled (w_db t)) = rows (scheduled (w_db v)) @ new" "list_all2 (stores env) rest new"
    "is_chain None p m new" "w_tracked t = w_tracked v"
    using storeEntries_Inr [OF runs(3)] by blast
  define k where "k = length ?d"
  have split: "?d = map (scheduled_at ?n0 b) (take k ?xs)" "rest = map (scheduled_at ?n0 b) (drop k ?xs)"
    using d(1) p(4) by (metis append_eq_conv_conj k_def take_map, metis append_eq_conv_conj k_def drop_map)
  have due_now: "se_nlocktime e = ?n0 \<and> se_nlocktime e \<le> lastHeight \<and> announced env t e" if "e \<in> set (take k ?xs)" for e
  proof -
    have e: "scheduled_at ?n0 b e \<in> set ?d" unfolding split(1) using that by simp
    then have "due lastHeight (scheduled_at ?n0 b e)" by (rule set_takeWhileD [THEN conjunct2])
    moreover have "announced env t e" using d(3) e new(4) by (auto simp: announced_def scheduled_at_def)
    ultimately show ?thesis using p(3) by (auto simp: due_def scheduled_at_def)
  qed
  have m: "m = b"
  proof (cases "?d = []")
    case False
    then have "due lastHeight (last ?d)" "last ?d \<in> set (map (scheduled_at ?n0 b) (take k ?xs))"
      using set_takeWhileD [OF last_in_set [OF False]] last_in_set [OF False] unfolding split(1) by blast+
    then have "se_nlocktime (last ?d) = b" by (auto simp: due_def scheduled_at_def)
    then show ?thesis using d(5) False by simp
  qed (use d(5) in simp)
  have trig: "map s_schTrigger new = map se_nlocktime rest" by (rule stores_triggers [OF new(2)])
  have xs: "?xs \<noteq> []" using p(2) mset_sortScript [of script] by (metis mset.simps(1) mset_zero_iff)
  note late = later_heights [OF p(6) xs refl p(3) d(1) [unfolded p(4)] d(4)]
  have bound: "se_nlocktime e \<le> b + pe_maxDeltaHeight env" if "e \<in> set rest" for e
  proof -
    obtain x where x: "x \<in> set ?xs" "e = scheduled_at ?n0 b x"
      using \<open>e \<in> set rest\<close> unfolding split(2) by (auto dest: in_set_dropD)
    then have "x \<in> set script" using mset_eq_setD [OF mset_sortScript] by blast
    then show ?thesis using p(5) x(2) by (simp add: scheduled_at_def entry_ok_def)
  qed
  have rows: "\<forall>r\<in>set new. lastHeight < s_schTrigger r \<and> s_schTrigger r \<le> b + pe_maxDeltaHeight env"
  proof
    fix r assume "r \<in> set new"
    then have "s_schTrigger r \<in> set (map se_nlocktime rest)" unfolding trig [symmetric] by simp
    then show "lastHeight < s_schTrigger r \<and> s_schTrigger r \<le> b + pe_maxDeltaHeight env" using late(1) bound by auto
  qed
  show ?thesis
  proof (rule exI [of _ lastHeight], rule exI [of _ "take k ?xs"], rule exI [of _ "drop k ?xs"], rule exI [of _ new],
      rule exI [of _ b], rule exI [of _ p], intro conjI)
    show "list_all2 (\<lambda>e r. stores env (scheduled_at ?n0 b e) r) (drop k ?xs) new"
      using new(2) unfolding split(2) by (simp add: list_all2_map1)
    show "\<forall>e\<in>set (take k ?xs). se_nlocktime e = ?n0 \<and> se_nlocktime e \<le> lastHeight \<and> announced env t e"
      using due_now by blast
    show "p = None \<longleftrightarrow> take k ?xs = []" using d(5) split(1) by auto
    show "is_chain None p b new" using new(3) m by simp
    show "sorted (map s_schTrigger new)" unfolding trig by (rule late(2))
    show "rows (scheduled (w_db t)) = rows (scheduled (w_db s)) @ new" using new(1) d(2) p(7) by simp
  qed (use p(1,3) rows in simp_all)
qed

text \<open>Two transactions: the first is due, the second three blocks later.\<close>

definition demo_sched_env :: sched_env where
  "demo_sched_env = \<lparr>pe_parse = (\<lambda>h. Inr \<lparr>tx_id = h @ ''id'', tx_version = 2, tx_locktime = (if h = ''a'' then 100 else 103),
       tx_ins = [], tx_outs = []\<rparr>),
     pe_pay = (\<lambda>p s. Inr None), pe_ntx = (\<lambda>k l. Inr []), pe_local_bitcoind = False,
     pe_present = (\<lambda>k txid. Inl Rejected), pe_send = (\<lambda>k h. Inr (Some (h @ ''id''))),
     pe_pando = False, pe_emit = (\<lambda>k h. Inl Rejected), pe_secure = False,
     pe_maxNbEntries = 10, pe_maxDeltaHeight = 18, pe_blocks = (\<lambda>k. Inr 105)\<rparr>"

definition demo_script :: "script_entry list" where
  "demo_script = [\<lparr>se_tx = ''b'', se_hop = 1, se_nlocktime = 103, se_vouts = None, se_delta = 0\<rparr>,
     \<lparr>se_tx = ''a'', se_hop = 0, se_nlocktime = 100, se_vouts = None, se_delta = 0\<rparr>]"

lemma demo_sorted: "sortScript demo_script = rev demo_script"
  by (simp add: sortScript_def demo_script_def)

lemma demo_prepare: "prepareScript demo_sched_env demo_script demo_push = Some (Inr (105, 105,
   [\<lparr>se_tx = ''a'', se_hop = 0, se_nlocktime = 105, se_vouts = None, se_delta = 0\<rparr>,
    \<lparr>se_tx = ''b'', se_hop = 1, se_nlocktime = 108, se_vouts = None, se_delta = 3\<rparr>]), demo_push\<lparr>w_clock := 1\<rparr>)"
  unfolding prepareScript_def demo_sorted
  by (simp add: demo_script_def demo_sched_env_def Let_def bindA_def act_eval checkVouts_def lift_def ret_def demo_push_def)

lemma demo_schedule: "\<exists>t. schedule demo_sched_env 7 demo_script demo_push = Some (Inr (), t)
  \<and> map (\<lambda>r. (s_schTxid r, s_schParentTxid r, s_schDelay r, s_schTrigger r)) (rows (scheduled (w_db t)))
    = [(''bid'', Some ''aid'', 3, 108)]"
  unfolding schedule_def
  unfolding bindA_def demo_prepare
  by (simp add: demo_sched_env_def demo_push_def Let_def bindA_def act_eval pushTx_def tryPando_def catchA_def lift_def ret_def
      getDb_def addScheduledTransaction_def mk_scheduled_def tbl_add_def empty_db_def empty_table_def nullable_ref_def)

lemma schedule_spec_witness:
  "\<exists>t now_due later. schedule demo_sched_env 7 demo_script demo_push = Some (Inr (), t)
     \<and> sortScript demo_script = now_due @ later \<and> length (rows (scheduled (w_db t))) = length later
     \<and> (\<forall>r\<in>set (rows (scheduled (w_db t))). 105 < s_schTrigger r)"
proof -
  obtain t where t: "schedule demo_sched_env 7 demo_script demo_push = Some (Inr (), t)" using demo_schedule by blast
  obtain lastHeight now_due later new b where s: "pe_blocks demo_sched_env (w_clock demo_push) = Inr lastHeight"
    "sortScript demo_script = now_due @ later" "rows (scheduled (w_db t)) = rows (scheduled (w_db demo_push)) @ new"
    "list_all2 (\<lambda>e r. stores demo_sched_env (scheduled_at (se_nlocktime (hd (sortScript demo_script))) b e) r) later new"
    "\<forall>r\<in>set new. lastHeight < s_schTrigger r \<and> s_schTrigger r \<le> b + pe_maxDeltaHeight demo_sched_env"
    using schedule_spec [OF t] by (elim exE conjE) (rule that)
  have "lastHeight = 105" "rows (scheduled (w_db demo_push)) = []"
    using s(1) by (simp_all add: demo_sched_env_def demo_push_def empty_db_def empty_table_def)
  then show ?thesis using t s(3,5) list_all2_lengthD [OF s(4)]
    by (intro exI [of _ t] exI [of _ now_due] exI [of _ later] conjI s(2)) auto
qed

section \<open>Nothing before the checks\<close>

definition strict_ok :: "'e sched_env_scheme \<Rightarrow> 's push_state_scheme \<Rightarrow> script_entry \<Rightarrow> bool" where
  "strict_ok env s e \<longleftrightarrow> (\<forall>vs. se_vouts e = Some vs \<and> vs \<noteq> [] \<longrightarrow> None \<notin> set vs
     \<and> (\<exists>u v. same_but_clock s u \<and> enforceStrictModeVouts env (se_tx e) (map the vs) u = Some (Inr [], v)))"

lemma checkVouts_Nil:
  assumes "checkVouts env e u = Some (Inr [], v)" and "same_but_clock s u"
  shows "strict_ok env s e"
  using assms unfolding strict_ok_def checkVouts_def
  by (cases "pe_parse env (se_tx e)") (auto simp: bindA_Inr split: option.splits if_splits)

lemma validateEntries_strict:
  "\<lbrakk>validateEntries env n0 b h l script u = Some (Inr (es, []), t); same_but_clock s u\<rbrakk>
   \<Longrightarrow> \<forall>e\<in>set script. strict_ok env s e"
proof (induction script arbitrary: h l u es)
  case (Cons e script)
  then obtain v es' where c: "checkVouts env e u = Some (Inr [], v)"
    and rest: "validateEntries env n0 b (se_hop e) (se_nlocktime e) script v = Some (Inr (es', []), t)"
    by (auto simp: Let_def bindA_Inr split: if_splits)
  have "same_but_clock s v" using keepsD [OF keeps_same_checkVouts c] Cons.prems(2) by blast
  then show ?case using checkVouts_Nil [OF c Cons.prems(2)] Cons.IH [OF rest] by simp
qed simp

lemma prepareScript_strict:
  assumes "prepareScript env script s = Some (Inr x, t)"
  shows "\<forall>e\<in>set script. strict_ok env s e"
proof -
  obtain n0 b es where "validateEntries env n0 b (- 1) (- 1) (sortScript script) (s\<lparr>w_clock := Suc (w_clock s)\<rparr>) = Some (Inr (es, []), t)"
    using assms by (auto simp: prepareScript_def Let_def bindA_Inr act_eval split: if_splits)
  then have "\<forall>e\<in>set (sortScript script). strict_ok env s e"
    by (rule validateEntries_strict) (rule same_tick [OF same_refl])
  then show ?thesis using mset_eq_setD [OF mset_sortScript, of script] by simp
qed

text \<open>
  C13. Whatever \<open>schedule\<close> ends with, it has pushed, announced and stored nothing unless the whole
  script passed every check: its size, the first height and every delta within the allowed range,
  every transaction parsed with the lock time of its entry, lock times in increasing order along
  the hops, and no output refused in strict mode.
\<close>

theorem schedule_checks_first:
  assumes "schedule env now script s = Some (r, t)" and "\<not> same_but_clock s t"
  shows "script \<noteq> [] \<and> length script \<le> pe_maxNbEntries env
    \<and> (\<exists>lastHeight. pe_blocks env (w_clock s) = Inr lastHeight
         \<and> se_nlocktime (hd (sortScript script)) \<le> lastHeight + pe_maxDeltaHeight env)
    \<and> (\<forall>e\<in>set script. entry_ok env (se_nlocktime (hd (sortScript script))) e \<and> strict_ok env s e)
    \<and> sorted (map se_nlocktime (sortScript script))"
proof -
  obtain x u where p: "prepareScript env script s = Some (x, u)"
    using assms(1) by (auto simp: schedule_def bindA_Some)
  show ?thesis
  proof (cases x)
    case (Inl e)
    then have "t = u" using assms(1) p by (simp add: schedule_def bindA_def)
    then show ?thesis using keepsD [OF keeps_same_prepare p, of s] assms(2) by simp
  next
    case (Inr y)
    obtain lastHeight b es where y: "y = (lastHeight, b, es)" by (cases y)
    show ?thesis
      using prepareScript_Inr [OF p [unfolded Inr y]] prepareScript_strict [OF p [unfolded Inr]] by (auto simp: Let_def)
  qed
qed

lemma schedule_checks_first_witness:
  "sorted (map se_nlocktime (sortScript demo_script)) \<and> \<not> sorted (map se_nlocktime demo_script)"
proof -
  obtain t where t: "schedule demo_sched_env 7 demo_script demo_push = Some (Inr (), t)" "rows (scheduled (w_db t)) \<noteq> []"
    using demo_schedule by force
  then have "\<not> same_but_clock demo_push t"
    using same_fields(1) [of demo_push t] by (auto simp: demo_push_def empty_db_def empty_table_def)
  then show ?thesis using schedule_checks_first [OF t(1)] by (simp add: demo_script_def)
qed

end
