(* ===== verification/Push_Orchestrator.thy ===== *)
theory Push_Orchestrator
  imports Push_Scheduler
begin

text \<open>
  \<^verbatim>\<open>pushtx/orchestrator.ts\<close>: at each block, the scheduled transactions whose trigger is reached and
  whose parent is confirmed deep enough are pushed and removed, and the transactions that follow one
  that was late are shifted. The semaphore makes one call run at a time. The recursion of
  \<open>updateTriggers\<close> and the loop of \<open>onBlockHash\<close> take fuel; one more than the number of ids ever given
  is enough.
\<close>

section \<open>The handlers\<close>

record orch_env = push_env +
  pe_header :: "nat \<Rightarrow> string \<Rightarrow> int result"
  pe_confirmations :: "nat \<Rightarrow> string \<Rightarrow> int option result"

definition js_includes :: "string \<Rightarrow> string \<Rightarrow> bool" where
  "js_includes m p \<longleftrightarrow> list_ex (\<lambda>i. take (length p) (drop i m) = p) [0..<Suc (length m)]"

text \<open>An entry of the error dictionary is a string, an \<open>Error\<close> object is not.\<close>

definition isConnectionError :: "exn \<Rightarrow> bool" where
  "isConnectionError e =
     (case (case e of Str m \<Rightarrow> Some m | Err c \<Rightarrow> Some (err_msg c) | _ \<Rightarrow> None) of
        None \<Rightarrow> False
      | Some m \<Rightarrow> js_includes m ''connect ETIMEDOUT'' \<or> js_includes m ''Connection Rejected'')"

primrec updateTriggers :: "nat \<Rightarrow> nat \<Rightarrow> int \<Rightarrow> ('s push_state_scheme, unit) act" where
  "updateTriggers 0 parentId shift = unending"
| "updateTriggers (Suc fuel) parentId shift =
     (if shift = 0 then ret ()
      else bindA (askDb (getNextScheduledTransactions parentId)) (\<lambda>txs.
             forA (\<lambda>tx. bindA (onDb (updateTriggerScheduledTransaction (s_schID tx) (s_schTrigger tx + shift))) (\<lambda>_.
                        updateTriggers fuel (s_schID tx) shift)) txs))"

definition parentReady :: "'e orch_env_scheme \<Rightarrow> scheduled_row \<Rightarrow> ('s push_state_scheme, bool) act" where
  "parentReady env tx =
     (case s_schParentTxid tx of
        None \<Rightarrow> ret True
      | Some parentTxid \<Rightarrow>
          if parentTxid = '''' then ret True
          else bindA (catchA (remote (\<lambda>k. pe_confirmations env k parentTxid)) (\<lambda>_. ret None)) (\<lambda>confirmations.
                 ret (case confirmations of None \<Rightarrow> False | Some n \<Rightarrow> s_schDelay tx \<le> n)))"

text \<open>One transaction: how many were processed, and whether the connection held.\<close>

definition handleTx ::
  "'e orch_env_scheme \<Rightarrow> nat \<Rightarrow> int \<Rightarrow> scheduled_row \<Rightarrow> ('s push_state_scheme, nat \<times> bool) act" where
  "handleTx env fuel height tx =
     bindA (parentReady env tx) (\<lambda>ready.
       if \<not> ready then ret (0, True)
       else bindA (catchA (bindA (pushTx env (s_schRaw tx) False) (\<lambda>_. ret True)) (\<lambda>e. ret (\<not> isConnectionError e))) (\<lambda>rpcConnOk.
         if \<not> rpcConnOk then ret (0, False)
         else bindA (if s_schTrigger tx < height
                     then catchA (updateTriggers fuel (s_schID tx) (height - s_schTrigger tx)) (\<lambda>_. ret ()) else ret ()) (\<lambda>_.
              bindA (onDb (deleteScheduledTransaction (s_schTxid tx))) (\<lambda>_. ret (1, True)))))"

fun handleTxs ::
  "'e orch_env_scheme \<Rightarrow> nat \<Rightarrow> int \<Rightarrow> scheduled_row list \<Rightarrow> ('s push_state_scheme, nat \<times> bool) act" where
  "handleTxs env fuel height [] = ret (0, True)"
| "handleTxs env fuel height (tx # txs) =
     bindA (handleTx env fuel height tx) (\<lambda>(n, rpcConnOk).
       if rpcConnOk then bindA (handleTxs env fuel height txs) (\<lambda>(m, ok). ret (n + m, ok)) else ret (n, False))"

primrec pushRounds :: "'e orch_env_scheme \<Rightarrow> nat \<Rightarrow> int \<Rightarrow> nat \<Rightarrow> ('s push_state_scheme, unit) act" where
  "pushRounds env fuel height 0 = unending"
| "pushRounds env fuel height (Suc n) =
     bindA (askDb (getActivatedScheduledTransactions height)) (\<lambda>txs.
       if txs = [] then ret ()
       else bindA (handleTxs env fuel height txs) (\<lambda>(nbTxsPushed, rpcConnOk).
              if rpcConnOk \<and> 0 < nbTxsPushed then pushRounds env fuel height n else ret ()))"

definition orchestrate :: "'e orch_env_scheme \<Rightarrow> nat \<Rightarrow> string \<Rightarrow> ('s push_state_scheme, unit) act" where
  "orchestrate env fuel blockHash =
     catchA (bindA (remote (\<lambda>k. pe_header env k blockHash)) (\<lambda>height. pushRounds env fuel height fuel)) (\<lambda>_. ret ())"

section \<open>Chains of scheduled transactions\<close>

definition child :: "scheduled_row list \<Rightarrow> (nat \<times> nat) set" where
  "child rs = {(p, q). \<exists>r\<in>set rs. s_schParentID r = Some p \<and> s_schID r = q}"

text \<open>A transaction is stored after the one it follows.\<close>

definition parents_older :: "db \<Rightarrow> bool" where
  "parents_older d \<longleftrightarrow> (\<forall>r\<in>set (rows (scheduled d)). \<forall>p. s_schParentID r = Some p \<longrightarrow> p < s_schID r)"

definition followers :: "scheduled_row list \<Rightarrow> nat \<Rightarrow> nat set" where
  "followers rs p = {q. (p, q) \<in> (child rs)\<^sup>+}"

definition bump :: "nat set \<Rightarrow> int \<Rightarrow> scheduled_row list \<Rightarrow> scheduled_row list" where
  "bump S shift rs = map (\<lambda>r. if s_schID r \<in> S then r\<lparr>s_schTrigger := s_schTrigger r + shift\<rparr> else r) rs"

lemma bump_bump: "S \<inter> T = {} \<Longrightarrow> bump S k (bump T k rs) = bump (S \<union> T) k rs"
  unfolding bump_def by (induction rs) auto

lemma bump_empty [simp]: "bump {} k rs = rs"
  by (simp add: bump_def)

lemma child_bump [simp]: "child (bump S k rs) = child rs"
proof -
  have alt: "child xs = {(p, q). (Some p, q) \<in> set (map (\<lambda>r. (s_schParentID r, s_schID r)) xs)}" for xs
    by (force simp: child_def)
  have "map (\<lambda>r. (s_schParentID r, s_schID r)) (bump S k rs) = map (\<lambda>r. (s_schParentID r, s_schID r)) rs"
    by (simp add: bump_def)
  then show ?thesis by (simp only: alt)
qed

lemma followers_bump [simp]: "followers (bump S k rs) p = followers rs p"
  by (simp add: followers_def)

lemma single_parent:
  assumes "distinct (map s_schID rs)"
  shows "single_valued ((child rs)\<inverse>)"
proof -
  have "p = p'" if "r \<in> set rs" "r' \<in> set rs" "s_schParentID r = Some p" "s_schParentID r' = Some p'" "s_schID r = s_schID r'" for r r' p p'
    using distinct_map_inj [OF assms that(1,2,5)] that(3,4) by simp
  then show ?thesis unfolding child_def single_valued_def by auto
qed

lemma followers_unfold: "followers rs p = (\<Union>q\<in>{q. (p, q) \<in> child rs}. insert q (followers rs q))"
proof (intro set_eqI iffI)
  fix x assume "x \<in> followers rs p"
  then have "(p, x) \<in> (child rs)\<^sup>+" by (simp add: followers_def)
  then obtain q where "(p, q) \<in> child rs" "(q, x) \<in> (child rs)\<^sup>*" by (metis tranclD)
  then show "x \<in> (\<Union>q\<in>{q. (p, q) \<in> child rs}. insert q (followers rs q))"
    by (auto simp: rtrancl_eq_or_trancl followers_def)
next
  fix x assume "x \<in> (\<Union>q\<in>{q. (p, q) \<in> child rs}. insert q (followers rs q))"
  then obtain q where "(p, q) \<in> child rs" "(q, x) \<in> (child rs)\<^sup>*" by (auto simp: followers_def intro: trancl_into_rtrancl)
  then show "x \<in> followers rs p" by (simp add: followers_def rtrancl_into_trancl2)
qed

lemma followers_younger:
  assumes "\<forall>r\<in>set rs. \<forall>p. s_schParentID r = Some p \<longrightarrow> p < s_schID r" and "q \<in> followers rs p"
  shows "p < q"
proof -
  have "(p, q) \<in> (child rs)\<^sup>+" using assms(2) by (simp add: followers_def)
  then show ?thesis by (induction) (use assms(1) in \<open>force simp: child_def\<close>)+
qed

text \<open>The followers of two children of one transaction are apart.\<close>

lemma followers_apart:
  assumes older: "\<forall>r\<in>set rs. \<forall>p. s_schParentID r = Some p \<longrightarrow> p < s_schID r" and d: "distinct (map s_schID rs)"
    and q: "(p, q) \<in> child rs" "(p, q') \<in> child rs" "q \<noteq> q'"
  shows "insert q (followers rs q) \<inter> insert q' (followers rs q') = {}"
proof -
  have no: "(a, b) \<notin> (child rs)\<^sup>+" if "(p, a) \<in> child rs" "(p, b) \<in> child rs" for a b
  proof
    assume "(a, b) \<in> (child rs)\<^sup>+"
    then obtain c where c: "(a, c) \<in> (child rs)\<^sup>*" "(c, b) \<in> child rs" by (metis tranclD2)
    then have "c = p" using single_parent [OF d] that(2) by (auto simp: single_valued_def)
    then have "a = p \<or> p \<in> followers rs a" using c(1) by (auto simp: rtrancl_eq_or_trancl followers_def)
    moreover have "p < a" using older that(1) by (auto simp: child_def)
    ultimately show False using followers_younger [OF older, of p a] by auto
  qed
  have conf: "(q, q') \<in> (child rs)\<^sup>* \<or> (q', q) \<in> (child rs)\<^sup>*" if "(q, x) \<in> (child rs)\<^sup>*" "(q', x) \<in> (child rs)\<^sup>*" for x
    using single_valued_confluent [OF single_parent [OF d], of x q q'] that by (auto simp: rtrancl_converse)
  have "False" if "x \<in> insert q (followers rs q)" "x \<in> insert q' (followers rs q')" for x
  proof -
    have "(q, x) \<in> (child rs)\<^sup>*" "(q', x) \<in> (child rs)\<^sup>*"
      using that by (auto simp: followers_def)
    then show False using conf no [OF q(1,2)] no [OF q(2,1)] q(3) by (auto simp: rtrancl_eq_or_trancl)
  qed
  then show ?thesis by blast
qed

definition set_scheduled :: "scheduled_row list \<Rightarrow> 's push_state_scheme \<Rightarrow> 's push_state_scheme" where
  "set_scheduled rs s = s\<lparr>w_db := (w_db s)\<lparr>scheduled := (scheduled (w_db s))\<lparr>rows := rs\<rparr>\<rparr>\<rparr>"

lemma set_scheduled_simps [simp]:
  "rows (scheduled (w_db (set_scheduled rs s))) = rs"
  "next_id (scheduled (w_db (set_scheduled rs s))) = next_id (scheduled (w_db s))"
  "set_scheduled rs (set_scheduled rs' s) = set_scheduled rs s"
  "set_scheduled (rows (scheduled (w_db s))) s = s"
  by (simp_all add: set_scheduled_def)

lemma update_one_trigger:
  assumes "tx \<in> set rs" and "distinct (map s_schID rs)" and "rs = rows (scheduled (w_db s))"
  shows "onDb (updateTriggerScheduledTransaction (s_schID tx) (s_schTrigger tx + shift)) s
    = Some (Inr (), set_scheduled (bump {s_schID tx} shift rs) s)"
proof -
  have "(if s_schID r = s_schID tx then r\<lparr>s_schTrigger := s_schTrigger tx + shift\<rparr> else r)
      = (if s_schID r \<in> {s_schID tx} then r\<lparr>s_schTrigger := s_schTrigger r + shift\<rparr> else r)" if "r \<in> set rs" for r
    using distinct_map_inj [OF assms(2) assms(1) that] by auto
  then have "map (\<lambda>r. if s_schID r = s_schID tx then r\<lparr>s_schTrigger := s_schTrigger tx + shift\<rparr> else r) rs
      = bump {s_schID tx} shift rs"
    unfolding bump_def by (intro map_cong) simp_all
  then show ?thesis
    by (simp add: onDb_def updateTriggerScheduledTransaction_def set_scheduled_def tbl_update_def modify_def assms(3))
qed

lemma ids_bump [simp]: "map s_schID (bump S k rs) = map s_schID rs"
  by (simp add: bump_def)

lemma bump_mem: "s_schID r \<notin> S \<Longrightarrow> r \<in> set rs \<Longrightarrow> r \<in> set (bump S k rs)"
  by (force simp: bump_def)

lemma older_bump:
  "\<forall>r\<in>set rs. \<forall>p. s_schParentID r = Some p \<longrightarrow> p < s_schID r
   \<Longrightarrow> \<forall>r\<in>set (bump S k rs). \<forall>p. s_schParentID r = Some p \<longrightarrow> p < s_schID r"
  by (auto simp: bump_def)

lemma set_scheduled_same: "rs = rows (scheduled (w_db s)) \<Longrightarrow> set_scheduled rs s = s"
  by simp

text \<open>The loop over the children \<open>txs\<close> of a transaction, given what the recursive calls do.\<close>

lemma children_loop:
  fixes rs :: "scheduled_row list"
  assumes IH: "\<And>q S. q \<in> s_schID ` set txs \<Longrightarrow> f q (set_scheduled (bump S shift rs) s)
       = Some (Inr (), set_scheduled (bump (followers rs q) shift (bump S shift rs)) s)"
    and d: "distinct (map s_schID rs)"
    and apart: "\<And>q q'. \<lbrakk>q \<in> s_schID ` set txs; q' \<in> s_schID ` set txs; q \<noteq> q'\<rbrakk>
       \<Longrightarrow> insert q (followers rs q) \<inter> insert q' (followers rs q') = {}"
    and self: "\<And>q. q \<in> s_schID ` set txs \<Longrightarrow> q \<notin> followers rs q"
    and txs: "set txs \<subseteq> set rs" "distinct (map s_schID txs)" and rs: "rs = rows (scheduled (w_db s))"
  shows "forA (\<lambda>tx. bindA (onDb (updateTriggerScheduledTransaction (s_schID tx) (s_schTrigger tx + shift))) (\<lambda>_. f (s_schID tx))) txs s
    = Some (Inr (), set_scheduled (bump (\<Union>q\<in>s_schID ` set txs. insert q (followers rs q)) shift rs) s)"
  using IH apart self txs
proof (induction txs rule: rev_induct)
  case Nil
  then show ?case using rs by (simp add: ret_def)
next
  case (snoc tx txs)
  let ?S = "\<Union>q\<in>s_schID ` set txs. insert q (followers rs q)" and ?q = "s_schID tx"
  let ?u = "set_scheduled (bump ?S shift rs) s"
  let ?T = "\<Union>q\<in>s_schID ` set (txs @ [tx]). insert q (followers rs q)"
  let ?body = "\<lambda>tx. bindA (onDb (updateTriggerScheduledTransaction (s_schID tx) (s_schTrigger tx + shift))) (\<lambda>_. f (s_schID tx))"
  have init: "forA ?body txs s = Some (Inr (), ?u)"
    using snoc.prems by (intro snoc.IH) auto
  have out: "insert ?q (followers rs ?q) \<inter> ?S = {}"
  proof -
    have "?q \<notin> s_schID ` set txs" using snoc.prems(5) by simp
    then have "insert ?q (followers rs ?q) \<inter> insert q (followers rs q) = {}" if "q \<in> s_schID ` set txs" for q
    proof -
      have "?q \<noteq> q" using that \<open>?q \<notin> s_schID ` set txs\<close> by blast
      then show ?thesis using snoc.prems(2) [of ?q q] that by simp
    qed
    then show ?thesis by blast
  qed
  have upd: "onDb (updateTriggerScheduledTransaction ?q (s_schTrigger tx + shift)) ?u
      = Some (Inr (), set_scheduled (bump {?q} shift (bump ?S shift rs)) ?u)"
    using out snoc.prems(4) d by (intro update_one_trigger bump_mem) auto
  have one: "bump {?q} shift (bump ?S shift rs) = bump (insert ?q ?S) shift rs"
    using out by (subst bump_bump) auto
  have call: "f ?q (set_scheduled (bump (insert ?q ?S) shift rs) s)
      = Some (Inr (), set_scheduled (bump (followers rs ?q) shift (bump (insert ?q ?S) shift rs)) s)"
    using snoc.prems(1) [of ?q "insert ?q ?S"] by simp
  have all: "bump (followers rs ?q) shift (bump (insert ?q ?S) shift rs) = bump ?T shift rs"
  proof -
    have "followers rs ?q \<inter> insert ?q ?S = {}" using out snoc.prems(3) [of ?q] by auto
    then show ?thesis by (simp add: bump_bump Un_commute insert_commute Un_assoc)
  qed
  have "?body tx ?u = Some (Inr (), set_scheduled (bump ?T shift rs) s)"
    unfolding bindA_def upd by (simp only: option.case prod.case sum.case one set_scheduled_simps call all)
  then have "forA ?body [tx] ?u = Some (Inr (), set_scheduled (bump ?T shift rs) s)"
    by (simp only: forA.simps bindA_def option.case prod.case sum.case ret_def)
  then show ?case unfolding forA_append_Inr using init by blast
qed

lemma updateTriggers_run:
  assumes "parents_older (w_db s)" and "distinct (map s_schID (rows (scheduled (w_db s))))"
    and "\<forall>r\<in>set (rows (scheduled (w_db s))). s_schID r < next_id (scheduled (w_db s))"
    and "0 < fuel" "next_id (scheduled (w_db s)) \<le> fuel + p" and "shift \<noteq> 0"
  shows "updateTriggers fuel p shift s
    = Some (Inr (), set_scheduled (bump (followers (rows (scheduled (w_db s))) p) shift (rows (scheduled (w_db s)))) s)"
  using assms
proof (induction fuel arbitrary: p s)
  case (Suc fuel)
  let ?rs = "rows (scheduled (w_db s))" let ?txs = "filter (\<lambda>r. s_schParentID r = Some p) ?rs"
  have older: "\<forall>r\<in>set ?rs. \<forall>p. s_schParentID r = Some p \<longrightarrow> p < s_schID r" using Suc.prems(1) by (simp add: parents_older_def)
  have ch: "s_schID ` set ?txs = {q. (p, q) \<in> child ?rs}" by (auto simp: child_def)
  have "forA (\<lambda>tx. bindA (onDb (updateTriggerScheduledTransaction (s_schID tx) (s_schTrigger tx + shift)))
      (\<lambda>_. updateTriggers fuel (s_schID tx) shift)) ?txs s
    = Some (Inr (), set_scheduled (bump (\<Union>q\<in>s_schID ` set ?txs. insert q (followers ?rs q)) shift ?rs) s)"
  proof (rule children_loop)
    fix q S assume "q \<in> s_schID ` set ?txs"
    then have q: "p < q" "q < next_id (scheduled (w_db s))" using older Suc.prems(3) by auto
    let ?u = "set_scheduled (bump S shift ?rs) s"
    have "parents_older (w_db ?u)" using older_bump [OF older] by (simp add: parents_older_def)
    moreover have "\<forall>r\<in>set (bump S shift ?rs). s_schID r < next_id (scheduled (w_db s))"
      using Suc.prems(3) by (auto simp: bump_def)
    ultimately show "updateTriggers fuel q shift ?u
        = Some (Inr (), set_scheduled (bump (followers ?rs q) shift (bump S shift ?rs)) s)"
      using q Suc.prems(2,5,6) by (subst Suc.IH) auto
  next
    fix q q' assume "q \<in> s_schID ` set ?txs" "q' \<in> s_schID ` set ?txs" "q \<noteq> q'"
    then show "insert q (followers ?rs q) \<inter> insert q' (followers ?rs q') = {}"
      unfolding ch by (intro followers_apart [OF older Suc.prems(2), of p]) auto
  next
    fix q show "q \<notin> followers ?rs q" using followers_younger [OF older, of q q] by auto
  qed (use Suc.prems(2) in auto)
  then show ?case
    using Suc.prems(6) unfolding ch followers_unfold [of ?rs p]
    by (simp add: bindA_eval(1) askDb_def ask_def getNextScheduledTransactions_def)
qed simp

text \<open>
  When a transaction was pushed late, exactly the transactions that follow it, directly or
  through others, have their trigger shifted, once each and by the same number of blocks; the
  recursion ends with fuel for the ids given since.
\<close>

theorem updateTriggers_spec:
  assumes "wf s" and "parents_older (w_db s)" and "shift \<noteq> 0"
    and "0 < fuel" and "next_id (scheduled (w_db s)) \<le> fuel + p"
  shows "updateTriggers fuel p shift s
    = Some (Inr (), set_scheduled (map (\<lambda>r. if s_schID r \<in> followers (rows (scheduled (w_db s))) p
        then r\<lparr>s_schTrigger := s_schTrigger r + shift\<rparr> else r) (rows (scheduled (w_db s)))) s)"
  using updateTriggers_run [OF assms(2) _ _ assms(4,5,3)] table_ok_distinct(1) [OF wf_tables(8) [OF assms(1)]] wf_tables(8) [OF assms(1)]
  by (simp add: bump_def table_ok_def)

text \<open>A chain of three: the first was pushed five blocks late.\<close>

definition demo_chain :: push_state where
  "demo_chain = demo_push\<lparr>w_db := empty_db\<lparr>scheduled := \<lparr>rows =
     [\<lparr>s_schID = 1, s_schTxid = ''a'', s_schCreated = 0, s_schRaw = ''x'', s_schParentID = None, s_schParentTxid = None, s_schDelay = 0, s_schTrigger = 100\<rparr>,
      \<lparr>s_schID = 2, s_schTxid = ''b'', s_schCreated = 0, s_schRaw = ''y'', s_schParentID = Some 1, s_schParentTxid = Some ''a'', s_schDelay = 3, s_schTrigger = 103\<rparr>,
      \<lparr>s_schID = 3, s_schTxid = ''c'', s_schCreated = 0, s_schRaw = ''z'', s_schParentID = Some 2, s_schParentTxid = Some ''b'', s_schDelay = 4, s_schTrigger = 107\<rparr>],
     next_id = 4\<rparr>\<rparr>\<rparr>"

lemma demo_chain_followers: "followers (rows (scheduled (w_db demo_chain))) 1 = {2, 3}"
proof -
  let ?rs = "rows (scheduled (w_db demo_chain))"
  have c: "child ?rs = {(1, 2), (2, 3)}" by (auto simp: child_def demo_chain_def)
  have "followers ?rs 3 = {}" by (subst followers_unfold) (simp add: c)
  moreover have "followers ?rs 2 = insert 3 (followers ?rs 3)" by (subst followers_unfold) (simp add: c)
  moreover have "followers ?rs 1 = insert 2 (followers ?rs 2)" by (subst followers_unfold) (simp add: c)
  ultimately show ?thesis by simp
qed

lemma updateTriggers_spec_witness:
  "\<exists>t. updateTriggers 4 1 5 demo_chain = Some (Inr (), t) \<and> map s_schTrigger (rows (scheduled (w_db t))) = [100, 108, 112]"
proof -
  have "wf demo_chain"
    unfolding demo_chain_def demo_push_def
    by (simp, rule wf_replace_scheduled [OF wf_empty_db]) (auto simp: table_ok_def nullable_ref_def has_id_iff)
  moreover have "parents_older (w_db demo_chain)" "next_id (scheduled (w_db demo_chain)) \<le> 4 + 1"
    by (auto simp: parents_older_def demo_chain_def)
  ultimately have "updateTriggers 4 1 5 demo_chain = Some (Inr (), set_scheduled (map (\<lambda>r. if s_schID r \<in> {2, 3}
      then r\<lparr>s_schTrigger := s_schTrigger r + 5\<rparr> else r) (rows (scheduled (w_db demo_chain)))) demo_chain)"
    using updateTriggers_spec [of demo_chain 5 4 1] demo_chain_followers by simp
  then show ?thesis by (simp add: demo_chain_def)
qed

section \<open>What a block can do\<close>

definition released :: "'e orch_env_scheme \<Rightarrow> int \<Rightarrow> scheduled_row \<Rightarrow> bool" where
  "released env height r \<longleftrightarrow> s_schTrigger r \<le> height
     \<and> (case s_schParentTxid r of None \<Rightarrow> True
        | Some p \<Rightarrow> p = '''' \<or> (\<exists>k n. pe_confirmations env k p = Inr (Some n) \<and> s_schDelay r \<le> n))"

definition same_tx :: "scheduled_row \<Rightarrow> scheduled_row \<Rightarrow> bool" where
  "same_tx q r \<longleftrightarrow> s_schID r = s_schID q \<and> s_schTxid r = s_schTxid q \<and> s_schRaw r = s_schRaw q
     \<and> s_schParentTxid r = s_schParentTxid q \<and> s_schDelay r = s_schDelay q \<and> s_schTrigger q \<le> s_schTrigger r"

abbreviation sched :: "'s world_scheme \<Rightarrow> scheduled_row list" where
  "sched s \<equiv> rows (scheduled (w_db s))"

definition progress :: "'e orch_env_scheme \<Rightarrow> int \<Rightarrow> 's push_state_scheme \<Rightarrow> 's push_state_scheme \<Rightarrow> bool" where
  "progress env height s t \<longleftrightarrow> wf t \<and> parents_older (w_db t) \<and> next_id (scheduled (w_db t)) = next_id (scheduled (w_db s))
     \<and> (\<forall>r\<in>set (sched t). \<exists>q\<in>set (sched s). same_tx q r)
     \<and> (\<forall>q\<in>set (sched s). (\<exists>r\<in>set (sched t). same_tx q r) \<or> released env height q)
     \<and> hands_over (s_schRaw ` {q \<in> set (sched s). released env height q}) s t"

lemma same_tx_refl [simp]: "same_tx r r"
  by (simp add: same_tx_def)

lemma same_tx_trans: "\<lbrakk>same_tx p q; same_tx q r\<rbrakk> \<Longrightarrow> same_tx p r"
  by (simp add: same_tx_def)

lemma released_before: "\<lbrakk>same_tx q r; released env height r\<rbrakk> \<Longrightarrow> released env height q"
  by (auto simp: same_tx_def released_def split: option.splits)

lemma progress_refl: "\<lbrakk>wf s; parents_older (w_db s)\<rbrakk> \<Longrightarrow> progress env height s s"
  unfolding progress_def using same_tx_refl hands_over_refl by blast

lemma progress_trans:
  assumes "progress env height s t" and "progress env height t u"
  shows "progress env height s u"
proof -
  have st: "\<forall>r\<in>set (sched t). \<exists>q\<in>set (sched s). same_tx q r" and tu: "\<forall>r\<in>set (sched u). \<exists>q\<in>set (sched t). same_tx q r"
    using assms by (simp_all add: progress_def)
  have sub: "s_schRaw ` {q \<in> set (sched t). released env height q} \<subseteq> s_schRaw ` {q \<in> set (sched s). released env height q}"
  proof
    fix x assume "x \<in> s_schRaw ` {q \<in> set (sched t). released env height q}"
    then obtain r where r: "r \<in> set (sched t)" "released env height r" "x = s_schRaw r" by auto
    then obtain q where "q \<in> set (sched s)" "same_tx q r" using st by blast
    then show "x \<in> s_schRaw ` {q \<in> set (sched s). released env height q}"
      using r released_before by (force simp: same_tx_def)
  qed
  have "(\<exists>r\<in>set (sched u). same_tx q r) \<or> released env height q" if "q \<in> set (sched s)" for q
    using assms that same_tx_trans released_before unfolding progress_def by meson
  moreover have "\<exists>q\<in>set (sched s). same_tx q r" if "r \<in> set (sched u)" for r
    using st tu that same_tx_trans by meson
  moreover have "hands_over (s_schRaw ` {q \<in> set (sched s). released env height q}) s u"
    using assms hands_over_trans hands_over_mono [OF _ sub] unfolding progress_def by blast
  ultimately show ?thesis using assms unfolding progress_def by auto
qed

lemma progress_clock [simp]: "progress env height s (t\<lparr>w_clock := k\<rparr>) \<longleftrightarrow> progress env height s t"
  by (simp add: progress_def hands_over_def)

lemma parentReady_run:
  "\<exists>b k. parentReady env tx s = Some (Inr b, s\<lparr>w_clock := k\<rparr>) \<and> (b \<and> s_schTrigger tx \<le> height \<longrightarrow> released env height tx)"
proof (cases "s_schParentTxid tx")
  case None
  then show ?thesis by (intro exI [of _ True] exI [of _ "w_clock s"]) (simp add: parentReady_def ret_def released_def)
next
  case (Some p)
  show ?thesis
  proof (cases "p = ''''")
    case True
    then show ?thesis using Some
      by (intro exI [of _ True] exI [of _ "w_clock s"]) (simp add: parentReady_def ret_def released_def)
  next
    case False
    let ?c = "case pe_confirmations env (w_clock s) p of Inl e \<Rightarrow> None | Inr c \<Rightarrow> c"
    let ?b = "case ?c of None \<Rightarrow> False | Some n \<Rightarrow> s_schDelay tx \<le> n"
    have "parentReady env tx s = Some (Inr ?b, s\<lparr>w_clock := Suc (w_clock s)\<rparr>)"
      using Some False by (auto simp: parentReady_def bindA_def catchA_def act_eval ret_def split: sum.split option.split)
    moreover have "?b \<and> s_schTrigger tx \<le> height \<longrightarrow> released env height tx"
      using Some by (auto simp: released_def split: sum.splits option.splits)
    ultimately show ?thesis by blast
  qed
qed

lemma progress_push:
  assumes "progress env height s0 s" and "tx \<in> set (sched s0)" "released env height tx"
    and "pushTx env (s_schRaw tx) force s = Some (r, t)"
  shows "progress env height s0 t \<and> sched t = sched s \<and> scheduled (w_db t) = scheduled (w_db s)"
proof -
  let ?R = "s_schRaw ` {q \<in> set (sched s0). released env height q}"
  have "s_schRaw tx \<in> ?R" using assms(2,3) by auto
  then have g: "push_grows ?R s t" using keepsD [OF pushTx_grows assms(4)] by simp
  then have "hands_over ?R s0 t" using assms(1) by (auto simp: progress_def push_grows_def intro: hands_over_trans)
  then show ?thesis using assms(1) g by (auto simp: progress_def push_grows_def)
qed

lemma sched_keys:
  assumes "wf s"
  shows "distinct (map s_schID (sched s))" "distinct (map s_schTxid (sched s))"
    "\<forall>r\<in>set (sched s). s_schID r < next_id (scheduled (w_db s))"
  using table_ok_distinct [OF wf_tables(8) [OF assms]] wf_tables(8) [OF assms] by (auto simp: table_ok_def)

lemma progress_shift:
  assumes "progress env height s0 s" and "0 < shift" "0 < fuel" "next_id (scheduled (w_db s)) \<le> fuel"
  shows "\<exists>t. updateTriggers fuel i shift s = Some (Inr (), t) \<and> progress env height s0 t
    \<and> map s_schTxid (sched t) = map s_schTxid (sched s) \<and> next_id (scheduled (w_db t)) = next_id (scheduled (w_db s))"
proof -
  let ?rs = "bump (followers (sched s) i) shift (sched s)"
  have s: "wf s" "parents_older (w_db s)" using assms(1) by (auto simp: progress_def)
  have run: "updateTriggers fuel i shift s = Some (Inr (), set_scheduled ?rs s)"
    using updateTriggers_run [OF s(2) sched_keys(1,3) [OF s(1)]] assms(2-4) by simp
  have wf: "wf (set_scheduled ?rs s)"
  proof -
    let ?P = "\<lambda>r. s_schID r \<in> followers (sched s) i" and ?f = "\<lambda>r. r\<lparr>s_schTrigger := s_schTrigger r + shift\<rparr>"
    have "(scheduled (w_db s))\<lparr>rows := ?rs\<rparr> = tbl_update ?P ?f (scheduled (w_db s))"
      by (simp add: tbl_update_def bump_def)
    moreover have "wf_db ((w_db s)\<lparr>scheduled := tbl_update ?P ?f (scheduled (w_db s))\<rparr>)"
      by (rule wf_replace_scheduled [OF s(1)]) (auto simp: wf_tables [OF s(1)] dest: wf_refs(6) [OF s(1)])
    ultimately show ?thesis by (simp add: set_scheduled_def)
  qed
  have "parents_older (w_db (set_scheduled ?rs s))"
    using older_bump s(2) by (simp add: parents_older_def)
  moreover have "\<forall>r\<in>set ?rs. \<exists>q\<in>set (sched s). same_tx q r"
    using assms(2) by (auto simp: bump_def same_tx_def)
  moreover have "\<exists>r\<in>set ?rs. same_tx q r" if "q \<in> set (sched s)" for q
    using that assms(2) by (intro bexI [of _ "if s_schID q \<in> followers (sched s) i then q\<lparr>s_schTrigger := s_schTrigger q + shift\<rparr> else q"])
      (auto simp: bump_def same_tx_def)
  ultimately have "progress env height s (set_scheduled ?rs s)"
    using wf by (auto simp: progress_def hands_over_def) (simp_all add: set_scheduled_def)
  then have "progress env height s0 (set_scheduled ?rs s)" by (rule progress_trans [OF assms(1)])
  then show ?thesis using run by (auto simp: bump_def)
qed

lemma sched_delete:
  "rows (scheduled (deleteScheduledTransaction txid d)) =
     map (\<lambda>r. r\<lparr>s_schParentID := null_dangling s_schID (tbl_delete (\<lambda>r. s_schTxid r = txid) (scheduled d)) (s_schParentID r)\<rparr>)
       (filter (\<lambda>r. s_schTxid r \<noteq> txid) (rows (scheduled d)))"
  "next_id (scheduled (deleteScheduledTransaction txid d)) = next_id (scheduled d)"
  by (simp_all add: deleteScheduledTransaction_def cascade_def Let_def)

lemma progress_delete:
  assumes "progress env height s0 s" and "wf s0" and "tx \<in> set (sched s0)" "released env height tx"
    and t: "t = s\<lparr>w_db := deleteScheduledTransaction (s_schTxid tx) (w_db s)\<rparr>"
  shows "progress env height s0 t"
    and "map s_schTxid (sched t) = filter (\<lambda>x. x \<noteq> s_schTxid tx) (map s_schTxid (sched s))"
proof -
  let ?g = "\<lambda>r. r\<lparr>s_schParentID := null_dangling s_schID (tbl_delete (\<lambda>r. s_schTxid r = s_schTxid tx) (scheduled (w_db s))) (s_schParentID r)\<rparr>"
  have rows: "sched t = map ?g (filter (\<lambda>r. s_schTxid r \<noteq> s_schTxid tx) (sched s))"
    by (simp add: t sched_delete)
  then show "map s_schTxid (sched t) = filter (\<lambda>x. x \<noteq> s_schTxid tx) (map s_schTxid (sched s))"
    by (simp add: filter_map comp_def)
  have g: "same_tx q (?g r) = same_tx q r" for q r by (simp add: same_tx_def)
  have "\<exists>r\<in>set (sched t). same_tx q r" if q: "q \<in> set (sched s0)" "\<not> released env height q" for q
  proof -
    obtain r where r: "r \<in> set (sched s)" "same_tx q r" using assms(1) q by (auto simp: progress_def)
    have "s_schTxid q \<noteq> s_schTxid tx"
      using distinct_map_inj [OF sched_keys(2) [OF assms(2)] q(1) assms(3)] q(2) assms(4) by blast
    then have "?g r \<in> set (sched t)" using r by (auto simp: rows same_tx_def)
    then show ?thesis using r(2) g by blast
  qed
  moreover have "\<exists>q\<in>set (sched s0). same_tx q r" if "r \<in> set (sched t)" for r
    using that assms(1) g unfolding rows progress_def by auto
  moreover have "parents_older (w_db t)"
    using assms(1) unfolding parents_older_def rows progress_def by (auto simp: null_dangling_def)
  moreover have "wf t" using assms(1) by (simp add: t progress_def wf_deleteScheduledTransaction)
  ultimately show "progress env height s0 t"
    using assms(1) by (auto simp: progress_def t sched_delete(2) hands_over_def)
qed

text \<open>One transaction of the list: it stays, or it is removed and counted.\<close>

definition treated :: "nat \<Rightarrow> string list \<Rightarrow> string \<Rightarrow> string list \<Rightarrow> bool" where
  "treated n before txid after \<longleftrightarrow> (n = 0 \<and> after = before) \<or> (n = 1 \<and> after = filter (\<lambda>x. x \<noteq> txid) before)"

lemma handleTx_run:
  assumes p: "progress env height s0 s" and wf: "wf s0" and tx: "tx \<in> set (sched s0)" "s_schTrigger tx \<le> height"
    and fuel: "0 < fuel" "next_id (scheduled (w_db s0)) \<le> fuel"
  shows "\<exists>n ok t. handleTx env fuel height tx s = Some (Inr (n, ok), t) \<and> progress env height s0 t
    \<and> treated n (map s_schTxid (sched s)) (s_schTxid tx) (map s_schTxid (sched t))"
proof -
  obtain b k where pr: "parentReady env tx s = Some (Inr b, s\<lparr>w_clock := k\<rparr>)" "b \<Longrightarrow> released env height tx"
    using parentReady_run tx(2) by blast
  show ?thesis
  proof (cases b)
    case False
    then show ?thesis using pr p by (intro exI [of _ 0] exI [of _ True]) (simp add: handleTx_def bindA_def ret_def treated_def)
  next
    case True
    let ?push = "catchA (bindA (pushTx env (s_schRaw tx) False) (\<lambda>_. ret True)) (\<lambda>e. ret (\<not> isConnectionError e))"
    obtain r u where u: "pushTx env (s_schRaw tx) False (s\<lparr>w_clock := k\<rparr>) = Some (r, u)"
      using returnsD [OF returns_pushTx] by blast
    have "progress env height s0 (s\<lparr>w_clock := k\<rparr>)" using p by simp
    then have pu: "progress env height s0 u" "sched u = sched s"
      using progress_push [OF _ tx(1) pr(2) [OF True] u] by auto
    then have nid: "next_id (scheduled (w_db u)) = next_id (scheduled (w_db s0))" by (simp add: progress_def)
    obtain ok where push: "?push (s\<lparr>w_clock := k\<rparr>) = Some (Inr ok, u)"
      using u by (cases r) (auto simp: catchA_def bindA_def ret_def)
    show ?thesis
    proof (cases ok)
      case False
      then show ?thesis using pr(1) True push pu
        by (intro exI [of _ 0] exI [of _ False]) (simp add: handleTx_def bindA_def ret_def treated_def)
    next
      case ok: True
      let ?shift = "if s_schTrigger tx < height
         then catchA (updateTriggers fuel (s_schID tx) (height - s_schTrigger tx)) (\<lambda>_. ret ()) else ret ()"
      obtain v where v: "?shift u = Some (Inr (), v)" "progress env height s0 v" "map s_schTxid (sched v) = map s_schTxid (sched s)"
      proof (cases "s_schTrigger tx < height")
        case late: True
        obtain w where w: "updateTriggers fuel (s_schID tx) (height - s_schTrigger tx) u = Some (Inr (), w)"
          "progress env height s0 w" "map s_schTxid (sched w) = map s_schTxid (sched u)"
          using progress_shift [OF pu(1), of "height - s_schTrigger tx" fuel "s_schID tx"] late fuel nid by auto
        have "?shift u = Some (Inr (), w)" using late w(1) by (simp add: catchA_def)
        then show ?thesis by (rule that) (use w pu(2) in simp_all)
      next
        case False
        then have "?shift u = Some (Inr (), u)" by (simp add: ret_def)
        then show ?thesis by (rule that) (use pu in simp_all)
      qed
      let ?t = "v\<lparr>w_db := deleteScheduledTransaction (s_schTxid tx) (w_db v)\<rparr>"
      have "handleTx env fuel height tx s = Some (Inr (1, True), ?t)"
        using pr(1) True push ok v(1) unfolding handleTx_def bindA_def by (simp add: ret_def onDb_def modify_def)
      then show ?thesis using progress_delete [OF v(2) wf tx(1) pr(2) [OF True] refl] v(3)
        by (intro exI [of _ 1] exI [of _ True] exI [of _ ?t]) (auto simp: treated_def)
    qed
  qed
qed

lemma remove_one: "\<lbrakk>distinct xs; x \<in> set xs\<rbrakk> \<Longrightarrow> Suc (length (filter (\<lambda>y. y \<noteq> x) xs)) = length xs"
proof (induction xs)
  case (Cons y xs)
  show ?case
  proof (cases "y = x")
    case True
    then have "filter (\<lambda>y. y \<noteq> x) xs = xs" using Cons.prems by (intro filter_True) auto
    then show ?thesis using True by simp
  qed (use Cons in simp)
qed simp

lemma handleTxs_run:
  assumes wf: "wf s0" and fuel: "0 < fuel" "next_id (scheduled (w_db s0)) \<le> fuel"
  shows "\<lbrakk>progress env height s0 s; set txs \<subseteq> set (sched s0); \<forall>tx\<in>set txs. s_schTrigger tx \<le> height;
     distinct (map s_schTxid txs); s_schTxid ` set txs \<subseteq> s_schTxid ` set (sched s)\<rbrakk>
   \<Longrightarrow> \<exists>n ok t. handleTxs env fuel height txs s = Some (Inr (n, ok), t) \<and> progress env height s0 t
     \<and> length (sched t) + n = length (sched s)"
proof (induction txs arbitrary: s)
  case Nil
  then show ?case by (intro exI [of _ 0] exI [of _ True]) (simp add: ret_def)
next
  case (Cons tx txs)
  obtain n ok u where u: "handleTx env fuel height tx s = Some (Inr (n, ok), u)" "progress env height s0 u"
    "treated n (map s_schTxid (sched s)) (s_schTxid tx) (map s_schTxid (sched u))"
    using handleTx_run [OF Cons.prems(1) wf _ _ fuel, of tx] Cons.prems(2,3) by auto
  have dist: "distinct (map s_schTxid (sched s))" using Cons.prems(1) sched_keys by (auto simp: progress_def)
  have mem: "s_schTxid tx \<in> set (map s_schTxid (sched s))" using Cons.prems(5) by auto
  have "length (map s_schTxid (sched u)) + n = length (map s_schTxid (sched s))"
    using u(3) remove_one [OF dist mem] unfolding treated_def by (elim disjE conjE) simp_all
  then have len: "length (sched u) + n = length (sched s)" by simp
  show ?case
  proof (cases ok)
    case False
    then show ?thesis using u(1,2) len
      by (intro exI [of _ n] exI [of _ False] exI [of _ u]) (simp add: bindA_def ret_def)
  next
    case True
    have "s_schTxid ` set txs \<subseteq> s_schTxid ` set (sched u)"
    proof -
      have "set (map s_schTxid (sched s)) - {s_schTxid tx} \<subseteq> set (map s_schTxid (sched u))"
        using u(3) unfolding treated_def by (elim disjE conjE) (simp_all del: set_map, blast)
      moreover have "s_schTxid ` set txs \<subseteq> set (map s_schTxid (sched s)) - {s_schTxid tx}"
        using Cons.prems(4,5) by (auto simp del: set_map simp add: image_set)
      ultimately show ?thesis by (metis set_map subset_trans)
    qed
    then obtain m ok' t where t: "handleTxs env fuel height txs u = Some (Inr (m, ok'), t)" "progress env height s0 t"
      "length (sched t) + m = length (sched u)"
      using Cons.IH [OF u(2)] Cons.prems by auto
    then show ?thesis using u(1) True len
      by (intro exI [of _ "n + m"] exI [of _ ok'] exI [of _ t]) (simp add: bindA_def ret_def)
  qed
qed

lemma pushRounds_run:
  "\<lbrakk>wf s; parents_older (w_db s); 0 < fuel; next_id (scheduled (w_db s)) \<le> fuel; length (sched s) < n\<rbrakk>
   \<Longrightarrow> \<exists>t. pushRounds env fuel height n s = Some (Inr (), t) \<and> progress env height s t"
proof (induction n arbitrary: s)
  case (Suc n)
  let ?txs = "getActivatedScheduledTransactions height (w_db s)"
  show ?case
  proof (cases "?txs = []")
    case True
    then show ?thesis using Suc.prems progress_refl by (simp add: ret_def)
  next
    case False
    have "\<exists>m ok t. handleTxs env fuel height ?txs s = Some (Inr (m, ok), t) \<and> progress env height s t
        \<and> length (sched t) + m = length (sched s)"
      using Suc.prems sched_keys [OF Suc.prems(1)]
      by (intro handleTxs_run progress_refl) (auto simp: getActivatedScheduledTransactions_def)
    then obtain m ok u where u: "handleTxs env fuel height ?txs s = Some (Inr (m, ok), u)" "progress env height s u"
      "length (sched u) + m = length (sched s)" by blast
    have run: "pushRounds env fuel height (Suc n) s = (if ok \<and> 0 < m then pushRounds env fuel height n else ret ()) u"
      using False u(1) by (simp add: bindA_def askDb_def ask_def)
    show ?thesis
    proof (cases "ok \<and> 0 < m")
      case True
      then obtain t where "pushRounds env fuel height n u = Some (Inr (), t)" "progress env height u t"
        using Suc.IH [of u] Suc.prems u(2,3) by (auto simp: progress_def)
      then show ?thesis using True run progress_trans [OF u(2)] by auto
    next
      case False
      then show ?thesis using run u(2) by (auto simp: ret_def)
    qed
  qed
qed simp

section \<open>What the scheduler leaves for the orchestrator\<close>

definition schedule_ok :: "'s push_state_scheme \<Rightarrow> bool" where
  "schedule_ok s \<longleftrightarrow> wf s \<and> parents_older (w_db s)"

lemma parents_older_add:
  assumes "addScheduledTransaction now n d = Inr (i, e)" and "wf_db d" and "parents_older d"
  shows "parents_older e"
proof -
  have "p < next_id (scheduled d)" if "ns_parentId n = Some p" for p
    using assms(1,2) that wf_tables(8) [OF assms(2)]
    by (auto simp: addScheduledTransaction_def nullable_ref_def has_id_iff table_ok_def split: if_splits)
  then show ?thesis
    using assms(3) addScheduledTransaction_Inr [OF assms(1)] by (auto simp: parents_older_def mk_scheduled_def)
qed

lemma schedule_ok_pushTx: "keeps schedule_ok (pushTx env raw force)"
proof -
  have "schedule_ok t" if "schedule_ok s" "pushTx env raw force s = Some (r, t)" for s r t
    using keepsD [OF pushTx_grows [of raw "{raw}" s env force] that(2)] that(1) by (simp add: push_grows_def schedule_ok_def)
  then show ?thesis by (auto simp: keeps_def)
qed

lemma schedule_ok_due: "keeps schedule_ok (pushDue env h p n es)"
  by (induction env h p n es rule: pushDue.induct) (auto intro!: keeps_intros schedule_ok_pushTx)

lemma schedule_ok_store: "keeps schedule_ok (storeEntries env now i p n es)"
proof (induction es arbitrary: i p n)
  case (Cons e es)
  have "keeps schedule_ok (getDb (addScheduledTransaction now m))" for m
    by (auto simp: keeps_def getDb_def schedule_ok_def intro: parents_older_add wf_addScheduledTransaction split: sum.splits)
  then show ?case using Cons by (auto intro!: keeps_intros)
qed (simp add: keeps_intros)

lemma schedule_ok_prepare: "keeps schedule_ok (prepareScript env script)"
  using keepsD [OF keeps_same_prepare] same_fields(1) unfolding keeps_def schedule_ok_def by (metis same_refl)

lemma schedule_ok_schedule: "keeps schedule_ok (schedule env now script)"
  unfolding schedule_def
  by (intro keeps_intros schedule_ok_prepare) (auto intro!: keeps_intros schedule_ok_due schedule_ok_store split: prod.split)

section \<open>Properties\<close>

lemma few_rows: "wf s \<Longrightarrow> length (sched s) < next_id (scheduled (w_db s))"
proof -
  assume wf: "wf s"
  let ?n = "next_id (scheduled (w_db s))"
  have pos: "0 < ?n" "\<forall>r\<in>set (sched s). 0 < s_schID r \<and> s_schID r < ?n"
    using wf_tables(8) [OF wf] by (auto simp: table_ok_def)
  then have "set (map s_schID (sched s)) \<subseteq> {1..<?n}" by auto
  then have "card (set (map s_schID (sched s))) \<le> card {1..<?n}" by (intro card_mono) auto
  then have "length (sched s) \<le> ?n - 1" using distinct_card [OF sched_keys(1) [OF wf]] by simp
  then show ?thesis using pos(1) by linarith
qed

text \<open>
  C10. Whatever the node answers and however it changes its answers, handling a block ends. Every
  transaction handed over or announced is one that was scheduled, that had reached its trigger
  at the height of the block and whose parent, if any, the node had reported with at least the
  delay as confirmations; only such transactions are removed from the schedule, and the others
  keep everything but their trigger, which only moves forward. The schedule stays well-formed.
\<close>

theorem orchestrate_spec:
  assumes "wf s" and "parents_older (w_db s)" and "next_id (scheduled (w_db s)) \<le> fuel"
    and "pe_header env (w_clock s) blockHash = Inr height"
  shows "\<exists>t. orchestrate env fuel blockHash s = Some (Inr (), t) \<and> wf t \<and> parents_older (w_db t)
    \<and> hands_over (s_schRaw ` {q \<in> set (sched s). released env height q}) s t
    \<and> (\<forall>q\<in>set (sched s). (\<exists>r\<in>set (sched t). same_tx q r) \<or> released env height q)
    \<and> (\<forall>r\<in>set (sched t). \<exists>q\<in>set (sched s). same_tx q r)"
proof -
  let ?s = "s\<lparr>w_clock := Suc (w_clock s)\<rparr>"
  have pos: "0 < fuel" and len: "length (sched ?s) < fuel" using few_rows [OF assms(1)] assms(3) by auto
  obtain t where t: "pushRounds env fuel height fuel ?s = Some (Inr (), t)" "progress env height ?s t"
    using pushRounds_run [of ?s fuel fuel env height] assms(1-3) pos len by auto
  have "orchestrate env fuel blockHash s = Some (Inr (), t)"
    using t(1) assms(4) by (simp add: orchestrate_def catchA_def bindA_def act_eval)
  moreover have "progress env height s t" using t(2) by (simp add: progress_def hands_over_def)
  ultimately show ?thesis by (auto simp: progress_def)
qed

text \<open>The schedule of the example of the scheduler, when its first transaction has three confirmations.\<close>

definition demo_orch_env :: orch_env where
  "demo_orch_env = \<lparr>pe_parse = pe_parse demo_sched_env, pe_pay = pe_pay demo_sched_env, pe_ntx = pe_ntx demo_sched_env,
     pe_local_bitcoind = False, pe_present = pe_present demo_sched_env, pe_send = pe_send demo_sched_env, pe_pando = False,
     pe_emit = pe_emit demo_sched_env, pe_secure = False, pe_header = (\<lambda>k h. Inr 110), pe_confirmations = (\<lambda>k p. Inr (Some 3))\<rparr>"

lemma orchestrate_spec_witness:
  "\<exists>(s :: push_state) t. wf s \<and> length (sched s) = 1 \<and> orchestrate demo_orch_env (next_id (scheduled (w_db s))) ''H'' s = Some (Inr (), t) \<and> wf t
     \<and> (\<forall>r\<in>set (sched t). s_schTxid r = ''bid'')"
proof -
  obtain s where s: "schedule demo_sched_env 7 demo_script demo_push = Some (Inr (), s)"
    "map (\<lambda>r. (s_schTxid r, s_schParentTxid r, s_schDelay r, s_schTrigger r)) (sched s) = [(''bid'', Some ''aid'', 3, 108)]"
    using demo_schedule by (elim exE conjE) (rule that)
  have "schedule_ok demo_push"
    by (simp add: schedule_ok_def demo_push_def wf_empty_db parents_older_def) (simp add: empty_db_def empty_table_def)
  then have ok: "schedule_ok s" by (rule keepsD [OF schedule_ok_schedule s(1)])
  then obtain t where t: "orchestrate demo_orch_env (next_id (scheduled (w_db s))) ''H'' s = Some (Inr (), t)" "wf t"
    "\<forall>r\<in>set (sched t). \<exists>q\<in>set (sched s). same_tx q r"
    using orchestrate_spec [of s "next_id (scheduled (w_db s))" demo_orch_env "''H''" 110]
    by (auto simp: demo_orch_env_def schedule_ok_def)
  have len: "length (sched s) = 1" using arg_cong [OF s(2), of length] by simp
  have "map (fst \<circ> (\<lambda>r. (s_schTxid r, s_schParentTxid r, s_schDelay r, s_schTrigger r))) (sched s) = [''bid'']"
    using arg_cong [OF s(2), of "map fst"] by (simp only: map_map list.map fst_conv)
  then have "set (map s_schTxid (sched s)) = {''bid''}" by (simp add: comp_def)
  then have q: "s_schTxid q = ''bid''" if "q \<in> set (sched s)" for q
    using that by auto
  have "\<forall>r\<in>set (sched t). s_schTxid r = ''bid''"
  proof
    fix r assume "r \<in> set (sched t)"
    then obtain q where "q \<in> set (sched s)" "same_tx q r" using t(3) by blast
    then show "s_schTxid r = ''bid''" using q by (simp add: same_tx_def)
  qed
  moreover have "wf s" using ok by (simp add: schedule_ok_def)
  ultimately show ?thesis using t(1,2) len by blast
qed

end
