(* ===== verification/Entities.thy ===== *)
theory Entities
  imports Hd_Accounts_Helper Address_Scripts Db_Scheduled
begin

text \<open>
  \<^verbatim>\<open>lib/wallet/wallet-entities.ts\<close> and \<^verbatim>\<open>accounts/api-helper.ts\<close>: the accounts, addresses and public keys
  a request names, in lists that correspond position by position. An absent or \<open>false\<close> entry of a list
  is \<open>None\<close>.
\<close>

section \<open>Entities\<close>

record entities =
  e_pubkeys :: "string option list"
  e_addrs :: "string list"
  e_xpubs :: "string list"
  e_ypubs :: "string option list"
  e_zpubs :: "string option list"

definition no_entities :: entities where
  "no_entities = \<lparr>e_pubkeys = [], e_addrs = [], e_xpubs = [], e_ypubs = [], e_zpubs = []\<rparr>"

definition addHdAccount :: "string \<Rightarrow> string option \<Rightarrow> string option \<Rightarrow> entities \<Rightarrow> entities" where
  "addHdAccount xpub ypub zpub e =
     e\<lparr>e_xpubs := e_xpubs e @ [xpub], e_ypubs := e_ypubs e @ [ypub], e_zpubs := e_zpubs e @ [zpub]\<rparr>"

definition addAddress :: "string \<Rightarrow> string option \<Rightarrow> entities \<Rightarrow> entities" where
  "addAddress address pubkey e = e\<lparr>e_addrs := e_addrs e @ [address], e_pubkeys := e_pubkeys e @ [pubkey]\<rparr>"

definition index_of :: "'a \<Rightarrow> 'a list \<Rightarrow> nat option" where
  "index_of x xs = (case dropWhile (\<lambda>y. y \<noteq> x) xs of [] \<Rightarrow> None | _ \<Rightarrow> Some (length (takeWhile (\<lambda>y. y \<noteq> x) xs)))"

definition updatePubKey :: "string \<Rightarrow> string \<Rightarrow> entities \<Rightarrow> entities" where
  "updatePubKey address pubkey e =
     (case index_of address (e_addrs e) of
        None \<Rightarrow> e | Some i \<Rightarrow> e\<lparr>e_pubkeys := (e_pubkeys e)[i := Some pubkey]\<rparr>)"

definition hasXPub :: "string \<Rightarrow> entities \<Rightarrow> bool" where "hasXPub xpub e \<longleftrightarrow> xpub \<in> set (e_xpubs e)"
definition hasAddress :: "string \<Rightarrow> entities \<Rightarrow> bool" where "hasAddress address e \<longleftrightarrow> address \<in> set (e_addrs e)"
definition hasPubKey :: "string \<Rightarrow> entities \<Rightarrow> bool" where "hasPubKey pubkey e \<longleftrightarrow> Some pubkey \<in> set (e_pubkeys e)"

section \<open>Parsing\<close>

text \<open>
  What the parser asks bitcoinjs-lib: whether bytes are a public key (its payments throw otherwise),
  whether a string is an address, and the data of a Bech32 address.
\<close>

record 'n entity_lib = "'n hd_lib" +
  el_pubkey :: "byte list \<Rightarrow> bool"
  el_address :: "string \<Rightarrow> bool"
  el_bech32 :: "string \<Rightarrow> byte list option"

fun split_on :: "char \<Rightarrow> string \<Rightarrow> string list" where
  "split_on c [] = [[]]"
| "split_on c (x # xs) =
     (if x = c then [] # split_on c xs
      else case split_on c xs of [] \<Rightarrow> [[x]] | y # ys \<Rightarrow> (x # y) # ys)"

text \<open>\<open>Buffer.from(s, "hex")\<close>: whole bytes up to the first character that is no digit.\<close>

definition hex_value :: "char \<Rightarrow> nat option" where
  "hex_value c = (let n = of_char c in
     if 48 \<le> n \<and> n \<le> 57 then Some (n - 48)
     else if 97 \<le> n \<and> n \<le> 102 then Some (n - 87)
     else if 65 \<le> n \<and> n \<le> 70 then Some (n - 55) else None)"

fun hex_bytes :: "string \<Rightarrow> byte list" where
  "hex_bytes (a # b # r) =
     (case (hex_value a, hex_value b) of (Some x, Some y) \<Rightarrow> word_of_nat (16 * x + y) # hex_bytes r | _ \<Rightarrow> [])"
| "hex_bytes _ = []"

definition pubkey_addresses :: "('n, 'e) entity_lib_scheme \<Rightarrow> byte list \<Rightarrow> string list" where
  "pubkey_addresses lib key =
     [p2pkhAddress (hd_lib.truncate lib) key, p2wpkhP2shAddress (hd_lib.truncate lib) key, p2wpkhAddress (hd_lib.truncate lib) key]"

definition addPubKeyAddress :: "string \<Rightarrow> string \<Rightarrow> entities \<Rightarrow> entities" where
  "addPubKeyAddress pubkey addr e = (if hasAddress addr e then updatePubKey addr pubkey e else addAddress addr (Some pubkey) e)"

text \<open>\<open>isValid\<close> of the accounts helper: it throws on a private key.\<close>

definition validItem :: "('n, 'e) entity_lib_scheme \<Rightarrow> string \<Rightarrow> bool result" where
  "validItem lib item = (case fresh_node (hd_lib.truncate lib) (Some item) of Inl e \<Rightarrow> Inl e | Inr n \<Rightarrow> Inr (n \<noteq> None))"

text \<open>One item; an error leaves the entities as they are when it is thrown.\<close>

definition parseItem :: "('n, 'e) entity_lib_scheme \<Rightarrow> string \<Rightarrow> entities \<Rightarrow> entities" where
  "parseItem lib item e =
     (case validItem lib item of
        Inl _ \<Rightarrow> e
      | Inr valid \<Rightarrow>
          if valid \<and> \<not> hasXPub item e
          then (case xlatXPUB (hd_lib.truncate lib) (Some item) of
                  Inl _ \<Rightarrow> e
                | Inr xpub \<Rightarrow>
                    if isYpub (Some item) then addHdAccount xpub (Some item) None e
                    else if isZpub (Some item) then addHdAccount xpub None (Some item) e
                    else addHdAccount item None None e)
          else if isSupportedPubKey item \<and> \<not> hasPubKey item e
          then (if el_pubkey lib (hex_bytes item)
                then fold (addPubKeyAddress item) (pubkey_addresses lib (hex_bytes item)) e
                else e)
          else if el_address lib item \<and> \<not> hasAddress item e
          then addAddress (if isBech32 (el_bech32 lib) item then toLowerCase item else item) None e
          else e)"

definition parseEntities :: "('n, 'e) entity_lib_scheme \<Rightarrow> string option \<Rightarrow> entities" where
  "parseEntities lib arg =
     (case arg of None \<Rightarrow> no_entities | Some t \<Rightarrow> fold (parseItem lib) (split_on (CHR ''|'') t) no_entities)"

record entity_params =
  ep_active :: "string option"
  ep_new :: "string option"
  ep_pubkey :: "string option"
  ep_bip49 :: "string option"
  ep_bip84 :: "string option"

definition params_list :: "entity_params \<Rightarrow> string option list" where
  "params_list p = [ep_active p, ep_new p, ep_pubkey p, ep_bip49 p, ep_bip84 p]"

definition checkEntitiesParams :: "entity_params \<Rightarrow> bool" where
  "checkEntitiesParams p \<longleftrightarrow> (\<exists>x\<in>set (params_list p). truthy_str x \<noteq> None)"

record parsed_params =
  pp_active :: entities
  pp_legacy :: entities
  pp_pubkey :: entities
  pp_bip49 :: entities
  pp_bip84 :: entities

definition parseEntitiesParams :: "('n, 'e) entity_lib_scheme \<Rightarrow> entity_params \<Rightarrow> parsed_params" where
  "parseEntitiesParams lib p =
     \<lparr>pp_active = parseEntities lib (ep_active p), pp_legacy = parseEntities lib (ep_new p),
      pp_pubkey = parseEntities lib (ep_pubkey p), pp_bip49 = parseEntities lib (ep_bip49 p),
      pp_bip84 = parseEntities lib (ep_bip84 p)\<rparr>"

text \<open>\<open>validator.isAlphanumeric\<close>: one letter or digit at least, and nothing else.\<close>

definition isAlphanumeric :: "string \<Rightarrow> bool" where
  "isAlphanumeric t \<longleftrightarrow> t \<noteq> [] \<and> list_all (\<lambda>c. let n = (of_char c :: nat) in
     48 \<le> n \<and> n \<le> 57 \<or> 65 \<le> n \<and> n \<le> 90 \<or> 97 \<le> n \<and> n \<le> 122) t"

definition subValidateEntitiesParams :: "string \<Rightarrow> bool" where
  "subValidateEntitiesParams arg \<longleftrightarrow> list_all isAlphanumeric (split_on (CHR ''|'') arg)"

text \<open>The middleware: the next handler runs, or the request is answered with an error.\<close>

definition validateEntitiesParams :: "entity_params \<Rightarrow> entity_params \<Rightarrow> unit result" where
  "validateEntitiesParams query body =
     (let p = (if checkEntitiesParams query then query else body)
      in if list_all (\<lambda>x. case truthy_str x of None \<Rightarrow> True | Some t \<Rightarrow> subValidateEntitiesParams t) (params_list p)
         then Inr () else Inl (Err Body_INVDATA))"

section \<open>Merging and filtering\<close>

definition checkEntities :: "entities \<Rightarrow> entities \<Rightarrow> entities \<Rightarrow> entities \<Rightarrow> entities \<Rightarrow> bool" where
  "checkEntities active legacy bip49 bip84 pubkeys \<longleftrightarrow>
     \<not> (e_xpubs active = [] \<and> e_addrs active = [] \<and> e_xpubs legacy = [] \<and> e_addrs legacy = [] \<and> e_addrs pubkeys = [] \<and>
        e_xpubs bip49 = [] \<and> e_xpubs bip84 = [])"

definition mergeAddress :: "string \<times> string option \<Rightarrow> entities \<Rightarrow> entities" where
  "mergeAddress p active =
     (case p of (addr, pubkey) \<Rightarrow>
        (case index_of addr (e_addrs active) of
           None \<Rightarrow> addAddress addr pubkey active
         | Some i \<Rightarrow> (case truthy_str pubkey of
             None \<Rightarrow> active | Some k \<Rightarrow> active\<lparr>e_pubkeys := (e_pubkeys active)[i := Some k]\<rparr>)))"

text \<open>The pairs of an address and the key at its position, which is \<open>undefined\<close> past the end.\<close>

definition address_pairs :: "entities \<Rightarrow> (string \<times> string option) list" where
  "address_pairs e = map (\<lambda>(i, a). (a, Option.bind (js_nth (e_pubkeys e) i) (\<lambda>x. x))) (enumerate 0 (e_addrs e))"

definition mergeEntities :: "entities \<Rightarrow> entities \<Rightarrow> entities \<Rightarrow> entities \<Rightarrow> entities \<Rightarrow> entities" where
  "mergeEntities active legacy bip49 bip84 pubkeys =
     fold mergeAddress (address_pairs legacy @ address_pairs pubkeys)
       (active\<lparr>e_xpubs := e_xpubs active @ e_xpubs legacy @ e_xpubs bip49 @ e_xpubs bip84\<rparr>)"

definition splice1 :: "nat \<Rightarrow> 'a list \<Rightarrow> 'a list" where
  "splice1 i xs = take i xs @ drop (Suc i) xs"

text \<open>The addresses that belong to an account named in the same request go away.\<close>

definition filterAddresses :: "db \<Rightarrow> entities \<Rightarrow> entities" where
  "filterAddresses d e =
     fold (\<lambda>(addr, xpub) e.
         if xpub \<in> set (e_xpubs e)
         then (case index_of addr (e_addrs e) of
                 None \<Rightarrow> e
               | Some i \<Rightarrow> e\<lparr>e_addrs := splice1 i (e_addrs e), e_pubkeys := splice1 i (e_pubkeys e)\<rparr>)
         else e)
       (getXpubByAddresses (e_addrs e) d) e"

section \<open>What the lists hold\<close>

definition aligned :: "entities \<Rightarrow> bool" where
  "aligned e \<longleftrightarrow> length (e_pubkeys e) = length (e_addrs e) \<and> length (e_ypubs e) = length (e_xpubs e) \<and> length (e_zpubs e) = length (e_xpubs e)"

definition address_keys :: "entities \<Rightarrow> (string \<times> string option) list" where
  "address_keys e = zip (e_addrs e) (e_pubkeys e)"

definition account_keys :: "entities \<Rightarrow> (string \<times> string option \<times> string option) list" where
  "account_keys e = zip (e_xpubs e) (zip (e_ypubs e) (e_zpubs e))"

text \<open>Where an entry comes from, among the items of the request.\<close>

definition account_of :: "('n, 'e) entity_lib_scheme \<Rightarrow> string set \<Rightarrow> string \<times> string option \<times> string option \<Rightarrow> bool" where
  "account_of lib items p \<longleftrightarrow> (\<exists>item\<in>items. validItem lib item = Inr True \<and>
     (case p of (x, y, z) \<Rightarrow>
        if isYpub (Some item) then xlatXPUB (hd_lib.truncate lib) (Some item) = Inr x \<and> y = Some item \<and> z = None
        else if isZpub (Some item) then xlatXPUB (hd_lib.truncate lib) (Some item) = Inr x \<and> y = None \<and> z = Some item
        else x = item \<and> y = None \<and> z = None))"

definition address_of :: "('n, 'e) entity_lib_scheme \<Rightarrow> string set \<Rightarrow> string \<times> string option \<Rightarrow> bool" where
  "address_of lib items p \<longleftrightarrow>
     (case p of
        (a, Some k) \<Rightarrow> k \<in> items \<and> isSupportedPubKey k \<and> el_pubkey lib (hex_bytes k) \<and> a \<in> set (pubkey_addresses lib (hex_bytes k))
      | (a, None) \<Rightarrow> (\<exists>item\<in>items. el_address lib item \<and> a = (if isBech32 (el_bech32 lib) item then toLowerCase item else item)))"

definition entities_from :: "('n, 'e) entity_lib_scheme \<Rightarrow> string set \<Rightarrow> entities \<Rightarrow> bool" where
  "entities_from lib items e \<longleftrightarrow> aligned e \<and> (\<forall>p\<in>set (account_keys e). account_of lib items p) \<and> (\<forall>p\<in>set (address_keys e). address_of lib items p)"

lemma index_of_Some: "index_of x xs = Some i \<Longrightarrow> i < length xs \<and> xs ! i = x"
proof (induction xs arbitrary: i)
  case (Cons y ys)
  show ?case
  proof (cases "y = x")
    case False
    then obtain j where "i = Suc j" "index_of x ys = Some j" using Cons.prems by (auto simp: index_of_def split: list.splits)
    then show ?thesis using Cons.IH by simp
  qed (use Cons.prems in \<open>simp add: index_of_def\<close>)
qed (simp add: index_of_def)

lemma index_of_None: "index_of x xs = None \<longleftrightarrow> x \<notin> set xs"
proof -
  have "x \<notin> set xs \<longleftrightarrow> dropWhile (\<lambda>y. y \<noteq> x) xs = []" by (auto simp: dropWhile_eq_Nil_conv)
  then show ?thesis unfolding index_of_def by (simp only: split: list.split) simp
qed

lemma set_zip_update:
  assumes "p \<in> set (zip xs (ys[i := v]))" and "i < length xs"
  shows "p \<in> set (zip xs ys) \<or> p = (xs ! i, v)"
proof -
  obtain j where j: "p = (xs ! j, ys[i := v] ! j)" "j < length xs" "j < length ys"
    using assms(1) by (auto simp: set_zip)
  then show ?thesis by (cases "j = i") (auto simp: set_zip)
qed

lemma updated_keys:
  assumes "aligned e" and "index_of a (e_addrs e) = Some i"
  shows "aligned (e\<lparr>e_pubkeys := (e_pubkeys e)[i := Some k]\<rparr>)"
    and "set (address_keys (e\<lparr>e_pubkeys := (e_pubkeys e)[i := Some k]\<rparr>)) \<subseteq> insert (a, Some k) (set (address_keys e))"
    and "(a, Some k) \<in> set (address_keys (e\<lparr>e_pubkeys := (e_pubkeys e)[i := Some k]\<rparr>))"
proof -
  note i = index_of_Some [OF assms(2)]
  show "aligned (e\<lparr>e_pubkeys := (e_pubkeys e)[i := Some k]\<rparr>)" using assms(1) by (simp add: aligned_def)
  show "set (address_keys (e\<lparr>e_pubkeys := (e_pubkeys e)[i := Some k]\<rparr>)) \<subseteq> insert (a, Some k) (set (address_keys e))"
    using i by (auto simp: address_keys_def dest!: set_zip_update)
  show "(a, Some k) \<in> set (address_keys (e\<lparr>e_pubkeys := (e_pubkeys e)[i := Some k]\<rparr>))"
    using i assms(1) by (auto simp: address_keys_def aligned_def set_zip intro!: exI [of _ i])
qed

lemma addAddress_keys:
  assumes "aligned e"
  shows "aligned (addAddress a k e)" and "address_keys (addAddress a k e) = address_keys e @ [(a, k)]"
    and "account_keys (addAddress a k e) = account_keys e"
  using assms by (simp_all add: aligned_def addAddress_def address_keys_def account_keys_def)

lemma addHdAccount_keys:
  assumes "aligned e"
  shows "aligned (addHdAccount x y z e)" and "account_keys (addHdAccount x y z e) = account_keys e @ [(x, y, z)]"
    and "address_keys (addHdAccount x y z e) = address_keys e"
  using assms by (simp_all add: aligned_def addHdAccount_def address_keys_def account_keys_def)

text \<open>A public key enters with each of its addresses.\<close>

lemma addPubKeyAddress_from:
  assumes "entities_from lib items e" and "address_of lib items (a, Some k)"
  shows "entities_from lib items (addPubKeyAddress k a e) \<and> (a, Some k) \<in> set (address_keys (addPubKeyAddress k a e))
    \<and> set (e_addrs (addPubKeyAddress k a e)) = insert a (set (e_addrs e)) \<and> e_xpubs (addPubKeyAddress k a e) = e_xpubs e"
proof (cases "index_of a (e_addrs e)")
  case None
  then have "addPubKeyAddress k a e = addAddress a (Some k) e"
    by (simp add: addPubKeyAddress_def hasAddress_def index_of_None)
  then show ?thesis using assms by (auto simp: entities_from_def addAddress_keys) (simp_all add: addAddress_def)
next
  case (Some i)
  then have a: "a \<in> set (e_addrs e)" using index_of_Some by (metis nth_mem)
  then have eq: "addPubKeyAddress k a e = e\<lparr>e_pubkeys := (e_pubkeys e)[i := Some k]\<rparr>"
    using Some by (simp add: addPubKeyAddress_def hasAddress_def updatePubKey_def)
  have al: "aligned e" using assms(1) by (simp add: entities_from_def)
  show ?thesis unfolding eq
    using assms updated_keys [OF al Some, of k] a
    by (auto simp: entities_from_def account_keys_def)
qed

lemma keys_from: "aligned e \<Longrightarrow> set (e_pubkeys e) = snd ` set (address_keys e)"
  by (simp add: address_keys_def aligned_def set_map [symmetric] del: set_map)

lemma addPubKeyAddress_pubkeys: "set (e_pubkeys (addPubKeyAddress k a e)) \<subseteq> insert (Some k) (set (e_pubkeys e))"
  by (auto simp: addPubKeyAddress_def updatePubKey_def addAddress_def split: option.splits dest!: subsetD [OF set_update_subset_insert])

lemma addPubKey_from:
  assumes "entities_from lib items e" and "\<forall>a\<in>set as. address_of lib items (a, Some k)"
  shows "entities_from lib items (fold (addPubKeyAddress k) as e)
    \<and> set (e_addrs (fold (addPubKeyAddress k) as e)) = set (e_addrs e) \<union> set as
    \<and> e_xpubs (fold (addPubKeyAddress k) as e) = e_xpubs e
    \<and> set (e_pubkeys (fold (addPubKeyAddress k) as e)) \<subseteq> insert (Some k) (set (e_pubkeys e))"
  using assms
proof (induction as arbitrary: e)
  case (Cons a as)
  have one: "entities_from lib items (addPubKeyAddress k a e)" "set (e_addrs (addPubKeyAddress k a e)) = insert a (set (e_addrs e))"
    "e_xpubs (addPubKeyAddress k a e) = e_xpubs e"
    using addPubKeyAddress_from [OF Cons.prems(1), of a k] Cons.prems(2) by auto
  show ?case using Cons.IH [OF one(1)] Cons.prems(2) one addPubKeyAddress_pubkeys [of k a e] by auto
qed auto

text \<open>What an item of the request leads to.\<close>

definition item_listed :: "('n, 'e) entity_lib_scheme \<Rightarrow> entities \<Rightarrow> string \<Rightarrow> bool" where
  "item_listed lib e item \<longleftrightarrow>
     (\<forall>x. validItem lib item = Inr True \<and> xlatXPUB (hd_lib.truncate lib) (Some item) = Inr x \<longrightarrow>
        item \<in> set (e_xpubs e) \<or> x \<in> set (e_xpubs e)) \<and>
     (validItem lib item = Inr False \<and> isSupportedPubKey item \<and> el_pubkey lib (hex_bytes item) \<longrightarrow>
        set (pubkey_addresses lib (hex_bytes item)) \<subseteq> set (e_addrs e)) \<and>
     (validItem lib item = Inr False \<and> \<not> isSupportedPubKey item \<and> el_address lib item \<longrightarrow>
        item \<in> set (e_addrs e) \<or> (if isBech32 (el_bech32 lib) item then toLowerCase item else item) \<in> set (e_addrs e))"

definition keys_listed :: "('n, 'e) entity_lib_scheme \<Rightarrow> entities \<Rightarrow> bool" where
  "keys_listed lib e \<longleftrightarrow> (\<forall>k. Some k \<in> set (e_pubkeys e) \<longrightarrow> set (pubkey_addresses lib (hex_bytes k)) \<subseteq> set (e_addrs e))"

lemma item_listed_mono:
  "\<lbrakk>item_listed lib e item; set (e_xpubs e) \<subseteq> set (e_xpubs e'); set (e_addrs e) \<subseteq> set (e_addrs e')\<rbrakk> \<Longrightarrow> item_listed lib e' item"
  unfolding item_listed_def by (auto split: if_splits)

lemma parseItem_step:
  assumes src: "entities_from lib items e" and keys: "keys_listed lib e" and item: "item \<in> items"
  defines "e' \<equiv> parseItem lib item e"
  shows "entities_from lib items e' \<and> keys_listed lib e' \<and> item_listed lib e' item
    \<and> set (e_xpubs e) \<subseteq> set (e_xpubs e') \<and> set (e_addrs e) \<subseteq> set (e_addrs e')"
proof (cases "validItem lib item")
  case (Inl x)
  then have "e' = e" by (simp add: e'_def parseItem_def)
  then show ?thesis using src keys Inl by (simp add: item_listed_def)
next
  case valid: (Inr valid)
  have al: "aligned e" using src by (simp add: entities_from_def)
  let ?xlat = "xlatXPUB (hd_lib.truncate lib) (Some item)"
  consider (account) "valid" "\<not> hasXPub item e"
    | (pubkey) "\<not> (valid \<and> \<not> hasXPub item e)" "isSupportedPubKey item" "\<not> hasPubKey item e"
    | (other) "\<not> (valid \<and> \<not> hasXPub item e)" "\<not> (isSupportedPubKey item \<and> \<not> hasPubKey item e)"
    by blast
  then show ?thesis
  proof cases
    case account
    show ?thesis
    proof (cases ?xlat)
      case (Inl x)
      then have "e' = e" using account valid by (simp add: e'_def parseItem_def)
      then show ?thesis using src keys Inl valid account by (simp add: item_listed_def)
    next
      case (Inr x)
      define p where "p = (if isYpub (Some item) then (x, Some item, None)
        else if isZpub (Some item) then (x, None, Some item) else (item, None, None :: string option))"
      have e': "e' = addHdAccount (fst p) (fst (snd p)) (snd (snd p)) e"
        using account valid Inr by (simp add: e'_def parseItem_def p_def)
      have "account_of lib items p" using item valid account Inr by (auto simp: account_of_def p_def)
      then have "entities_from lib items e'"
        using src unfolding e' entities_from_def by (simp add: addHdAccount_keys)
      moreover have "fst p \<in> {x, item}" by (simp add: p_def)
      ultimately show ?thesis using keys valid account Inr
        by (auto simp: e' addHdAccount_def keys_listed_def item_listed_def)
    qed
  next
    case pubkey
    show ?thesis
    proof (cases "el_pubkey lib (hex_bytes item)")
      case True
      have e': "e' = fold (addPubKeyAddress item) (pubkey_addresses lib (hex_bytes item)) e"
        using pubkey valid True by (auto simp: e'_def parseItem_def)
      have "\<forall>a\<in>set (pubkey_addresses lib (hex_bytes item)). address_of lib items (a, Some item)"
        using pubkey item True by (simp add: address_of_def)
      from addPubKey_from [OF src this] show ?thesis
        using keys pubkey valid unfolding e' keys_listed_def item_listed_def hasXPub_def by auto
    next
      case False
      then have "e' = e" using pubkey valid by (auto simp: e'_def parseItem_def)
      then show ?thesis using src keys valid False pubkey by (auto simp: item_listed_def hasXPub_def)
    qed
  next
    case other
    show ?thesis
    proof (cases "el_address lib item \<and> \<not> hasAddress item e")
      case True
      define a where "a = (if isBech32 (el_bech32 lib) item then toLowerCase item else item)"
      have e': "e' = addAddress a None e" using other valid True by (auto simp: e'_def parseItem_def a_def)
      have "address_of lib items (a, None)" using item True by (auto simp: address_of_def a_def)
      then have "entities_from lib items e'" using src unfolding e' entities_from_def by (simp add: addAddress_keys)
      then show ?thesis using keys other valid
        by (auto simp: e' addAddress_def keys_listed_def item_listed_def hasXPub_def hasPubKey_def a_def)
    next
      case False
      then have "e' = e" using other valid by (auto simp: e'_def parseItem_def)
      then show ?thesis using src keys valid False other
        by (auto simp: item_listed_def hasXPub_def hasPubKey_def hasAddress_def keys_listed_def)
    qed
  qed
qed

text \<open>
  C26. The lists of the entities of a request stay aligned, and hold exactly what the request names:
  each account comes from a valid extended key of the request, stands under its translation, and keeps
  the ypub or zpub it was given as at its position; each address with a public key is one of the three
  addresses of that key, which is in the request; each other address is in the request. And no valid
  account, public key or address of the request is left out.
\<close>

theorem parseEntities_spec:
  fixes lib :: "('n, 'e) entity_lib_scheme" and t :: string
  defines "items \<equiv> split_on (CHR ''|'') t" and "e \<equiv> parseEntities lib (Some t)"
  shows "length (e_pubkeys e) = length (e_addrs e) \<and> length (e_ypubs e) = length (e_xpubs e) \<and> length (e_zpubs e) = length (e_xpubs e)
    \<and> (\<forall>p\<in>set (account_keys e). account_of lib (set items) p)
    \<and> (\<forall>p\<in>set (address_keys e). address_of lib (set items) p)
    \<and> (\<forall>item\<in>set items. item_listed lib e item)"
proof -
  have "entities_from lib (set items) (fold (parseItem lib) its e0) \<and> (\<forall>item\<in>set its \<union> seen. item_listed lib (fold (parseItem lib) its e0) item)"
    if "entities_from lib (set items) e0" "keys_listed lib e0" "\<forall>item\<in>seen. item_listed lib e0 item" "set its \<subseteq> set items" for its e0 seen
    using that
  proof (induction its arbitrary: e0 seen)
    case (Cons item its)
    note step = parseItem_step [OF Cons.prems(1,2), of item]
    have "item \<in> set items" using Cons.prems(4) by simp
    note step = step [OF this]
    have "\<forall>i\<in>insert item seen. item_listed lib (parseItem lib item e0) i"
      using step Cons.prems(3) item_listed_mono by blast
    then show ?case using Cons.IH [of "parseItem lib item e0" "insert item seen"] step Cons.prems(4) by auto
  qed simp
  from this [of no_entities "{}" items] show ?thesis
    by (simp add: entities_from_def e_def parseEntities_def items_def no_entities_def aligned_def account_keys_def address_keys_def keys_listed_def)
qed

text \<open>
  Merging keeps the addresses aligned with their keys, and no address is listed twice. The accounts
  of the other lists are added without the ypub or zpub they were given as: the three lists of
  accounts are aligned no more when one of them is not empty.
\<close>

lemma mergeAddress_keys:
  assumes "length (e_pubkeys e) = length (e_addrs e)" and "distinct (e_addrs e)"
  shows "length (e_pubkeys (mergeAddress p e)) = length (e_addrs (mergeAddress p e)) \<and> distinct (e_addrs (mergeAddress p e))
    \<and> set (e_addrs (mergeAddress p e)) = insert (fst p) (set (e_addrs e)) \<and> e_xpubs (mergeAddress p e) = e_xpubs e
    \<and> e_ypubs (mergeAddress p e) = e_ypubs e"
proof (cases "index_of (fst p) (e_addrs e)")
  case None
  moreover have "fst p \<notin> set (e_addrs e)" using None by (simp add: index_of_None)
  ultimately show ?thesis using assms by (auto simp: mergeAddress_def addAddress_def split: prod.split)
next
  case (Some i)
  then have "fst p \<in> set (e_addrs e)" using index_of_Some by (metis nth_mem)
  then show ?thesis using assms Some by (auto simp: mergeAddress_def split: prod.split option.split)
qed

lemma mergeEntities_spec:
  fixes active legacy bip49 bip84 pubkeys
  assumes "aligned active" and "distinct (e_addrs active)"
  defines "m \<equiv> mergeEntities active legacy bip49 bip84 pubkeys"
  shows "length (e_pubkeys m) = length (e_addrs m)" and "distinct (e_addrs m)"
    and "set (e_addrs m) = set (e_addrs active) \<union> set (e_addrs legacy) \<union> set (e_addrs pubkeys)"
    and "e_xpubs m = e_xpubs active @ e_xpubs legacy @ e_xpubs bip49 @ e_xpubs bip84" and "e_ypubs m = e_ypubs active"
proof -
  have all: "length (e_pubkeys (fold mergeAddress ps e)) = length (e_addrs (fold mergeAddress ps e)) \<and> distinct (e_addrs (fold mergeAddress ps e))
    \<and> set (e_addrs (fold mergeAddress ps e)) = set (e_addrs e) \<union> fst ` set ps \<and> e_xpubs (fold mergeAddress ps e) = e_xpubs e
    \<and> e_ypubs (fold mergeAddress ps e) = e_ypubs e"
    if "length (e_pubkeys e) = length (e_addrs e)" "distinct (e_addrs e)" for ps e
    using that
  proof (induction ps arbitrary: e)
    case (Cons p ps)
    note one = mergeAddress_keys [OF Cons.prems, of p]
    show ?case using Cons.IH [of "mergeAddress p e"] one by auto
  qed simp
  have fst_pairs: "fst ` set (address_pairs e) = set (e_addrs e)" for e
  proof -
    have "map fst (address_pairs e) = e_addrs e" by (rule nth_equalityI) (simp_all add: address_pairs_def nth_enumerate_eq)
    then show ?thesis by (metis set_map)
  qed
  let ?e = "active\<lparr>e_xpubs := e_xpubs active @ e_xpubs legacy @ e_xpubs bip49 @ e_xpubs bip84\<rparr>"
  note merged = all [of ?e "address_pairs legacy @ address_pairs pubkeys"]
  show "length (e_pubkeys m) = length (e_addrs m)" and "distinct (e_addrs m)"
    and "set (e_addrs m) = set (e_addrs active) \<union> set (e_addrs legacy) \<union> set (e_addrs pubkeys)"
    and "e_xpubs m = e_xpubs active @ e_xpubs legacy @ e_xpubs bip49 @ e_xpubs bip84" and "e_ypubs m = e_ypubs active"
    using merged assms(1,2) by (auto simp: m_def mergeEntities_def aligned_def image_Un fst_pairs)
qed

text \<open>After the filter no address is left that belongs to an account of the request.\<close>

lemma splice1_index:
  assumes "index_of a xs = Some i" and "distinct xs"
  shows "splice1 i xs = remove1 a xs"
proof -
  note i = index_of_Some [OF assms(1)]
  have "xs = take i xs @ a # drop (Suc i) xs" using i id_take_nth_drop by metis
  moreover have "a \<notin> set (take i xs)"
    using i assms(2) by (metis calculation distinct_append distinct.simps(2) Int_iff empty_iff list.set_intros(1))
  ultimately show ?thesis by (metis remove1_append remove1.simps(2) splice1_def)
qed

section \<open>A concrete request\<close>

definition demo_entities :: "int list entity_lib" where
  "demo_entities = hd_lib.extend (demo_lib 0)
     \<lparr>el_pubkey = \<lambda>_. True, el_address = \<lambda>a. take 1 a = ''1'', el_bech32 = \<lambda>_. None\<rparr>"

lemma parseEntities_spec_witness:
  "let e = parseEntities demo_entities (Some ''1a|zz'') in length (e_pubkeys e) = length (e_addrs e) \<and> ''1a'' \<in> set (e_addrs e)"
proof -
  have items: "split_on (CHR ''|'') ''1a|zz'' = [''1a'', ''zz'']" by simp
  have "isXpub (Some ''1a'') = False" "isYpub (Some ''1a'') = False" "isZpub (Some ''1a'') = False"
    by (simp_all add: isXpub_def isYpub_def isZpub_def starts_with_def)
  then have "validItem demo_entities ''1a'' = Inr False"
    by (simp add: validItem_def fresh_node_def parse_node_def)
  then have "item_listed demo_entities e ''1a'' \<longrightarrow> ''1a'' \<in> set (e_addrs e)" for e
    by (simp add: item_listed_def isSupportedPubKey_def isBech32_def demo_entities_def hd_lib.defs)
  then show ?thesis using parseEntities_spec [of demo_entities "''1a|zz''"] unfolding items Let_def by simp
qed

end
