(* ===== verification/Auth_Nonces.thy ===== *)
theory Auth_Nonces
  imports Errors "HOL-Library.AList"
begin

text \<open>
  \<^verbatim>\<open>lib/auth/auth47-nonces.ts\<close>: the challenges of an Auth47 login. The map is the list of its entries
  in insertion order, the clock and the random bytes are arguments of each call. What the class
  promises is stated over runs: sequences of calls at any times, with what they returned.
\<close>

section \<open>Operations\<close>

definition NONCE_TTL_MS :: int where "NONCE_TTL_MS = 10 * 60 * 1000"
definition MAX_NONCES :: nat where "MAX_NONCES = 1000"

record nonce =
  n_approved :: bool
  n_expiresAt :: int

type_synonym nonces = "(string \<times> nonce) list"

definition get_nonce :: "int \<Rightarrow> string \<Rightarrow> nonces \<Rightarrow> nonce option \<times> nonces" where
  "get_nonce now k m =
     (case map_of m k of
        Some state \<Rightarrow> if n_expiresAt state \<le> now then (None, AList.delete k m) else (Some state, m)
      | None \<Rightarrow> (None, m))"

definition create_nonce :: "int \<Rightarrow> string \<Rightarrow> nonces \<Rightarrow> (string \<times> int) result \<times> nonces" where
  "create_nonce now random m =
     (let m = filter (\<lambda>(_, state). \<not> n_expiresAt state \<le> now) m
      in if MAX_NONCES \<le> length m then (Inl (Exn ''Too many pending authentication requests''), m)
         else (let expiresAt = now + NONCE_TTL_MS
               in (Inr (random, expiresAt), AList.update random \<lparr>n_approved = False, n_expiresAt = expiresAt\<rparr> m)))"

definition approve_nonce :: "int \<Rightarrow> string \<Rightarrow> nonces \<Rightarrow> bool \<times> nonces" where
  "approve_nonce now k m =
     (case get_nonce now k m of
        (None, m) \<Rightarrow> (False, m)
      | (Some state, m) \<Rightarrow> (True, AList.update k (state\<lparr>n_approved := True\<rparr>) m))"

datatype consumption = Missing | Pending | Approved

definition consume_nonce :: "int \<Rightarrow> string \<Rightarrow> nonces \<Rightarrow> consumption \<times> nonces" where
  "consume_nonce now k m =
     (case get_nonce now k m of
        (None, m) \<Rightarrow> (Missing, m)
      | (Some state, m) \<Rightarrow> if \<not> n_approved state then (Pending, m) else (Approved, AList.delete k m))"

section \<open>Runs\<close>

text \<open>The calls that did something, with the time of the call.\<close>

datatype nonce_event =
    Created int string
  | ApprovedAt int string
  | Consumed int string
  | Refused

definition create_event :: "int \<Rightarrow> (string \<times> int) result \<Rightarrow> nonce_event" where
  "create_event now r = (case r of Inl e \<Rightarrow> Refused | Inr (k, _) \<Rightarrow> Created now k)"

inductive nonce_run :: "nonce_event list \<Rightarrow> nonces \<Rightarrow> bool" where
  run_start: "nonce_run [] []"
| run_create: "\<lbrakk>nonce_run tr m; create_nonce now random m = (r, m')\<rbrakk> \<Longrightarrow> nonce_run (tr @ [create_event now r]) m'"
| run_approve: "\<lbrakk>nonce_run tr m; approve_nonce now k m = (b, m')\<rbrakk>
    \<Longrightarrow> nonce_run (tr @ [if b then ApprovedAt now k else Refused]) m'"
| run_consume: "\<lbrakk>nonce_run tr m; consume_nonce now k m = (c, m')\<rbrakk>
    \<Longrightarrow> nonce_run (tr @ [if c = Approved then Consumed now k else Refused]) m'"

inductive_cases nonce_run_snocE: "nonce_run (tr @ [e]) m"

lemma length_update_le: "length (AList.update k v m) \<le> Suc (length m)"
  by (induction m) auto

lemma length_update_known: "k \<in> fst ` set m \<Longrightarrow> length (AList.update k v m) = length m"
  by (induction m) auto

text \<open>What the map knows of a nonce, in terms of the calls made.\<close>

definition open_since :: "nonce_event list \<Rightarrow> string \<Rightarrow> nonce \<Rightarrow> bool" where
  "open_since tr k state \<longleftrightarrow> (\<exists>pre t post. tr = pre @ Created t k # post
     \<and> n_expiresAt state = t + NONCE_TTL_MS
     \<and> (\<forall>u. Created u k \<notin> set post \<and> Consumed u k \<notin> set post)
     \<and> (n_approved state \<longrightarrow> (\<exists>u < t + NONCE_TTL_MS. ApprovedAt u k \<in> set post)))"

definition nonces_ok :: "nonce_event list \<Rightarrow> nonces \<Rightarrow> bool" where
  "nonces_ok tr m \<longleftrightarrow> distinct (map fst m) \<and> length m \<le> MAX_NONCES \<and> (\<forall>k state. map_of m k = Some state \<longrightarrow> open_since tr k state)"

lemma open_since_snoc:
  "\<lbrakk>open_since tr k state; \<And>u. e \<noteq> Created u k; \<And>u. e \<noteq> Consumed u k\<rbrakk> \<Longrightarrow> open_since (tr @ [e]) k state"
proof -
  assume "open_since tr k state" and new: "\<And>u. e \<noteq> Created u k" "\<And>u. e \<noteq> Consumed u k"
  then obtain pre t post where "tr = pre @ Created t k # post" "n_expiresAt state = t + NONCE_TTL_MS"
     "\<forall>u. Created u k \<notin> set post \<and> Consumed u k \<notin> set post"
     "n_approved state \<longrightarrow> (\<exists>u < t + NONCE_TTL_MS. ApprovedAt u k \<in> set post)"
    unfolding open_since_def by blast
  then show ?thesis unfolding open_since_def
    by (intro exI [of _ pre] exI [of _ t] exI [of _ "post @ [e]"]) (use new in auto)
qed

lemma get_nonce_Some: "get_nonce now k m = (Some state, m') \<longleftrightarrow> m' = m \<and> map_of m k = Some state \<and> now < n_expiresAt state"
  by (auto simp: get_nonce_def split: option.splits)

lemma get_nonce_None: "get_nonce now k m = (None, m') \<Longrightarrow> m' = m \<or> m' = AList.delete k m"
  by (auto simp: get_nonce_def split: option.splits if_splits)

lemma nonces_ok_delete: "nonces_ok tr m \<Longrightarrow> nonces_ok tr (AList.delete k m)"
  unfolding nonces_ok_def
  by (auto simp: delete_conv' distinct_delete split: if_splits intro: order_trans [OF length_delete_le])

lemma nonces_ok_snoc:
  "\<lbrakk>nonces_ok tr m; \<And>k u. e = Created u k \<or> e = Consumed u k \<Longrightarrow> map_of m k = None\<rbrakk> \<Longrightarrow> nonces_ok (tr @ [e]) m"
  unfolding nonces_ok_def by (metis open_since_snoc option.distinct(1))

lemma nonces_ok_create:
  assumes "nonces_ok tr m" and "create_nonce now random m = (r, m')"
  shows "nonces_ok (tr @ [create_event now r]) m'"
proof -
  let ?live = "filter (\<lambda>(_, state). \<not> n_expiresAt state \<le> now) m"
  have d: "distinct (map fst m)" using assms(1) by (simp add: nonces_ok_def)
  have sub: "map_of ?live k = Some state \<Longrightarrow> map_of m k = Some state" for k state
    using map_of_SomeD [of ?live k state] by (intro map_of_is_SomeI [OF d]) auto
  have live: "nonces_ok tr ?live"
    using assms(1) sub by (auto simp: nonces_ok_def distinct_map_filter intro: order_trans [OF length_filter_le])
  show ?thesis
  proof (cases "MAX_NONCES \<le> length ?live")
    case True
    then have "m' = ?live" "create_event now r = Refused"
      using assms(2) by (auto simp: create_nonce_def create_event_def Let_def)
    then show ?thesis using nonces_ok_snoc [OF live, of Refused] by simp
  next
    case False
    then have m': "m' = AList.update random \<lparr>n_approved = False, n_expiresAt = now + NONCE_TTL_MS\<rparr> ?live"
      and e: "create_event now r = Created now random"
      using assms(2) by (auto simp: create_nonce_def create_event_def Let_def)
    have "open_since (tr @ [Created now random]) random \<lparr>n_approved = False, n_expiresAt = now + NONCE_TTL_MS\<rparr>"
      unfolding open_since_def by fastforce
    then show ?thesis
      using live False unfolding nonces_ok_def m' e
      by (auto simp: update_conv' distinct_update intro: open_since_snoc order_trans [OF length_update_le] split: if_splits)
  qed
qed

lemma nonces_ok_approve:
  assumes "nonces_ok tr m" and "approve_nonce now k m = (b, m')"
  shows "nonces_ok (tr @ [if b then ApprovedAt now k else Refused]) m'"
proof (cases b)
  case False
  then have "get_nonce now k m = (None, m')" using assms(2) by (auto simp: approve_nonce_def split: prod.splits option.splits)
  then have "nonces_ok tr m'" using assms(1) nonces_ok_delete get_nonce_None by metis
  then show ?thesis using False nonces_ok_snoc [of tr m' Refused] by simp
next
  case True
  then obtain state where g: "get_nonce now k m = (Some state, m)" and m': "m' = AList.update k (state\<lparr>n_approved := True\<rparr>) m"
    using assms(2) by (auto simp: approve_nonce_def get_nonce_Some split: prod.splits option.splits)
  then have st: "map_of m k = Some state" "now < n_expiresAt state" by (simp_all add: get_nonce_Some)
  then obtain pre t post where op: "tr = pre @ Created t k # post" "n_expiresAt state = t + NONCE_TTL_MS"
     "\<forall>u. Created u k \<notin> set post \<and> Consumed u k \<notin> set post"
    using assms(1) unfolding nonces_ok_def open_since_def by blast
  have new: "open_since (tr @ [ApprovedAt now k]) k (state\<lparr>n_approved := True\<rparr>)"
    unfolding open_since_def
    by (rule exI [of _ pre], rule exI [of _ t], rule exI [of _ "post @ [ApprovedAt now k]"]) (use op st(2) in auto)
  have "k \<in> fst ` set m" using st(1) by (metis map_of_eq_None_iff option.distinct(1))
  then have "length m' = length m" unfolding m' by (rule length_update_known)
  then show ?thesis
    using True assms(1) new unfolding nonces_ok_def m'
    by (auto simp: update_conv' distinct_update intro: open_since_snoc split: if_splits)
qed

lemma nonces_ok_consume:
  assumes "nonces_ok tr m" and "consume_nonce now k m = (c, m')"
  shows "nonces_ok (tr @ [if c = Approved then Consumed now k else Refused]) m'"
proof (cases "c = Approved")
  case True
  then have m': "m' = AList.delete k m"
    using assms(2) by (auto simp: consume_nonce_def get_nonce_Some split: prod.splits option.splits if_splits)
  have "nonces_ok tr m'" unfolding m' by (rule nonces_ok_delete [OF assms(1)])
  then show ?thesis using True nonces_ok_snoc [of tr m' "Consumed now k"] by (auto simp: m' delete_conv')
next
  case False
  then have "m' = m \<or> m' = AList.delete k m"
    using assms(2) by (auto simp: consume_nonce_def get_nonce_Some split: prod.splits option.splits if_splits dest: get_nonce_None)
  then have "nonces_ok tr m'" using assms(1) nonces_ok_delete by metis
  then show ?thesis using False nonces_ok_snoc [of tr m' Refused] by simp
qed

lemma nonces_ok_start: "nonces_ok [] []"
  by (simp add: nonces_ok_def)

lemma nonce_run_ok: "nonce_run tr m \<Longrightarrow> nonces_ok tr m"
  by (induction rule: nonce_run.induct)
    (blast intro: nonces_ok_start nonces_ok_create nonces_ok_approve nonces_ok_consume)+

lemma consume_Approved:
  "consume_nonce now k m = (Approved, m') \<Longrightarrow> \<exists>state. map_of m k = Some state \<and> n_approved state \<and> now < n_expiresAt state"
  by (auto simp: consume_nonce_def get_nonce_Some split: prod.splits option.splits if_splits)

lemma nonce_run_prefix: "nonce_run (tr @ es) m \<Longrightarrow> \<exists>m'. nonce_run tr m'"
proof (induction es arbitrary: m rule: rev_induct)
  case (snoc e es)
  then have "nonce_run ((tr @ es) @ [e]) m" by simp
  then obtain m' where "nonce_run (tr @ es) m'" by (cases rule: nonce_run_snocE) auto
  then show ?case by (rule snoc.IH)
qed auto

text \<open>
  C15. A challenge logs in once, and only if it was approved in time. In every run of calls, whatever
  their times, a consumption that succeeds is preceded by the creation of that very nonce less than
  ten minutes before, by an approval of it since then, and by no other successful consumption of it
  since then; and at most a thousand nonces are held at any time.
\<close>

theorem nonce_single_use:
  assumes "nonce_run tr m"
  shows "length m \<le> MAX_NONCES \<and>
    (\<forall>before now k after. tr = before @ Consumed now k # after \<longrightarrow>
      (\<exists>pre t post. before = pre @ Created t k # post \<and> now < t + NONCE_TTL_MS \<and>
        (\<exists>u < t + NONCE_TTL_MS. ApprovedAt u k \<in> set post) \<and> (\<forall>u. Consumed u k \<notin> set post)))"
proof (intro conjI allI impI)
  show "length m \<le> MAX_NONCES" using nonce_run_ok [OF assms] by (simp add: nonces_ok_def)
  fix before now k after
  assume "tr = before @ Consumed now k # after"
  then obtain m' where "nonce_run (before @ [Consumed now k]) m'"
    using nonce_run_prefix [of "before @ [Consumed now k]" after m] assms by auto
  then obtain n where run: "nonce_run before n" and step: "consume_nonce now k n = (Approved, m')"
    by (cases rule: nonce_run_snocE) (auto simp: create_event_def split: sum.splits if_splits)
  obtain state where st: "map_of n k = Some state" "n_approved state" "now < n_expiresAt state"
    using consume_Approved [OF step] by blast
  then have "open_since before k state" using nonce_run_ok [OF run] by (simp add: nonces_ok_def)
  then show "\<exists>pre t post. before = pre @ Created t k # post \<and> now < t + NONCE_TTL_MS \<and>
        (\<exists>u < t + NONCE_TTL_MS. ApprovedAt u k \<in> set post) \<and> (\<forall>u. Consumed u k \<notin> set post)"
    using st(2,3) unfolding open_since_def by metis
qed

lemma nonce_single_use_witness:
  "\<exists>m. nonce_run [Created 0 ''k'', ApprovedAt 5 ''k'', Consumed 9 ''k'', Refused] m \<and> length m \<le> MAX_NONCES"
proof -
  let ?m = "[(''k'', \<lparr>n_approved = False, n_expiresAt = NONCE_TTL_MS\<rparr>)]"
  let ?n = "[(''k'', \<lparr>n_approved = True, n_expiresAt = NONCE_TTL_MS\<rparr>)]"
  have "nonce_run ([] @ [Created 0 ''k'']) ?m"
    using run_create [OF run_start, of 0 "''k''"] by (simp add: create_nonce_def create_event_def MAX_NONCES_def)
  from run_approve [OF this, of 5 "''k''" True ?n]
  have "nonce_run ([Created 0 ''k''] @ [ApprovedAt 5 ''k'']) ?n"
    by (simp add: approve_nonce_def get_nonce_def NONCE_TTL_MS_def)
  from run_consume [OF this, of 9 "''k''" Approved "[]"]
  have "nonce_run ([Created 0 ''k'', ApprovedAt 5 ''k''] @ [Consumed 9 ''k'']) []"
    by (simp add: consume_nonce_def get_nonce_def NONCE_TTL_MS_def)
  from run_consume [OF this, of 9 "''k''" Missing "[]"]
  have "nonce_run ([Created 0 ''k'', ApprovedAt 5 ''k'', Consumed 9 ''k''] @ [Refused]) []"
    by (simp add: consume_nonce_def get_nonce_def)
  then have run: "nonce_run [Created 0 ''k'', ApprovedAt 5 ''k'', Consumed 9 ''k'', Refused] []" by simp
  from nonce_single_use [OF run, THEN conjunct1] run show ?thesis by blast
qed

end
