(* ===== verification/Auth.thy ===== *)
theory Auth
  imports Auth_Nonces Db_Scheduled
begin

text \<open>
  \<^verbatim>\<open>lib/auth/authentication-manager.ts\<close>, \<^verbatim>\<open>lib/auth/authorizations-manager.ts\<close> and the Auth47 handlers
  of \<^verbatim>\<open>lib/auth/auth-rest-api.ts\<close>: who a request comes from, and the tokens that say so. A middleware
  gives the context the next one is called with, or throws. The JSON Web Tokens are a parameter
  (\<open>hono/jwt\<close> and \<open>validator\<close>), and so is the verification of an Auth47 proof. Times of the tokens are
  in seconds, \<open>now\<close> is \<open>Date.now()\<close> in milliseconds.
\<close>

section \<open>Tokens\<close>

record jwt_payload =
  py_iss :: string
  py_type :: "string option"
  py_prf :: "string option"
  py_iat :: int
  py_exp :: int

text \<open>\<open>jwt_verify\<close> throws (\<open>None\<close>) on a token that is not signed with the secret, or is out of date.\<close>

record jwt_lib =
  isJWT :: "string \<Rightarrow> bool"
  jwt_sign :: "jwt_payload \<Rightarrow> string \<Rightarrow> string"
  jwt_verify :: "int \<Rightarrow> string \<Rightarrow> string \<Rightarrow> jwt_payload option"

datatype lifetime = Seconds int | Duration string

record auth_conf =
  au_active :: bool
  au_mandatory :: bool
  au_secret :: string
  au_access_expires :: lifetime
  au_refresh_expires :: lifetime
  au_adminKey :: string
  au_apiKeys :: "string list"

definition ISS :: string where "ISS = ''Samourai Dojo''"
definition TOKEN_TYPE_ACCESS :: string where "TOKEN_TYPE_ACCESS = ''access-token''"
definition TOKEN_TYPE_REFRESH :: string where "TOKEN_TYPE_REFRESH = ''refresh-token''"
definition TOKEN_PROFILE_API :: string where "TOKEN_PROFILE_API = ''api''"
definition TOKEN_PROFILE_ADMIN :: string where "TOKEN_PROFILE_ADMIN = ''admin''"

text \<open>
  A lifetime is a quotient of seconds; \<open>None\<close> is \<open>NaN\<close>. The pattern is an optional sign, digits with an
  optional decimal part, spaces, and an optional unit in any letter case.
\<close>

definition is_digit :: "char \<Rightarrow> bool" where
  "is_digit c \<longleftrightarrow> (let n = (of_char c :: nat) in 48 \<le> n \<and> n \<le> 57)"

definition digits_value :: "string \<Rightarrow> int" where
  "digits_value ds = foldl (\<lambda>v c. 10 * v + (int (of_char c) - 48)) 0 ds"

definition parse_number :: "string \<Rightarrow> (int \<times> int \<times> string) option" where
  "parse_number t =
     (let (neg, t) = (case t of c # r \<Rightarrow> if c = CHR ''-'' then (True, r) else (False, t) | [] \<Rightarrow> (False, t));
          whole = takeWhile is_digit t;
          rest = dropWhile is_digit t;
          signed = (\<lambda>v. if neg then - v else v)
      in case rest of
           c # r \<Rightarrow>
             if c = CHR ''.''
             then (let frac = takeWhile is_digit r
                   in if frac = [] then None
                      else Some (signed (digits_value (whole @ frac)), 10 ^ length frac, dropWhile is_digit r))
             else if whole = [] then None else Some (signed (digits_value whole), 1, rest)
         | [] \<Rightarrow> if whole = [] then None else Some (signed (digits_value whole), 1, []))"

definition unit_words :: "string list" where
  "unit_words = [''milliseconds'', ''millisecond'', ''msecs'', ''msec'', ''ms'', ''seconds'', ''second'', ''secs'', ''sec'', ''s'',
     ''minutes'', ''minute'', ''mins'', ''min'', ''m'', ''hours'', ''hour'', ''hrs'', ''hr'', ''h'', ''days'', ''day'', ''d'',
     ''weeks'', ''week'', ''w'', ''years'', ''year'', ''yrs'', ''yr'', ''y'']"

text \<open>The unit as a quotient of seconds.\<close>

definition unit_seconds :: "string \<Rightarrow> int \<times> int" where
  "unit_seconds u =
     (if take 2 u = ''ms'' \<or> take 4 u = ''mill'' then (1, 1000)
      else case hd u of
        CHR ''s'' \<Rightarrow> (1, 1) | CHR ''m'' \<Rightarrow> (60, 1) | CHR ''h'' \<Rightarrow> (3600, 1) | CHR ''d'' \<Rightarrow> (86400, 1)
      | CHR ''w'' \<Rightarrow> (604800, 1) | _ \<Rightarrow> (31557600, 1))"

definition lifetimeSeconds :: "lifetime \<Rightarrow> (int \<times> int) option" where
  "lifetimeSeconds expires =
     (case expires of
        Seconds n \<Rightarrow> Some (n, 1)
      | Duration t \<Rightarrow>
          if 100 < length t then None
          else case parse_number t of
            None \<Rightarrow> None
          | Some (p, q, rest) \<Rightarrow>
              (let u = toLowerCase (dropWhile (\<lambda>c. c = CHR '' '') rest);
                   u = (if u = [] then ''ms'' else u)
               in if u \<in> set unit_words then (case unit_seconds u of (a, b) \<Rightarrow> Some (p * a, q * b)) else None))"

definition generateToken :: "auth_conf \<Rightarrow> jwt_lib \<Rightarrow> int \<Rightarrow> string \<Rightarrow> lifetime \<Rightarrow> string option \<Rightarrow> string result" where
  "generateToken conf jwt now type expires profile =
     (let iat = now div 1000
      in case lifetimeSeconds expires of
           None \<Rightarrow> Inl (Exn ''Invalid JWT token lifetime'')
         | Some (p, q) \<Rightarrow>
             Inr (jwt_sign jwt \<lparr>py_iss = ISS, py_type = Some type, py_prf = profile, py_iat = iat,
                    py_exp = iat + p div q\<rparr> (au_secret conf)))"

definition generateAccessToken :: "auth_conf \<Rightarrow> jwt_lib \<Rightarrow> int \<Rightarrow> string option \<Rightarrow> string result" where
  "generateAccessToken conf jwt now profile = generateToken conf jwt now TOKEN_TYPE_ACCESS (au_access_expires conf) profile"

definition generateRefreshToken :: "auth_conf \<Rightarrow> jwt_lib \<Rightarrow> int \<Rightarrow> string option \<Rightarrow> string result" where
  "generateRefreshToken conf jwt now profile = generateToken conf jwt now TOKEN_TYPE_REFRESH (au_refresh_expires conf) profile"

definition verifyToken :: "auth_conf \<Rightarrow> jwt_lib \<Rightarrow> int \<Rightarrow> string \<Rightarrow> string \<Rightarrow> jwt_payload result" where
  "verifyToken conf jwt now type token =
     (case jwt_verify jwt (now div 1000) token (au_secret conf) of
        None \<Rightarrow> Inl (Exn ''jwt'')
      | Some payload \<Rightarrow> if py_type payload \<noteq> Some type then Inl (Err Auth_INVALID_JWT) else Inr payload)"

section \<open>Requests\<close>

record user =
  us_authenticated :: bool
  us_profile :: "string option"

datatype authorizations = NoAuthorizations | Tokens string "string option" | Decoded jwt_payload

record ctx =
  cx_header :: "string option"
  cx_at_body :: "string option"
  cx_at_query :: "string option"
  cx_rt_body :: "string option"
  cx_rt_query :: "string option"
  cx_key_body :: "string option"
  cx_key_query :: "string option"
  cx_user :: "user option"
  cx_auth :: authorizations

definition only_jwt :: "jwt_lib \<Rightarrow> string option \<Rightarrow> string option" where
  "only_jwt jwt x = (case x of None \<Rightarrow> None | Some t \<Rightarrow> if isJWT jwt t then Some t else None)"

definition extractBearerAuthorizationHeader :: "jwt_lib \<Rightarrow> ctx \<Rightarrow> string option" where
  "extractBearerAuthorizationHeader jwt c =
     (case cx_header c of
        None \<Rightarrow> None
      | Some h \<Rightarrow> if starts_with ''Bearer '' h then only_jwt jwt (Some (drop 7 h)) else None)"

definition or_else :: "'a option \<Rightarrow> 'a option \<Rightarrow> 'a option" where
  "or_else x y = (case x of None \<Rightarrow> y | Some a \<Rightarrow> Some a)"

definition extractAccessToken :: "jwt_lib \<Rightarrow> ctx \<Rightarrow> string option" where
  "extractAccessToken jwt c =
     or_else (truthy_str (extractBearerAuthorizationHeader jwt c)) (or_else (only_jwt jwt (cx_at_body c)) (only_jwt jwt (cx_at_query c)))"

definition extractRefreshToken :: "jwt_lib \<Rightarrow> ctx \<Rightarrow> string option" where
  "extractRefreshToken jwt c =
     or_else (truthy_str (extractBearerAuthorizationHeader jwt c)) (or_else (only_jwt jwt (cx_rt_body c)) (only_jwt jwt (cx_rt_query c)))"

definition isAuthenticated :: "auth_conf \<Rightarrow> jwt_lib \<Rightarrow> int \<Rightarrow> string option \<Rightarrow> jwt_payload result" where
  "isAuthenticated conf jwt now token =
     (case truthy_str token of
        None \<Rightarrow> Inl (Err Auth_MISSING_JWT)
      | Some t \<Rightarrow> (case verifyToken conf jwt now TOKEN_TYPE_ACCESS t of
                     Inl _ \<Rightarrow> Inl (Err Auth_INVALID_JWT) | Inr payload \<Rightarrow> Inr payload))"

text \<open>\<open>throw new Error(message)\<close> of an entry of the dictionary.\<close>

definition error_of :: "err \<Rightarrow> exn" where
  "error_of e = Exn (err_msg e)"

definition message_error :: "exn \<Rightarrow> exn" where
  "message_error e = (case e of Err c \<Rightarrow> error_of c | _ \<Rightarrow> e)"

definition user_of :: "ctx \<Rightarrow> user" where
  "user_of c = (case cx_user c of None \<Rightarrow> \<lparr>us_authenticated = False, us_profile = None\<rparr> | Some u \<Rightarrow> u)"

definition authenticate :: "auth_conf \<Rightarrow> (string option \<Rightarrow> bool) \<Rightarrow> ctx \<Rightarrow> ctx result" where
  "authenticate conf key_active c =
     (let apiKey = or_else (truthy_str (cx_key_body c)) (cx_key_query c)
      in if apiKey = Some (au_adminKey conf)
         then Inr (c\<lparr>cx_user := Some \<lparr>us_authenticated = True, us_profile = Some TOKEN_PROFILE_ADMIN\<rparr>\<rparr>)
         else if (case apiKey of None \<Rightarrow> False | Some k \<Rightarrow> k \<in> set (au_apiKeys conf)) \<or> key_active apiKey
         then Inr (c\<lparr>cx_user := Some \<lparr>us_authenticated = True, us_profile = Some TOKEN_PROFILE_API\<rparr>\<rparr>)
         else Inl (error_of Auth_INVALID_API_KEY))"

definition generateAuthorizations :: "auth_conf \<Rightarrow> jwt_lib \<Rightarrow> int \<Rightarrow> ctx \<Rightarrow> ctx result" where
  "generateAuthorizations conf jwt now c =
     (if \<not> us_authenticated (user_of c) then Inl (error_of Auth_TECH_ISSUE)
      else bindE (generateAccessToken conf jwt now (us_profile (user_of c))) (\<lambda>accessToken.
           bindE (generateRefreshToken conf jwt now (us_profile (user_of c))) (\<lambda>refreshToken.
             Inr (c\<lparr>cx_auth := Tokens accessToken (Some refreshToken)\<rparr>))))"

definition refreshAuthorizations :: "auth_conf \<Rightarrow> jwt_lib \<Rightarrow> int \<Rightarrow> ctx \<Rightarrow> ctx result" where
  "refreshAuthorizations conf jwt now c =
     (if \<not> au_active conf then Inr c
      else case truthy_str (extractRefreshToken jwt c) of
        None \<Rightarrow> Inl (error_of Auth_MISSING_JWT)
      | Some refreshToken \<Rightarrow>
          (case verifyToken conf jwt now TOKEN_TYPE_REFRESH refreshToken of
             Inl _ \<Rightarrow> Inl (error_of Auth_INVALID_JWT)
           | Inr decoded \<Rightarrow>
               bindE (generateAccessToken conf jwt now (py_prf decoded)) (\<lambda>accessToken.
                 Inr (c\<lparr>cx_user := Some ((user_of c)\<lparr>us_profile := py_prf decoded\<rparr>), cx_auth := Tokens accessToken None\<rparr>))))"

definition checkAuthentication :: "auth_conf \<Rightarrow> jwt_lib \<Rightarrow> int \<Rightarrow> ctx \<Rightarrow> ctx result" where
  "checkAuthentication conf jwt now c =
     (if \<not> au_active conf then Inr c
      else let token = extractAccessToken jwt c
           in if au_mandatory conf \<or> truthy_str token \<noteq> None
              then (case isAuthenticated conf jwt now token of
                      Inl e \<Rightarrow> Inl (message_error e) | Inr decoded \<Rightarrow> Inr (c\<lparr>cx_auth := Decoded decoded\<rparr>))
              else Inr c)"

definition checkHasAdminProfile :: "auth_conf \<Rightarrow> jwt_lib \<Rightarrow> int \<Rightarrow> ctx \<Rightarrow> ctx result" where
  "checkHasAdminProfile conf jwt now c =
     (if \<not> au_active conf then Inr c
      else case isAuthenticated conf jwt now (extractAccessToken jwt c) of
             Inl e \<Rightarrow> Inl (message_error e)
           | Inr decoded \<Rightarrow>
               if py_prf decoded \<noteq> Some TOKEN_PROFILE_ADMIN then Inl (error_of Auth_INVALID_PRF)
               else Inr (c\<lparr>cx_auth := Decoded decoded\<rparr>))"

section \<open>Auth47\<close>

text \<open>
  A proof that verifies holds a challenge: the host name of its URI is the nonce, \<open>resources\<close> its
  parameters \<open>r\<close>. A response is an error of authentication, an error with its status, nothing, or
  the tokens.
\<close>

record auth47_env =
  a4_paymentCodes :: "string list"
  a4_url :: "string option"

datatype auth_response =
    AuthError string
  | ErrorResponse exn
  | OkResponse
  | UriResponse string int "string option"
  | EmptyResponse
  | TokensResponse string string

definition getAuth47Uri :: "auth47_env \<Rightarrow> int \<Rightarrow> string \<Rightarrow> nonces \<Rightarrow> auth_response \<times> nonces" where
  "getAuth47Uri a4 now random m =
     (if a4_paymentCodes a4 = [] \<or> a4_url a4 = None then (ErrorResponse (Str ''Auth47 not enabled''), m)
      else case create_nonce now random m of
        (Inl e, m) \<Rightarrow> (ErrorResponse e, m)
      | (Inr (nonce, expiresAt), m) \<Rightarrow>
          (UriResponse nonce expiresAt (case a4_paymentCodes a4 of [] \<Rightarrow> None | c # _ \<Rightarrow> Some c), m))"

definition authenticateAuth47 ::
  "auth47_env \<Rightarrow> int \<Rightarrow> string option \<Rightarrow> (string + string \<times> string list) \<Rightarrow> nonces \<Rightarrow> auth_response \<times> nonces" where
  "authenticateAuth47 a4 now nym proof' m =
     (if a4_paymentCodes a4 = [] \<or> a4_url a4 = None then (ErrorResponse (Str ''Auth47 not enabled''), m)
      else case truthy_str nym of
        None \<Rightarrow> (AuthError ''invalid payment code'', m)
      | Some n \<Rightarrow>
          if n \<notin> set (a4_paymentCodes a4) then (AuthError ''invalid payment code'', m)
          else case proof' of
            Inl e \<Rightarrow> (AuthError e, m)
          | Inr (nonce, resources) \<Rightarrow>
              if length resources \<noteq> 1 \<or> Some (hd resources) \<noteq> a4_url a4 then (AuthError ''invalid resource'', m)
              else (case approve_nonce now nonce m of
                      (True, m) \<Rightarrow> (OkResponse, m) | (False, m) \<Rightarrow> (AuthError ''invalid nonce'', m)))"

definition checkAuth47Status :: "auth_conf \<Rightarrow> jwt_lib \<Rightarrow> auth47_env \<Rightarrow> int \<Rightarrow> string \<Rightarrow> nonces \<Rightarrow> auth_response \<times> nonces" where
  "checkAuth47Status conf jwt a4 now nonce m =
     (if a4_paymentCodes a4 = [] then (ErrorResponse (Str ''Auth47 not enabled''), m)
      else case consume_nonce now nonce m of
        (Missing, m) \<Rightarrow> (AuthError ''auth request expired'', m)
      | (Pending, m) \<Rightarrow> (EmptyResponse, m)
      | (Approved, m) \<Rightarrow>
          (case bindE (generateAccessToken conf jwt now (Some TOKEN_PROFILE_ADMIN)) (\<lambda>accessToken.
                bindE (generateRefreshToken conf jwt now (Some TOKEN_PROFILE_ADMIN)) (\<lambda>refreshToken.
                  Inr (accessToken, refreshToken))) of
             Inl e \<Rightarrow> (ErrorResponse e, m)
           | Inr (accessToken, refreshToken) \<Rightarrow> (TokensResponse accessToken refreshToken, m)))"

lemma lifetimeSeconds_examples:
  "lifetimeSeconds (Seconds 900) = Some (900, 1)"
  "lifetimeSeconds (Duration ''15 Minutes'') = Some (900, 1)"
  "lifetimeSeconds (Duration ''-1.5h'') = Some (- 15 * 3600, 10)"
  "lifetimeSeconds (Duration ''1500'') = Some (1500, 1000)"
  "lifetimeSeconds (Duration ''1. h'') = None"
  by code_simp+

section \<open>What tokens allow\<close>

text \<open>
  What the token library documents: a token signed with a secret has the form of a token, and is
  verified with that secret until it expires.
\<close>

definition jwt_ok :: "jwt_lib \<Rightarrow> bool" where
  "jwt_ok jwt \<longleftrightarrow> (\<forall>p s. isJWT jwt (jwt_sign jwt p s) \<and> jwt_sign jwt p s \<noteq> [] \<and>
     (\<forall>now. 0 < py_exp p \<longrightarrow> jwt_verify jwt now (jwt_sign jwt p s) s = (if now < py_exp p then Some p else None)))"

text \<open>The request bears a token.\<close>

definition bears :: "string \<Rightarrow> ctx \<Rightarrow> bool" where
  "bears token c \<longleftrightarrow> cx_header c = Some (''Bearer '' @ token)"

lemma bears_extract:
  assumes "bears token c" and "isJWT jwt token" and "token \<noteq> []"
  shows "extractAccessToken jwt c = Some token" and "extractRefreshToken jwt c = Some token"
  using assms by (simp_all add: bears_def extractAccessToken_def extractRefreshToken_def extractBearerAuthorizationHeader_def
      only_jwt_def starts_with_def truthy_str_def or_else_def)

text \<open>A token of a type, made for a profile at a time, with an expiry.\<close>

definition issued :: "auth_conf \<Rightarrow> jwt_lib \<Rightarrow> string \<Rightarrow> string option \<Rightarrow> int \<Rightarrow> string \<Rightarrow> bool" where
  "issued conf jwt type profile expiry token \<longleftrightarrow> (\<exists>iat. token =
     jwt_sign jwt \<lparr>py_iss = ISS, py_type = Some type, py_prf = profile, py_iat = iat, py_exp = expiry\<rparr> (au_secret conf))"

lemma generateToken_issued:
  assumes "generateToken conf jwt now type expires profile = Inr token" and "lifetimeSeconds expires = Some (p, q)"
  shows "issued conf jwt type profile (now div 1000 + p div q) token"
  using assms by (auto simp: generateToken_def issued_def Let_def)

lemma issued_token:
  assumes "jwt_ok jwt" and "issued conf jwt type profile expiry token" and "0 < expiry"
  shows "isJWT jwt token" and "token \<noteq> []"
    and "\<exists>p. py_prf p = profile \<and> (\<forall>now type'. verifyToken conf jwt now type' token =
      (if now div 1000 < expiry then if type' = type then Inr p else Inl (Err Auth_INVALID_JWT) else Inl (Exn ''jwt'')))"
proof -
  obtain iat where t: "token = jwt_sign jwt \<lparr>py_iss = ISS, py_type = Some type, py_prf = profile, py_iat = iat, py_exp = expiry\<rparr> (au_secret conf)"
    (is "token = jwt_sign jwt ?p _") using assms(2) unfolding issued_def by blast
  show "isJWT jwt token" and "token \<noteq> []" using assms(1) by (simp_all add: jwt_ok_def t)
  have "jwt_verify jwt n token (au_secret conf) = (if n < expiry then Some ?p else None)" for n
    using assms(1,3) by (simp add: jwt_ok_def t)
  then show "\<exists>p. py_prf p = profile \<and> (\<forall>now type'. verifyToken conf jwt now type' token =
      (if now div 1000 < expiry then if type' = type then Inr p else Inl (Err Auth_INVALID_JWT) else Inl (Exn ''jwt'')))"
    by (intro exI [of _ ?p]) (auto simp: verifyToken_def)
qed

lemma access_check:
  assumes "jwt_ok jwt" and "issued conf jwt type profile expiry token" and "0 < expiry" and "bears token c" and "au_active conf"
  shows "(\<exists>c'. checkAuthentication conf jwt now c = Inr c') \<longleftrightarrow> type = TOKEN_TYPE_ACCESS \<and> now div 1000 < expiry"
    and "(\<exists>c'. checkHasAdminProfile conf jwt now c = Inr c') \<longleftrightarrow>
      type = TOKEN_TYPE_ACCESS \<and> now div 1000 < expiry \<and> profile = Some TOKEN_PROFILE_ADMIN"
proof -
  note t = issued_token(1,2) [OF assms(1-3)]
  obtain p where p: "py_prf p = profile" "verifyToken conf jwt now TOKEN_TYPE_ACCESS token =
      (if now div 1000 < expiry then if TOKEN_TYPE_ACCESS = type then Inr p else Inl (Err Auth_INVALID_JWT) else Inl (Exn ''jwt''))"
    using issued_token(3) [OF assms(1-3)] by blast
  note bears = bears_extract(1) [OF assms(4) t]
  have auth: "isAuthenticated conf jwt now (Some token) =
      (if now div 1000 < expiry \<and> type = TOKEN_TYPE_ACCESS then Inr p else Inl (Err Auth_INVALID_JWT))"
    using p(2) t by (auto simp: isAuthenticated_def truthy_str_def)
  show "(\<exists>c'. checkAuthentication conf jwt now c = Inr c') \<longleftrightarrow> type = TOKEN_TYPE_ACCESS \<and> now div 1000 < expiry"
    using assms(5) t by (auto simp: checkAuthentication_def Let_def auth bears truthy_str_def)
  show "(\<exists>c'. checkHasAdminProfile conf jwt now c = Inr c') \<longleftrightarrow>
      type = TOKEN_TYPE_ACCESS \<and> now div 1000 < expiry \<and> profile = Some TOKEN_PROFILE_ADMIN"
    using assms(5) p(1) by (auto simp: checkHasAdminProfile_def auth bears)
qed

lemma refresh_check:
  assumes "jwt_ok jwt" and "issued conf jwt type profile expiry token" and "0 < expiry" and "bears token c" and "au_active conf"
    and "lifetimeSeconds (au_access_expires conf) = Some (p, q)"
  shows "refreshAuthorizations conf jwt now c = Inr c' \<Longrightarrow> type = TOKEN_TYPE_REFRESH \<and> now div 1000 < expiry \<and>
    (\<exists>a. cx_auth c' = Tokens a None \<and> issued conf jwt TOKEN_TYPE_ACCESS profile (now div 1000 + p div q) a)"
proof -
  note t = issued_token(1,2) [OF assms(1-3)]
  obtain pl where pl: "py_prf pl = profile" "verifyToken conf jwt now TOKEN_TYPE_REFRESH token =
      (if now div 1000 < expiry then if TOKEN_TYPE_REFRESH = type then Inr pl else Inl (Err Auth_INVALID_JWT) else Inl (Exn ''jwt''))"
    using issued_token(3) [OF assms(1-3)] by blast
  assume "refreshAuthorizations conf jwt now c = Inr c'"
  then show ?thesis
    using t(2) assms(5) pl
    by (auto simp: refreshAuthorizations_def bears_extract(2) [OF assms(4) t] truthy_str_def bindE_Inr_iff generateAccessToken_def
        split: if_splits intro: generateToken_issued [OF _ assms(6)])
qed

text \<open>
  C14. The tokens of a login allow what the key it was made with allows, and no more. Until it
  expires, and no longer, the access token passes the authentication check, and the check for
  administrators exactly if the login was made with the administrator's key; it cannot be used to
  refresh. The refresh token passes neither check; until it expires it gives access tokens, and these
  pass the check for administrators exactly if the login did.
\<close>

theorem login_tokens:
  assumes "jwt_ok jwt" and "au_active conf"
    and "lifetimeSeconds (au_access_expires conf) = Some (p, q)" and "lifetimeSeconds (au_refresh_expires conf) = Some (p', q')"
    and "0 < now div 1000 + p div q" and "0 < now div 1000 + p' div q'"
    and "authenticate conf key_active c = Inr c1" and "generateAuthorizations conf jwt now c1 = Inr c2"
  shows "\<exists>a r. cx_auth c2 = Tokens a (Some r) \<and>
    (\<forall>d now2. bears a d \<longrightarrow>
       ((\<exists>d'. checkAuthentication conf jwt now2 d = Inr d') \<longleftrightarrow> now2 div 1000 < now div 1000 + p div q) \<and>
       ((\<exists>d'. checkHasAdminProfile conf jwt now2 d = Inr d') \<longleftrightarrow> now2 div 1000 < now div 1000 + p div q \<and>
          or_else (truthy_str (cx_key_body c)) (cx_key_query c) = Some (au_adminKey conf)) \<and>
       (\<nexists>d'. refreshAuthorizations conf jwt now2 d = Inr d')) \<and>
    (\<forall>d now2. bears r d \<longrightarrow>
       (\<nexists>d'. checkAuthentication conf jwt now2 d = Inr d') \<and> (\<nexists>d'. checkHasAdminProfile conf jwt now2 d = Inr d') \<and>
       (\<forall>d' a'. refreshAuthorizations conf jwt now2 d = Inr d' \<and> cx_auth d' = Tokens a' None \<and> 0 < now2 div 1000 + p div q \<longrightarrow>
          now2 div 1000 < now div 1000 + p' div q' \<and>
          (\<forall>e now3. bears a' e \<longrightarrow> ((\<exists>e'. checkHasAdminProfile conf jwt now3 e = Inr e') \<longleftrightarrow>
             now3 div 1000 < now2 div 1000 + p div q \<and>
             or_else (truthy_str (cx_key_body c)) (cx_key_query c) = Some (au_adminKey conf)))))"
proof -
  let ?key = "or_else (truthy_str (cx_key_body c)) (cx_key_query c)" and ?profile = "us_profile (user_of c1)"
  have kinds: "TOKEN_TYPE_ACCESS \<noteq> TOKEN_TYPE_REFRESH" by (simp add: TOKEN_TYPE_ACCESS_def TOKEN_TYPE_REFRESH_def)
  have rights: "?profile = Some TOKEN_PROFILE_ADMIN \<longleftrightarrow> ?key = Some (au_adminKey conf)"
    using assms(7) by (auto simp: authenticate_def Let_def user_of_def TOKEN_PROFILE_ADMIN_def TOKEN_PROFILE_API_def split: if_splits)
  obtain a r where gen: "generateAccessToken conf jwt now ?profile = Inr a" "generateRefreshToken conf jwt now ?profile = Inr r"
    "cx_auth c2 = Tokens a (Some r)"
    using assms(8) by (auto simp: generateAuthorizations_def bindE_Inr_iff split: if_splits)
  have a: "issued conf jwt TOKEN_TYPE_ACCESS ?profile (now div 1000 + p div q) a"
    using gen(1) generateToken_issued [OF _ assms(3)] by (simp add: generateAccessToken_def)
  have r: "issued conf jwt TOKEN_TYPE_REFRESH ?profile (now div 1000 + p' div q') r"
    using gen(2) generateToken_issued [OF _ assms(4)] by (simp add: generateRefreshToken_def)
  note A = access_check [OF assms(1) a assms(5) _ assms(2)] refresh_check [OF assms(1) a assms(5) _ assms(2,3)]
  note R = access_check [OF assms(1) r assms(6) _ assms(2)] refresh_check [OF assms(1) r assms(6) _ assms(2,3)]
  have 1: "((\<exists>d'. checkAuthentication conf jwt now2 d = Inr d') \<longleftrightarrow> now2 div 1000 < now div 1000 + p div q)"
    "((\<exists>d'. checkHasAdminProfile conf jwt now2 d = Inr d') \<longleftrightarrow> now2 div 1000 < now div 1000 + p div q \<and> ?key = Some (au_adminKey conf))"
    "\<nexists>d'. refreshAuthorizations conf jwt now2 d = Inr d'" if "bears a d" for d now2
    using A(1,2) [OF that] A(3) [OF that] kinds rights by auto
  have 2: "\<nexists>d'. checkAuthentication conf jwt now2 d = Inr d'" "\<nexists>d'. checkHasAdminProfile conf jwt now2 d = Inr d'"
    if "bears r d" for d now2
    using R(1,2) [OF that] kinds by auto
  have 3: "now2 div 1000 < now div 1000 + p' div q'" "(\<exists>e'. checkHasAdminProfile conf jwt now3 e = Inr e') \<longleftrightarrow>
      now3 div 1000 < now2 div 1000 + p div q \<and> ?key = Some (au_adminKey conf)"
    if "bears r d" "refreshAuthorizations conf jwt now2 d = Inr d'" "cx_auth d' = Tokens a' None" "0 < now2 div 1000 + p div q" "bears a' e"
    for d now2 d' a' e now3
  proof -
    have "now2 div 1000 < now div 1000 + p' div q' \<and> issued conf jwt TOKEN_TYPE_ACCESS ?profile (now2 div 1000 + p div q) a'"
      using R(3) [OF that(1,2)] that(3) by auto
    then show "now2 div 1000 < now div 1000 + p' div q'" "(\<exists>e'. checkHasAdminProfile conf jwt now3 e = Inr e') \<longleftrightarrow>
      now3 div 1000 < now2 div 1000 + p div q \<and> ?key = Some (au_adminKey conf)"
      using access_check(2) [OF assms(1) _ that(4,5) assms(2)] rights by auto
  qed
  have 4: "now2 div 1000 < now div 1000 + p' div q'" if "bears r d" "refreshAuthorizations conf jwt now2 d = Inr d'" for d d' now2
    using R(3) [OF that] by simp
  show ?thesis
    by (rule exI [of _ a], rule exI [of _ r], intro conjI allI impI)
      (rule gen(3), erule 1(1), erule 1(2), erule 1(3), erule 2(1), erule 2(2), elim conjE, erule (1) 4,
       elim conjE, rule 3(2))
qed

section \<open>A concrete token library\<close>

text \<open>A stand-in for the tokens: the fields written one after the other, the secret last.\<close>

definition enc_int :: "int \<Rightarrow> string" where
  "enc_int i = (if i < 0 then CHR ''-'' else CHR ''+'') # replicate (nat \<bar>i\<bar>) (CHR ''1'') @ [CHR '';'']"

definition dec_int :: "string \<Rightarrow> int \<times> string" where
  "dec_int t = (let n = int (length (takeWhile (\<lambda>c. c = CHR ''1'') (tl t)))
     in (if take 1 t = ''-'' then - n else n, drop 1 (dropWhile (\<lambda>c. c = CHR ''1'') (tl t))))"

definition enc_str :: "string \<Rightarrow> string" where
  "enc_str s = concat (map (\<lambda>c. [CHR ''x'', c]) s) @ [CHR '';'']"

fun dec_str :: "string \<Rightarrow> string \<times> string" where
  "dec_str (a # c # r) = (if a = CHR ''x'' then (case dec_str r of (s, r') \<Rightarrow> (c # s, r')) else ([], c # r))"
| "dec_str [a] = ([], [])"
| "dec_str [] = ([], [])"

definition enc_opt :: "string option \<Rightarrow> string" where
  "enc_opt x = (case x of None \<Rightarrow> ''n'' | Some s \<Rightarrow> CHR ''s'' # enc_str s)"

definition dec_opt :: "string \<Rightarrow> string option \<times> string" where
  "dec_opt t = (if take 1 t = ''n'' then (None, tl t) else (case dec_str (tl t) of (s, r) \<Rightarrow> (Some s, r)))"

lemma dec_enc:
  "dec_int (enc_int i @ r) = (i, r)" "dec_str (enc_str s @ r) = (s, r)" "dec_opt (enc_opt x @ r) = (x, r)"
proof -
  have "takeWhile (\<lambda>c. c = CHR ''1'') (replicate n (CHR ''1'') @ CHR '';'' # r) = replicate n (CHR ''1'')"
    "dropWhile (\<lambda>c. c = CHR ''1'') (replicate n (CHR ''1'') @ CHR '';'' # r) = CHR '';'' # r" for n
    by (induction n) auto
  then show "dec_int (enc_int i @ r) = (i, r)" by (auto simp: dec_int_def enc_int_def Let_def)
  have str: "dec_str (enc_str s @ r) = (s, r)" for s
    by (induction s) (cases r; simp add: enc_str_def)+
  then show "dec_str (enc_str s @ r) = (s, r)" .
  show "dec_opt (enc_opt x @ r) = (x, r)" by (cases x) (simp_all add: enc_opt_def dec_opt_def str)
qed

definition demo_jwt :: jwt_lib where
  "demo_jwt =
     \<lparr>isJWT = \<lambda>t. t \<noteq> [],
      jwt_sign = \<lambda>p s. CHR ''e'' # enc_str (py_iss p) @ enc_opt (py_type p) @ enc_opt (py_prf p) @ enc_int (py_iat p) @ enc_int (py_exp p) @ enc_str s,
      jwt_verify = \<lambda>now t s.
        (case dec_str (tl t) of (iss, t) \<Rightarrow> case dec_opt t of (type, t) \<Rightarrow> case dec_opt t of (profile, t) \<Rightarrow>
         case dec_int t of (iat, t) \<Rightarrow> case dec_int t of (expiry, t) \<Rightarrow>
           if t = enc_str s \<and> now < expiry
           then Some \<lparr>py_iss = iss, py_type = type, py_prf = profile, py_iat = iat, py_exp = expiry\<rparr> else None)\<rparr>"

lemma demo_jwt_ok: "jwt_ok demo_jwt"
  by (simp add: jwt_ok_def demo_jwt_def dec_enc)

definition demo_auth :: auth_conf where
  "demo_auth = \<lparr>au_active = True, au_mandatory = True, au_secret = ''S'', au_access_expires = Seconds 900,
     au_refresh_expires = Duration ''2h'', au_adminKey = ''admin'', au_apiKeys = [''key'']\<rparr>"

definition demo_ctx :: "string option \<Rightarrow> string option \<Rightarrow> ctx" where
  "demo_ctx header key = \<lparr>cx_header = header, cx_at_body = None, cx_at_query = None, cx_rt_body = None, cx_rt_query = None,
     cx_key_body = key, cx_key_query = None, cx_user = None, cx_auth = NoAuthorizations\<rparr>"

lemma login_tokens_witness:
  "\<exists>a r. (case generateAuthorizations demo_auth demo_jwt 5000 ((demo_ctx None (Some ''key''))\<lparr>cx_user :=
        Some \<lparr>us_authenticated = True, us_profile = Some TOKEN_PROFILE_API\<rparr>\<rparr>) of Inl _ \<Rightarrow> False | Inr c \<Rightarrow> cx_auth c = Tokens a (Some r))
    \<and> (\<exists>d. checkAuthentication demo_auth demo_jwt 6000 (demo_ctx (Some (''Bearer '' @ a)) None) = Inr d)
    \<and> (\<nexists>d. checkHasAdminProfile demo_auth demo_jwt 6000 (demo_ctx (Some (''Bearer '' @ a)) None) = Inr d)
    \<and> (\<nexists>d. checkAuthentication demo_auth demo_jwt 6000 (demo_ctx (Some (''Bearer '' @ r)) None) = Inr d)"
proof -
  let ?c1 = "(demo_ctx None (Some ''key''))\<lparr>cx_user := Some \<lparr>us_authenticated = True, us_profile = Some TOKEN_PROFILE_API\<rparr>\<rparr>"
  have key: "or_else (truthy_str (cx_key_body (demo_ctx None (Some ''key'')))) (cx_key_query (demo_ctx None (Some ''key''))) = Some ''key''"
    by (simp add: or_else_def truthy_str_def demo_ctx_def)
  have login: "authenticate demo_auth (\<lambda>_. False) (demo_ctx None (Some ''key'')) = Inr ?c1"
    unfolding authenticate_def key by (simp add: demo_auth_def Let_def)
  have life: "lifetimeSeconds (au_access_expires demo_auth) = Some (900, 1)" "lifetimeSeconds (au_refresh_expires demo_auth) = Some (7200, 1)"
    by code_simp+
  obtain c2 where gen: "generateAuthorizations demo_auth demo_jwt 5000 ?c1 = Inr c2"
    by (simp add: generateAuthorizations_def generateAccessToken_def generateRefreshToken_def generateToken_def life user_of_def)
  have active: "au_active demo_auth" "au_adminKey demo_auth = ''admin''" by (simp_all add: demo_auth_def)
  have bearer: "bears t (demo_ctx (Some (''Bearer '' @ t)) None)" for t by (simp add: bears_def demo_ctx_def)
  obtain a r where ar: "cx_auth c2 = Tokens a (Some r)"
    "\<forall>d now2. bears a d \<longrightarrow>
       ((\<exists>d'. checkAuthentication demo_auth demo_jwt now2 d = Inr d') \<longleftrightarrow> now2 div 1000 < 5 + 900 div 1) \<and>
       ((\<exists>d'. checkHasAdminProfile demo_auth demo_jwt now2 d = Inr d') \<longleftrightarrow> now2 div 1000 < 5 + 900 div 1 \<and> ''key'' = ''admin'')"
    "\<forall>d now2. bears r d \<longrightarrow> (\<nexists>d'. checkAuthentication demo_auth demo_jwt now2 d = Inr d')"
    using login_tokens [OF demo_jwt_ok active(1) life _ _ login gen] unfolding key active(2) by auto
  show ?thesis
    by (rule exI [of _ a], rule exI [of _ r]) (use ar bearer in \<open>auto simp: gen\<close>)
qed

end
