(* ===== verification/Notifications.thy ===== *)
theory Notifications
  imports Entities Db_History Auth
begin

text \<open>
  \<^verbatim>\<open>accounts/notifications-service.ts\<close> and \<^verbatim>\<open>accounts/notifications-server.ts\<close>: the clients connected by
  web sockets, what they subscribe to, and what they are sent. Sockets are numbered by their session; a
  socket that is not open drops what it is sent. The cache of subscriptions is a set from which entries
  may go away at any time.
\<close>

section \<open>State\<close>

record note_input =
  ni_input :: api_input
  ni_pubkey :: "string option"

record note_output =
  nu_output :: api_output
  nu_pubkey :: "string option"

record note_tx =
  nx_header :: tx_detail
  nx_inputs :: "note_input list"
  nx_out :: "note_output list"

datatype ws_message =
    PongMsg
  | BlockMsg int string
  | TxMsg note_tx
  | ErrorMsg exn

record socket =
  so_subs :: "string list"
  so_open :: bool
  so_sent :: "ws_message list"

record notif =
  nf_sockets :: "nat \<Rightarrow> socket"
  nf_conn :: "nat set"
  nf_subs :: "string \<Rightarrow> nat list"
  nf_pubkeys :: "string \<rightharpoonup> string"
  nf_cache :: "string set"
  nf_sessions :: nat
  nf_clients :: int
  nf_maxConn :: nat

text \<open>\<open>this.subs[topic]\<close> that is missing is the empty list: the code deletes a list that becomes empty.\<close>

definition no_notif :: notif where
  "no_notif = \<lparr>nf_sockets = \<lambda>_. \<lparr>so_subs = [], so_open = False, so_sent = []\<rparr>, nf_conn = {}, nf_subs = \<lambda>_. [],
     nf_pubkeys = Map.empty, nf_cache = {}, nf_sessions = 0, nf_clients = 0, nf_maxConn = 0\<rparr>"

definition update_socket :: "nat \<Rightarrow> (socket \<Rightarrow> socket) \<Rightarrow> notif \<Rightarrow> notif" where
  "update_socket c f s = s\<lparr>nf_sockets := (nf_sockets s)(c := f (nf_sockets s c))\<rparr>"

definition send :: "nat \<Rightarrow> ws_message \<Rightarrow> notif \<Rightarrow> notif" where
  "send c msg s = (if so_open (nf_sockets s c) then update_socket c (\<lambda>k. k\<lparr>so_sent := so_sent k @ [msg]\<rparr>) s else s)"

section \<open>Connections\<close>

definition connect :: "notif \<Rightarrow> notif" where
  "connect s =
     (let c = nf_sessions s;
          conn = insert c (nf_conn s)
      in s\<lparr>nf_sessions := Suc c, nf_sockets := (nf_sockets s)(c := \<lparr>so_subs = [], so_open = True, so_sent = []\<rparr>),
           nf_conn := conn, nf_clients := nf_clients s + 1, nf_maxConn := max (nf_maxConn s) (card conn)\<rparr>)"

text \<open>\<open>splice(index, 1)\<close> removes the first entry.\<close>

definition unsub :: "string \<Rightarrow> nat \<Rightarrow> notif \<Rightarrow> notif" where
  "unsub topic cid s =
     (if cid \<notin> set (nf_subs s topic) then s
      else let rest = remove1 cid (nf_subs s topic)
           in s\<lparr>nf_subs := (nf_subs s)(topic := rest),
                nf_pubkeys := (if rest = [] then (nf_pubkeys s)(topic := None) else nf_pubkeys s)\<rparr>)"

definition closeWSConnection :: "nat \<Rightarrow> bool \<Rightarrow> notif \<Rightarrow> notif" where
  "closeWSConnection c forcedClose s =
     (let topics = so_subs (nf_sockets s c);
          s = fold (\<lambda>topic s. let s = unsub topic c s
                in if forcedClose then s else s\<lparr>nf_cache := nf_cache s - {topic}\<rparr>) topics s;
          s = (if c \<in> nf_conn s then s\<lparr>nf_conn := nf_conn s - {c}, nf_clients := nf_clients s - 1\<rparr> else s)
      in if forcedClose then update_socket c (\<lambda>k. k\<lparr>so_open := False\<rparr>) s else s)"

text \<open>The events of a socket: it is closed when its \<open>close\<close> event is handled.\<close>

definition onClose :: "nat \<Rightarrow> notif \<Rightarrow> notif" where
  "onClose c s = closeWSConnection c False (update_socket c (\<lambda>k. k\<lparr>so_open := False\<rparr>) s)"

definition onError :: "nat \<Rightarrow> notif \<Rightarrow> notif" where
  "onError c s = (if so_open (nf_sockets s c) then closeWSConnection c True s else s)"

section \<open>Subscriptions\<close>

definition filterWSMessage :: "string \<Rightarrow> notif \<Rightarrow> bool \<times> notif" where
  "filterWSMessage msg s = (if msg \<in> nf_cache s then (False, s) else (True, s\<lparr>nf_cache := insert msg (nf_cache s)\<rparr>))"

definition addsub :: "string \<Rightarrow> nat \<Rightarrow> notif \<Rightarrow> notif" where
  "addsub topic c s =
     (if topic \<in> set (so_subs (nf_sockets s c)) then s
      else let s = update_socket c (\<lambda>k. k\<lparr>so_subs := so_subs k @ [topic]\<rparr>) s
           in s\<lparr>nf_subs := (nf_subs s)(topic := nf_subs s topic @ [c])\<rparr>)"

definition entitysub :: "('n, 'e) entity_lib_scheme \<Rightarrow> string \<Rightarrow> nat \<Rightarrow> notif \<Rightarrow> notif" where
  "entitysub lib topic c s =
     (let valid = parseEntities lib (Some topic);
          s = fold (\<lambda>(address, pubkey) s.
                let s = addsub address c s
                in case truthy_str pubkey of None \<Rightarrow> s | Some k \<Rightarrow> s\<lparr>nf_pubkeys := (nf_pubkeys s)(address \<mapsto> k)\<rparr>)
              (address_pairs valid) s
      in fold (\<lambda>xpub. addsub xpub c) (e_xpubs valid) s)"

datatype ws_op = Ping | AddrSub "string option" | BlocksSub | OtherOp

definition notifyAuthError :: "exn \<Rightarrow> nat \<Rightarrow> notif \<Rightarrow> notif" where
  "notifyAuthError e cid s = (if cid \<in> nf_conn s then send cid (ErrorMsg e) s else s)"

text \<open>
  A text message: the operation and the token it holds, or \<open>None\<close> when it is no JSON. The
  verification of the token is awaited, the rest happens at once.
\<close>

definition handleWSMessage :: "('n, 'e) entity_lib_scheme \<Rightarrow> auth_conf \<Rightarrow> jwt_lib \<Rightarrow> int \<Rightarrow> (ws_op \<times> string option) option
    \<Rightarrow> nat \<Rightarrow> notif \<Rightarrow> notif" where
  "handleWSMessage lib conf jwt now msg c s =
     (case msg of
        None \<Rightarrow> s
      | Some (op, at) \<Rightarrow>
          (case (if au_active conf \<and> au_mandatory conf then isAuthenticated conf jwt now at
                 else Inr \<lparr>py_iss = [], py_type = None, py_prf = None, py_iat = 0, py_exp = 0\<rparr>) of
             Inl e \<Rightarrow> notifyAuthError e c s
           | Inr _ \<Rightarrow>
               if \<not> so_open (nf_sockets s c) then s
               else (case op of
                   Ping \<Rightarrow> send c PongMsg s
                 | AddrSub addr \<Rightarrow>
                     (case truthy_str addr of
                        None \<Rightarrow> s
                      | Some a \<Rightarrow> (case filterWSMessage a s of
                          (True, s) \<Rightarrow> entitysub lib a c s
                        | (False, s) \<Rightarrow> closeWSConnection c True s))
                 | BlocksSub \<Rightarrow> addsub ''block'' c s
                 | OtherOp \<Rightarrow> s)))"

section \<open>Notifications\<close>

definition dispatch :: "string \<Rightarrow> ws_message \<Rightarrow> notif \<Rightarrow> notif" where
  "dispatch topic msg s = fold (\<lambda>cid s. if cid \<in> nf_conn s then send cid msg s else s) (nf_subs s topic) s"

definition notifyBlock :: "int \<Rightarrow> string \<Rightarrow> notif \<Rightarrow> notif" where
  "notifyBlock height hash s = dispatch ''block'' (BlockMsg height hash) s"

text \<open>The topic of an input or an output: its account, otherwise its address, if someone subscribes to it.\<close>

definition topic_of :: "notif \<Rightarrow> xpub_info option \<Rightarrow> string \<Rightarrow> string option" where
  "topic_of s xpub addr =
     (let topic = (case xpub of Some x \<Rightarrow> xi_xpub x | None \<Rightarrow> addr)
      in if topic \<noteq> [] \<and> nf_subs s topic \<noteq> [] then Some topic else None)"

definition input_topic :: "notif \<Rightarrow> api_input \<Rightarrow> string option" where
  "input_topic s i = topic_of s (po_xpub (ai_prev_out i)) (po_addr (ai_prev_out i))"

definition output_topic :: "notif \<Rightarrow> api_output \<Rightarrow> string option" where
  "output_topic s o' = topic_of s (ao_xpub o') (ao_addr o')"

text \<open>The topics of a transaction in the order they are met, and the clients with the topics of each.\<close>

definition tx_topics :: "notif \<Rightarrow> tx_detail \<Rightarrow> string list" where
  "tx_topics s tx =
     fold (\<lambda>t ts. if t \<in> set ts then ts else ts @ [t])
       (List.map_filter (input_topic s) (td_inputs tx) @ List.map_filter (output_topic s) (td_out tx)) []"

definition add_client :: "string \<Rightarrow> nat \<Rightarrow> (nat \<times> string list) list \<Rightarrow> (nat \<times> string list) list" where
  "add_client topic cid clients =
     (let ts = (case map_of clients cid of None \<Rightarrow> [] | Some ts \<Rightarrow> ts)
      in js_set cid (if topic \<in> set ts then ts else ts @ [topic]) clients)"

definition tx_clients :: "notif \<Rightarrow> tx_detail \<Rightarrow> (nat \<times> string list) list" where
  "tx_clients s tx = fold (\<lambda>topic. fold (add_client topic) (nf_subs s topic)) (tx_topics s tx) []"

definition tailored :: "notif \<Rightarrow> string list \<Rightarrow> tx_detail \<Rightarrow> note_tx" where
  "tailored s clientTopics tx =
     \<lparr>nx_header = tx\<lparr>td_inputs := [], td_out := []\<rparr>,
      nx_inputs = List.map_filter (\<lambda>i. case input_topic s i of
          None \<Rightarrow> None
        | Some t \<Rightarrow> if t \<in> set clientTopics then Some \<lparr>ni_input = i, ni_pubkey = nf_pubkeys s t\<rparr> else None) (td_inputs tx),
      nx_out = List.map_filter (\<lambda>o'. case output_topic s o' of
          None \<Rightarrow> None
        | Some t \<Rightarrow> if t \<in> set clientTopics then Some \<lparr>nu_output = o', nu_pubkey = nf_pubkeys s t\<rparr> else None) (td_out tx)\<rparr>"

definition notifyTransaction :: "string \<Rightarrow> db \<Rightarrow> notif \<Rightarrow> notif" where
  "notifyTransaction txid d s =
     (let tx = getTransaction txid d
      in fold (\<lambda>(cid, clientTopics) s'.
           let context = tailored s clientTopics tx
           in if nx_inputs context = [] \<and> nx_out context = [] then s'
              else if cid \<in> nf_conn s' then send cid (TxMsg context) s' else s') (tx_clients s tx) s)"

text \<open>The messages of the tracker, parsed; \<open>None\<close> is a block that is no JSON.\<close>

datatype tracker_message = TrackerBlock "(int \<times> string) option" | TrackerTx string | TrackerOther

definition onTrackerMessage :: "tracker_message \<Rightarrow> db \<Rightarrow> notif \<Rightarrow> notif" where
  "onTrackerMessage msg d s =
     (case msg of
        TrackerBlock (Some (height, hash)) \<Rightarrow> notifyBlock height hash s
      | TrackerBlock None \<Rightarrow> s
      | TrackerTx txid \<Rightarrow> notifyTransaction txid d s
      | TrackerOther \<Rightarrow> s)"

section \<open>Runs\<close>

inductive notif_step :: "('n, 'e) entity_lib_scheme \<Rightarrow> auth_conf \<Rightarrow> jwt_lib \<Rightarrow> notif \<Rightarrow> notif \<Rightarrow> bool"
  for lib :: "('n, 'e) entity_lib_scheme" and conf :: auth_conf and jwt :: jwt_lib where
  step_connect: "notif_step lib conf jwt s (connect s)"
| step_close: "c < nf_sessions s \<Longrightarrow> notif_step lib conf jwt s (onClose c s)"
| step_error: "c < nf_sessions s \<Longrightarrow> notif_step lib conf jwt s (onError c s)"
| step_binary: "c < nf_sessions s \<Longrightarrow> notif_step lib conf jwt s (closeWSConnection c True s)"
| step_message: "c < nf_sessions s \<Longrightarrow> notif_step lib conf jwt s (handleWSMessage lib conf jwt now msg c s)"
| step_tracker: "notif_step lib conf jwt s (onTrackerMessage msg d s)"
| step_expire: "cache \<subseteq> nf_cache s \<Longrightarrow> notif_step lib conf jwt s (s\<lparr>nf_cache := cache\<rparr>)"

section \<open>The tables agree\<close>

definition notif_ok :: "notif \<Rightarrow> bool" where
  "notif_ok s \<longleftrightarrow> (\<forall>c. so_open (nf_sockets s c) \<longleftrightarrow> c \<in> nf_conn s) \<and> nf_conn s \<subseteq> {..<nf_sessions s} \<and>
     (\<forall>c\<in>nf_conn s. distinct (so_subs (nf_sockets s c))) \<and> (\<forall>t. distinct (nf_subs s t)) \<and>
     (\<forall>t c. c \<in> set (nf_subs s t) \<longleftrightarrow> c \<in> nf_conn s \<and> t \<in> set (so_subs (nf_sockets s c))) \<and>
     nf_clients s = int (card (nf_conn s)) \<and> card (nf_conn s) \<le> nf_maxConn s"

lemma notif_okD:
  assumes "notif_ok s"
  shows "so_open (nf_sockets s c) \<longleftrightarrow> c \<in> nf_conn s" and "nf_conn s \<subseteq> {..<nf_sessions s}" and "finite (nf_conn s)"
    and "c \<in> nf_conn s \<Longrightarrow> distinct (so_subs (nf_sockets s c))" and "distinct (nf_subs s t)"
    and "c \<in> set (nf_subs s t) \<longleftrightarrow> c \<in> nf_conn s \<and> t \<in> set (so_subs (nf_sockets s c))"
    and "nf_clients s = int (card (nf_conn s))" and "card (nf_conn s) \<le> nf_maxConn s"
proof -
  show "finite (nf_conn s)" using assms unfolding notif_ok_def by (meson finite_lessThan finite_subset)
qed (use assms in \<open>simp_all add: notif_ok_def\<close>)

text \<open>What a message sent leaves alone: all but what the socket was sent.\<close>

lemma send_simps [simp]:
  "so_subs (nf_sockets (send c msg s) k) = so_subs (nf_sockets s k)" "so_open (nf_sockets (send c msg s) k) = so_open (nf_sockets s k)"
  "nf_conn (send c msg s) = nf_conn s" "nf_subs (send c msg s) = nf_subs s" "nf_sessions (send c msg s) = nf_sessions s"
  "nf_clients (send c msg s) = nf_clients s" "nf_maxConn (send c msg s) = nf_maxConn s" "nf_pubkeys (send c msg s) = nf_pubkeys s"
  "nf_cache (send c msg s) = nf_cache s"
  by (simp_all add: send_def update_socket_def)

lemma sent_send: "so_sent (nf_sockets (send c msg s) k) =
    so_sent (nf_sockets s k) @ (if k = c \<and> so_open (nf_sockets s c) then [msg] else [])"
  by (simp add: send_def update_socket_def)

lemma ok_send: "notif_ok s \<Longrightarrow> notif_ok (send c msg s)"
  by (simp add: notif_ok_def)

lemma ok_dispatch: "notif_ok s \<Longrightarrow> notif_ok (dispatch topic msg s)"
proof -
  have "notif_ok (fold (\<lambda>cid s. if cid \<in> nf_conn s then send cid msg s else s) cs s)" if "notif_ok s" for cs s
    using that by (induction cs arbitrary: s) (auto intro: ok_send)
  then show "notif_ok s \<Longrightarrow> notif_ok (dispatch topic msg s)" unfolding dispatch_def .
qed

lemma ok_notifyTransaction: "notif_ok s \<Longrightarrow> notif_ok (notifyTransaction txid d s)"
proof -
  have "notif_ok (fold (\<lambda>(cid, ts) s'. let context = tailored s ts (getTransaction txid d)
           in if nx_inputs context = [] \<and> nx_out context = [] then s'
              else if cid \<in> nf_conn s' then send cid (TxMsg context) s' else s') cs s')" if "notif_ok s'" for cs s s'
    using that by (induction cs arbitrary: s') (auto simp: Let_def ok_send)
  then show "notif_ok s \<Longrightarrow> notif_ok (notifyTransaction txid d s)" unfolding notifyTransaction_def Let_def .
qed

lemma connect_simps [simp]:
  "nf_sessions (connect s) = Suc (nf_sessions s)" "nf_conn (connect s) = insert (nf_sessions s) (nf_conn s)"
  "nf_subs (connect s) = nf_subs s" "nf_clients (connect s) = nf_clients s + 1" "nf_cache (connect s) = nf_cache s"
  "nf_maxConn (connect s) = max (nf_maxConn s) (card (insert (nf_sessions s) (nf_conn s)))"
  "nf_sockets (connect s) = (nf_sockets s)(nf_sessions s := \<lparr>so_subs = [], so_open = True, so_sent = []\<rparr>)"
  by (simp_all add: connect_def Let_def)

lemma ok_connect: "notif_ok s \<Longrightarrow> notif_ok (connect s)"
proof -
  assume ok: "notif_ok s"
  have new: "nf_sessions s \<notin> nf_conn s" using notif_okD(2) [OF ok] by auto
  have subs: "nf_sessions s \<notin> set (nf_subs s t)" for t using notif_okD(6) [OF ok] new by auto
  have "card (insert (nf_sessions s) (nf_conn s)) = Suc (card (nf_conn s))"
    using new notif_okD(3) [OF ok] by simp
  moreover have "c \<in> set (nf_subs s t) \<longleftrightarrow> c \<in> insert (nf_sessions s) (nf_conn s) \<and>
      t \<in> set (so_subs (nf_sockets (connect s) c))" for c t
    using subs [of t] new notif_okD(6) [OF ok, of c t] by auto
  moreover have "so_open (nf_sockets (connect s) c) \<longleftrightarrow> c \<in> insert (nf_sessions s) (nf_conn s)" for c
    using notif_okD(1) [OF ok] by simp
  ultimately show ?thesis using ok unfolding notif_ok_def by auto
qed

lemma addsub_simps [simp]:
  "nf_sessions (addsub t c s) = nf_sessions s" "nf_conn (addsub t c s) = nf_conn s" "nf_clients (addsub t c s) = nf_clients s"
  "nf_maxConn (addsub t c s) = nf_maxConn s" "so_open (nf_sockets (addsub t c s) k) = so_open (nf_sockets s k)"
  by (simp_all add: addsub_def update_socket_def Let_def)

lemma ok_addsub:
  assumes "notif_ok s" and "so_open (nf_sockets s c)"
  shows "notif_ok (addsub topic c s)"
proof (cases "topic \<in> set (so_subs (nf_sockets s c))")
  case False
  have c: "c \<in> nf_conn s" using notif_okD(1) [OF assms(1)] assms(2) by simp
  have new: "c \<notin> set (nf_subs s topic)" using notif_okD(6) [OF assms(1)] False by simp
  have sub: "nf_subs (addsub topic c s) t = (if t = topic then nf_subs s t @ [c] else nf_subs s t)"
    "so_subs (nf_sockets (addsub topic c s) k) = (if k = c then so_subs (nf_sockets s k) @ [topic] else so_subs (nf_sockets s k))" for t k
    using False by (simp_all add: addsub_def update_socket_def Let_def)
  show ?thesis
    using assms(1) c new False unfolding notif_ok_def by (auto simp: sub)
qed (simp add: addsub_def assms(1))

lemma ok_entitysub:
  assumes "notif_ok s" and "so_open (nf_sockets s c)"
  shows "notif_ok (entitysub lib topic c s) \<and> so_open (nf_sockets (entitysub lib topic c s) c)"
proof -
  have pk: "notif_ok (s\<lparr>nf_pubkeys := m\<rparr>)" if "notif_ok s" for s m using that by (simp add: notif_ok_def)
  have 1: "notif_ok (fold (\<lambda>(address, pubkey) s.
                let s = addsub address c s
                in case truthy_str pubkey of None \<Rightarrow> s | Some k \<Rightarrow> s\<lparr>nf_pubkeys := (nf_pubkeys s)(address \<mapsto> k)\<rparr>) ps s) \<and>
      so_open (nf_sockets (fold (\<lambda>(address, pubkey) s.
                let s = addsub address c s
                in case truthy_str pubkey of None \<Rightarrow> s | Some k \<Rightarrow> s\<lparr>nf_pubkeys := (nf_pubkeys s)(address \<mapsto> k)\<rparr>) ps s) c)"
    if "notif_ok s" "so_open (nf_sockets s c)" for ps s
    using that by (induction ps arbitrary: s) (auto simp: Let_def ok_addsub pk split: option.split)
  have 2: "notif_ok (fold (\<lambda>xpub. addsub xpub c) xs s) \<and> so_open (nf_sockets (fold (\<lambda>xpub. addsub xpub c) xs s) c)"
    if "notif_ok s" "so_open (nf_sockets s c)" for xs s
    using that by (induction xs arbitrary: s) (auto simp: ok_addsub)
  show ?thesis unfolding entitysub_def Let_def
    by (rule 2) (rule 1 [OF assms, unfolded Let_def, THEN conjunct1], rule 1 [OF assms, unfolded Let_def, THEN conjunct2])
qed

text \<open>Closing a connection takes the client out of every list of subscribers.\<close>

lemma unsub_simps [simp]:
  "nf_sockets (unsub t c s) = nf_sockets s" "nf_conn (unsub t c s) = nf_conn s" "nf_sessions (unsub t c s) = nf_sessions s"
  "nf_clients (unsub t c s) = nf_clients s" "nf_maxConn (unsub t c s) = nf_maxConn s"
  "nf_subs (unsub t c s) = (nf_subs s)(t := remove1 c (nf_subs s t))"
  by (simp_all add: unsub_def Let_def remove1_idem fun_upd_idem)

definition unsub_all :: "bool \<Rightarrow> nat \<Rightarrow> string list \<Rightarrow> notif \<Rightarrow> notif" where
  "unsub_all forcedClose c = fold (\<lambda>topic s. let s = unsub topic c s
      in if forcedClose then s else s\<lparr>nf_cache := nf_cache s - {topic}\<rparr>)"

lemma unsub_all_simps [simp]:
  "nf_sockets (unsub_all f c ts s) = nf_sockets s" "nf_conn (unsub_all f c ts s) = nf_conn s" "nf_sessions (unsub_all f c ts s) = nf_sessions s"
  "nf_clients (unsub_all f c ts s) = nf_clients s" "nf_maxConn (unsub_all f c ts s) = nf_maxConn s"
  unfolding unsub_all_def by (induction ts arbitrary: s) (simp_all add: Let_def)

lemma unsub_all_subs: "distinct ts \<Longrightarrow> nf_subs (unsub_all f c ts s) t = (if t \<in> set ts then remove1 c (nf_subs s t) else nf_subs s t)"
proof (induction ts arbitrary: s)
  case (Cons x ts)
  show ?case
    using Cons.IH [of "let s = unsub x c s in if f then s else s\<lparr>nf_cache := nf_cache s - {x}\<rparr>"] Cons.prems
    by (auto simp: unsub_all_def Let_def split: if_splits)
qed (simp add: unsub_all_def)

lemma close_simps:
  defines "closed c f s \<equiv> closeWSConnection c f s"
  shows "nf_conn (closed c f s) = nf_conn s - {c}" and "nf_sessions (closed c f s) = nf_sessions s" and "nf_maxConn (closed c f s) = nf_maxConn s"
    and "nf_clients (closed c f s) = (if c \<in> nf_conn s then nf_clients s - 1 else nf_clients s)"
    and "nf_subs (closed c f s) = nf_subs (unsub_all f c (so_subs (nf_sockets s c)) s)"
    and "so_subs (nf_sockets (closed c f s) k) = so_subs (nf_sockets s k)"
    and "so_open (nf_sockets (closed c f s) k) = (so_open (nf_sockets s k) \<and> \<not> (f \<and> k = c))"
  unfolding closed_def closeWSConnection_def unsub_all_def [symmetric]
  by (auto simp: update_socket_def Let_def)

lemma ok_close:
  assumes "notif_ok s" and "f \<or> \<not> so_open (nf_sockets t c)" and "t = s \<or> t = update_socket c (\<lambda>k. k\<lparr>so_open := False\<rparr>) s"
  shows "notif_ok (closeWSConnection c f t)"
proof -
  have t: "nf_conn t = nf_conn s" "nf_sessions t = nf_sessions s" "nf_maxConn t = nf_maxConn s" "nf_clients t = nf_clients s"
    "nf_subs t = nf_subs s" "so_subs (nf_sockets t k) = so_subs (nf_sockets s k)" "k \<noteq> c \<Longrightarrow> so_open (nf_sockets t k) = so_open (nf_sockets s k)" for k
    using assms(3) by (auto simp: update_socket_def)
  have subs: "nf_subs (closeWSConnection c f t) x = remove1 c (nf_subs s x)" for x
  proof (cases "c \<in> nf_conn s")
    case True
    then show ?thesis using notif_okD(4,6) [OF assms(1)]
      by (auto simp: close_simps t unsub_all_subs remove1_idem)
  next
    case False
    then have no: "c \<notin> set (nf_subs s y)" for y using notif_okD(6) [OF assms(1)] by simp
    have "nf_subs (unsub_all f c ts u) = nf_subs u" if "\<forall>y. c \<notin> set (nf_subs u y)" for ts u
      using that unfolding unsub_all_def
    proof (induction ts arbitrary: u)
      case (Cons x ts)
      have "nf_subs (let s = unsub x c u in if f then s else s\<lparr>nf_cache := nf_cache s - {x}\<rparr>) = nf_subs u"
        using Cons.prems by (simp add: Let_def remove1_idem)
      then show ?case using Cons.IH Cons.prems by simp
    qed simp
    then show ?thesis using no by (simp add: close_simps t remove1_idem)
  qed
  have conn: "so_open (nf_sockets (closeWSConnection c f t) k) \<longleftrightarrow> k \<in> nf_conn s - {c}" for k
    using notif_okD(1) [OF assms(1)] assms(2) t(7) [of k] by (cases "k = c") (auto simp: close_simps)
  have card: "int (card (nf_conn s - {c})) = (if c \<in> nf_conn s then nf_clients s - 1 else nf_clients s)"
    using notif_okD(3,7) [OF assms(1)] by (auto simp: card_Diff_singleton_if) (metis Suc_pred card_gt_0_iff empty_iff of_nat_Suc add_diff_cancel_right' add.commute)
  have le: "card (nf_conn s - {c}) \<le> nf_maxConn s"
    using notif_okD(3,8) [OF assms(1)] card_Diff1_le order_trans by metis
  show ?thesis unfolding notif_ok_def close_simps(1-4,6) t subs
  proof (intro conjI allI ballI)
    fix x k
    show "k \<in> set (remove1 c (nf_subs s x)) \<longleftrightarrow> k \<in> nf_conn s - {c} \<and> x \<in> set (so_subs (nf_sockets s k))"
      using notif_okD(5,6) [OF assms(1)] by (auto simp: set_remove1_eq)
  qed (use assms(1) conn card le notif_okD(2,4,5) [OF assms(1)] in auto)
qed

lemma ok_cache: "notif_ok s \<Longrightarrow> notif_ok (s\<lparr>nf_cache := x\<rparr>)"
  by (simp add: notif_ok_def)

lemma filterWSMessage_cases: "filterWSMessage a s = (False, s) \<or> filterWSMessage a s = (True, s\<lparr>nf_cache := insert a (nf_cache s)\<rparr>)"
  by (simp add: filterWSMessage_def)

lemma ok_message: "notif_ok s \<Longrightarrow> notif_ok (handleWSMessage lib conf jwt now msg c s)"
proof -
  assume ok: "notif_ok s"
  have err: "notif_ok (notifyAuthError e c s)" for e using ok by (simp add: notifyAuthError_def ok_send)
  have op: "notif_ok (case op of
                   Ping \<Rightarrow> send c PongMsg s
                 | AddrSub addr \<Rightarrow>
                     (case truthy_str addr of
                        None \<Rightarrow> s
                      | Some a \<Rightarrow> (case filterWSMessage a s of
                          (True, s) \<Rightarrow> entitysub lib a c s
                        | (False, s) \<Rightarrow> closeWSConnection c True s))
                 | BlocksSub \<Rightarrow> addsub ''block'' c s
                 | OtherOp \<Rightarrow> s)" if "so_open (nf_sockets s c)" for op
  proof (cases op)
    case (AddrSub addr)
    have "notif_ok (case filterWSMessage a s of (True, s) \<Rightarrow> entitysub lib a c s | (False, s) \<Rightarrow> closeWSConnection c True s)" for a
      using filterWSMessage_cases [of a s] ok_close [OF ok, of True s c] ok_entitysub [OF ok_cache [OF ok, of "insert a (nf_cache s)"], of c lib a] that
      by auto
    then show ?thesis by (simp add: AddrSub ok split: option.split)
  qed (use ok that in \<open>simp_all add: ok_send ok_addsub\<close>)
  show ?thesis
    unfolding handleWSMessage_def using ok err op
    by (auto split: option.split sum.split)
qed

lemma ok_tracker: "notif_ok s \<Longrightarrow> notif_ok (onTrackerMessage msg d s)"
  by (auto simp: onTrackerMessage_def notifyBlock_def ok_dispatch ok_notifyTransaction split: tracker_message.split option.split prod.split)

lemma ok_start: "notif_ok no_notif"
  by (simp add: notif_ok_def no_notif_def)

lemma ok_step: "notif_step lib conf jwt s t \<Longrightarrow> notif_ok s \<Longrightarrow> notif_ok t"
proof (induction rule: notif_step.induct)
  case (step_close c s)
  then show ?case unfolding onClose_def
    by (intro ok_close [of s False "update_socket c (\<lambda>k. k\<lparr>so_open := False\<rparr>) s" c]) (simp_all add: update_socket_def)
next
  case (step_error c s)
  then show ?case by (simp add: onError_def ok_close [of s True s c])
next
  case (step_binary c s)
  then show ?case by (simp add: ok_close [of s True s c])
qed (simp_all add: ok_connect ok_message ok_tracker ok_cache)

interpretation notifications: step_invariant "\<lambda>s. s = no_notif" "notif_step lib conf jwt" notif_ok for lib conf jwt
  by unfold_locales (auto simp: ok_start intro: ok_step)

text \<open>
  C9. The tables of the server agree in every state a run of it can reach, whatever the clients send
  and close and the tracker announces: a client is in the list of a topic exactly if it is connected and
  subscribed to it, once; the connected clients are those whose socket is open, and their number is the
  one the status gives, at most the recorded maximum. So a list of subscribers never holds a client
  that is gone.
\<close>

theorem subscriptions_agree:
  assumes "reach (\<lambda>s. s = no_notif) (notif_step lib conf jwt) s"
  shows "(\<forall>t c. c \<in> set (nf_subs s t) \<longleftrightarrow> so_open (nf_sockets s c) \<and> t \<in> set (so_subs (nf_sockets s c)))
    \<and> (\<forall>t. distinct (nf_subs s t)) \<and> (\<forall>c. c \<in> nf_conn s \<longleftrightarrow> so_open (nf_sockets s c))
    \<and> nf_clients s = int (card (nf_conn s)) \<and> nf_clients s \<le> int (nf_maxConn s)"
  using notifications.inv_reach [OF assms] by (simp add: notif_ok_def)

definition demo_open :: auth_conf where
  "demo_open = \<lparr>au_active = False, au_mandatory = False, au_secret = [], au_access_expires = Seconds 1,
     au_refresh_expires = Seconds 1, au_adminKey = [], au_apiKeys = []\<rparr>"

lemma subscriptions_agree_witness:
  "reach (\<lambda>s. s = no_notif) (notif_step demo_entities demo_open demo_jwt) (closeWSConnection 0 True (addsub ''block'' 0 (connect no_notif)))
   \<and> nf_subs (closeWSConnection 0 True (addsub ''block'' 0 (connect no_notif))) ''block'' = []"
proof -
  let ?step = "notif_step demo_entities demo_open demo_jwt"
  have "handleWSMessage demo_entities demo_open demo_jwt 0 (Some (BlocksSub, None)) 0 (connect no_notif) = addsub ''block'' 0 (connect no_notif)"
    by (simp add: handleWSMessage_def no_notif_def demo_open_def)
  then have "?step (connect no_notif) (addsub ''block'' 0 (connect no_notif))"
    using step_message [of 0 "connect no_notif" demo_entities demo_open demo_jwt 0 "Some (BlocksSub, None)"] by simp
  moreover have "reach (\<lambda>s. s = no_notif) ?step (connect no_notif)"
    by (rule reach_step [where s = no_notif]) (simp_all add: reach_init step_connect)
  ultimately have "reach (\<lambda>s. s = no_notif) ?step (addsub ''block'' 0 (connect no_notif))"
    by (metis reach_step)
  then have run: "reach (\<lambda>s. s = no_notif) ?step (closeWSConnection 0 True (addsub ''block'' 0 (connect no_notif)))" (is "reach _ _ ?t")
    by (rule reach_step) (simp add: step_binary)
  have "\<not> so_open (nf_sockets ?t c)" for c by (simp add: close_simps no_notif_def)
  then have "set (nf_subs ?t ''block'') = {}" using subscriptions_agree [OF run] by auto
  then show ?thesis using run by simp
qed

section \<open>Privacy of the notifications\<close>

text \<open>The part of a transaction that concerns a client: the inputs and outputs of what it subscribes to.\<close>

definition endpoint :: "xpub_info option \<Rightarrow> string \<Rightarrow> string" where
  "endpoint xpub addr = (case xpub of Some x \<Rightarrow> xi_xpub x | None \<Rightarrow> addr)"

definition concerns :: "string list \<Rightarrow> xpub_info option \<Rightarrow> string \<Rightarrow> bool" where
  "concerns subs xpub addr \<longleftrightarrow> endpoint xpub addr \<noteq> [] \<and> endpoint xpub addr \<in> set subs"

definition share :: "(string \<rightharpoonup> string) \<Rightarrow> string list \<Rightarrow> tx_detail \<Rightarrow> note_tx" where
  "share pubkeys subs tx =
     \<lparr>nx_header = tx\<lparr>td_inputs := [], td_out := []\<rparr>,
      nx_inputs = map (\<lambda>i. \<lparr>ni_input = i, ni_pubkey = pubkeys (endpoint (po_xpub (ai_prev_out i)) (po_addr (ai_prev_out i)))\<rparr>)
        (filter (\<lambda>i. concerns subs (po_xpub (ai_prev_out i)) (po_addr (ai_prev_out i))) (td_inputs tx)),
      nx_out = map (\<lambda>o'. \<lparr>nu_output = o', nu_pubkey = pubkeys (endpoint (ao_xpub o') (ao_addr o'))\<rparr>)
        (filter (\<lambda>o'. concerns subs (ao_xpub o') (ao_addr o')) (td_out tx))\<rparr>"

lemma tx_topics_set: "set (tx_topics s tx) =
    {t. (\<exists>i\<in>set (td_inputs tx). input_topic s i = Some t) \<or> (\<exists>o'\<in>set (td_out tx). output_topic s o' = Some t)}"
proof -
  have "set (fold (\<lambda>t ts. if t \<in> set ts then ts else ts @ [t]) xs acc) = set acc \<union> set xs" for xs acc :: "string list"
    by (induction xs arbitrary: acc) auto
  then show ?thesis by (auto simp: tx_topics_def map_filter_def image_iff) (metis option.distinct(1) option.sel)+
qed

definition client_topics :: "(nat \<times> string list) list \<Rightarrow> nat \<Rightarrow> string set" where
  "client_topics m c = (case map_of m c of None \<Rightarrow> {} | Some ts \<Rightarrow> set ts)"

lemma add_client_topics:
  "client_topics (add_client t k m) c = client_topics m c \<union> (if c = k then {t} else {})"
  "map_of (add_client t k m) c \<noteq> None \<longleftrightarrow> c = k \<or> map_of m c \<noteq> None"
  "distinct (map fst m) \<Longrightarrow> distinct (map fst (add_client t k m))"
  by (auto simp: add_client_def client_topics_def Let_def distinct_js_set split: option.split)

lemma fold_clients:
  "client_topics (fold (add_client t) ks m) c = client_topics m c \<union> (if c \<in> set ks then {t} else {})"
  "map_of (fold (add_client t) ks m) c \<noteq> None \<longleftrightarrow> c \<in> set ks \<or> map_of m c \<noteq> None"
  "distinct (map fst m) \<Longrightarrow> distinct (map fst (fold (add_client t) ks m))"
  by (induction ks arbitrary: m) (auto simp: add_client_topics simp del: not_None_eq)

lemma tx_clients_topics:
  "client_topics (tx_clients s tx) c = {t \<in> set (tx_topics s tx). c \<in> set (nf_subs s t)}"
  "map_of (tx_clients s tx) c \<noteq> None \<longleftrightarrow> (\<exists>t\<in>set (tx_topics s tx). c \<in> set (nf_subs s t))"
  "distinct (map fst (tx_clients s tx))"
proof -
  let ?f = "\<lambda>topic. fold (add_client topic) (nf_subs s topic)"
  have "client_topics (fold ?f ts m) c = client_topics m c \<union> {t \<in> set ts. c \<in> set (nf_subs s t)}" for ts m
    by (induction ts arbitrary: m) (auto simp: fold_clients)
  from this [of _ "[]"] show "client_topics (tx_clients s tx) c = {t \<in> set (tx_topics s tx). c \<in> set (nf_subs s t)}"
    by (simp add: tx_clients_def client_topics_def)
  have "map_of (fold ?f ts m) c \<noteq> None \<longleftrightarrow> (\<exists>t\<in>set ts. c \<in> set (nf_subs s t)) \<or> map_of m c \<noteq> None" for ts m
    by (induction ts arbitrary: m) (auto simp: fold_clients simp del: not_None_eq)
  from this [of _ "[]"] show "map_of (tx_clients s tx) c \<noteq> None \<longleftrightarrow> (\<exists>t\<in>set (tx_topics s tx). c \<in> set (nf_subs s t))"
    by (simp add: tx_clients_def)
  have "distinct (map fst m) \<Longrightarrow> distinct (map fst (fold ?f ts m))" for ts m
    by (induction ts arbitrary: m) (simp_all add: fold_clients)
  then show "distinct (map fst (tx_clients s tx))" by (simp add: tx_clients_def)
qed

text \<open>The transaction tailored for a client is its share, when the tables agree.\<close>

lemma map_filter_as_filter:
  assumes "\<And>x. x \<in> set xs \<Longrightarrow> f x = (if P x then Some (g x) else None)"
  shows "List.map_filter f xs = map g (filter P xs)"
  using assms by (induction xs) (auto simp: map_filter_simps)

lemma topic_of_subscribed:
  assumes "notif_ok s" and "c \<in> nf_conn s"
  shows "(case topic_of s xpub addr of None \<Rightarrow> False | Some t \<Rightarrow> c \<in> set (nf_subs s t)) \<longleftrightarrow>
      concerns (so_subs (nf_sockets s c)) xpub addr"
    and "topic_of s xpub addr = Some t \<Longrightarrow> t = endpoint xpub addr"
proof -
  have "c \<in> set (nf_subs s t) \<longleftrightarrow> t \<in> set (so_subs (nf_sockets s c))" for t
    using notif_okD(6) [OF assms(1)] assms(2) by simp
  then show "(case topic_of s xpub addr of None \<Rightarrow> False | Some t \<Rightarrow> c \<in> set (nf_subs s t)) \<longleftrightarrow>
      concerns (so_subs (nf_sockets s c)) xpub addr"
    by (auto simp: topic_of_def concerns_def endpoint_def Let_def) (metis empty_iff empty_set)+
  show "topic_of s xpub addr = Some t \<Longrightarrow> t = endpoint xpub addr"
    by (auto simp: topic_of_def endpoint_def Let_def split: if_splits)
qed

lemma tailored_share:
  assumes ok: "notif_ok s" and c: "c \<in> nf_conn s" and ts: "map_of (tx_clients s tx) c = Some ts"
  shows "tailored s ts tx = share (nf_pubkeys s) (so_subs (nf_sockets s c)) tx"
proof -
  have set_ts: "t \<in> set ts \<longleftrightarrow> t \<in> set (tx_topics s tx) \<and> c \<in> set (nf_subs s t)" for t
    using tx_clients_topics(1) [of s tx c] ts by (simp add: client_topics_def)
  have sel: "(case topic_of s xpub addr of None \<Rightarrow> None | Some t \<Rightarrow> if t \<in> set ts then Some (g t) else None) =
      (if concerns (so_subs (nf_sockets s c)) xpub addr then Some (g (endpoint xpub addr)) else None)"
    if "\<And>t. topic_of s xpub addr = Some t \<Longrightarrow> t \<in> set (tx_topics s tx)" for xpub addr and g :: "string \<Rightarrow> 'g"
    using topic_of_subscribed [OF ok c, of xpub addr] that set_ts
    by (cases "topic_of s xpub addr") auto
  show ?thesis
    unfolding tailored_def share_def
    by (simp add: input_topic_def output_topic_def)
      (intro conjI map_filter_as_filter sel; auto simp: tx_topics_set input_topic_def output_topic_def)
qed

text \<open>
  C8. A client is notified of a transaction once, and learns its own part of it only. Announcing a
  transaction sends each connected client that subscribes to an account or address of it exactly one
  message; its inputs and outputs are those of the transaction whose account (or address, outside an
  account) the client subscribes to, in their order and without any other; no other client is sent
  anything, and nothing else changes.
\<close>

theorem notifyTransaction_spec:
  fixes txid :: string and d :: db
  assumes "reach (\<lambda>s. s = no_notif) (notif_step lib conf jwt) s"
  defines "part \<equiv> \<lambda>c. share (nf_pubkeys s) (so_subs (nf_sockets s c)) (getTransaction txid d)"
  shows "so_sent (nf_sockets (notifyTransaction txid d s) c) = so_sent (nf_sockets s c) @
      (if c \<in> nf_conn s \<and> (nx_inputs (part c) \<noteq> [] \<or> nx_out (part c) \<noteq> []) then [TxMsg (part c)] else [])
    \<and> so_subs (nf_sockets (notifyTransaction txid d s) c) = so_subs (nf_sockets s c)
    \<and> nf_subs (notifyTransaction txid d s) = nf_subs s \<and> nf_conn (notifyTransaction txid d s) = nf_conn s"
proof -
  let ?tx = "getTransaction txid d"
  let ?empty = "\<lambda>n. nx_inputs n = [] \<and> nx_out n = []"
  let ?f = "\<lambda>(cid, ts) s'. let context = tailored s ts ?tx in if ?empty context then s'
      else if cid \<in> nf_conn s' then send cid (TxMsg context) s' else s'"
  have ok: "notif_ok s" using notifications.inv_reach [OF assms(1)] .
  have loop: "so_sent (nf_sockets (fold ?f cs s') c) = so_sent (nf_sockets s' c) @
      (case map_of cs c of None \<Rightarrow> [] | Some ts \<Rightarrow> if c \<in> nf_conn s' \<and> so_open (nf_sockets s' c) \<and> \<not> ?empty (tailored s ts ?tx)
         then [TxMsg (tailored s ts ?tx)] else [])
    \<and> so_subs (nf_sockets (fold ?f cs s') c) = so_subs (nf_sockets s' c) \<and> nf_subs (fold ?f cs s') = nf_subs s' \<and> nf_conn (fold ?f cs s') = nf_conn s'"
    if "distinct (map fst cs)" for cs s'
    using that
  proof (induction cs arbitrary: s')
    case (Cons p cs)
    obtain k ts where p: "p = (k, ts)" by (cases p)
    have "map_of cs k = None" using Cons.prems p by (simp add: map_of_eq_None_iff)
    then show ?case using Cons.IH [of "?f p s'"] Cons.prems p
      by (auto simp: Let_def sent_send split: option.split)
  qed simp
  have "(case map_of (tx_clients s ?tx) c of None \<Rightarrow> [] | Some ts \<Rightarrow> if c \<in> nf_conn s \<and> so_open (nf_sockets s c) \<and> \<not> ?empty (tailored s ts ?tx)
         then [TxMsg (tailored s ts ?tx)] else []) =
      (if c \<in> nf_conn s \<and> (nx_inputs (part c) \<noteq> [] \<or> nx_out (part c) \<noteq> []) then [TxMsg (part c)] else [])"
  proof (cases "c \<in> nf_conn s")
    case True
    show ?thesis
    proof (cases "map_of (tx_clients s ?tx) c")
      case (Some ts)
      then show ?thesis using tailored_share [OF ok True Some] notif_okD(1) [OF ok] True by (simp add: part_def)
    next
      case None
      then have none: "c \<notin> set (nf_subs s t)" if "t \<in> set (tx_topics s ?tx)" for t
        using tx_clients_topics(2) [of s ?tx c] that by auto
      have "\<not> concerns (so_subs (nf_sockets s c)) xpub addr" if "\<And>t. topic_of s xpub addr = Some t \<Longrightarrow> t \<in> set (tx_topics s ?tx)" for xpub addr
        using topic_of_subscribed(1) [OF ok True, of xpub addr] that none by (auto split: option.splits)
      then have "?empty (part c)"
        by (auto simp: part_def share_def filter_empty_conv tx_topics_set input_topic_def output_topic_def)
      then show ?thesis using None by simp
    qed
  qed (simp split: option.split)
  then show ?thesis using loop [OF tx_clients_topics(3), of s ?tx s]
    unfolding notifyTransaction_def Let_def by simp
qed

lemma notifyTransaction_spec_witness:
  "so_sent (nf_sockets (notifyTransaction ''t'' empty_db (connect no_notif)) 0) = []"
proof -
  have run: "reach (\<lambda>s. s = no_notif) (notif_step demo_entities demo_open demo_jwt) (connect no_notif)"
    by (rule reach_step [where s = no_notif]) (simp_all add: reach_init step_connect)
  show ?thesis using notifyTransaction_spec [OF run, of "''t''" empty_db 0]
    by (simp add: share_def getTransaction_unknown transaction_def empty_db_def empty_table_def createTransaction_def no_notif_def)
qed

end
