(* ===== verification/Rpc_Transactions.thy ===== *)
theory Rpc_Transactions
  imports World Util
begin

text \<open>
  \<^verbatim>\<open>lib/bitcoind-rpc/transactions.ts\<close>: what the node says of a transaction, in the form the other
  services use. Amounts of the node are doubles in bitcoins; the model takes them as the satoshis
  \<open>Math.round(value * 1e8)\<close> gives. A field that may be missing is an option, and zero or the empty
  text counts as missing where the code tests for it.
\<close>

section \<open>Answers of the node\<close>

record rpc_input =
  ri_sequence :: int
  ri_coinbase :: "string option"
  ri_txid :: "string option"
  ri_vout :: "int option"
  ri_scriptSig :: "string option"
  ri_witness :: "string list option"

record rpc_output =
  ro_value :: int
  ro_hex :: string
  ro_type :: string
  ro_address :: "string option"

record rpc_tx =
  rt_txid :: string
  rt_size :: int
  rt_version :: int
  rt_locktime :: int
  rt_vin :: "rpc_input list"
  rt_vout :: "rpc_output list"
  rt_vsize :: "int option"
  rt_time :: "int option"
  rt_confirmations :: "int option"
  rt_blockhash :: "string option"
  rt_blocktime :: "int option"
  rt_hex :: "string option"

section \<open>Prepared transactions\<close>

record outpoint =
  op_txid :: string
  op_vout :: int
  op_value :: "int option"
  op_script :: "string option"

record prepared_input =
  pi_n :: int
  pi_seq :: int
  pi_coinbase :: "string option"
  pi_outpoint :: "outpoint option"
  pi_sig :: "string option"
  pi_witness :: "string list option"

record prepared_output =
  po_n :: int
  po_value :: int
  po_script :: string
  po_type :: string
  po_address :: "string option"

record prepared_block =
  pb_height :: int
  pb_hash :: string
  pb_time :: int

record prepared_tx =
  pt_txid :: string
  pt_size :: int
  pt_version :: int
  pt_locktime :: int
  pt_inputs :: "prepared_input list"
  pt_outputs :: "prepared_output list"
  pt_vsize :: "int option"
  pt_created :: "int option"
  pt_confirmations :: "int option"
  pt_block :: "prepared_block option"
  pt_fees :: "int option"
  pt_feerate :: "int option"
  pt_vfeerate :: "int option"
  pt_hex :: "string option"

text \<open>\<open>Math.round (a / b)\<close> of a positive quotient.\<close>

definition round_div :: "int \<Rightarrow> int \<Rightarrow> int" where
  "round_div a b = (2 * a + b) div (2 * b)"

record rpc_state = clocked +
  w_prev :: "string \<rightharpoonup> rpc_tx"

text \<open>
  \<open>raw\<close> is \<open>getrawtransaction\<close>, verbose, where \<open>None\<close> is an answer that is not a transaction;
  \<open>batch\<close> the same for a list, an entry \<open>None\<close> having no result; \<open>latest\<close> is the height of the
  latest block, zero when there is none, and \<open>evict\<close> what the cache drops.
\<close>

record rpc_env =
  re_raw :: "nat \<Rightarrow> string \<Rightarrow> rpc_tx option result"
  re_hex :: "nat \<Rightarrow> string \<Rightarrow> string result"
  re_batch :: "nat \<Rightarrow> string list \<Rightarrow> rpc_tx option option list result"
  re_latest :: "nat \<Rightarrow> int"
  re_evict :: "(string \<rightharpoonup> rpc_tx) \<Rightarrow> (string \<rightharpoonup> rpc_tx)"

definition getOutputs :: "rpc_tx \<Rightarrow> prepared_output list" where
  "getOutputs tx =
     map (\<lambda>(n, o'). \<lparr>po_n = int n, po_value = ro_value o', po_script = ro_hex o', po_type = ro_type o',
            po_address = truthy_str (ro_address o')\<rparr>) (enumerate 0 (rt_vout tx))"

definition previousTx :: "'e rpc_env_scheme \<Rightarrow> string \<Rightarrow> ('s rpc_state_scheme, rpc_tx) act" where
  "previousTx env inTxid =
     bindA (ask (\<lambda>s. w_prev s inTxid)) (\<lambda>hit. case hit of
       Some ptx \<Rightarrow> ret ptx
     | None \<Rightarrow> bindA (remote (\<lambda>k. re_raw env k inTxid)) (\<lambda>rpcTx. case rpcTx of
          None \<Rightarrow> throw (Err Generic_GEN)
        | Some ptx \<Rightarrow> bindA (modify (\<lambda>s. s\<lparr>w_prev := re_evict env ((w_prev s)(inTxid \<mapsto> ptx))\<rparr>)) (\<lambda>_. ret ptx)))"

definition getInput :: "'e rpc_env_scheme \<Rightarrow> bool \<Rightarrow> nat \<Rightarrow> rpc_input \<Rightarrow> ('s rpc_state_scheme, prepared_input) act" where
  "getInput env fees n input =
     (let txin = \<lparr>pi_n = int n, pi_seq = ri_sequence input, pi_coinbase = truthy_str (ri_coinbase input), pi_outpoint = None,
            pi_sig = None, pi_witness = ri_witness input\<rparr>
      in case truthy_str (ri_coinbase input) of
           Some _ \<Rightarrow> ret txin
         | None \<Rightarrow>
             (case (ri_txid input, ri_vout input, ri_scriptSig input) of
                (Some txid, Some vout, Some sig) \<Rightarrow>
                  (let txin = txin\<lparr>pi_sig := Some sig\<rparr>;
                       point = \<lparr>op_txid = txid, op_vout = vout, op_value = None, op_script = None\<rparr>
                   in if fees
                      then bindA (previousTx env txid) (\<lambda>ptx.
                             case (if vout < 0 then None else js_nth (rt_vout ptx) (nat vout)) of
                               None \<Rightarrow> throw (Exn ''outpoint is undefined'')
                             | Some o' \<Rightarrow> ret (txin\<lparr>pi_outpoint := Some (point\<lparr>op_value := Some (ro_value o'), op_script := Some (ro_hex o')\<rparr>)\<rparr>))
                      else ret (txin\<lparr>pi_outpoint := Some point\<rparr>))
              | _ \<Rightarrow> throw (Err Generic_GEN)))"

definition getInputs :: "'e rpc_env_scheme \<Rightarrow> bool \<Rightarrow> rpc_tx \<Rightarrow> ('s rpc_state_scheme, prepared_input list) act" where
  "getInputs env fees tx = mapA (\<lambda>(n, input). getInput env fees n input) (enumerate 0 (rt_vin tx))"

definition blockOf :: "int \<Rightarrow> rpc_tx \<Rightarrow> prepared_block option" where
  "blockOf latest tx =
     (case (truthy_str (rt_blockhash tx), truthy_int (rt_confirmations tx), truthy_int (rt_blocktime tx)) of
        (Some hash, Some confirmations, Some time) \<Rightarrow> Some \<lparr>pb_height = latest - confirmations + 1, pb_hash = hash, pb_time = time\<rparr>
      | _ \<Rightarrow> None)"

definition withFees :: "rpc_tx \<Rightarrow> prepared_tx \<Rightarrow> prepared_tx" where
  "withFees tx p =
     (let inAmount = sum_list (map (\<lambda>i. case pi_outpoint i of None \<Rightarrow> 0 | Some q \<Rightarrow> (case op_value q of None \<Rightarrow> 0 | Some v \<Rightarrow> v)) (pt_inputs p));
          outAmount = sum_list (map po_value (pt_outputs p));
          fees = inAmount - outAmount
      in p\<lparr>pt_fees := Some fees,
           pt_feerate := (if 0 < fees \<and> 0 < pt_size p then Some (round_div fees (pt_size p)) else None),
           pt_vfeerate := (if 0 < fees then map_option (round_div fees) (truthy_int (pt_vsize p)) else None)\<rparr>)"

definition prepareTxResult ::
  "'e rpc_env_scheme \<Rightarrow> bool \<Rightarrow> bool \<Rightarrow> rpc_tx \<Rightarrow> ('s rpc_state_scheme, prepared_tx) act" where
  "prepareTxResult env fees rawHex tx =
     bindA (ask (\<lambda>s. blockOf (re_latest env (w_clock s)) tx)) (\<lambda>blk.
     bindA (getInputs env fees tx) (\<lambda>ins.
       let p = \<lparr>pt_txid = rt_txid tx, pt_size = rt_size tx, pt_version = rt_version tx, pt_locktime = rt_locktime tx,
                pt_inputs = ins, pt_outputs = getOutputs tx, pt_vsize = truthy_int (rt_vsize tx),
                pt_created = truthy_int (rt_time tx), pt_confirmations = truthy_int (rt_confirmations tx), pt_block = blk,
                pt_fees = None, pt_feerate = None, pt_vfeerate = None, pt_hex = (if rawHex then rt_hex tx else None)\<rparr>
       in ret (if fees then withFees tx p else p)))"

text \<open>Whatever goes wrong is reported as the generic error.\<close>

definition orGeneric :: "('s, 'a) act \<Rightarrow> ('s, 'a) act" where
  "orGeneric m = catchA m (\<lambda>_. throw (Err Generic_GEN))"

definition getTransactions_rpc ::
  "'e rpc_env_scheme \<Rightarrow> string list \<Rightarrow> bool \<Rightarrow> ('s rpc_state_scheme, prepared_tx option list) act" where
  "getTransactions_rpc env txids fees =
     orGeneric (bindA (remote (\<lambda>k. re_batch env k txids)) (\<lambda>txs.
       mapA (\<lambda>answer. case answer of
           None \<Rightarrow> ret None
         | Some None \<Rightarrow> throw (Err Generic_GEN)
         | Some (Some tx) \<Rightarrow> bindA (prepareTxResult env fees False tx) (\<lambda>p. ret (Some p))) txs))"

text \<open>\<open>return this._prepareTxResult(...)\<close> is not awaited in the \<open>try\<close>: its own errors pass.\<close>

definition getTransaction_rpc ::
  "'e rpc_env_scheme \<Rightarrow> string option \<Rightarrow> bool \<Rightarrow> bool \<Rightarrow> ('s rpc_state_scheme, prepared_tx) act" where
  "getTransaction_rpc env txid fees rawHex =
     bindA (orGeneric (case txid of
              None \<Rightarrow> throw (Err Generic_GEN)
            | Some t \<Rightarrow> bindA (remote (\<lambda>k. re_raw env k t)) (\<lambda>answer. case answer of
                None \<Rightarrow> throw (Err Generic_GEN) | Some tx \<Rightarrow> ret tx)))
       (prepareTxResult env fees rawHex)"

definition getTransactionHex :: "'e rpc_env_scheme \<Rightarrow> string option \<Rightarrow> ('s rpc_state_scheme, string) act" where
  "getTransactionHex env txid =
     orGeneric (case txid of None \<Rightarrow> throw (Err Generic_GEN) | Some t \<Rightarrow> remote (\<lambda>k. re_hex env k t))"

section \<open>Facts\<close>

lemma mapA_Inr_map:
  assumes "mapA f xs s = Some (Inr ys, t)" and "\<And>x u y v. f x u = Some (Inr y, v) \<Longrightarrow> g y = h x"
  shows "map g ys = map h xs"
  using assms(1) by (rule mapA_rule [where I = "\<lambda>xs ys _. map g ys = map h xs"]) (auto simp: assms(2))

lemma getInput_n: "getInput env fees n input s = Some (Inr p, t) \<Longrightarrow> pi_n p = int n \<and> pi_seq p = ri_sequence input"
  by (auto simp: getInput_def Let_def bindA_Inr split: option.splits if_splits)

text \<open>Inputs and outputs keep their order and carry their position.\<close>

lemma getInputs_positions:
  assumes "getInputs env fees tx s = Some (Inr ins, t)"
  shows "map (\<lambda>p. (pi_n p, pi_seq p)) ins = map (\<lambda>(n, i). (int n, ri_sequence i)) (enumerate 0 (rt_vin tx))"
  using assms unfolding getInputs_def by (rule mapA_Inr_map) (auto dest: getInput_n split: prod.splits)

lemma getOutputs_positions: "map po_n (getOutputs tx) = map int [0..<length (rt_vout tx)]"
  by (rule nth_equalityI) (simp_all add: getOutputs_def nth_enumerate_eq)

lemma getTransactions_txid:
  "prepareTxResult env fees rawHex tx s = Some (Inr p, t) \<Longrightarrow> pt_txid p = rt_txid tx"
  by (auto simp: prepareTxResult_def Let_def bindA_Inr withFees_def split: if_splits)

lemma returns_previousTx [returns_intros]: "returns (previousTx env txid)"
  unfolding previousTx_def by (auto intro!: returns_intros split: option.split)

lemma returns_getInput [returns_intros]: "returns (getInput env fees n input)"
  unfolding getInput_def by (auto simp: Let_def intro!: returns_intros split: option.split)

lemma returns_prepareTxResult [returns_intros]: "returns (prepareTxResult env fees rawHex tx)"
  unfolding prepareTxResult_def getInputs_def by (auto simp: Let_def intro!: returns_intros split: prod.split)

lemma returns_orGeneric [returns_intros]: "returns m \<Longrightarrow> returns (orGeneric m)"
  unfolding orGeneric_def by (intro returns_intros)

lemma returns_getTransactions_rpc [returns_intros]: "returns (getTransactions_rpc env txids fees)"
  unfolding getTransactions_rpc_def by (auto intro!: returns_intros split: option.split)

text \<open>The database and whatever the state has besides the clock and the cache are left alone.\<close>

lemma keeps_rpc:
  assumes "\<And>s k. P s \<Longrightarrow> P (s\<lparr>w_clock := k\<rparr>)" and "\<And>s c. P s \<Longrightarrow> P (s\<lparr>w_prev := c\<rparr>)"
  shows "keeps P (previousTx env txid)" and "keeps P (getInput env fees n input)" and "keeps P (getInputs env fees tx)"
    and "keeps P (prepareTxResult env fees rawHex tx)" and "keeps P (getTransactions_rpc env txids fees)"
proof -
  show prev: "keeps P (previousTx env txid)" for txid
    unfolding previousTx_def by (auto intro!: keeps_intros keeps_remote assms split: option.split)
  show one: "keeps P (getInput env fees n input)" for n input
    unfolding getInput_def by (auto simp: Let_def intro!: keeps_intros prev split: option.split)
  show all: "keeps P (getInputs env fees tx)" for tx
    unfolding getInputs_def by (auto intro!: keeps_intros one split: prod.split)
  show prep: "keeps P (prepareTxResult env fees rawHex tx)" for fees rawHex tx
    unfolding prepareTxResult_def getInputs_def getInput_def previousTx_def
    by (auto simp: Let_def intro!: keeps_intros keeps_remote assms split: prod.split option.split)
  show "keeps P (getTransactions_rpc env txids fees)"
    unfolding getTransactions_rpc_def orGeneric_def by (auto intro!: keeps_intros keeps_remote assms prep split: option.split)
qed

end
