(* ===== verification/Remote_Importer.thy ===== *)
theory Remote_Importer
  imports Rpc_Transactions
begin

text \<open>
  \<^verbatim>\<open>lib/remote-importer/remote-importer.ts\<close>: the addresses of an HD account are derived by batches and
  looked up at a source until a gap of unused ones, then stored with their transactions; at most one
  import of a key runs at a time. The source and the node are parameters. \<open>xpubScan\<close> takes fuel. The
  calls inside the \<open>try\<close> blocks of \<open>_addTransactions\<close>, \<open>_addOutputs\<close> and \<open>_addInputs\<close> cannot fail in
  the model, and what those functions return is not awaited there, so its errors pass.
\<close>

section \<open>State\<close>

record import_info =
  im_status :: string
  im_txs_ext :: "int option"
  im_txs_int :: "int option"
  im_txs :: "int option"

datatype claim = Flag | Info import_info

record import_state = rpc_state +
  w_importing :: "string \<rightharpoonup> claim"

record source_result =
  sr_address :: string
  sr_ntx :: int
  sr_txids :: "string list"

record 'n import_env = rpc_env +
  ie_lib :: "'n hd_lib"
  ie_parallel :: bool
  ie_threshold :: nat
  ie_exec :: "derived list result \<Rightarrow> derived list result result"
  ie_sources :: "nat \<Rightarrow> string list \<Rightarrow> bool option \<Rightarrow> source_result list result"
  ie_local :: bool
  ie_gap_external :: int
  ie_gap_internal :: int

definition claimImport :: "string \<Rightarrow> claim \<Rightarrow> ('s import_state_scheme, bool) act" where
  "claimImport key state =
     bindA (ask (\<lambda>s. w_importing s key)) (\<lambda>claimed.
       if claimed \<noteq> None then ret False
       else bindA (modify (\<lambda>s. s\<lparr>w_importing := (w_importing s)(key \<mapsto> state)\<rparr>)) (\<lambda>_. ret True))"

definition releaseImport :: "string \<Rightarrow> ('s import_state_scheme, unit) act" where
  "releaseImport key = modify (\<lambda>s. s\<lparr>w_importing := (w_importing s)(key := None)\<rparr>)"

definition importInProgress :: "string option \<Rightarrow> 's import_state_scheme \<Rightarrow> claim option" where
  "importInProgress xpub s = (case xpub of None \<Rightarrow> None | Some x \<Rightarrow> w_importing s x)"

text \<open>The elements of a \<open>Set\<close>: each one at its first place.\<close>

definition js_unique :: "'a list \<Rightarrow> 'a list" where
  "js_unique xs = rev (remdups (rev xs))"

section \<open>Scan of an account\<close>

definition setProgress :: "string \<Rightarrow> int \<Rightarrow> int \<Rightarrow> ('s import_state_scheme, unit) act" where
  "setProgress xpub c n =
     modify (\<lambda>s. case w_importing s xpub of
         Some (Info i) \<Rightarrow> s\<lparr>w_importing := (w_importing s)(xpub \<mapsto>
            Info (if c = 0 then i\<lparr>im_txs_ext := Some n\<rparr> else i\<lparr>im_txs_int := Some n\<rparr>))\<rparr>
       | _ \<Rightarrow> s)"

definition fetchTransactions ::
  "'e rpc_env_scheme \<Rightarrow> nat \<Rightarrow> string list \<Rightarrow> ('s rpc_state_scheme, prepared_tx list) act" where
  "fetchTransactions env n txids =
     bindA (mapA (\<lambda>chunk. getTransactions_rpc env chunk False) (chunks n txids)) (\<lambda>txs.
       ret (List.map_filter (\<lambda>x. x) (concat txs)))"

definition addKey :: "string list \<Rightarrow> string \<Rightarrow> string list" where
  "addKey ks k = (if k \<in> set ks then ks else ks @ [k])"

definition highestUsed :: "derived list \<Rightarrow> int \<Rightarrow> source_result list \<Rightarrow> int result" where
  "highestUsed derivedAddresses u results =
     (let addrMap = map_of (map (\<lambda>a. (d_address a, d_index a)) (rev derivedAddresses))
      in foldE (\<lambda>m r. case addrMap (sr_address r) of
             None \<Rightarrow> Inl (Exn ''index of undefined'') | Some index \<Rightarrow> Inr (max m index)) u results)"

text \<open>
  What the source says of a batch of addresses: the highest index used, the transactions that could
  be fetched, the ids met so far, and whether some address is used.
\<close>

definition lookupBatch :: "('n, 'e) import_env_scheme \<Rightarrow> derived list \<Rightarrow> int \<Rightarrow> string list
    \<Rightarrow> ('s import_state_scheme, int \<times> prepared_tx list \<times> string list \<times> bool) act" where
  "lookupBatch env derivedAddresses u txids =
     bindA (remote (\<lambda>k. ie_sources env k (map d_address derivedAddresses) None)) (\<lambda>results.
     let filteredResults = filter (\<lambda>r. 0 < sr_ntx r) results;
         scanTx = filter (\<lambda>t. t \<notin> set txids) (concat (map sr_txids filteredResults))
     in bindA (lift (highestUsed derivedAddresses u filteredResults)) (\<lambda>u.
        bindA (catchA (bindA (fetchTransactions env 200 scanTx) (\<lambda>filteredTxs.
                         ret (filteredTxs, foldl addKey txids (map pt_txid filteredTxs))))
                 (\<lambda>_. ret ([], txids))) (\<lambda>(txs, txids).
          ret (u, txs, txids, filteredResults \<noteq> []))))"

primrec xpubScan :: "('n, 'e) import_env_scheme \<Rightarrow> string \<Rightarrow> hd_type \<Rightarrow> int \<Rightarrow> int \<Rightarrow> nat \<Rightarrow> int \<Rightarrow> int \<Rightarrow> string list
    \<Rightarrow> ('s import_state_scheme, derived list \<times> prepared_tx list) act" where
  "xpubScan env xpub type c G 0 d u txids = unending"
| "xpubScan env xpub type c G (Suc fuel) d u txids =
     (if u + G < d + 1 then ret ([], [])
      else bindA (lift (deriveAddresses (ie_lib env) (ie_parallel env) (ie_threshold env) (ie_exec env)
                    (Some xpub) c (range (d + 1) (u + G + 1)) (Some type))) (\<lambda>addrs.
           bindA (catchA (bindA (lookupBatch env addrs u txids) (\<lambda>found. ret (Some found))) (\<lambda>_. ret None)) (\<lambda>found.
             case found of
               None \<Rightarrow> ret (addrs, [])
             | Some (u', txs, txids', gotTransactions) \<Rightarrow>
                 if gotTransactions
                 then bindA (setProgress xpub c (int (length txids'))) (\<lambda>_.
                      catchA (bindA (xpubScan env xpub type c G fuel (u + G) u' txids') (\<lambda>(moreAddrs, moreTxs).
                                ret (addrs @ moreAddrs, txs @ moreTxs)))
                        (\<lambda>_. ret (addrs, txs)))
                 else ret (addrs, txs))))"

section \<open>Storing\<close>

definition newTx :: "prepared_tx \<Rightarrow> new_tx" where
  "newTx p = \<lparr>nt_txid = pt_txid p, nt_version = pt_version p, nt_locktime = pt_locktime p, nt_created = pt_created p\<rparr>"

definition addTransactions_import :: "int \<Rightarrow> prepared_tx list \<Rightarrow> ('s world_scheme, unit) act" where
  "addTransactions_import now txs =
     bindA (onDb (addTransactions now (map newTx txs))) (\<lambda>_.
     bindA (askDb (getBlocksByHashes (map pb_hash (List.map_filter pt_block txs)))) (\<lambda>blks.
       forA (\<lambda>blk.
         let txids = map pt_txid (filter (\<lambda>tx. map_option pb_hash (pt_block tx) = Some (b_blockHash blk)) txs)
         in if txids = [] then ret () else tryDb (confirmTransactions txids (b_blockID blk))) blks))"

text \<open>An id that is missing is \<open>undefined\<close>, which the database refuses: zero, the id of no row.\<close>

definition idOf :: "(string \<times> nat) list \<Rightarrow> string \<Rightarrow> nat" where
  "idOf ids k = (case map_of ids k of None \<Rightarrow> 0 | Some i \<Rightarrow> i)"

definition addOutputs_import :: "(string \<times> nat) list \<Rightarrow> prepared_tx list \<Rightarrow> ('s world_scheme, unit) act" where
  "addOutputs_import addrIdMap txs =
     bindA (askDb (getTransactionsIds (map pt_txid txs))) (\<lambda>mapTxsIds.
       onDb (addOutputs (concat (map (\<lambda>tx. concat (map (\<lambda>o'. case po_address o' of
             None \<Rightarrow> []
           | Some a \<Rightarrow> if idOf addrIdMap a = 0 then []
               else [\<lparr>no_txnID = idOf mapTxsIds (pt_txid tx), no_addrID = idOf addrIdMap a, no_outIndex = po_n o',
                       no_outAmount = po_value o', no_outScript = po_script o'\<rparr>]) (pt_outputs tx))) txs))))"

definition outpoints :: "prepared_tx list \<Rightarrow> (string \<times> int) list" where
  "outpoints txs = map (\<lambda>p. (op_txid p, op_vout p)) (List.map_filter pi_outpoint (concat (map pt_inputs txs)))"

definition spentIds :: "output_id_row list \<Rightarrow> (string \<times> int) \<Rightarrow> nat" where
  "spentIds res q = (case map_of (map (\<lambda>r. ((oi_txnTxid r, oi_outIndex r), oi_outID r)) (rev res)) q of None \<Rightarrow> 0 | Some i \<Rightarrow> i)"

definition addInputs_import :: "prepared_tx list \<Rightarrow> ('s world_scheme, unit) act" where
  "addInputs_import txs =
     bindA (askDb (getTransactionsIds (map pt_txid txs))) (\<lambda>mapTxsIds.
     bindA (askDb (getOutputIds (outpoints txs))) (\<lambda>res.
       tryDb (addInputs (concat (map (\<lambda>tx. concat (map (\<lambda>input. case pi_outpoint input of
             None \<Rightarrow> []
           | Some p \<Rightarrow> if spentIds res (op_txid p, op_vout p) = 0 then []
               else [\<lparr>ni_txnID = idOf mapTxsIds (pt_txid tx), ni_outID = spentIds res (op_txid p, op_vout p),
                      ni_inIndex = pi_n input, ni_inSequence = pi_seq input\<rparr>]) (pt_inputs tx))) txs)))))"

definition importTransactions :: "int \<Rightarrow> string list \<Rightarrow> prepared_tx list \<Rightarrow> ('s world_scheme, unit) act" where
  "importTransactions now addrs txs =
     bindA (mapA (\<lambda>chunk. askDb (getAddressesIds chunk)) (chunks 1000 addrs)) (\<lambda>addrIdMaps.
     let addrIdMap = concat (rev addrIdMaps); txsChunks = chunks 200 txs
     in bindA (forA (addTransactions_import now) txsChunks) (\<lambda>_.
        bindA (forA (addOutputs_import addrIdMap) txsChunks) (\<lambda>_.
          forA addInputs_import txsChunks)))"

section \<open>Imports\<close>

definition validXpub :: "'n hd_lib \<Rightarrow> string option \<Rightarrow> bool result" where
  "validXpub lib xpub = (case fresh_node lib xpub of Inl e \<Rightarrow> Inl e | Inr n \<Rightarrow> Inr (n \<noteq> None))"

text \<open>What runs under the claim of an account.\<close>

definition scanAndStore :: "int \<Rightarrow> ('n, 'e) import_env_scheme \<Rightarrow> nat \<Rightarrow> string \<Rightarrow> hd_type \<Rightarrow> int option \<Rightarrow> int option
    \<Rightarrow> ('s import_state_scheme, unit) act" where
  "scanAndStore now env fuel xpub type gapLimit startIndex =
     (let gaps = (case truthy_int gapLimit of
                    Some g \<Rightarrow> if ie_local env then (g, g) else (ie_gap_external env, ie_gap_internal env)
                  | None \<Rightarrow> (ie_gap_external env, ie_gap_internal env));
          start = (case startIndex of None \<Rightarrow> - 1 | Some i \<Rightarrow> i - 1)
      in bindA (xpubScan env xpub type 0 (fst gaps) fuel start start []) (\<lambda>(addrs0, txs0).
         bindA (xpubScan env xpub type 1 (snd gaps) fuel start start []) (\<lambda>(addrs1, txs1).
         let txns = txs0 @ txs1; addrs = addrs0 @ addrs1
         in bindA (modify (\<lambda>s. s\<lparr>w_importing := (w_importing s)(xpub \<mapsto>
                Info \<lparr>im_status = ''import'', im_txs_ext = None, im_txs_int = None, im_txs = Some (int (length txns))\<rparr>)\<rparr>)) (\<lambda>_.
            bindA (getDb (ensureHDAccountId now xpub type)) (\<lambda>_.
            bindA (forA (\<lambda>chunk. tryDb (addAddressesToHDAccount xpub chunk)) (chunks 1000 addrs)) (\<lambda>_.
              importTransactions now (map d_address addrs) txns))))))"

definition importHDAccount :: "int \<Rightarrow> ('n, 'e) import_env_scheme \<Rightarrow> nat \<Rightarrow> string option \<Rightarrow> hd_type \<Rightarrow> int option \<Rightarrow> int option
    \<Rightarrow> ('s import_state_scheme, bool) act" where
  "importHDAccount now env fuel xpub type gapLimit startIndex =
     bindA (lift (validXpub (ie_lib env) xpub)) (\<lambda>valid.
       case xpub of
         None \<Rightarrow> throw (Err Xpub_INVALID)
       | Some x \<Rightarrow>
           if \<not> valid then throw (Err Xpub_INVALID)
           else bindA (claimImport x (Info \<lparr>im_status = ''rescan'', im_txs_ext = Some 0, im_txs_int = Some 0, im_txs = None\<rparr>)) (\<lambda>claimed.
             if \<not> claimed then throw (Err Xpub_OVERLAP)
             else bindA (catchA (scanAndStore now env fuel x type gapLimit startIndex) (\<lambda>_. ret ())) (\<lambda>_.
                  bindA (releaseImport x) (\<lambda>_. ret True))))"

definition claimAll :: "string list \<Rightarrow> ('s import_state_scheme, string list) act" where
  "claimAll candidates =
     bindA (mapA (\<lambda>a. bindA (claimImport a Flag) (\<lambda>c. ret (if c then [a] else []))) (js_unique candidates)) (\<lambda>l. ret (concat l))"

definition importClaimed :: "int \<Rightarrow> ('n, 'e) import_env_scheme \<Rightarrow> string list \<Rightarrow> bool option \<Rightarrow> ('s import_state_scheme, unit) act" where
  "importClaimed now env addrs filterAddr =
     (if addrs = [] then ret ()
      else bindA (remote (\<lambda>k. ie_sources env k addrs filterAddr)) (\<lambda>results.
           bindA (fetchTransactions env 100 (js_unique (concat (map sr_txids (filter (\<lambda>r. 0 < sr_ntx r) results))))) (\<lambda>txns.
           bindA (onDb (addAddresses (map sr_address results))) (\<lambda>_.
             importTransactions now addrs txns))))"

definition importAddresses :: "int \<Rightarrow> ('n, 'e) import_env_scheme \<Rightarrow> string list \<Rightarrow> bool option
    \<Rightarrow> ('s import_state_scheme, bool) act" where
  "importAddresses now env candidates filterAddr =
     bindA (claimAll candidates) (\<lambda>addrs.
     bindA (catchA (importClaimed now env addrs filterAddr) (\<lambda>_. ret ())) (\<lambda>_.
     bindA (forA releaseImport addrs) (\<lambda>_. ret True)))"

section \<open>The claim of a key\<close>

text \<open>The scan and the storing leave the claims of the other keys alone.\<close>

definition others :: "string \<Rightarrow> (string \<rightharpoonup> claim) \<Rightarrow> 's import_state_scheme \<Rightarrow> bool" where
  "others x m s \<longleftrightarrow> (w_importing s)(x := None) = m"

lemma keeps_others_db [keeps_intros]:
  "keeps (others x m) (onDb g)" "keeps (others x m) (tryDb k)" "keeps (others x m) (getDb l)" "keeps (others x m) (remote f)"
  by (auto simp: others_def keeps_def onDb_def tryDb_def getDb_def remote_def tryModify_Some split: sum.splits prod.splits)

lemma keeps_setProgress [keeps_intros]: "keeps (others x m) (setProgress x c n)"
  unfolding setProgress_def by (intro keeps_intros) (auto simp: others_def split: option.split claim.split)

lemma keeps_others_rpc [keeps_intros]: "keeps (others x m) (getTransactions_rpc env chunk fees)"
  by (rule keeps_rpc(5)) (simp_all add: others_def)

lemma keeps_others_fetch [keeps_intros]: "keeps (others x m) (fetchTransactions env n txids)"
  unfolding fetchTransactions_def by (intro keeps_intros)

lemma keeps_lookupBatch [keeps_intros]: "keeps (others x m) (lookupBatch env addrs u txids)"
  unfolding lookupBatch_def Let_def by (auto intro!: keeps_intros split: prod.split)

lemma keeps_xpubScan [keeps_intros]: "keeps (others x m) (xpubScan env x type c G fuel d u txids)"
proof (induction fuel arbitrary: d u txids)
  case (Suc fuel)
  show ?case unfolding xpubScan.simps
    by (auto intro!: keeps_intros Suc split: prod.split option.split)
qed (simp add: keeps_intros)

lemma keeps_importTransactions [keeps_intros]: "keeps (others x m) (importTransactions now addrs txs)"
  unfolding importTransactions_def addTransactions_import_def addOutputs_import_def addInputs_import_def Let_def
  by (intro keeps_intros keeps_askDb)

lemma keeps_scanAndStore: "keeps (others x m) (scanAndStore now env fuel x type gapLimit startIndex)"
  unfolding scanAndStore_def Let_def by (auto simp: others_def intro!: keeps_intros split: prod.split)

section \<open>The scan returns\<close>

lemma returns_fetch [returns_intros]: "returns (fetchTransactions env n txids)"
  unfolding fetchTransactions_def by (intro returns_intros)

lemma returns_lookupBatch [returns_intros]: "returns (lookupBatch env addrs u txids)"
  unfolding lookupBatch_def Let_def by (auto intro!: returns_intros split: prod.split)

lemma returns_setProgress [returns_intros]: "returns (setProgress x c n)"
  unfolding setProgress_def by (intro returns_intros)

lemma returns_importTransactions [returns_intros]: "returns (importTransactions now addrs txs)"
  unfolding importTransactions_def addTransactions_import_def addOutputs_import_def addInputs_import_def Let_def
  by (intro returns_intros)

text \<open>The worker pool hands the worker's reply back, or rejects.\<close>

definition faithful_pool :: "(derived list result \<Rightarrow> derived list result result) \<Rightarrow> bool" where
  "faithful_pool exec \<longleftrightarrow> (\<forall>q r. exec q = Inr r \<longrightarrow> r = q)"

lemma deriveAddresses_within:
  assumes "deriveAddresses lib external th exec xpub c indices type = Inr addrs" and "faithful_pool exec" and "a \<in> set addrs"
  shows "d_index a \<in> set indices"
proof -
  have all: "d_index a \<in> set indices" if "derive_all lib c n indices t pm = Inr addrs" for n t pm
  proof -
    have "d_index a \<in> set (map d_index addrs)" using assms(3) by simp
    then show ?thesis unfolding derive_all_shape(1) [OF that] by (auto split: if_splits)
  qed
  have worker: "d_index a \<in> set indices" if "worker_deriveAddresses lib x c indices t pm = Inr addrs" for x t pm
    using that all by (auto simp: worker_deriveAddresses_eq split: option.splits if_splits)
  obtain ns where ns: "fresh_node lib xpub = Inr (Some ns)"
    using assms(1) by (auto simp: deriveAddresses_def bindE_Inr_iff split: option.splits)
  obtain scheme where scheme: "ty_type (classify (case type of None \<Rightarrow> makeType BIP44 False | Some t \<Rightarrow> t)) = Some scheme"
    using assms(1) ns by (auto simp: deriveAddresses_def Let_def split: option.splits if_splits)
  show ?thesis
  proof (cases "external \<and> th < length indices")
    case False
    then show ?thesis using assms(1) ns scheme by (auto simp: deriveAddresses_def Let_def split: if_splits dest!: all)
  next
    case True
    then obtain xlated reply where reply: "exec (worker_deriveAddresses lib xlated c indices scheme (isPostmixAcct lib ns \<and> c = 1)) = Inr reply"
      "(case reply of Inr addrs \<Rightarrow> Inr addrs | Inl e \<Rightarrow> Inr []) = (Inr addrs :: derived list result)"
      using assms(1) ns scheme by (simp add: deriveAddresses_def Let_def bindE_Inr_iff split: if_splits) blast
    have "reply = worker_deriveAddresses lib xlated c indices scheme (isPostmixAcct lib ns \<and> c = 1)"
      using reply(1) assms(2) unfolding faithful_pool_def by blast
    then have "worker_deriveAddresses lib xlated c indices scheme (isPostmixAcct lib ns \<and> c = 1) = Inr addrs"
      using reply(2) assms(3) by (auto split: sum.splits)
    then show ?thesis by (rule worker)
  qed
qed

lemma highestUsed_bounds:
  assumes "highestUsed derivedAddresses u results = Inr v"
  shows "v = u \<and> results = [] \<or> u \<le> v \<and>
    (\<forall>r\<in>set results. \<exists>a\<in>set derivedAddresses. d_address a = sr_address r \<and> d_index a \<le> v) \<and>
    (v = u \<or> (\<exists>r\<in>set results. \<exists>a\<in>set derivedAddresses. d_address a = sr_address r \<and> d_index a = v))"
  using assms unfolding highestUsed_def Let_def
proof (induction results arbitrary: u)
  case (Cons r results)
  define addrMap where "addrMap = map_of (map (\<lambda>a. (d_address a, d_index a)) (rev derivedAddresses))"
  obtain i where i: "addrMap (sr_address r) = Some i"
    using Cons.prems by (cases "addrMap (sr_address r)") (simp_all add: addrMap_def bindE_def)
  have "(sr_address r, i) \<in> set (map (\<lambda>a. (d_address a, d_index a)) (rev derivedAddresses))"
    using i unfolding addrMap_def by (rule map_of_SomeD)
  then obtain a where a: "a \<in> set derivedAddresses" "d_address a = sr_address r" "d_index a = i" by auto
  have "foldE (\<lambda>m r. case addrMap (sr_address r) of
             None \<Rightarrow> Inl (Exn ''index of undefined'') | Some index \<Rightarrow> Inr (max m index)) (max u i) results = Inr v"
    using Cons.prems i by (simp add: addrMap_def bindE_def)
  from Cons.IH [OF this [unfolded addrMap_def]] show ?case using a by (fastforce simp: max_def split: if_splits)
qed simp

text \<open>What a batch found: the indices used are among those asked for, the highest one is the new \<open>u\<close>.\<close>

lemma lookupBatch_found:
  assumes "lookupBatch env addrs u txids s = Some (Inr (u', txs, txids', True), t)"
  shows "\<exists>results r a. ie_sources env (w_clock s) (map d_address addrs) None = Inr results \<and> r \<in> set results \<and> 0 < sr_ntx r
    \<and> a \<in> set addrs \<and> d_address a = sr_address r \<and> d_index a \<le> u' \<and> u \<le> u'
    \<and> (u' = u \<or> (\<exists>r\<in>set results. 0 < sr_ntx r \<and> (\<exists>a\<in>set addrs. d_address a = sr_address r \<and> d_index a = u')))"
proof -
  obtain results where res: "ie_sources env (w_clock s) (map d_address addrs) None = Inr results"
    "highestUsed addrs u (filter (\<lambda>r. 0 < sr_ntx r) results) = Inr u'" "filter (\<lambda>r. 0 < sr_ntx r) results \<noteq> []"
    using assms by (auto simp: lookupBatch_def Let_def bindA_Inr intro!: that [OF sym sym] split: prod.splits)
  then obtain r where r: "r \<in> set results" "0 < sr_ntx r"
    by (metis filter_False)
  from highestUsed_bounds [OF res(2)] res(3) have b: "u \<le> u'"
    "\<forall>r\<in>set results. 0 < sr_ntx r \<longrightarrow> (\<exists>a\<in>set addrs. d_address a = sr_address r \<and> d_index a \<le> u')"
    "u' = u \<or> (\<exists>r\<in>set results. 0 < sr_ntx r \<and> (\<exists>a\<in>set addrs. d_address a = sr_address r \<and> d_index a = u'))"
    by auto
  then obtain a where "a \<in> set addrs" "d_address a = sr_address r" "d_index a \<le> u'" using r by blast
  then show ?thesis using res(1) r b by blast
qed

text \<open>The addresses in use, as the source reports them, are those of indices below \<open>N\<close>.\<close>

definition used_below :: "('n, 'e) import_env_scheme \<Rightarrow> string \<Rightarrow> hd_type \<Rightarrow> int \<Rightarrow> bool" where
  "used_below env xpub type N \<longleftrightarrow> (\<forall>k c indices addrs results r a.
     deriveAddresses (ie_lib env) (ie_parallel env) (ie_threshold env) (ie_exec env) (Some xpub) c indices (Some type) = Inr addrs \<longrightarrow>
     ie_sources env k (map d_address addrs) None = Inr results \<longrightarrow>
     r \<in> set results \<longrightarrow> 0 < sr_ntx r \<longrightarrow> a \<in> set addrs \<longrightarrow> d_address a = sr_address r \<longrightarrow> d_index a < N)"

lemma bindA_lift: "bindA (lift (Inr a)) f = f a" "bindA (lift (Inl e)) f = throw e"
  by (simp_all add: fun_eq_iff bindA_def act_defs)

text \<open>The highest used index grows from a call to the next one, so the scan ends.\<close>

lemma xpubScan_returns:
  assumes below: "used_below env xpub type N" and pool: "faithful_pool (ie_exec env)"
  shows "\<lbrakk>0 \<le> G; u \<le> d; nat (N - u) < fuel\<rbrakk>
    \<Longrightarrow> returns (xpubScan env xpub type c G fuel d u txids :: ('s import_state_scheme, derived list \<times> prepared_tx list) act)"
proof (induction fuel arbitrary: d u txids)
  case (Suc fuel)
  have go: "returns (bindA (catchA (bindA (lookupBatch env addrs u txids) (\<lambda>found. ret (Some found))) (\<lambda>_. ret None)) (\<lambda>found.
             case found of
               None \<Rightarrow> ret (addrs, [])
             | Some (u', txs, txids', gotTransactions) \<Rightarrow>
                 if gotTransactions
                 then bindA (setProgress xpub c (int (length txids'))) (\<lambda>_.
                      catchA (bindA (xpubScan env xpub type c G fuel (u + G) u' txids'
                                :: ('s import_state_scheme, derived list \<times> prepared_tx list) act) (\<lambda>(moreAddrs, moreTxs).
                                ret (addrs @ moreAddrs, txs @ moreTxs)))
                        (\<lambda>_. ret (addrs, txs)))
                 else ret (addrs, txs)))" (is "returns (bindA ?m ?f)")
    if der: "deriveAddresses (ie_lib env) (ie_parallel env) (ie_threshold env) (ie_exec env) (Some xpub) c
       (range (d + 1) (u + G + 1)) (Some type) = Inr addrs" for addrs
  proof -
    have "?f found t \<noteq> None" if m: "?m s = Some (Inr found, t)" for s found t
    proof (cases found)
      case (Some f)
      obtain u' txs txids' got where f: "f = (u', txs, txids', got)" by (cases f) auto
      have look: "lookupBatch env addrs u txids s = Some (Inr f, t)"
        using m Some by (auto simp: catchA_Some bindA_Inr)
      show ?thesis
      proof (cases got)
        case True
        have "lookupBatch env addrs u txids s = Some (Inr (u', txs, txids', True), t)" using look f True by simp
        from lookupBatch_found [OF this] obtain results r a where
          res: "ie_sources env (w_clock s) (map d_address addrs) None = Inr results" and
          a: "a \<in> set addrs" "d_index a \<le> u'" and u': "u \<le> u'"
          "u' = u \<or> (\<exists>r\<in>set results. 0 < sr_ntx r \<and> (\<exists>a\<in>set addrs. d_address a = sr_address r \<and> d_index a = u'))"
          by blast
        have within: "d_index a \<in> {d + 1..<u + G + 1}" if "a \<in> set addrs" for a
          using deriveAddresses_within [OF der pool that] by simp
        have new: "u < u'" using within [OF a(1)] a(2) Suc.prems(2) by simp
        then obtain b where b: "b \<in> set addrs" "d_index b = u'" "u' < N"
          using u'(2) below der res unfolding used_below_def by (metis less_irrefl)
        have "u' \<le> u + G" "nat (N - u') < fuel"
          using Suc.prems(3) within [OF b(1)] b(2,3) new by auto
        then have "returns (xpubScan env xpub type c G fuel (u + G) u' txids' :: ('s import_state_scheme, derived list \<times> prepared_tx list) act)"
          by (rule Suc.IH [OF Suc.prems(1)])
        then have "returns (?f (Some (u', txs, txids', True)))"
          by (auto intro!: returns_intros split: prod.split)
        then show ?thesis using Some f True by (simp add: returns_def)
      qed (simp add: Some f act_defs)
    qed (simp add: act_defs)
    moreover have "returns ?m" by (intro returns_intros)
    ultimately show ?thesis
      by (auto simp: returns_def bindA_def split: option.split sum.split)
  qed
  show ?case
  proof (cases "deriveAddresses (ie_lib env) (ie_parallel env) (ie_threshold env) (ie_exec env) (Some xpub) c
       (range (d + 1) (u + G + 1)) (Some type)")
    case (Inl e)
    show ?thesis unfolding xpubScan.simps Inl bindA_lift by (intro returns_intros)
  next
    case (Inr addrs)
    show ?thesis unfolding xpubScan.simps Inr bindA_lift by (rule returns_if [OF returns_basic(1) go [OF Inr]])
  qed
qed simp

section \<open>Imports end\<close>

lemma returns_scanAndStore:
  assumes below: "used_below env xpub type N" and pool: "faithful_pool (ie_exec env)"
    and gaps: "0 \<le> ie_gap_external env" "0 \<le> ie_gap_internal env" "\<And>g. gapLimit = Some g \<Longrightarrow> 0 \<le> g"
    and fuel: "nat (N - (case startIndex of None \<Rightarrow> - 1 | Some i \<Rightarrow> i - 1)) < fuel"
  shows "returns (scanAndStore now env fuel xpub type gapLimit startIndex)"
proof -
  define G where "G = (case truthy_int gapLimit of
                    Some g \<Rightarrow> if ie_local env then (g, g) else (ie_gap_external env, ie_gap_internal env)
                  | None \<Rightarrow> (ie_gap_external env, ie_gap_internal env))"
  have "0 \<le> fst G" "0 \<le> snd G"
    using gaps by (auto simp: G_def truthy_int_def split: option.split)
  note scan = this [THEN xpubScan_returns [OF below pool _ order_refl fuel]]
  show ?thesis unfolding scanAndStore_def Let_def G_def [symmetric]
    by (auto intro!: returns_intros scan split: prod.split)
qed

lemma claimed_others:
  assumes "keeps (others x m) f" and "f (s\<lparr>w_importing := (w_importing s)(x \<mapsto> c)\<rparr>) = Some (r, t)"
    and "m = (w_importing s)(x := None)"
  shows "(w_importing t)(x := None) = (w_importing s)(x := None)"
proof -
  have "others x m (s\<lparr>w_importing := (w_importing s)(x \<mapsto> c)\<rparr>)" by (simp add: others_def assms(3))
  from keepsD [OF assms(1,2) this] show ?thesis unfolding others_def assms(3) .
qed

text \<open>
  C16. One import of a key at a time, and every import ends. While a key is claimed a second import of it
  is refused and changes nothing. Otherwise the import returns, whatever the source, the node and the
  database answer, and the claims are then those there were before it: the key can be imported again.
  (The source reports addresses in use below an index \<open>N\<close> only, and the fuel is more than the number
  of indices below \<open>N\<close>.)
\<close>

theorem importHDAccount_exclusive:
  assumes "validXpub (ie_lib env) (Some xpub) = Inr True"
    and "used_below env xpub type N" and "faithful_pool (ie_exec env)"
    and "0 \<le> ie_gap_external env" and "0 \<le> ie_gap_internal env" and "\<And>g. gapLimit = Some g \<Longrightarrow> 0 \<le> g"
    and "nat (N - (case startIndex of None \<Rightarrow> - 1 | Some i \<Rightarrow> i - 1)) < fuel"
  shows "(w_importing s xpub \<noteq> None \<longrightarrow>
      importHDAccount now env fuel (Some xpub) type gapLimit startIndex s = Some (Inl (Err Xpub_OVERLAP), s)) \<and>
    (w_importing s xpub = None \<longrightarrow>
      (\<exists>t. importHDAccount now env fuel (Some xpub) type gapLimit startIndex s = Some (Inr True, t) \<and> w_importing t = w_importing s))"
proof (intro conjI impI)
  let ?run = "importHDAccount now env fuel (Some xpub) type gapLimit startIndex s"
  show "?run = Some (Inl (Err Xpub_OVERLAP), s)" if "w_importing s xpub \<noteq> None"
    using that assms(1) by (simp add: importHDAccount_def claimImport_def bindA_lift)
      (simp add: bindA_def act_defs)
  assume free: "w_importing s xpub = None"
  let ?s = "s\<lparr>w_importing := (w_importing s)(xpub \<mapsto>
      Info \<lparr>im_status = ''rescan'', im_txs_ext = Some 0, im_txs_int = Some 0, im_txs = None\<rparr>)\<rparr>"
  obtain r t where run: "scanAndStore now env fuel xpub type gapLimit startIndex ?s = Some (r, t)"
    using returns_scanAndStore [OF assms(2-7)] by (metis returnsD)
  have "?run = Some (Inr True, t\<lparr>w_importing := (w_importing t)(xpub := None)\<rparr>)"
    using assms(1) free run
    by (simp add: importHDAccount_def claimImport_def releaseImport_def bindA_lift)
      (simp add: bindA_def catchA_def act_defs releaseImport_def split: sum.split)
  moreover have "(w_importing t)(xpub := None) = w_importing s"
    using claimed_others [OF keeps_scanAndStore run refl] free by (simp add: fun_upd_idem)
  ultimately show "\<exists>t. ?run = Some (Inr True, t) \<and> w_importing t = w_importing s" by fastforce
qed

text \<open>
  A node that answers nothing and a source that reports the address of one index.
\<close>

definition demo_import :: "string \<Rightarrow> int list import_env" where
  "demo_import a0 =
     \<lparr>re_raw = \<lambda>_ _. Inl (Exn ''rpc''), re_hex = \<lambda>_ _. Inl (Exn ''rpc''), re_batch = \<lambda>_ _. Inl (Exn ''rpc''),
      re_latest = \<lambda>_. 0, re_evict = \<lambda>m. m,
      ie_lib = demo_lib 0, ie_parallel = False, ie_threshold = 0, ie_exec = Inr,
      ie_sources = \<lambda>_ addrs _. Inr (map (\<lambda>a. \<lparr>sr_address = a, sr_ntx = (if a = a0 then 1 else 0), sr_txids = []\<rparr>) addrs),
      ie_local = False, ie_gap_external = 2, ie_gap_internal = 2\<rparr>"

section \<open>The gap\<close>

lemma highestUsed_total:
  assumes "\<forall>r\<in>set results. sr_address r \<in> d_address ` set derivedAddresses"
  shows "\<exists>v. highestUsed derivedAddresses u results = Inr v"
  using assms unfolding highestUsed_def Let_def
proof (induction results arbitrary: u)
  case (Cons r results)
  have "sr_address r \<in> fst ` set (map (\<lambda>a. (d_address a, d_index a)) (rev derivedAddresses))"
    using Cons.prems by (auto simp: image_image)
  then obtain i where i: "map_of (map (\<lambda>a. (d_address a, d_index a)) (rev derivedAddresses)) (sr_address r) = Some i"
    by (metis map_of_eq_None_iff not_None_eq)
  show ?case using Cons.IH [of "max u i"] Cons.prems by (simp only: foldE.simps i) simp
qed simp

lemma lookupBatch_answers:
  assumes "ie_sources env (w_clock s) (map d_address derivedAddresses) None = Inr results"
    and "highestUsed derivedAddresses u (filter (\<lambda>r. 0 < sr_ntx r) results) = Inr v"
  shows "\<exists>txs txids' t. lookupBatch env derivedAddresses u txids s =
    Some (Inr (v, txs, txids', filter (\<lambda>r. 0 < sr_ntx r) results \<noteq> []), t)"
proof -
  let ?ids = "filter (\<lambda>t. t \<notin> set txids) (concat (map sr_txids (filter (\<lambda>r. 0 < sr_ntx r) results)))"
  obtain r t where "fetchTransactions env 200 ?ids (s\<lparr>w_clock := Suc (w_clock s)\<rparr>) = Some (r, t)"
    using returnsD [OF returns_fetch] by blast
  then show ?thesis using assms
    by (cases r) (simp_all add: lookupBatch_def Let_def remote_def bindA_def catchA_def act_defs)
qed

text \<open>One batch of the scan, when its addresses are derived.\<close>

lemma xpubScan_batch:
  assumes "\<not> u + G < d + 1"
    and "deriveAddresses (ie_lib env) (ie_parallel env) (ie_threshold env) (ie_exec env) (Some xpub) c
      (range (d + 1) (u + G + 1)) (Some type) = Inr addrs"
    and "lookupBatch env addrs u txids s = Some (Inr (v, txs, txids', got), t)"
  shows "\<not> got \<Longrightarrow> xpubScan env xpub type c G (Suc fuel) d u txids s = Some (Inr (addrs, txs), t)"
    and "\<lbrakk>got; setProgress xpub c (int (length txids')) t = Some (Inr (), t');
          xpubScan env xpub type c G fuel (u + G) v txids' t' = Some (Inr (deeper, deeperTxs), t'')\<rbrakk>
      \<Longrightarrow> xpubScan env xpub type c G (Suc fuel) d u txids s = Some (Inr (addrs @ deeper, txs @ deeperTxs), t'')"
proof -
  have look: "catchA (bindA (lookupBatch env addrs u txids) (\<lambda>found. ret (Some found))) (\<lambda>_. ret None) s
      = Some (Inr (Some (v, txs, txids', got)), t)"
    using assms(3) by (simp add: catchA_def bindA_def act_defs)
  show "xpubScan env xpub type c G (Suc fuel) d u txids s = Some (Inr (addrs, txs), t)" if "\<not> got"
    unfolding xpubScan.simps assms(2) bindA_lift if_not_P [OF assms(1)] bindA_eval(1) [where m = "catchA _ _", OF look]
    using that by simp
  show "xpubScan env xpub type c G (Suc fuel) d u txids s = Some (Inr (addrs @ deeper, txs @ deeperTxs), t'')"
    if "got" "setProgress xpub c (int (length txids')) t = Some (Inr (), t')"
      "xpubScan env xpub type c G fuel (u + G) v txids' t' = Some (Inr (deeper, deeperTxs), t'')"
    unfolding xpubScan.simps assms(2) bindA_lift if_not_P [OF assms(1)] bindA_eval(1) [where m = "catchA _ _", OF look]
    using that by (simp add: bindA_eval catchA_def act_defs)
qed

lemma range_append: "\<lbrakk>a \<le> b; b \<le> c\<rbrakk> \<Longrightarrow> range a b @ range b c = range a c"
  by (cases "b = c") (simp_all add: range_def upto_split1 [of a b "c - 1"])

text \<open>Contiguous derivation: every index of a range below \<open>M\<close> has its own address.\<close>

definition known_chain :: "('n, 'e) import_env_scheme \<Rightarrow> string \<Rightarrow> hd_type \<Rightarrow> int \<Rightarrow> (int \<Rightarrow> string) \<Rightarrow> int \<Rightarrow> int \<Rightarrow> bool" where
  "known_chain env xpub type c addr d M \<longleftrightarrow> inj_on addr {d + 1..<M} \<and>
     (\<forall>indices. set indices \<subseteq> {d + 1..<M} \<longrightarrow>
       deriveAddresses (ie_lib env) (ie_parallel env) (ie_threshold env) (ie_exec env) (Some xpub) c indices (Some type) =
       Inr (map (\<lambda>i. \<lparr>d_chain = c, d_index = i, d_address = addr i\<rparr>) indices))"

lemma known_chain_later: "\<lbrakk>known_chain env xpub type c addr d M; d \<le> e\<rbrakk> \<Longrightarrow> known_chain env xpub type c addr e M"
proof -
  assume k: "known_chain env xpub type c addr d M" "d \<le> e"
  then have "{e + 1..<M} \<subseteq> {d + 1..<M}" by auto
  then show ?thesis using k(1) unfolding known_chain_def by (meson inj_on_subset order_trans)
qed

definition known_source :: "('n, 'e) import_env_scheme \<Rightarrow> (string \<Rightarrow> int) \<Rightarrow> bool" where
  "known_source env ntx \<longleftrightarrow> (\<exists>ids. \<forall>k addrs. ie_sources env k addrs None =
     Inr (map (\<lambda>a. \<lparr>sr_address = a, sr_ntx = ntx a, sr_txids = ids k a\<rparr>) addrs))"

text \<open>A batch on such a chain: the new \<open>u\<close> is the highest used index of the batch, if there is one.\<close>

lemma known_batch:
  fixes s :: "'s import_state_scheme"
  assumes chain: "known_chain env xpub type c addr d M" and source: "known_source env ntx"
    and bounds: "u + G < M" "u \<le> d"
  defines "batch \<equiv> map (\<lambda>i. \<lparr>d_chain = c, d_index = i, d_address = addr i\<rparr>) (range (d + 1) (u + G + 1))"
  shows "\<exists>v txs txids' got t. lookupBatch env batch u txids s = Some (Inr (v, txs, txids', got), t)
    \<and> (got \<longrightarrow> d < v \<and> v \<le> u + G \<and> 0 < ntx (addr v)) \<and> (\<not> got \<longrightarrow> v = u)
    \<and> (\<forall>i. d < i \<and> i \<le> u + G \<and> v < i \<longrightarrow> \<not> 0 < ntx (addr i))"
proof -
  obtain ids where ids: "\<And>k addrs. ie_sources env k addrs None =
     Inr (map (\<lambda>a. \<lparr>sr_address = a, sr_ntx = ntx a, sr_txids = ids k a\<rparr>) addrs)"
    using source unfolding known_source_def by blast
  define results where "results = map (\<lambda>a. \<lparr>sr_address = a, sr_ntx = ntx a, sr_txids = ids (w_clock s) a\<rparr>) (map d_address batch)"
  have sub: "\<forall>r\<in>set (filter (\<lambda>r. 0 < sr_ntx r) results). sr_address r \<in> d_address ` set batch"
    by (auto simp: results_def)
  obtain v where v: "highestUsed batch u (filter (\<lambda>r. 0 < sr_ntx r) results) = Inr v"
    using highestUsed_total [OF sub] by blast
  have res: "ie_sources env (w_clock s) (map d_address batch) None = Inr results"
    by (simp add: ids results_def)
  obtain txs txids' t where look: "lookupBatch env batch u txids s =
      Some (Inr (v, txs, txids', filter (\<lambda>r. 0 < sr_ntx r) results \<noteq> []), t)"
    using lookupBatch_answers [OF res v] by blast
  have mem: "(\<exists>i. d < i \<and> i \<le> u + G \<and> a = \<lparr>d_chain = c, d_index = i, d_address = addr i\<rparr>) \<longleftrightarrow> a \<in> set batch" for a
    by (auto simp: batch_def)
  have used: "r \<in> set (filter (\<lambda>r. 0 < sr_ntx r) results) \<longleftrightarrow>
      (\<exists>i. d < i \<and> i \<le> u + G \<and> 0 < ntx (addr i) \<and> r = \<lparr>sr_address = addr i, sr_ntx = ntx (addr i), sr_txids = ids (w_clock s) (addr i)\<rparr>)" for r
    by (simp add: results_def batch_def image_iff add1_zle_eq) (auto simp: add1_zle_eq)
  have inj: "i = j" if "addr i = addr j" "d < i" "i \<le> u + G" "d < j" "j \<le> u + G" for i j
    using chain that bounds(1) by (auto simp: known_chain_def inj_on_def)
  note b = highestUsed_bounds [OF v]
  have 1: "0 < ntx (addr i) \<longrightarrow> i \<le> v" if "d < i" "i \<le> u + G" for i
  proof
    assume pos: "0 < ntx (addr i)"
    let ?r = "\<lparr>sr_address = addr i, sr_ntx = ntx (addr i), sr_txids = ids (w_clock s) (addr i)\<rparr>"
    have r: "?r \<in> set (filter (\<lambda>r. 0 < sr_ntx r) results)" using used that pos by blast
    then obtain a where "a \<in> set batch" "d_address a = addr i" "d_index a \<le> v" using b by (cases "filter (\<lambda>r. 0 < sr_ntx r) results") auto
    then obtain j where "d < j" "j \<le> u + G" "addr j = addr i" "j \<le> v" using mem [of a] by auto
    then show "i \<le> v" using inj [of j i] that by simp
  qed
  have 2: "d < v \<and> v \<le> u + G \<and> 0 < ntx (addr v)" if got: "filter (\<lambda>r. 0 < sr_ntx r) results \<noteq> []"
  proof -
    obtain r where "r \<in> set (filter (\<lambda>r. 0 < sr_ntx r) results)" using got by (meson last_in_set)
    then obtain i where i: "d < i" "i \<le> u + G" "0 < ntx (addr i)" using used by blast
    then have "u < v" using 1 bounds(2) by fastforce
    then obtain r a where "r \<in> set (filter (\<lambda>r. 0 < sr_ntx r) results)" "a \<in> set batch"
      "d_address a = sr_address r" "d_index a = v" using b by auto
    then show ?thesis using used [of r] mem [of a] by auto
  qed
  have 3: "v = u" if "filter (\<lambda>r. 0 < sr_ntx r) results = []"
    using v that by (simp add: highestUsed_def Let_def)
  show ?thesis
    by (rule exI [of _ v], rule exI [of _ txs], rule exI [of _ txids'], rule exI [of _ "filter (\<lambda>r. 0 < sr_ntx r) results \<noteq> []"],
        rule exI [of _ t]) (use look 1 2 3 in fastforce)
qed

text \<open>
  C17. The scan of a chain derives the indices from the first one on, with none left out, and goes on
  until \<open>G\<close> indices in a row behind the last used one are unused: it stops nowhere else, so no used
  address is missed that lies less than a gap behind another one. (The source answers every call and
  always the same counts; every index below \<open>M\<close> can be derived, and the used ones are more than a
  gap below \<open>M\<close>.)
\<close>

theorem xpubScan_gap:
  fixes s :: "'s import_state_scheme"
  assumes "known_chain env xpub type c addr d M" and "known_source env ntx"
    and "0 \<le> G" and "u \<le> d" and "u + G < M" and "\<And>i. \<lbrakk>d < i; i < M; 0 < ntx (addr i)\<rbrakk> \<Longrightarrow> i + G < M"
    and "nat (M - u) < fuel"
  shows "\<exists>l txs t. xpubScan env xpub type c G fuel d u txids s =
      Some (Inr (map (\<lambda>i. \<lparr>d_chain = c, d_index = i, d_address = addr i\<rparr>) (range (d + 1) (l + G + 1)), txs), t)
    \<and> u \<le> l \<and> (l = u \<or> d < l \<and> 0 < ntx (addr l))
    \<and> (\<forall>i. d < i \<and> l < i \<and> i \<le> l + G \<longrightarrow> \<not> 0 < ntx (addr i))"
  using assms
proof (induction fuel arbitrary: d u txids s)
  case (Suc fuel)
  show ?case
  proof (cases "u + G < d + 1")
    case True
    then show ?thesis by (intro exI [of _ u]) (auto simp: range_def act_defs)
  next
    case False
    let ?batch = "map (\<lambda>i. \<lparr>d_chain = c, d_index = i, d_address = addr i\<rparr>) (range (d + 1) (u + G + 1))"
    have der: "deriveAddresses (ie_lib env) (ie_parallel env) (ie_threshold env) (ie_exec env) (Some xpub) c
      (range (d + 1) (u + G + 1)) (Some type) = Inr ?batch"
      using Suc.prems(1,5) by (auto simp: known_chain_def)
    obtain v txs txids' got t where look: "lookupBatch env ?batch u txids s = Some (Inr (v, txs, txids', got), t)"
      and new: "got \<Longrightarrow> d < v \<and> v \<le> u + G \<and> 0 < ntx (addr v)" "\<not> got \<Longrightarrow> v = u"
      and unused: "\<And>i. \<lbrakk>d < i; i \<le> u + G; v < i\<rbrakk> \<Longrightarrow> \<not> 0 < ntx (addr i)"
      using known_batch [OF Suc.prems(1,2,5,4)] by blast
    note batch = xpubScan_batch [OF False der look]
    show ?thesis
    proof (cases got)
      case False
      then show ?thesis using batch(1) new(2) unused by (intro exI [of _ u]) auto
    next
      case True
      obtain t' where prog: "setProgress xpub c (int (length txids')) t = Some (Inr (), t')"
        by (simp add: setProgress_def)
      have v: "d < v" "v \<le> u + G" "0 < ntx (addr v)" using new(1) True by auto
      have "v + G < M" using v Suc.prems(5,6) by simp
      moreover have "nat (M - v) < fuel" using v Suc.prems(4,5,7) by auto
      moreover have "known_chain env xpub type c addr (u + G) M"
        using known_chain_later [OF Suc.prems(1)] v by simp
      ultimately obtain l txs' t'' where rec: "xpubScan env xpub type c G fuel (u + G) v txids' t' =
          Some (Inr (map (\<lambda>i. \<lparr>d_chain = c, d_index = i, d_address = addr i\<rparr>) (range (u + G + 1) (l + G + 1)), txs'), t'')"
        and l: "v \<le> l" "l = v \<or> u + G < l \<and> 0 < ntx (addr l)"
          "\<And>i. \<lbrakk>u + G < i; l < i; i \<le> l + G\<rbrakk> \<Longrightarrow> \<not> 0 < ntx (addr i)"
        using Suc.IH [of "u + G" v txids' t'] Suc.prems(2,3,6) v by auto
      have "range (d + 1) (u + G + 1) @ range (u + G + 1) (l + G + 1) = range (d + 1) (l + G + 1)"
        using v l(1) Suc.prems(4) by (intro range_append) auto
      then have "xpubScan env xpub type c G (Suc fuel) d u txids s =
          Some (Inr (map (\<lambda>i. \<lparr>d_chain = c, d_index = i, d_address = addr i\<rparr>) (range (d + 1) (l + G + 1)), txs @ txs'), t'')"
        using batch(2) [OF True prog rec] by (simp only: map_append [symmetric])
      moreover have "\<not> 0 < ntx (addr i)" if "d < i" "l < i" "i \<le> l + G" for i
        using that unused [of i] l by (cases "i \<le> u + G") auto
      moreover have "u \<le> l" "l = u \<or> d < l \<and> 0 < ntx (addr l)" using v l Suc.prems(4) by auto
      ultimately show ?thesis
        by (intro exI [of _ l]) blast
    qed
  qed
qed simp

section \<open>Witnesses\<close>

definition demo_importer :: import_state where
  "demo_importer = \<lparr>w_db = empty_db, w_clock = 0, w_prev = Map.empty, w_importing = Map.empty\<rparr>"

lemma deriveAddresses_in_process:
  assumes "deriveAddresses lib False th exec xpub c indices type = Inr addrs"
  shows "\<exists>n t pm. derive_all lib c n indices t pm = Inr addrs"
proof -
  obtain ns where "fresh_node lib xpub = Inr (Some ns)"
    using assms by (auto simp: deriveAddresses_def bindE_Inr_iff split: option.splits)
  then show ?thesis
    using assms by (auto simp: deriveAddresses_def Let_def split: if_splits option.splits)
qed

lemma demo_used_below: "used_below (demo_import a) xpub type (2 ^ 31)"
proof -
  have "d_index a < 2 ^ 31" if "derive_all (demo_lib 0) c n indices t pm = Inr addrs" "a \<in> set addrs" for c n indices t pm addrs a
  proof -
    have "list_all2 (\<lambda>q a. d_index a < 2 ^ 31) (map (\<lambda>i. (i, t)) indices
        @ (if pm then concat (map (\<lambda>i. [(i, BIP44), (i, BIP49)]) indices) else [])) addrs"
      using that(1) unfolding derive_all_def mapE_Inr_iff
      by (rule list_all2_mono) (auto simp: deriveAddress_def demo_lib_def split: option.splits if_splits)
    then show ?thesis using that(2) by (auto simp: list_all2_conv_all_nth in_set_conv_nth)
  qed
  then have "d_index a < 2 ^ 31"
    if "deriveAddresses (demo_lib 0) False 0 exec xpub c indices (Some type) = Inr addrs" "a \<in> set addrs" for exec xpub c indices type addrs a
    using deriveAddresses_in_process [OF that(1)] that(2) by blast
  then show ?thesis by (simp add: used_below_def demo_import_def)
qed

lemma importHDAccount_exclusive_witness:
  "\<exists>t. importHDAccount 0 (demo_import ''b00'') (2 ^ 31 + 2) (Some demo_zpub) BIP84 None None demo_importer = Some (Inr True, t)
     \<and> w_importing t = Map.empty"
proof -
  have "validXpub (ie_lib (demo_import ''b00'')) (Some demo_zpub) = Inr True"
    by (simp add: validXpub_def demo_import_def demo_fresh_node)
  moreover have "faithful_pool (ie_exec (demo_import ''b00''))"
    by (simp add: faithful_pool_def demo_import_def)
  moreover have gaps: "0 \<le> ie_gap_external (demo_import ''b00'')" "0 \<le> ie_gap_internal (demo_import ''b00'')"
    by (simp_all add: demo_import_def)
  ultimately have "w_importing demo_importer demo_zpub = None \<longrightarrow>
      (\<exists>t. importHDAccount 0 (demo_import ''b00'') (2 ^ 31 + 2) (Some demo_zpub) BIP84 None None demo_importer = Some (Inr True, t)
        \<and> w_importing t = w_importing demo_importer)"
    using importHDAccount_exclusive [OF _ demo_used_below _ gaps, of demo_zpub None None "2 ^ 31 + 2" demo_importer 0 BIP84] by auto
  then show ?thesis by (simp add: demo_importer_def)
qed

definition demo_addr :: "int \<Rightarrow> string" where
  "demo_addr i = toLowerCase (CHR ''B'' # map (\<lambda>b :: byte. char_of (unat b + 48)) [0, word_of_int i])"

lemma demo_known_chain: "known_chain (demo_import a) demo_zpub BIP84 0 demo_addr (- 1) 10"
proof -
  have "distinct (map demo_addr [0..9])" by code_simp
  moreover have "{0..<10} = set [0 :: int..9]" by auto
  ultimately have "inj_on demo_addr {0..<10}" by (metis distinct_map)
  moreover have "derive_all (demo_lib 0) 0 [0] indices BIP84 False =
      Inr (map (\<lambda>i. \<lparr>d_chain = 0, d_index = i, d_address = demo_addr i\<rparr>) indices)"
    if "set indices \<subseteq> {0..<10}" for indices
    using that by (auto simp: derive_all_def mapE_Inr_iff list_all2_conv_all_nth deriveAddress_def demo_lib_def
        hd_types p2wpkhAddress_def demo_addr_def dest!: nth_mem)
  moreover have "ty_type (classify BIP84) = Some BIP84" by (simp add: classify_def hd_types)
  ultimately show ?thesis
    by (simp add: known_chain_def deriveAddresses_def demo_import_def demo_fresh_node bindE_def chain_node_def)
qed

lemma xpubScan_gap_witness:
  "\<exists>l txs t. xpubScan (demo_import (demo_addr 0)) demo_zpub BIP84 0 2 20 (- 1) (- 1) [] demo_importer =
      Some (Inr (map (\<lambda>i. \<lparr>d_chain = 0, d_index = i, d_address = demo_addr i\<rparr>) (range 0 (l + 3)), txs), t) \<and> - 1 \<le> l"
proof -
  have "known_source (demo_import (demo_addr 0)) (\<lambda>a. if a = demo_addr 0 then 1 else 0)"
    by (auto simp: known_source_def demo_import_def)
  moreover have "i + 2 < 10" if "- 1 < i" "i < 10" "0 < (if demo_addr i = demo_addr 0 then 1 else 0 :: int)" for i
  proof -
    have "inj_on demo_addr {0..<10}" using demo_known_chain by (simp add: known_chain_def)
    then have "i = 0" using that by (auto simp: inj_on_def split: if_splits)
    then show ?thesis by simp
  qed
  ultimately show ?thesis
    using xpubScan_gap [OF demo_known_chain, of "demo_addr 0" "\<lambda>a. if a = demo_addr 0 then 1 else 0" 2 "- 1" 20 "[]" demo_importer]
    by (auto simp: algebra_simps)
qed

end
