(* ===== verification/Rpc_Chain.thy ===== *)
theory Rpc_Chain
  imports Remote_Importer "HOL-Library.AList"
begin

text \<open>
  \<^verbatim>\<open>lib/bitcoind-rpc/latest-block.ts\<close>, \<^verbatim>\<open>lib/bitcoind-rpc/fees.ts\<close> and \<^verbatim>\<open>lib/bitcoind-rpc/headers.ts\<close>:
  what the services know of the chain tip, of the fee rates and of the block headers. The answers of the
  node are a parameter of the model; a rate it gives is in satoshis per 1000 bytes, which its eight
  decimals hold exactly.
\<close>

section \<open>State\<close>

record tip_header =
  bh_height :: int
  bh_mediantime :: int
  bh_difficulty :: string
  bh_json :: string

record latest_block =
  lb_height :: "int option"
  lb_hash :: "string option"
  lb_time :: "int option"
  lb_diff :: "string option"

definition no_latest :: latest_block where
  "no_latest = \<lparr>lb_height = None, lb_hash = None, lb_time = None, lb_diff = None\<rparr>"

type_synonym fee_map = "(int \<times> int) list"

record fee_state =
  fs_block :: int
  fs_fees :: fee_map
  fs_timer :: bool
  fs_estimator :: "fee_map option"
  fs_closed :: bool

definition fee_targets :: "int list" where "fee_targets = [2, 4, 6, 12, 24]"

definition new_fees :: fee_state where
  "new_fees = \<lparr>fs_block = - 1, fs_fees = map (\<lambda>t. (t, 1)) fee_targets, fs_timer = False, fs_estimator = None, fs_closed = False\<rparr>"

record tip_state = import_state +
  w_latest :: latest_block
  w_fees :: fee_state
  w_headers :: "string \<rightharpoonup> string"

text \<open>
  An answer to \<open>estimatesmartfee\<close> has the target as its id and, when it is a result, whether it lists
  errors, with the rate if it is a number. \<open>keep\<close> is what the cache of headers retains.
\<close>

record fee_estimate =
  fe_errors :: bool
  fe_feerate :: "int option"

record 'n tip_env = "'n import_env" +
  ce_header :: "nat \<Rightarrow> string \<Rightarrow> tip_header result"
  ce_batch :: "nat \<Rightarrow> int list \<Rightarrow> (int \<times> fee_estimate option) list result"
  ce_keep :: "(string \<rightharpoonup> string) \<Rightarrow> (string \<rightharpoonup> string)"

section \<open>Latest block\<close>

primrec onBlockHash_latest :: "nat \<Rightarrow> ('n, 'e) tip_env_scheme \<Rightarrow> string option \<Rightarrow> ('s tip_state_scheme, unit) act" where
  "onBlockHash_latest 0 env hash = unending"
| "onBlockHash_latest (Suc fuel) env hash =
     (case hash of
        None \<Rightarrow> ret ()
      | Some h \<Rightarrow>
          catchA (bindA (remote (\<lambda>k. ce_header env k h)) (\<lambda>header.
              modify (\<lambda>s. s\<lparr>w_latest := \<lparr>lb_height = Some (bh_height header), lb_hash = Some h,
                lb_time = Some (bh_mediantime header), lb_diff = Some (bh_difficulty header)\<rparr>\<rparr>)))
            (\<lambda>_. onBlockHash_latest fuel env hash))"

section \<open>Fees\<close>

definition fee_rate :: "fee_estimate \<Rightarrow> int" where
  "fee_rate result =
     (let feerate = (if fe_errors result then 1 else case fe_feerate result of None \<Rightarrow> 1 | Some r \<Rightarrow> round_div r 1000)
      in if feerate = 1 then feerate else feerate + 1)"

definition set_fees :: "(int \<times> fee_estimate option) list \<Rightarrow> fee_map \<Rightarrow> fee_map" where
  "set_fees responses fees =
     fold (\<lambda>(i, r) fees. case r of None \<Rightarrow> fees | Some result \<Rightarrow> AList.update i (fee_rate result) fees) responses fees"

definition on_fees :: "(fee_state \<Rightarrow> fee_state) \<Rightarrow> ('s tip_state_scheme, unit) act" where
  "on_fees f = modify (\<lambda>s. s\<lparr>w_fees := f (w_fees s)\<rparr>)"

definition refresh :: "('n, 'e) tip_env_scheme \<Rightarrow> ('s tip_state_scheme, unit) act" where
  "refresh env =
     bindA (on_fees (\<lambda>f. f\<lparr>fs_timer := False\<rparr>)) (\<lambda>_.
     bindA (ask (\<lambda>s. map fst (fs_fees (w_fees s)))) (\<lambda>requests.
     bindA (catchLog (bindA (remote (\<lambda>k. ce_batch env k requests)) (\<lambda>responses.
         on_fees (\<lambda>f. f\<lparr>fs_fees := set_fees responses (fs_fees f)\<rparr>))) ()) (\<lambda>_.
       modify (\<lambda>s. s\<lparr>w_fees := (w_fees s)\<lparr>
           fs_block := (case lb_height (w_latest s) of None \<Rightarrow> fs_block (w_fees s) | Some h \<Rightarrow> h),
           fs_timer := \<not> fs_closed (w_fees s)\<rparr>\<rparr>))))"

definition getFees :: "('n, 'e) tip_env_scheme \<Rightarrow> ('s tip_state_scheme, fee_map) act" where
  "getFees env =
     catchA (bindA (ask (\<lambda>s. (lb_height (w_latest s), fs_block (w_fees s)))) (\<lambda>(height, block).
         bindA (if block < (case height of None \<Rightarrow> - 1 | Some h \<Rightarrow> h) then refresh env else ret ()) (\<lambda>_.
           ask (\<lambda>s. fs_fees (w_fees s)))))
       (\<lambda>_. throw (Err Generic_GEN))"

definition getEstimatorFees :: "('s tip_state_scheme, fee_map) act" where
  "getEstimatorFees =
     bindA (ask (\<lambda>s. fs_estimator (w_fees s))) (\<lambda>f. case f of
       None \<Rightarrow> throw (Err Estimator_NOT_AVAILABLE) | Some f \<Rightarrow> ret f)"

definition onEstimate :: "bool \<Rightarrow> fee_map \<Rightarrow> ('s tip_state_scheme, unit) act" where
  "onEstimate ready fees = (if ready then on_fees (\<lambda>f. f\<lparr>fs_estimator := Some fees\<rparr>) else ret ())"

definition close_fees :: "('s tip_state_scheme, unit) act" where
  "close_fees = on_fees (\<lambda>f. if fs_closed f then f else f\<lparr>fs_closed := True, fs_timer := False\<rparr>)"

section \<open>Headers\<close>

definition getHeader :: "('n, 'e) tip_env_scheme \<Rightarrow> string option \<Rightarrow> ('s tip_state_scheme, string) act" where
  "getHeader env hash =
     (case hash of
        None \<Rightarrow> throw (Err Generic_GEN)
      | Some hash \<Rightarrow>
          bindA (ask (\<lambda>s. w_headers s hash)) (\<lambda>hit. case hit of
            Some fmtHeader \<Rightarrow> ret fmtHeader
          | None \<Rightarrow>
              catchA (bindA (remote (\<lambda>k. ce_header env k hash)) (\<lambda>header.
                  bindA (modify (\<lambda>s. s\<lparr>w_headers := ce_keep env ((w_headers s)(hash \<mapsto> bh_json header))\<rparr>)) (\<lambda>_.
                    ret (bh_json header))))
                (\<lambda>_. throw (Err Generic_GEN))))"

section \<open>Rates\<close>

text \<open>A rate for each target and no other, of at least one satoshi per byte.\<close>

definition fees_ok :: "fee_map \<Rightarrow> bool" where
  "fees_ok fees \<longleftrightarrow> map fst fees = fee_targets \<and> (\<forall>(_, r)\<in>set fees. 1 \<le> r)"

definition sane_estimates :: "('n, 'e) tip_env_scheme \<Rightarrow> bool" where
  "sane_estimates env \<longleftrightarrow>
     (\<forall>k ts rs i e r. ce_batch env k ts = Inr rs \<and> (i, Some e) \<in> set rs \<longrightarrow> i \<in> set ts \<and> (fe_feerate e = Some r \<longrightarrow> 0 \<le> r))"

lemma fees_ok_new: "fees_ok (fs_fees new_fees)"
  by (simp add: fees_ok_def new_fees_def fee_targets_def)

lemma fee_rate_min: "(\<And>r. fe_feerate e = Some r \<Longrightarrow> 0 \<le> r) \<Longrightarrow> 1 \<le> fee_rate e"
  by (cases "fe_feerate e") (auto simp: fee_rate_def round_div_def Let_def)

lemma set_of_update: "set (AList.update i r fees) \<subseteq> insert (i, r) (set fees)"
  by (induction fees) auto

lemma fees_ok_update: "fees_ok fees \<Longrightarrow> i \<in> set fee_targets \<Longrightarrow> 1 \<le> r \<Longrightarrow> fees_ok (AList.update i r fees)"
  using update_keys [of i r fees] set_of_update [of i r fees] by (auto simp: fees_ok_def)

lemma fees_ok_set_fees:
  "(\<And>i e. (i, Some e) \<in> set rs \<Longrightarrow> i \<in> set fee_targets \<and> 1 \<le> fee_rate e) \<Longrightarrow> fees_ok fees \<Longrightarrow> fees_ok (set_fees rs fees)"
  unfolding set_fees_def
proof (induction rs arbitrary: fees)
  case (Cons x rs)
  obtain i e where x: "x = (i, e)" by (cases x)
  have "fees_ok (case e of None \<Rightarrow> fees | Some e \<Rightarrow> AList.update i (fee_rate e) fees)"
    using Cons.prems x by (auto intro: fees_ok_update split: option.split)
  moreover have "\<And>i e. (i, Some e) \<in> set rs \<Longrightarrow> i \<in> set fee_targets \<and> 1 \<le> fee_rate e"
    using Cons.prems(1) by (meson list.set_intros(2))
  ultimately show ?case using Cons.IH x by simp
qed simp

lemma fees_ok_batch:
  assumes "sane_estimates env" and "fees_ok fees" and "ce_batch env k (map fst fees) = Inr rs"
  shows "fees_ok (set_fees rs fees)"
proof (rule fees_ok_set_fees [OF _ assms(2)])
  fix i e
  assume "(i, Some e) \<in> set rs"
  then have "i \<in> set (map fst fees)" and "\<And>r. fe_feerate e = Some r \<Longrightarrow> 0 \<le> r"
    using assms(1,3) unfolding sane_estimates_def by metis+
  then show "i \<in> set fee_targets \<and> 1 \<le> fee_rate e"
    using assms(2) fee_rate_min [of e] unfolding fees_ok_def by (metis)
qed

lemma fees_ok_refresh:
  assumes "sane_estimates env" and "fees_ok (fs_fees (w_fees s))" and "refresh env s = Some (r, t)"
  shows "fees_ok (fs_fees (w_fees t)) \<and> w_latest t = w_latest s \<and> fs_closed (w_fees t) = fs_closed (w_fees s)"
  using assms(3) fees_ok_batch [OF assms(1,2)]
  by (cases "ce_batch env (w_clock s) (map fst (fs_fees (w_fees s)))")
    (auto simp: refresh_def on_fees_def bindA_def catchLog_def catchA_def act_defs remote_def assms(2) split: if_splits)

text \<open>
  The rates the API gives out: after any call to \<open>getFees\<close> each target has a rate of at least one, and the
  rates are those of the chain tip unless the node failed to end the call.
\<close>

lemma getFees_eval:
  assumes "\<And>k ts. ce_batch env k ts \<noteq> Inl Exit"
  shows "\<exists>t. getFees env s = Some (Inr (fs_fees (w_fees t)), t) \<and>
      (case lb_height (w_latest s) of None \<Rightarrow> fs_block (w_fees s) \<ge> -1 \<longrightarrow> t = s
       | Some h \<Rightarrow> (fs_block (w_fees s) < h \<longrightarrow> refresh env s = Some (Inr (), t) \<and> fs_block (w_fees t) = h) \<and>
                   (h \<le> fs_block (w_fees s) \<longrightarrow> t = s))"
proof (cases "fs_block (w_fees s) < (case lb_height (w_latest s) of None \<Rightarrow> - 1 | Some h \<Rightarrow> h)")
  case True
  have "\<exists>t. refresh env s = Some (Inr (), t) \<and> (\<forall>h. lb_height (w_latest s) = Some h \<longrightarrow> fs_block (w_fees t) = h)"
    using assms [of "w_clock s" "map fst (fs_fees (w_fees s))"]
    by (cases "ce_batch env (w_clock s) (map fst (fs_fees (w_fees s)))")
      (auto simp: refresh_def on_fees_def bindA_def catchLog_def catchA_def act_defs remote_def)
  then show ?thesis using True
    by (auto simp: getFees_def bindA_def catchA_def act_defs split: option.splits)
next
  case False
  then show ?thesis by (auto simp: getFees_def bindA_def catchA_def act_defs split: option.splits)
qed

text \<open>In a state where each fee target has a rate of at least one, and with a node whose estimates
  are not negative, \<open>getFees\<close> returns: it gives rates for exactly the targets, each at least one, and leaves
  them in the state. When the tip is above the block of the last refresh they are refreshed and stamped with
  the height of the tip (also when the node fails to answer, and then they are the old ones); otherwise
  nothing changes.\<close>

theorem getFees_rates:
  assumes "sane_estimates env" and "\<And>k ts. ce_batch env k ts \<noteq> Inl Exit"
    and "fees_ok (fs_fees (w_fees s))" and "lb_height (w_latest s) = Some h"
  shows "\<exists>fees t. getFees env s = Some (Inr fees, t) \<and> fees = fs_fees (w_fees t) \<and> map fst fees = fee_targets
      \<and> (\<forall>(_, rate)\<in>set fees. 1 \<le> rate) \<and> fs_block (w_fees t) = max h (fs_block (w_fees s))
      \<and> (h \<le> fs_block (w_fees s) \<longrightarrow> t = s)
      \<and> (fs_block (w_fees s) < h \<longrightarrow> (case ce_batch env (w_clock s) fee_targets of
           Inl _ \<Rightarrow> fees = fs_fees (w_fees s) | Inr rs \<Rightarrow> fees = set_fees rs (fs_fees (w_fees s))))"
proof -
  obtain t where t: "getFees env s = Some (Inr (fs_fees (w_fees t)), t)"
    "fs_block (w_fees s) < h \<Longrightarrow> refresh env s = Some (Inr (), t) \<and> fs_block (w_fees t) = h"
    "h \<le> fs_block (w_fees s) \<Longrightarrow> t = s"
    using getFees_eval [OF assms(2), of s] assms(4) by auto
  have "fees_ok (fs_fees (w_fees t))"
    using fees_ok_refresh [OF assms(1,3)] t(2,3) assms(3) by (cases "fs_block (w_fees s) < h") auto
  moreover have "case ce_batch env (w_clock s) fee_targets of
      Inl _ \<Rightarrow> fs_fees (w_fees t) = fs_fees (w_fees s) | Inr rs \<Rightarrow> fs_fees (w_fees t) = set_fees rs (fs_fees (w_fees s))"
    if "fs_block (w_fees s) < h"
    using t(2) [OF that] assms(2) [of "w_clock s" fee_targets] assms(3)
    by (cases "ce_batch env (w_clock s) fee_targets")
      (auto simp: refresh_def on_fees_def bindA_def catchLog_def catchA_def act_defs remote_def fees_ok_def)
  ultimately show ?thesis using t
    by (intro exI [of _ "fs_fees (w_fees t)"] exI [of _ t]) (auto simp: fees_ok_def max_def)
qed

definition demo_fee_node :: "int list tip_env" where
  "demo_fee_node = import_env.extend (demo_import ''0'')
     \<lparr>ce_header = \<lambda>_ _. Inl (Exn ''down''),
      ce_batch = \<lambda>_ ts. Inr (filter (\<lambda>(i, _). i \<in> set ts) [(2, Some \<lparr>fe_errors = False, fe_feerate = Some 12499\<rparr>), (4, Some \<lparr>fe_errors = False, fe_feerate = Some 900\<rparr>),
        (6, None), (12, Some \<lparr>fe_errors = True, fe_feerate = Some 5000\<rparr>), (24, Some \<lparr>fe_errors = False, fe_feerate = Some 0\<rparr>)]),
      ce_keep = \<lambda>m. m\<rparr>"

definition demo_tip :: tip_state where
  "demo_tip = import_state.extend demo_importer
     \<lparr>w_latest = no_latest\<lparr>lb_height := Some 800000\<rparr>, w_fees = new_fees, w_headers = Map.empty\<rparr>"

lemma getFees_rates_witness:
  "\<exists>t. getFees demo_fee_node demo_tip = Some (Inr [(2, 13), (4, 1), (6, 1), (12, 1), (24, 1)], t) \<and> fs_block (w_fees t) = 800000"
proof -
  have "sane_estimates demo_fee_node" by (auto simp: sane_estimates_def demo_fee_node_def import_env.defs)
  moreover have "\<And>k ts. ce_batch demo_fee_node k ts \<noteq> Inl Exit" by (simp add: demo_fee_node_def import_env.defs)
  ultimately show ?thesis
    using getFees_rates [of demo_fee_node demo_tip 800000] fees_ok_new
    by (auto simp: demo_tip_def demo_fee_node_def import_state.defs import_env.defs no_latest_def new_fees_def set_fees_def fee_rate_def
        round_div_def fee_targets_def)
qed

end
