(* ===== verification/Hd_Accounts_Service.thy ===== *)
theory Hd_Accounts_Service
  imports Remote_Importer Address_Scripts
begin

text \<open>
  \<^verbatim>\<open>lib/bitcoin/hd-accounts-service.ts\<close> and \<^verbatim>\<open>lib/bitcoin/addresses-service.ts\<close>: creation, restoration,
  locking, deletion and rescan of HD accounts. The derivation scheme of a locked account is not to be
  changed unless the caller forces it.
\<close>

section \<open>Operations\<close>

definition getAccount :: "string \<Rightarrow> ('s world_scheme, hd_row) act" where
  "getAccount xpub = bindA (askDb (getHDAccount xpub)) lift"

definition derivationOverrideCheck :: "string \<Rightarrow> hd_type \<Rightarrow> bool \<Rightarrow> ('s world_scheme, unit) act" where
  "derivationOverrideCheck xpub scheme forceOverride =
     bindA (catchA (bindA (getAccount xpub) (\<lambda>account. ret (Some account))) (\<lambda>_. ret None)) (\<lambda>account.
       case account of
         None \<Rightarrow> ret ()
       | Some account \<Rightarrow>
           (let info = classify (h_hdType account)
            in if ty_type info \<noteq> Some scheme
               then (if ty_locked info \<and> \<not> forceOverride then throw (Err Xpub_LOCKED) else onDb (deleteHDAccount xpub))
               else ret ()))"

definition newHdAccount :: "int \<Rightarrow> ('n, 'e) import_env_scheme \<Rightarrow> string \<Rightarrow> hd_type \<Rightarrow> ('s world_scheme, unit) act" where
  "newHdAccount now env xpub scheme =
     bindA (lift (fresh_node (ie_lib env) (Some xpub))) (\<lambda>HDNode. case HDNode of
       None \<Rightarrow> throw (Err Xpub_INVALID)
     | Some _ \<Rightarrow>
         bindA (derivationOverrideCheck xpub scheme False) (\<lambda>_.
         bindA (getDb (ensureHDAccountId now xpub scheme)) (\<lambda>_.
           let derive_chain = (\<lambda>c n. deriveAddresses (ie_lib env) (ie_parallel env) (ie_threshold env) (ie_exec env)
                 (Some xpub) c (range 0 n) (Some scheme))
           in bindA (lift (derive_chain 0 (ie_gap_external env))) (\<lambda>external.
              bindA (lift (derive_chain 1 (ie_gap_internal env))) (\<lambda>internal.
                tryDb (addAddressesToHDAccount xpub (external @ internal)))))))"

definition createHdAccount :: "int \<Rightarrow> ('n, 'e) import_env_scheme \<Rightarrow> string \<Rightarrow> hd_type \<Rightarrow> ('s world_scheme, bool) act" where
  "createHdAccount now env xpub scheme =
     catchA (bindA (newHdAccount now env xpub scheme) (\<lambda>_. ret True))
       (\<lambda>e. throw (if e \<in> {Err Xpub_INVALID, Err Xpub_PRIVKEY, Err Xpub_LOCKED} then e else Err Xpub_CREATE))"

definition noAccountError :: "exn \<Rightarrow> exn" where
  "noAccountError e = (if e = Err Db_NO_HD_ACCOUNT then Err Get_UNKNXPUB else Err Generic_DB)"

definition lockHdAccount :: "string \<Rightarrow> bool \<Rightarrow> ('s world_scheme, string) act" where
  "lockHdAccount xpub lock =
     catchA (bindA (getAccount xpub) (\<lambda>account.
         let hdType = h_hdType account
         in if ty_locked (classify hdType) = lock then ret (typeString hdType)
            else bindA (tryDb (setLockHDAccountType xpub lock)) (\<lambda>_. ret (typeString (makeType hdType lock)))))
       (\<lambda>e. throw (noAccountError e))"

definition deleteHdAccount :: "string \<Rightarrow> ('s world_scheme, unit) act" where
  "deleteHdAccount xpub = catchA (onDb (deleteHDAccount xpub)) (\<lambda>e. throw (noAccountError e))"

definition restoreHdAccount ::
  "int \<Rightarrow> ('n, 'e) import_env_scheme \<Rightarrow> nat \<Rightarrow> string \<Rightarrow> hd_type \<Rightarrow> bool \<Rightarrow> ('s import_state_scheme, string option) act" where
  "restoreHdAccount now env fuel xpub scheme forceOverride =
     bindA (catchA (bindA (getAccount xpub) (\<lambda>account. ret (ty_locked (classify (h_hdType account))))) (\<lambda>_. ret False)) (\<lambda>isLocked.
     bindA (derivationOverrideCheck xpub scheme forceOverride) (\<lambda>_.
     bindA (importHDAccount now env fuel (Some xpub) scheme None None) (\<lambda>_.
       if isLocked then bindA (lockHdAccount xpub True) (\<lambda>t. ret (Some t)) else ret None)))"

definition rescan ::
  "int \<Rightarrow> ('n, 'e) import_env_scheme \<Rightarrow> nat \<Rightarrow> string \<Rightarrow> int option \<Rightarrow> int option \<Rightarrow> ('s import_state_scheme, unit) act" where
  "rescan now env fuel xpub gapLimit startIndex =
     bindA (getAccount xpub) (\<lambda>account.
     bindA (importHDAccount now env fuel (Some xpub) (h_hdType account) gapLimit startIndex) (\<lambda>_. ret ()))"

text \<open>An array index past the end is \<open>undefined\<close>, and reading \<open>address\<close> of it throws.\<close>

definition first_address :: "derived list \<Rightarrow> string result" where
  "first_address xs = (case xs of [] \<Rightarrow> Inl (Exn ''address of undefined'') | a # _ \<Rightarrow> Inr (d_address a))"

definition verifyXpubSignature ::
  "('n, 'e) import_env_scheme \<Rightarrow> (string \<Rightarrow> string \<Rightarrow> string \<Rightarrow> bool result) \<Rightarrow> string \<Rightarrow> string \<Rightarrow> string \<Rightarrow> string \<Rightarrow> hd_type
     \<Rightarrow> ('s world_scheme, string) act" where
  "verifyXpubSignature env verify xpub address sig msg scheme =
     (let derive_first = (\<lambda>type. deriveAddresses (ie_lib env) (ie_parallel env) (ie_threshold env) (ie_exec env)
            (Some xpub) 1 [0] (Some type))
      in bindA (lift (bindE (derive_first BIP44) first_address)) (\<lambda>sigAddress.
         bindA (lift (bindE (derive_first scheme) first_address)) (\<lambda>expectedAddress.
           catchA (bindA (bindA (askDb (getHDAccountId xpub)) lift) (\<lambda>_.
               if \<not> verifySignature verify msg sigAddress sig then throw (Err Sig_INVSIG)
               else if address \<noteq> expectedAddress then throw (Err Sig_INVADDR)
               else ret xpub))
             (\<lambda>e. throw (noAccountError e)))))"

definition findPostmix :: "'n hd_lib \<Rightarrow> string list \<Rightarrow> string option result" where
  "findPostmix lib xpubs =
     foldE (\<lambda>found xpub. case found of
         Some _ \<Rightarrow> Inr found
       | None \<Rightarrow> (case fresh_node lib (Some xpub) of
            Inl e \<Rightarrow> Inl e
          | Inr None \<Rightarrow> Inl (Exn ''index of null'')
          | Inr (Some node) \<Rightarrow> Inr (if isPostmixAcct lib node then Some xpub else None))) None xpubs"

definition importPostmixLikeTypeChange :: "('n, 'e) import_env_scheme \<Rightarrow> string list \<Rightarrow> ('s world_scheme, unit) act" where
  "importPostmixLikeTypeChange env xpubs =
     bindA (lift (findPostmix (ie_lib env) xpubs)) (\<lambda>postmixAcct. case postmixAcct of
       None \<Rightarrow> ret ()
     | Some xpub \<Rightarrow>
         bindA (lift (fresh_node (ie_lib env) (Some xpub))) (\<lambda>node. case node of
           None \<Rightarrow> ret ()
         | Some node \<Rightarrow>
             bindA (askDb (getHDAccountNextUnusedIndices xpub)) (\<lambda>(_, internalUnused).
             let deriveRange = range (max 0 (internalUnused - 50)) (internalUnused + ie_gap_internal env)
             in bindA (lift (mapE (\<lambda>(index, t). deriveAddress (ie_lib env) 1 (chain_node node 1) index t)
                   (concat (map (\<lambda>i. [(i, BIP44), (i, BIP49)]) deriveRange)))) (\<lambda>addrs.
                  tryDb (addAddressesToHDAccount xpub addrs)))))"

text \<open>The services for loose addresses.\<close>

definition rescanAddress :: "int \<Rightarrow> ('n, 'e) import_env_scheme \<Rightarrow> string \<Rightarrow> ('s import_state_scheme, bool) act" where
  "rescanAddress now env address =
     bindA (askDb (getUngroupedHDAccountsByAddresses [address])) (\<lambda>hdaccount.
       let filterAddr = (case hdaccount of [] \<Rightarrow> True | r # _ \<Rightarrow> (case ow_account r of None \<Rightarrow> True | Some _ \<Rightarrow> False))
       in importAddresses now env [address] (Some filterAddr))"

definition restoreAddresses :: "int \<Rightarrow> ('n, 'e) import_env_scheme \<Rightarrow> string list \<Rightarrow> bool option \<Rightarrow> ('s import_state_scheme, bool) act" where
  "restoreAddresses now env addrs filterAddr = importAddresses now env addrs filterAddr"

section \<open>The account in the database\<close>

lemma getAccount_eval:
  "hd_account xpub (w_db s) = Some a \<Longrightarrow> getAccount xpub s = Some (Inr a, s)"
  "hd_account xpub (w_db s) = None \<Longrightarrow> getAccount xpub s = Some (Inl (Err Db_NO_HD_ACCOUNT), s)"
  by (simp_all add: getAccount_def getHDAccount_def act_defs)

text \<open>What the other operations of an import leave alone.\<close>

lemma accounts_addTransactions [frame]: "hd_accounts (addTransactions now txs d) = hd_accounts d"
  unfolding addTransactions_def
  by (induction txs arbitrary: d) (simp_all add: addTransaction_def split: prod.split option.split)

lemma accounts_confirmTransactions [frame]: "confirmTransactions txids b d = Inr e \<Longrightarrow> hd_accounts e = hd_accounts d"
  by (auto simp: confirmTransactions_def set_block_def split: if_splits)

lemma accounts_addInputs [frame]: "addInputs ins d = Inr e \<Longrightarrow> hd_accounts e = hd_accounts d"
  unfolding addInputs_def
  by (erule foldE_inv [where P = "\<lambda>e. hd_accounts e = hd_accounts d"])
    (auto simp: add_input_def split: if_splits prod.splits option.splits)

lemma accounts_addAddressesToHDAccount [frame]:
  "addAddressesToHDAccount xpub entries d = Inr e \<Longrightarrow> hd_accounts e = hd_accounts d"
proof -
  have "hd_accounts (fold (add_link h m) entries d) = hd_accounts d" for h m d
    by (induction entries arbitrary: d) (simp_all add: frame)
  then show "addAddressesToHDAccount xpub entries d = Inr e \<Longrightarrow> hd_accounts e = hd_accounts d"
    by (auto simp: addAddressesToHDAccount_def Let_def bindE_Inr_iff frame split: if_splits)
qed

definition account_ok :: "string \<Rightarrow> (hd_row option \<Rightarrow> bool) \<Rightarrow> 's world_scheme \<Rightarrow> bool" where
  "account_ok xpub Q s \<longleftrightarrow> Q (hd_account xpub (w_db s))"

lemma account_ok_frame: "hd_accounts e = hd_accounts (w_db s) \<Longrightarrow> account_ok xpub Q s \<Longrightarrow> account_ok xpub Q (s\<lparr>w_db := e\<rparr>)"
  by (simp add: account_ok_def hd_account_def)

lemma keeps_account_db:
  "(\<And>d. hd_accounts (g d) = hd_accounts d) \<Longrightarrow> keeps (account_ok xpub Q) (onDb g)"
  "(\<And>d e. k d = Inr e \<Longrightarrow> hd_accounts e = hd_accounts d) \<Longrightarrow> keeps (account_ok xpub Q) (tryDb k)"
  by (auto simp: keeps_def onDb_def tryDb_def tryModify_Some intro: account_ok_frame split: sum.splits)

lemma keeps_account_remote: "keeps (account_ok xpub Q) (remote f)"
  by (simp add: keeps_def account_ok_def)

lemma keeps_account_rpc: "keeps (account_ok xpub Q) (fetchTransactions env n txids)"
  unfolding fetchTransactions_def by (intro keeps_intros keeps_rpc(5)) (simp_all add: account_ok_def)

lemma keeps_account_progress: "keeps (account_ok xpub Q) (setProgress x c n)"
  unfolding setProgress_def by (intro keeps_intros) (auto simp: account_ok_def split: option.split claim.split)

lemma keeps_account_scan: "keeps (account_ok xpub Q) (xpubScan env x type c G fuel d u txids)"
proof (induction fuel arbitrary: d u txids)
  case (Suc fuel)
  have look: "keeps (account_ok xpub Q) (lookupBatch env addrs u txids)" for addrs u txids
    unfolding lookupBatch_def Let_def by (auto intro!: keeps_intros keeps_account_remote keeps_account_rpc split: prod.split)
  show ?case unfolding xpubScan.simps
    by (auto intro!: keeps_intros Suc look keeps_account_progress split: prod.split option.split)
qed (simp add: keeps_intros)

lemma keeps_account_transactions: "keeps (account_ok xpub Q) (importTransactions now addrs txs)"
  unfolding importTransactions_def addTransactions_import_def addOutputs_import_def addInputs_import_def Let_def
  by (intro keeps_intros keeps_askDb keeps_account_db) (simp_all add: frame)

text \<open>An import creates the account with the type it is given, and leaves an account that exists as it is.\<close>

lemma keeps_account_ensure:
  assumes "\<And>i. \<lbrakk>Q None; ty_type (classify type) \<noteq> None\<rbrakk> \<Longrightarrow> Q (Some (new_hd xpub now type i))"
  shows "keeps (account_ok xpub Q) (getDb (ensureHDAccountId now xpub type))"
  unfolding keeps_def
proof (intro allI impI)
  fix s r t
  assume a: "account_ok xpub Q s \<and> getDb (ensureHDAccountId now xpub type) s = Some (r, t)"
  show "account_ok xpub Q t"
  proof (cases "ensureHDAccountId now xpub type (w_db s)")
    case (Inl e)
    then show ?thesis using a by (auto simp: getDb_def)
  next
    case (Inr p)
    obtain i d where p: "p = (i, d)" by (cases p)
    have ty: "ty_type (classify type) \<noteq> None" using Inr by (auto simp: ensureHDAccountId_def split: if_splits)
    have t: "t = s\<lparr>w_db := d\<rparr>" using a Inr p by (simp add: getDb_def)
    show ?thesis
      using Inr [unfolded p] ty t a assms
      by (cases rule: ensureHDAccountId_cases) (auto simp: account_ok_def hd_account_created)
  qed
qed

lemma keeps_account_import:
  assumes "\<And>i. \<lbrakk>Q None; ty_type (classify type) \<noteq> None\<rbrakk> \<Longrightarrow> Q (Some (new_hd xpub now type i))"
  shows "keeps (account_ok xpub Q) (importHDAccount now env fuel (Some xpub) type gapLimit startIndex)"
proof -
  have "keeps (account_ok xpub Q) (scanAndStore now env fuel xpub type gapLimit startIndex)"
    unfolding scanAndStore_def Let_def
    by (auto intro!: keeps_intros keeps_account_scan keeps_account_ensure assms keeps_account_db keeps_account_transactions
        simp: frame account_ok_def split: prod.split)
  then show ?thesis
    unfolding importHDAccount_def claimImport_def releaseImport_def
    by (auto intro!: keeps_intros simp: account_ok_def)
qed

section \<open>Locked accounts\<close>

lemma restoreHdAccount_check:
  assumes "hd_account xpub (w_db s) = Some a" and "ty_locked (classify (h_hdType a))"
  shows "restoreHdAccount now env fuel xpub scheme forceOverride s =
     bindA (derivationOverrideCheck xpub scheme forceOverride) (\<lambda>_.
     bindA (importHDAccount now env fuel (Some xpub) scheme None None) (\<lambda>_.
     bindA (lockHdAccount xpub True) (\<lambda>t. ret (Some t)))) s"
proof -
  have "catchA (bindA (getAccount xpub) (\<lambda>account. ret (ty_locked (classify (h_hdType account))))) (\<lambda>_. ret False) s = Some (Inr True, s)"
    using assms by (simp add: catchA_def bindA_def getAccount_eval act_defs)
  then show ?thesis unfolding restoreHdAccount_def by (simp add: bindA_eval(1) [where m = "catchA _ _"])
qed

lemma derivationOverrideCheck_known:
  assumes "hd_account xpub (w_db s) = Some a"
  shows "derivationOverrideCheck xpub scheme forceOverride s =
    (if ty_type (classify (h_hdType a)) = Some scheme then Some (Inr (), s)
     else if ty_locked (classify (h_hdType a)) \<and> \<not> forceOverride then Some (Inl (Err Xpub_LOCKED), s)
     else Some (Inr (), s\<lparr>w_db := deleteHDAccount xpub (w_db s)\<rparr>))"
proof -
  have "catchA (bindA (getAccount xpub) (\<lambda>account. ret (Some account))) (\<lambda>_. ret None) s = Some (Inr (Some a), s)"
    using assms by (simp add: catchA_def bindA_def getAccount_eval act_defs)
  then show ?thesis unfolding derivationOverrideCheck_def
    by (simp add: bindA_eval(1) [where m = "catchA _ _"] Let_def onDb_def act_defs)
qed

lemma deleteHDAccount_gone: "hd_account xpub (deleteHDAccount xpub d) = None"
  by (auto simp: deleteHDAccount_def getHDAccountId_def Let_def hd_account_def find_by_None_iff tbl_delete_def
      cascade_def split: option.splits)

lemma hd_account_set: "hd_account xpub (set_hd_type type xpub d) = map_option (h_hdType_update (\<lambda>_. type)) (hd_account xpub d)"
proof -
  have "find_by h_hdXpub xpub (map (\<lambda>r. if h_hdXpub r = xpub then r\<lparr>h_hdType := type\<rparr> else r) rs) =
      map_option (h_hdType_update (\<lambda>_. type)) (find_by h_hdXpub xpub rs)" for rs
    by (induction rs) auto
  then show ?thesis by (simp add: hd_account_def set_hd_type_def tbl_update_def)
qed

lemma classify_makeType_lock:
  assumes "ty_type (classify v) = Some s"
  shows "classify (makeType v l) = \<lparr>ty_type = Some s, ty_locked = l\<rparr>"
proof -
  have "v \<in> {0, 1, 2, 128, 129, 130}" using assms accepted_types [of v] by simp
  then show ?thesis using assms by (auto simp: classify_def makeType_def hd_types Let_def)
qed

text \<open>After a call of \<open>lockHdAccount\<close> that returns, the account has the lock asked for and its scheme.\<close>

lemma lockHdAccount_locks:
  assumes "lockHdAccount xpub lock s = Some (Inr r, t)" and "hd_account xpub (w_db s) = Some a"
    and "ty_type (classify (h_hdType a)) = Some scheme"
  shows "\<exists>b. hd_account xpub (w_db t) = Some b \<and> classify (h_hdType b) = \<lparr>ty_type = Some scheme, ty_locked = lock\<rparr>"
proof (cases "ty_locked (classify (h_hdType a)) = lock")
  case True
  then have "t = s" using assms(1,2)
    by (auto simp: lockHdAccount_def catchA_Some bindA_Inr getAccount_eval Let_def act_defs split: if_splits)
  then show ?thesis using assms True by (cases "classify (h_hdType a)") auto
next
  case False
  then have "w_db t = set_hd_type (makeType (h_hdType a) lock) xpub (w_db s)"
    using assms(1,2) by (auto simp: lockHdAccount_def catchA_Some bindA_Inr getAccount_eval Let_def act_defs
        setLockHDAccountType_def getHDAccount_def bindE_Inr_iff split: if_splits)
  then have "hd_account xpub (w_db t) = Some (a\<lparr>h_hdType := makeType (h_hdType a) lock\<rparr>)"
    using assms(2) by (simp add: hd_account_set)
  then show ?thesis using assms(3) False by (simp add: classify_makeType_lock)
qed

text \<open>
  C19. The lock of an account survives its restoration. Restoring a locked account with another
  derivation scheme is refused, and changes nothing, unless the override is forced; and whenever a
  restoration of a locked account returns, the account is in the database, locked, with the scheme
  asked for - whatever the import found, and although an override deletes the account first.
\<close>

theorem restoreHdAccount_locked:
  assumes "hd_account xpub (w_db s) = Some a" and "ty_locked (classify (h_hdType a))" and "scheme \<in> {BIP44, BIP49, BIP84}"
  shows "(ty_type (classify (h_hdType a)) \<noteq> Some scheme \<and> \<not> forceOverride \<longrightarrow>
      restoreHdAccount now env fuel xpub scheme forceOverride s = Some (Inl (Err Xpub_LOCKED), s)) \<and>
    (\<forall>r t. restoreHdAccount now env fuel xpub scheme forceOverride s = Some (Inr r, t) \<longrightarrow>
      (\<exists>b. hd_account xpub (w_db t) = Some b \<and> classify (h_hdType b) = \<lparr>ty_type = Some scheme, ty_locked = True\<rparr>))"
proof (intro conjI impI allI)
  note check = restoreHdAccount_check [OF assms(1,2)] derivationOverrideCheck_known [OF assms(1)]
  show "restoreHdAccount now env fuel xpub scheme forceOverride s = Some (Inl (Err Xpub_LOCKED), s)"
    if "ty_type (classify (h_hdType a)) \<noteq> Some scheme \<and> \<not> forceOverride"
    using that assms(2) unfolding check(1) by (simp add: bindA_def check(2))
  fix r t
  let ?Q = "\<lambda>x. case x of None \<Rightarrow> True | Some b \<Rightarrow> ty_type (classify (h_hdType b)) = Some scheme"
  assume "restoreHdAccount now env fuel xpub scheme forceOverride s = Some (Inr r, t)"
  then obtain u v r' i where check': "derivationOverrideCheck xpub scheme forceOverride s = Some (Inr (), u)"
    and imp: "importHDAccount now env fuel (Some xpub) scheme None None u = Some (Inr i, v)"
    and lock: "lockHdAccount xpub True v = Some (Inr r', t)"
    unfolding check(1) by (auto simp: bindA_Inr)
  have "account_ok xpub ?Q u"
    using check' assms(1) by (auto simp: check(2) account_ok_def deleteHDAccount_gone split: if_splits)
  moreover have "keeps (account_ok xpub ?Q) (importHDAccount now env fuel (Some xpub) scheme None None)"
    using assms(3) by (intro keeps_account_import) (auto simp: new_hd_def classify_def hd_types)
  ultimately have v: "account_ok xpub ?Q v" using imp by (rule keepsD [rotated 2])
  show "\<exists>b. hd_account xpub (w_db t) = Some b \<and> classify (h_hdType b) = \<lparr>ty_type = Some scheme, ty_locked = True\<rparr>"
  proof (cases "hd_account xpub (w_db v)")
    case None
    then show ?thesis using lock
      by (auto simp: lockHdAccount_def catchA_Some bindA_Inr getAccount_eval)
  next
    case (Some b)
    then show ?thesis using v lockHdAccount_locks [OF lock] by (simp add: account_ok_def)
  qed
qed

section \<open>Creation\<close>

lemma derivationOverrideCheck_Inr:
  assumes "derivationOverrideCheck xpub scheme forceOverride s = Some (Inr (), t)" and "wf s"
  shows "wf t \<and> (\<forall>a. hd_account xpub (w_db t) = Some a \<longrightarrow> ty_type (classify (h_hdType a)) = Some scheme)"
proof (cases "hd_account xpub (w_db s)")
  case None
  then have "t = s" using assms(1)
    by (simp add: derivationOverrideCheck_def bindA_def catchA_def getAccount_eval act_defs)
  then show ?thesis using None assms(2) by simp
next
  case (Some a)
  then show ?thesis using assms
    by (auto simp: derivationOverrideCheck_known deleteHDAccount_gone wf_deleteHDAccount split: if_splits)
qed

lemma createHdAccount_result:
  assumes "wf s" and "scheme \<in> {BIP44, BIP49, BIP84}" and "createHdAccount now env xpub scheme s = Some (r, t)"
  shows "case r of
      Inl e \<Rightarrow> e \<in> {Err Xpub_INVALID, Err Xpub_PRIVKEY, Err Xpub_LOCKED, Err Xpub_CREATE}
    | Inr b \<Rightarrow> \<exists>h ext int.
        hd_account xpub (w_db t) = Some h \<and> ty_type (classify (h_hdType h)) = Some scheme \<and>
        deriveAddresses (ie_lib env) (ie_parallel env) (ie_threshold env) (ie_exec env) (Some xpub) 0
          (range 0 (ie_gap_external env)) (Some scheme) = Inr ext \<and>
        deriveAddresses (ie_lib env) (ie_parallel env) (ie_threshold env) (ie_exec env) (Some xpub) 1
          (range 0 (ie_gap_internal env)) (Some scheme) = Inr int \<and>
        (\<forall>x\<in>set (ext @ int). owns_address (w_db t) (h_hdID h) (d_address x)) \<and> wf t"
proof (cases r)
  case (Inl e)
  then show ?thesis using assms(3) by (auto simp: createHdAccount_def catchA_Some split: if_splits)
next
  case (Inr b)
  then have "newHdAccount now env xpub scheme s = Some (Inr (), t)"
    using assms(3) by (auto simp: createHdAccount_def catchA_Some bindA_Inr)
  then obtain u i d ext int where check: "derivationOverrideCheck xpub scheme False s = Some (Inr (), u)"
    and ens: "ensureHDAccountId now xpub scheme (w_db u) = Inr (i, d)"
    and der: "deriveAddresses (ie_lib env) (ie_parallel env) (ie_threshold env) (ie_exec env) (Some xpub) 0
          (range 0 (ie_gap_external env)) (Some scheme) = Inr ext"
      "deriveAddresses (ie_lib env) (ie_parallel env) (ie_threshold env) (ie_exec env) (Some xpub) 1
          (range 0 (ie_gap_internal env)) (Some scheme) = Inr int"
    and add: "addAddressesToHDAccount xpub (ext @ int) d = Inr (w_db t)"
    by (auto simp: newHdAccount_def bindA_Inr Let_def intro!: that [OF _ _ sym sym] split: option.splits)
  have u: "wf u" "\<And>a. hd_account xpub (w_db u) = Some a \<Longrightarrow> ty_type (classify (h_hdType a)) = Some scheme"
    using derivationOverrideCheck_Inr [OF check assms(1)] by auto
  have d: "wf_db d" using wf_ensureHDAccountId [OF ens u(1)] .
  have new: "ty_type (classify scheme) = Some scheme" using assms(2) by (auto simp: classify_def hd_types)
  obtain h where h: "hd_account xpub d = Some h" "ty_type (classify (h_hdType h)) = Some scheme"
    using ens u(2) new by (cases rule: ensureHDAccountId_cases) (auto simp: hd_account_created new_hd_def)
  obtain e where e: "addAddressesToHDAccount xpub (ext @ int) d = Inr e" "wf_db e" "hd_accounts e = hd_accounts d"
    "\<forall>x\<in>set (ext @ int). owns_address e (h_hdID h) (d_address x)"
    using addAddressesToHDAccount_account [OF d h(1), of "ext @ int"] by blast
  then have e_t: "e = w_db t" using add by simp
  have "hd_account xpub (w_db t) = Some h" using h(1) e(3) e_t by (simp add: hd_account_def)
  then show ?thesis using Inr h(2) der e(2,4) e_t by auto
qed

lemma returns_createHdAccount: "returns (createHdAccount now env xpub scheme)"
  unfolding createHdAccount_def newHdAccount_def derivationOverrideCheck_def getAccount_def
  by (auto simp: Let_def intro!: returns_intros split: option.split)

text \<open>
  C20. Creating an account returns, and either throws one of the four errors the API knows, or leaves in
  the database the account with the scheme asked for, owning the first addresses of its two chains up to
  the gap limits, and the constraints of the database hold.
\<close>

theorem createHdAccount_spec:
  assumes "wf s" and "scheme \<in> {BIP44, BIP49, BIP84}"
  shows "\<exists>r t. createHdAccount now env xpub scheme s = Some (r, t) \<and> (case r of
      Inl e \<Rightarrow> e \<in> {Err Xpub_INVALID, Err Xpub_PRIVKEY, Err Xpub_LOCKED, Err Xpub_CREATE}
    | Inr b \<Rightarrow> \<exists>h ext int.
        hd_account xpub (w_db t) = Some h \<and> ty_type (classify (h_hdType h)) = Some scheme \<and>
        deriveAddresses (ie_lib env) (ie_parallel env) (ie_threshold env) (ie_exec env) (Some xpub) 0
          (range 0 (ie_gap_external env)) (Some scheme) = Inr ext \<and>
        deriveAddresses (ie_lib env) (ie_parallel env) (ie_threshold env) (ie_exec env) (Some xpub) 1
          (range 0 (ie_gap_internal env)) (Some scheme) = Inr int \<and>
        (\<forall>x\<in>set (ext @ int). owns_address (w_db t) (h_hdID h) (d_address x)) \<and> wf t)"
proof -
  obtain r t where run: "createHdAccount now env xpub scheme s = Some (r, t)"
    using returnsD [OF returns_createHdAccount] by blast
  from run createHdAccount_result [OF assms run] show ?thesis by blast
qed

section \<open>Witnesses\<close>

definition demo_locked :: import_state where
  "demo_locked = demo_importer\<lparr>w_db := snd (ensure_hd 1000 (makeType BIP84 True) demo_zpub empty_db)\<rparr>"

lemma restoreHdAccount_locked_witness:
  "restoreHdAccount 0 (demo_import ''b00'') 0 demo_zpub BIP49 False demo_locked = Some (Inl (Err Xpub_LOCKED), demo_locked)"
proof -
  have "hd_account demo_zpub (w_db demo_locked) = Some (new_hd demo_zpub 1000 130 1)"
    by (simp add: demo_locked_def ensure_hd_def ensureHDAccountId_def makeType_def hd_types classify_def tbl_add_def hd_account_def
        empty_db_def empty_table_def new_hd_def)
  moreover have "classify (h_hdType (new_hd demo_zpub 1000 130 1)) = \<lparr>ty_type = Some BIP84, ty_locked = True\<rparr>"
    by (simp add: new_hd_def classify_def hd_types)
  ultimately show ?thesis
    using restoreHdAccount_locked [of demo_zpub demo_locked "new_hd demo_zpub 1000 130 1" BIP49 False 0 "demo_import ''b00''" 0]
    by (simp add: hd_types)
qed

lemma createHdAccount_spec_witness:
  "\<exists>r t. createHdAccount 0 (demo_import ''b00'') demo_zpub BIP84 demo_importer = Some (r, t) \<and>
     (\<forall>e. r = Inl e \<longrightarrow> e \<in> {Err Xpub_INVALID, Err Xpub_PRIVKEY, Err Xpub_LOCKED, Err Xpub_CREATE})"
proof -
  have "wf demo_importer" by (simp add: demo_importer_def wf_empty_db)
  note spec = createHdAccount_spec [OF this, of BIP84 0 "demo_import ''b00''" demo_zpub]
  show ?thesis by (rule exE [OF spec], simp) (elim exE conjE, intro exI conjI, assumption, simp split: sum.splits)
qed

end
