(* ===== verification/Wallet_Info.thy ===== *)
theory Wallet_Info
  imports Rpc_Chain Hd_Accounts_Service Entities Db_History
begin

text \<open>
  \<^verbatim>\<open>lib/wallet/hd-account-info.ts\<close>, \<^verbatim>\<open>lib/wallet/address-info.ts\<close> and \<^verbatim>\<open>lib/wallet/wallet-info.ts\<close>:
  what the API tells of accounts, addresses and wallets. The objects are records that the methods give
  back updated. A path \<open>M/c/i\<close> is the pair \<open>(c, i)\<close>. Concurrent loads run one after the other; when one
  of them throws, the others are run to their end.
\<close>

section \<open>HD accounts\<close>

text \<open>
  With the environment of the chain: the depth of a node, the number of transactions of a page, and
  whether the indexer is a local one.
\<close>

record 'n wallet_env = "'n tip_env" +
  we_depth :: "'n \<Rightarrow> int"
  we_page :: nat
  we_local_index :: bool

definition tip_height :: "latest_block \<Rightarrow> int" where
  "tip_height lb = (case lb_height lb of None \<Rightarrow> 0 | Some h \<Rightarrow> h)"

record wallet_utxo =
  wu_hash :: string
  wu_n :: int
  wu_version :: int
  wu_locktime :: int
  wu_value :: int
  wu_script :: string
  wu_addr :: string
  wu_confirmations :: int
  wu_pubkey :: "string option"
  wu_xpub :: "(string \<times> int \<times> int) option"

definition confirmations :: "int \<Rightarrow> unspent_output \<Rightarrow> int" where
  "confirmations height u = (case uo_blockHeight u of None \<Rightarrow> 0 | Some h \<Rightarrow> height - h + 1)"

definition utxo_entry :: "int \<Rightarrow> (string \<times> int \<times> int) option \<Rightarrow> unspent_output \<Rightarrow> wallet_utxo" where
  "utxo_entry height x u =
     \<lparr>wu_hash = uo_txnTxid u, wu_n = uo_outIndex u, wu_version = uo_txnVersion u, wu_locktime = uo_txnLocktime u,
      wu_value = uo_outAmount u, wu_script = uo_outScript u, wu_addr = uo_addrAddress u,
      wu_confirmations = confirmations height u, wu_pubkey = None, wu_xpub = x\<rparr>"

record hd_info =
  hi_xpub :: string
  hi_address :: string
  hi_account :: int
  hi_depth :: int
  hi_finalBalance :: int
  hi_accountIndex :: int
  hi_changeIndex :: int
  hi_accountDerivedIndex :: int
  hi_changeDerivedIndex :: int
  hi_nTx :: int
  hi_derivation :: "string option"
  hi_created :: "int option"
  hi_tracked :: bool

definition new_hd_info :: "string \<Rightarrow> hd_info" where
  "new_hd_info xpub =
     \<lparr>hi_xpub = xpub, hi_address = xpub, hi_account = 0, hi_depth = 0, hi_finalBalance = 0, hi_accountIndex = 0,
      hi_changeIndex = 0, hi_accountDerivedIndex = 0, hi_changeDerivedIndex = 0, hi_nTx = 0, hi_derivation = None,
      hi_created = None, hi_tracked = False\<rparr>"

text \<open>
  \<open>return hdaService.restoreHdAccount(...)\<close> is not awaited in its \<open>try\<close>: its errors pass.
\<close>

definition ensureHdAccount :: "int \<Rightarrow> ('n, 'e) wallet_env_scheme \<Rightarrow> nat \<Rightarrow> string \<Rightarrow> ('s import_state_scheme, unit) act" where
  "ensureHdAccount now env fuel xpub =
     bindA (askDb (getHDAccountId xpub)) (\<lambda>r. case r of
       Inr _ \<Rightarrow> ret ()
     | Inl e \<Rightarrow> if e = Err Db_NO_HD_ACCOUNT
                then bindA (restoreHdAccount now env fuel xpub BIP44 False) (\<lambda>_. ret ())
                else ret ())"

definition loadDerivationInfo :: "('n, 'e) wallet_env_scheme \<Rightarrow> db \<Rightarrow> hd_info \<Rightarrow> hd_info" where
  "loadDerivationInfo env d h =
     (case getHDAccount (hi_xpub h) d of
        Inl _ \<Rightarrow> h
      | Inr account \<Rightarrow>
          (let h = h\<lparr>hi_created := Some (h_hdCreated account), hi_derivation := Some (typeString (h_hdType account)), hi_tracked := True\<rparr>
           in case fresh_node (ie_lib env) (Some (hi_xpub h)) of
                Inr (Some node) \<Rightarrow>
                  (let index = node_index (ie_lib env) (snd (snd node)); threshold = 2 ^ 31
                   in h\<lparr>hi_account := (if threshold \<le> index then index - threshold else index), hi_depth := we_depth env (snd (snd node))\<rparr>)
              | _ \<Rightarrow> h))"

definition loadInfo :: "('n, 'e) wallet_env_scheme \<Rightarrow> db \<Rightarrow> hd_info \<Rightarrow> hd_info" where
  "loadInfo env d h =
     (let h = loadDerivationInfo env d h; x = hi_xpub h
      in h\<lparr>hi_finalBalance := getHDAccountBalance x d,
           hi_accountIndex := fst (getHDAccountNextUnusedIndices x d), hi_changeIndex := snd (getHDAccountNextUnusedIndices x d),
           hi_accountDerivedIndex := fst (getHDAccountDerivedIndices x d), hi_changeDerivedIndex := snd (getHDAccountDerivedIndices x d),
           hi_nTx := getHDAccountNbTransactions x d\<rparr>)"

definition by_confirmations :: "wallet_utxo list \<Rightarrow> wallet_utxo list" where
  "by_confirmations us = sort_key (\<lambda>u. - wu_confirmations u) us"

definition hdLoadUtxos :: "int \<Rightarrow> db \<Rightarrow> string \<Rightarrow> wallet_utxo list" where
  "hdLoadUtxos height d xpub =
     by_confirmations (map (\<lambda>(u, chain, index). utxo_entry height (Some (xpub, chain, index)) u) (getHDAccountUnspentOutputs xpub d))"

section \<open>Addresses\<close>

datatype address_kind = Untracked | OfAccount | LooseAddress

record address_info =
  ad_address :: string
  ad_pubkey :: "string option"
  ad_finalBalance :: int
  ad_nTx :: int
  ad_utxos :: "(string \<times> int \<times> int) list"
  ad_tracked :: bool
  ad_type :: address_kind
  ad_xpub :: "string option"
  ad_path :: "(int \<times> int) option"
  ad_segwit :: "bool option"
  ad_txs :: "api_transaction list"

definition new_address_info :: "string \<Rightarrow> address_info" where
  "new_address_info address =
     \<lparr>ad_address = address, ad_pubkey = None, ad_finalBalance = 0, ad_nTx = 0, ad_utxos = [], ad_tracked = False,
      ad_type = Untracked, ad_xpub = None, ad_path = None, ad_segwit = None, ad_txs = []\<rparr>"

definition addrLoadInfo :: "db \<Rightarrow> address_info \<Rightarrow> address_info" where
  "addrLoadInfo d a =
     (let a = (case getAddressBalance (Some (ad_address a)) d of None \<Rightarrow> a | Some b \<Rightarrow> a\<lparr>ad_finalBalance := b\<rparr>)
      in case getAddressNbTransactions (Some (ad_address a)) d of None \<Rightarrow> a | Some n \<Rightarrow> a\<lparr>ad_nTx := n\<rparr>)"

definition addrLoadInfoExtended :: "db \<Rightarrow> address_info \<Rightarrow> address_info" where
  "addrLoadInfoExtended d a =
     (let res = getHDAccountsByAddresses [ad_address a] d;
          a = fold (\<lambda>(xpub, g) a.
                let xpubType = ty_type (classify (g_hdType g)); info = hd (g_addresses g)
                in a\<lparr>ad_tracked := True, ad_type := OfAccount, ad_xpub := Some xpub,
                     ad_segwit := Some (xpubType = Some BIP49 \<or> xpubType = Some BIP84),
                     ad_path := Some (oa_hdAddrChain info, oa_hdAddrIndex info)\<rparr>) (by_hd res) a;
          a = (if ad_address a \<in> snd ` set (by_loose res) then a\<lparr>ad_tracked := True, ad_type := LooseAddress\<rparr> else a)
      in addrLoadInfo d a)"

definition addrLoadTransactions :: "nat \<Rightarrow> db \<Rightarrow> address_info \<Rightarrow> address_info" where
  "addrLoadTransactions n d a = a\<lparr>ad_txs := getTxsByAddrAndXpubs [ad_address a] [] 0 n d\<rparr>"

text \<open>The sort compares a field no entry has, so it keeps the order.\<close>

definition addrLoadUtxos :: "db \<Rightarrow> address_info \<Rightarrow> address_info" where
  "addrLoadUtxos d a = a\<lparr>ad_utxos := map (\<lambda>u. (uo_txnTxid u, uo_outIndex u, uo_outAmount u)) (getUnspentOutputs [ad_address a] d)\<rparr>"

section \<open>Wallets\<close>

datatype wallet_address = Account hd_info | Loose address_info

definition wa_address :: "wallet_address \<Rightarrow> string" where
  "wa_address a = (case a of Account h \<Rightarrow> hi_address h | Loose a \<Rightarrow> ad_address a)"

record wallet_input =
  wi_input :: api_input
  wi_pubkey :: "string option"

record wallet_output =
  wo_output :: api_output
  wo_pubkey :: "string option"

record wallet_tx =
  wt_tx :: api_transaction
  wt_balance :: "int option"
  wt_inputs :: "wallet_input list"
  wt_out :: "wallet_output list"

record wallet_info =
  wl_entities :: entities
  wl_latest :: latest_block
  wl_finalBalance :: int
  wl_fees :: fee_map
  wl_estimatorFees :: "fee_map option"
  wl_addresses :: "wallet_address list"
  wl_txs :: "wallet_tx list"
  wl_utxos :: "wallet_utxo list"
  wl_nTx :: int

definition new_wallet_info :: "latest_block \<Rightarrow> entities \<Rightarrow> wallet_info" where
  "new_wallet_info latest e =
     \<lparr>wl_entities = e, wl_latest = latest, wl_finalBalance = 0, wl_fees = [], wl_estimatorFees = Some [], wl_addresses = [], wl_txs = [],
      wl_utxos = [], wl_nTx = 0\<rparr>"

definition ensureHdAccounts :: "int \<Rightarrow> ('n, 'e) wallet_env_scheme \<Rightarrow> nat \<Rightarrow> entities \<Rightarrow> ('s import_state_scheme, unit) act" where
  "ensureHdAccounts now env fuel e = forA (ensureHdAccount now env fuel) (e_xpubs e)"

definition loadAccountInfo :: "('n, 'e) wallet_env_scheme \<Rightarrow> db \<Rightarrow> string \<Rightarrow> wallet_info \<Rightarrow> wallet_info" where
  "loadAccountInfo env d xpub w =
     (let h = loadInfo env d (new_hd_info xpub)
      in w\<lparr>wl_finalBalance := wl_finalBalance w + hi_finalBalance h, wl_addresses := wl_addresses w @ [Account h]\<rparr>)"

definition loadHdAccountsInfo :: "('n, 'e) wallet_env_scheme \<Rightarrow> db \<Rightarrow> wallet_info \<Rightarrow> wallet_info" where
  "loadHdAccountsInfo env d w = fold (loadAccountInfo env d) (e_xpubs (wl_entities w)) w"

definition ensureAddresses :: "int \<Rightarrow> ('n, 'e) wallet_env_scheme \<Rightarrow> entities \<Rightarrow> ('s import_state_scheme, bool) act" where
  "ensureAddresses now env e =
     bindA (askDb (getAddressesIds (e_addrs e))) (\<lambda>addrIdMap.
       restoreAddresses now env (filter (\<lambda>addr. idOf addrIdMap addr = 0) (e_addrs e)) (Some True))"

definition walletFilterAddresses :: "db \<Rightarrow> wallet_info \<Rightarrow> wallet_info" where
  "walletFilterAddresses d w = w\<lparr>wl_entities := filterAddresses d (wl_entities w)\<rparr>"

definition loadAddressInfo :: "db \<Rightarrow> string \<Rightarrow> wallet_info \<Rightarrow> wallet_info" where
  "loadAddressInfo d address w =
     (let a = addrLoadInfo d (new_address_info address)
      in w\<lparr>wl_finalBalance := wl_finalBalance w + ad_finalBalance a, wl_addresses := wl_addresses w @ [Loose a]\<rparr>)"

definition loadAddressesInfo :: "db \<Rightarrow> wallet_info \<Rightarrow> wallet_info" where
  "loadAddressesInfo d w = fold (loadAddressInfo d) (e_addrs (wl_entities w)) w"

definition new_wallet_tx :: "api_transaction \<Rightarrow> wallet_tx" where
  "new_wallet_tx t =
     \<lparr>wt_tx = t, wt_balance = None, wt_inputs = map (\<lambda>i. \<lparr>wi_input = i, wi_pubkey = None\<rparr>) (at_inputs t),
      wt_out = map (\<lambda>o'. \<lparr>wo_output = o', wo_pubkey = None\<rparr>) (at_out t)\<rparr>"

primrec running_balances :: "int \<Rightarrow> wallet_tx list \<Rightarrow> wallet_tx list" where
  "running_balances balance [] = []"
| "running_balances balance (t # ts) = t\<lparr>wt_balance := Some balance\<rparr> # running_balances (balance - at_result (wt_tx t)) ts"

definition loadTransactions :: "nat \<Rightarrow> nat \<Rightarrow> bool \<Rightarrow> db \<Rightarrow> wallet_info \<Rightarrow> wallet_info" where
  "loadTransactions page n txBalance d w =
     (let txs = map new_wallet_tx (getTxsByAddrAndXpubs (e_addrs (wl_entities w)) (e_xpubs (wl_entities w)) page n d)
      in w\<lparr>wl_txs := (if txBalance then running_balances (wl_finalBalance w) txs else txs)\<rparr>)"

definition loadNbTransactions :: "db \<Rightarrow> wallet_info \<Rightarrow> wallet_info" where
  "loadNbTransactions d w =
     (case getAddrAndXpubsNbTransactions (e_addrs (wl_entities w)) (e_xpubs (wl_entities w)) d of
        None \<Rightarrow> w | Some n \<Rightarrow> w\<lparr>wl_nTx := n\<rparr>)"

definition loadFeesInfo :: "('n, 'e) wallet_env_scheme \<Rightarrow> wallet_info \<Rightarrow> ('s tip_state_scheme, wallet_info) act" where
  "loadFeesInfo env w =
     bindA (getFees env) (\<lambda>fees.
     bindA (catchA (bindA getEstimatorFees (\<lambda>f. ret (Some f))) (\<lambda>_. ret None)) (\<lambda>est.
       ret (w\<lparr>wl_fees := fees, wl_estimatorFees := est\<rparr>)))"

definition loadUtxos :: "int \<Rightarrow> db \<Rightarrow> wallet_info \<Rightarrow> wallet_info" where
  "loadUtxos height d w =
     w\<lparr>wl_utxos := by_confirmations (wl_utxos w
        @ concat (map (hdLoadUtxos height d) (e_xpubs (wl_entities w)))
        @ map (utxo_entry height None) (getUnspentOutputs (e_addrs (wl_entities w)) d))\<rparr>"

section \<open>Keys and translations in the result\<close>

definition set_pubkey :: "string \<Rightarrow> string \<Rightarrow> wallet_info \<Rightarrow> wallet_info" where
  "set_pubkey address pk w =
     w\<lparr>wl_addresses := map (\<lambda>a. case a of
            Account h \<Rightarrow> a | Loose x \<Rightarrow> if ad_address x = address then Loose (x\<lparr>ad_pubkey := Some pk\<rparr>) else a) (wl_addresses w),
       wl_txs := map (\<lambda>t. t\<lparr>
            wt_inputs := map (\<lambda>i. if po_addr (ai_prev_out (wi_input i)) = address then i\<lparr>wi_pubkey := Some pk\<rparr> else i) (wt_inputs t),
            wt_out := map (\<lambda>o'. if ao_addr (wo_output o') = address then o'\<lparr>wo_pubkey := Some pk\<rparr> else o') (wt_out t)\<rparr>) (wl_txs w),
       wl_utxos := map (\<lambda>u. if wu_addr u = address then u\<lparr>wu_pubkey := Some pk\<rparr> else u) (wl_utxos w)\<rparr>"

definition postProcessAddresses :: "wallet_info \<Rightarrow> wallet_info" where
  "postProcessAddresses w =
     fold (\<lambda>(b, pk) w. case pk of
         None \<Rightarrow> w
       | Some pk \<Rightarrow> (case js_nth (e_addrs (wl_entities w)) b of None \<Rightarrow> w | Some address \<Rightarrow> set_pubkey address pk w))
       (enumerate 0 (e_pubkeys (wl_entities w))) w"

definition translate_xpub :: "string \<Rightarrow> string \<Rightarrow> xpub_info option \<Rightarrow> xpub_info option" where
  "translate_xpub source target x = map_option (\<lambda>i. if xi_xpub i = source then i\<lparr>xi_xpub := target\<rparr> else i) x"

definition translate :: "string \<Rightarrow> string \<Rightarrow> wallet_info \<Rightarrow> wallet_info" where
  "translate source target w =
     w\<lparr>wl_addresses := map (\<lambda>a. case a of
            Account h \<Rightarrow> if hi_address h = source then Account (h\<lparr>hi_address := target\<rparr>) else a
          | Loose x \<Rightarrow> if ad_address x = source then Loose (x\<lparr>ad_address := target\<rparr>) else a) (wl_addresses w),
       wl_txs := map (\<lambda>t. t\<lparr>
            wt_inputs := map (\<lambda>i. i\<lparr>wi_input := (wi_input i)\<lparr>ai_prev_out := (ai_prev_out (wi_input i))\<lparr>
                po_xpub := translate_xpub source target (po_xpub (ai_prev_out (wi_input i)))\<rparr>\<rparr>\<rparr>) (wt_inputs t),
            wt_out := map (\<lambda>o'. o'\<lparr>wo_output := (wo_output o')\<lparr>ao_xpub := translate_xpub source target (ao_xpub (wo_output o'))\<rparr>\<rparr>) (wt_out t)\<rparr>)
          (wl_txs w),
       wl_utxos := map (\<lambda>u. u\<lparr>wu_xpub := map_option (\<lambda>(m, p). (if m = source then target else m, p)) (wu_xpub u)\<rparr>) (wl_utxos w)\<rparr>"

definition postProcessHdAccounts :: "wallet_info \<Rightarrow> wallet_info" where
  "postProcessHdAccounts w =
     (let e = wl_entities w; truthy_at = (\<lambda>xs b. case js_nth xs b of None \<Rightarrow> None | Some x \<Rightarrow> truthy_str x)
      in fold (\<lambda>(b, xpub) w.
           case (truthy_at (e_ypubs e) b, truthy_at (e_zpubs e) b) of
             (Some ypub, _) \<Rightarrow> translate xpub ypub w
           | (None, Some zpub) \<Rightarrow> translate xpub zpub w
           | _ \<Rightarrow> w)
         (enumerate 0 (e_xpubs e)) w)"

section \<open>What the API returns\<close>

text \<open>
  A plain object is a record: a property that an object does not have is \<open>None\<close>, as is one that is
  \<open>null\<close>. The time of creation is the number of seconds of the date that is printed.
\<close>

record plain_address =
  pj_address :: string
  pj_final_balance :: int
  pj_n_tx :: int
  pj_pubkey :: "string option"
  pj_indices :: "(int \<times> int) option"
  pj_derivation :: "string option"
  pj_created :: "int option"

definition hdToPojo :: "hd_info \<Rightarrow> plain_address" where
  "hdToPojo h =
     \<lparr>pj_address = hi_address h, pj_final_balance = hi_finalBalance h, pj_n_tx = hi_nTx h, pj_pubkey = None,
      pj_indices = Some (hi_accountIndex h, hi_changeIndex h), pj_derivation = hi_derivation h, pj_created = hi_created h\<rparr>"

definition addrToPojo :: "address_info \<Rightarrow> plain_address" where
  "addrToPojo a =
     \<lparr>pj_address = ad_address a, pj_final_balance = ad_finalBalance a, pj_n_tx = ad_nTx a,
      pj_pubkey = truthy_str (ad_pubkey a), pj_indices = None, pj_derivation = None, pj_created = None\<rparr>"

record extended_account =
  xa_xpub :: string
  xa_tracked :: bool
  xa_balance :: int
  xa_unused :: "int \<times> int"
  xa_derived :: "int \<times> int"
  xa_n_tx :: int
  xa_derivation :: "string option"
  xa_account :: int
  xa_depth :: int
  xa_created :: int

definition hdToPojoExtended :: "hd_info \<Rightarrow> extended_account" where
  "hdToPojoExtended h =
     \<lparr>xa_xpub = hi_xpub h, xa_tracked = hi_tracked h, xa_balance = hi_finalBalance h,
      xa_unused = (hi_accountIndex h, hi_changeIndex h), xa_derived = (hi_accountDerivedIndex h, hi_changeDerivedIndex h),
      xa_n_tx = hi_nTx h, xa_derivation = hi_derivation h, xa_account = hi_account h, xa_depth = hi_depth h,
      xa_created = (case hi_created h of None \<Rightarrow> 0 | Some c \<Rightarrow> c)\<rparr>"

record extended_address =
  xd_address :: string
  xd_tracked :: bool
  xd_type :: address_kind
  xd_balance :: int
  xd_xpub :: "string option"
  xd_path :: "(int \<times> int) option"
  xd_segwit :: "bool option"
  xd_n_tx :: int
  xd_txids :: "string list"
  xd_utxo :: "(string \<times> int \<times> int) list"
  xd_pubkey :: "string option"

definition addrToPojoExtended :: "address_info \<Rightarrow> extended_address" where
  "addrToPojoExtended a =
     \<lparr>xd_address = ad_address a, xd_tracked = ad_tracked a, xd_type = ad_type a, xd_balance = ad_finalBalance a,
      xd_xpub = ad_xpub a, xd_path = ad_path a, xd_segwit = ad_segwit a, xd_n_tx = ad_nTx a,
      xd_txids = map at_hash (ad_txs a), xd_utxo = ad_utxos a, xd_pubkey = truthy_str (ad_pubkey a)\<rparr>"

record plain_wallet =
  pw_final_balance :: int
  pw_fees :: "fee_map option"
  pw_estimatorFees :: "fee_map option"
  pw_latest_block :: "int option \<times> string option \<times> int option"
  pw_addresses :: "plain_address list"
  pw_txs :: "wallet_tx list"
  pw_unspent_outputs :: "wallet_utxo list option"
  pw_n_tx :: "int option"

definition toPojo :: "wallet_info \<Rightarrow> plain_wallet" where
  "toPojo w =
     \<lparr>pw_final_balance = wl_finalBalance w, pw_fees = Some (wl_fees w), pw_estimatorFees = wl_estimatorFees w,
      pw_latest_block = (lb_height (wl_latest w), lb_hash (wl_latest w), lb_time (wl_latest w)),
      pw_addresses = map (\<lambda>a. case a of Account h \<Rightarrow> hdToPojo h | Loose x \<Rightarrow> addrToPojo x) (wl_addresses w),
      pw_txs = wl_txs w, pw_unspent_outputs = Some (wl_utxos w), pw_n_tx = Some (wl_nTx w)\<rparr>"

section \<open>Balances\<close>

lemma sum_list_swap: "(\<Sum>x\<leftarrow>xs. \<Sum>y\<leftarrow>ys. f x y) = (\<Sum>y\<leftarrow>ys. \<Sum>x\<leftarrow>xs. f x y :: int)"
  by (induction xs) (simp_all add: sum_list_addf)

lemma sum_list_concat_map: "sum_list (concat (map f xs)) = (\<Sum>x\<leftarrow>xs. sum_list (f x) :: int)"
  by (induction xs) simp_all

lemma if_sum_list: "(if P then \<Sum>x\<leftarrow>xs. f x else 0) = (\<Sum>x\<leftarrow>xs. if P then f x else (0::int))"
  by (induction xs) simp_all

lemma sum_list_guard: "sum_list (if P then xs else []) = (if P then sum_list xs else (0::int))"
  by simp

lemmas flat_sum = sum_list_concat_map sum_list_guard if_sum_list

lemma sum_list_pick:
  "distinct (map key xs) \<Longrightarrow> (\<Sum>x\<leftarrow>xs. if key x = k then c else (0::int)) = (if k \<in> key ` set xs then c else 0)"
  by (induction xs) (auto simp: image_iff)

lemma transaction_once:
  assumes "wf_db d" and "o' \<in> set (rows (outputs d))"
  shows "(\<Sum>t\<leftarrow>rows (transactions d). if t_txnID t = o_txnID o' then c else (0::int)) = c"
proof -
  have "o_txnID o' \<in> t_txnID ` set (rows (transactions d))"
    using find_by_SomeD [OF wf_find(3) [OF assms]] by (metis imageI)
  then show ?thesis by (simp add: sum_list_pick [OF wf_pks(3) [OF assms(1)]])
qed

text \<open>The balance of an account is the sum of its unspent outputs: two queries with different joins.\<close>

definition hd_amount :: "db \<Rightarrow> string \<Rightarrow> output_row \<Rightarrow> hd_address_row \<Rightarrow> address_row \<Rightarrow> hd_row \<Rightarrow> int" where
  "hd_amount d x o' l a h =
     (if ha_addrID l = a_addrID a \<and> (ha_hdID l = h_hdID h \<and> h_hdXpub h = x) \<and> o_addrID o' = a_addrID a \<and> unspent d o'
      then o_outAmount o' else 0)"

lemma getHDAccountBalance_sum:
  "getHDAccountBalance x d =
     (\<Sum>o'\<leftarrow>rows (outputs d). \<Sum>l\<leftarrow>rows (hd_addresses d). \<Sum>a\<leftarrow>rows (addresses d). \<Sum>h\<leftarrow>rows (hd_accounts d). hd_amount d x o' l a h)"
proof -
  have "getHDAccountBalance x d =
     (\<Sum>l\<leftarrow>rows (hd_addresses d). \<Sum>a\<leftarrow>rows (addresses d). \<Sum>h\<leftarrow>rows (hd_accounts d). \<Sum>o'\<leftarrow>rows (outputs d). hd_amount d x o' l a h)"
    by (simp add: getHDAccountBalance_def flat_sum hd_amount_def if_bool_eq_conj[symmetric] cong: if_cong)
      (intro arg_cong [where f = sum_list] map_cong refl, simp)
  also have "\<dots> = (\<Sum>l\<leftarrow>rows (hd_addresses d). \<Sum>o'\<leftarrow>rows (outputs d). \<Sum>a\<leftarrow>rows (addresses d). \<Sum>h\<leftarrow>rows (hd_accounts d). hd_amount d x o' l a h)"
    by (simp only: sum_list_swap [of _ "rows (outputs d)"])
  finally show ?thesis by (simp only: sum_list_swap [of _ "rows (outputs d)"])
qed

lemma getHDAccountUnspentOutputs_sum:
  assumes "wf_db d"
  shows "(\<Sum>u\<leftarrow>getHDAccountUnspentOutputs x d. uo_outAmount (fst u)) = getHDAccountBalance x d"
proof -
  define amount where "amount = (\<lambda>u :: unspent_output \<times> int \<times> int. uo_outAmount (fst u))"
  have "(\<Sum>u\<leftarrow>getHDAccountUnspentOutputs x d. amount u) =
     (\<Sum>o'\<leftarrow>rows (outputs d). \<Sum>a\<leftarrow>rows (addresses d). \<Sum>l\<leftarrow>rows (hd_addresses d). \<Sum>h\<leftarrow>rows (hd_accounts d).
        \<Sum>t\<leftarrow>rows (transactions d). if t_txnID t = o_txnID o' then hd_amount d x o' l a h else 0)"
    by (simp add: getHDAccountUnspentOutputs_def flat_sum map_concat comp_def if_distrib [of "map _"] hd_amount_def
        amount_def unspent_row_def cong: if_cong)
      (intro arg_cong [where f = sum_list] map_cong refl, simp)
  also have "\<dots> = (\<Sum>o'\<leftarrow>rows (outputs d). \<Sum>a\<leftarrow>rows (addresses d). \<Sum>l\<leftarrow>rows (hd_addresses d). \<Sum>h\<leftarrow>rows (hd_accounts d). hd_amount d x o' l a h)"
    by (intro arg_cong [where f = sum_list] map_cong refl) (rule transaction_once [OF assms])
  finally show ?thesis
    by (simp only: getHDAccountBalance_sum sum_list_swap [of _ "rows (hd_addresses d)" "rows (addresses d)"]
        amount_def)
qed

lemma getUnspentOutputs_sum:
  assumes "wf_db d" and "distinct addrs"
  shows "(\<Sum>u\<leftarrow>getUnspentOutputs addrs d. uo_outAmount u) = (\<Sum>a\<leftarrow>addrs. the (getAddressBalance (Some a) d))"
proof -
  define am where "am = (\<lambda>o' (a :: address_row) addr.
    if addr = a_addrAddress a \<and> a_addrID a = o_addrID o' \<and> unspent d o' then o_outAmount o' else 0)"
  have pick: "(\<Sum>addr\<leftarrow>addrs. am o' a addr) =
      (if unspent d o' \<and> a_addrID a = o_addrID o' \<and> a_addrAddress a \<in> set addrs then o_outAmount o' else 0)" for o' a
    using sum_list_pick [of "\<lambda>a. a" addrs "a_addrAddress a"] assms(2)
    by (cases "a_addrID a = o_addrID o' \<and> unspent d o'") (auto simp: am_def)
  have "(\<Sum>u\<leftarrow>getUnspentOutputs addrs d. uo_outAmount u) =
     (\<Sum>o'\<leftarrow>rows (outputs d). \<Sum>a\<leftarrow>rows (addresses d). \<Sum>t\<leftarrow>rows (transactions d).
        if t_txnID t = o_txnID o' then \<Sum>addr\<leftarrow>addrs. am o' a addr else 0)"
    unfolding pick
    by (simp add: getUnspentOutputs_def flat_sum map_concat comp_def if_distrib [of "map _"] unspent_row_def cong: if_cong)
      (intro conjI impI arg_cong [where f = sum_list] map_cong refl, simp)
  also have "\<dots> = (\<Sum>o'\<leftarrow>rows (outputs d). \<Sum>a\<leftarrow>rows (addresses d). \<Sum>addr\<leftarrow>addrs. am o' a addr)"
    by (simp add: transaction_once [OF assms(1)] cong: map_cong)
  also have "\<dots> = (\<Sum>addr\<leftarrow>addrs. \<Sum>a\<leftarrow>rows (addresses d). \<Sum>o'\<leftarrow>rows (outputs d). am o' a addr)"
    by (simp only: sum_list_swap [of _ _ addrs] sum_list_swap [of _ "rows (outputs d)"])
  also have "\<dots> = (\<Sum>a\<leftarrow>addrs. the (getAddressBalance (Some a) d))"
    by (simp add: getAddressBalance_def flat_sum am_def cong: if_cong)
      (intro arg_cong [where f = sum_list] map_cong refl, simp)
  finally show ?thesis .
qed

section \<open>What the loads add\<close>

definition utxo_total :: "wallet_info \<Rightarrow> int" where
  "utxo_total w = (\<Sum>u\<leftarrow>wl_utxos w. wu_value u)"

definition address_total :: "wallet_info \<Rightarrow> int" where
  "address_total w = (\<Sum>a\<leftarrow>wl_addresses w. case a of Account h \<Rightarrow> hi_finalBalance h | Loose x \<Rightarrow> ad_finalBalance x)"

lemma loadInfo_balance: "hi_finalBalance (loadInfo env d (new_hd_info xpub)) = getHDAccountBalance xpub d"
proof -
  have "hi_xpub (loadDerivationInfo env d h) = hi_xpub h" for h
    by (auto simp: loadDerivationInfo_def Let_def split: sum.split option.split)
  then show ?thesis by (simp add: loadInfo_def Let_def new_hd_info_def)
qed

lemma addrLoadInfo_balance: "ad_finalBalance (addrLoadInfo d (new_address_info address)) = the (getAddressBalance (Some address) d)"
  by (simp add: addrLoadInfo_def new_address_info_def getAddressBalance_def getAddressNbTransactions_def)

lemma loadAccountInfo_frame:
  "wl_finalBalance (loadAccountInfo env d xpub w) = wl_finalBalance w + getHDAccountBalance xpub d"
  "address_total (loadAccountInfo env d xpub w) = address_total w + getHDAccountBalance xpub d"
  "wl_utxos (loadAccountInfo env d xpub w) = wl_utxos w" "wl_txs (loadAccountInfo env d xpub w) = wl_txs w"
  "wl_entities (loadAccountInfo env d xpub w) = wl_entities w"
  by (simp_all add: loadAccountInfo_def Let_def loadInfo_balance address_total_def)

lemma loadAddressInfo_frame:
  "wl_finalBalance (loadAddressInfo d a w) = wl_finalBalance w + the (getAddressBalance (Some a) d)"
  "address_total (loadAddressInfo d a w) = address_total w + the (getAddressBalance (Some a) d)"
  "wl_utxos (loadAddressInfo d a w) = wl_utxos w" "wl_txs (loadAddressInfo d a w) = wl_txs w"
  "wl_entities (loadAddressInfo d a w) = wl_entities w"
  by (simp_all add: loadAddressInfo_def Let_def addrLoadInfo_balance address_total_def)

lemma wu_value_entry [simp]: "wu_value (utxo_entry height x u) = uo_outAmount u"
  by (simp add: utxo_entry_def)

lemma by_confirmations_sum: "(\<Sum>u\<leftarrow>by_confirmations us. wu_value u) = (\<Sum>u\<leftarrow>us. wu_value u)"
proof -
  have "mset (map wu_value (by_confirmations us)) = mset (map wu_value us)" by (simp add: by_confirmations_def)
  then show ?thesis by (metis sum_mset_sum_list)
qed

definition wallet_balance :: "db \<Rightarrow> entities \<Rightarrow> int" where
  "wallet_balance d e = (\<Sum>x\<leftarrow>e_xpubs e. getHDAccountBalance x d) + (\<Sum>a\<leftarrow>e_addrs e. the (getAddressBalance (Some a) d))"

lemma loadUtxos_total:
  assumes "wf_db d" and "distinct (e_addrs (wl_entities w))"
  shows "utxo_total (loadUtxos height d w) = utxo_total w + wallet_balance d (wl_entities w)"
proof -
  have acct: "(\<Sum>u\<leftarrow>hdLoadUtxos height d x. wu_value u) = getHDAccountBalance x d" for x
    using getHDAccountUnspentOutputs_sum [OF assms(1), of x]
    by (simp add: hdLoadUtxos_def by_confirmations_sum comp_def case_prod_beta)
  show ?thesis
    by (simp add: loadUtxos_def utxo_total_def by_confirmations_sum wallet_balance_def getUnspentOutputs_sum [OF assms] map_concat sum_list_concat_map comp_def acct)
qed

lemma loadUtxos_frame:
  "wl_finalBalance (loadUtxos height d w) = wl_finalBalance w" "wl_addresses (loadUtxos height d w) = wl_addresses w"
  "wl_txs (loadUtxos height d w) = wl_txs w" "wl_entities (loadUtxos height d w) = wl_entities w"
  by (simp_all add: loadUtxos_def)

lemma loadTransactions_frame:
  "wl_finalBalance (loadTransactions page n b d w) = wl_finalBalance w" "wl_addresses (loadTransactions page n b d w) = wl_addresses w"
  "wl_utxos (loadTransactions page n b d w) = wl_utxos w" "wl_entities (loadTransactions page n b d w) = wl_entities w"
  by (simp_all add: loadTransactions_def Let_def)

text \<open>The keys and translations of the last stage change no amount.\<close>

definition amounts :: "wallet_info \<Rightarrow> int \<times> int list \<times> int list \<times> (int option \<times> int) list" where
  "amounts w = (wl_finalBalance w, map (\<lambda>a. case a of Account h \<Rightarrow> hi_finalBalance h | Loose x \<Rightarrow> ad_finalBalance x) (wl_addresses w),
     map wu_value (wl_utxos w), map (\<lambda>t. (wt_balance t, at_result (wt_tx t))) (wl_txs w))"

lemma amounts_set_pubkey: "amounts (set_pubkey address pk w) = amounts w"
  by (auto simp: amounts_def set_pubkey_def comp_def split: wallet_address.split)

lemma amounts_translate: "amounts (translate source target w) = amounts w"
  by (auto simp: amounts_def translate_def comp_def split: wallet_address.split)

lemma amounts_fold: "(\<And>x w. amounts (f x w) = amounts w) \<Longrightarrow> amounts (fold f xs w) = amounts w"
  by (induction xs arbitrary: w) simp_all

lemma amounts_postProcessAddresses: "amounts (postProcessAddresses w) = amounts w"
  unfolding postProcessAddresses_def
  by (rule amounts_fold) (auto simp: amounts_set_pubkey split: prod.split option.split)

lemma amounts_postProcessHdAccounts: "amounts (postProcessHdAccounts w) = amounts w"
  unfolding postProcessHdAccounts_def Let_def
  by (rule amounts_fold) (auto simp: amounts_translate split: prod.split option.split)

text \<open>The balances after each transaction, from the newest one to the oldest.\<close>

lemma running_balances_spec:
  "map (\<lambda>t. (wt_balance t, at_result (wt_tx t))) (running_balances b ts) =
     map (\<lambda>k. (Some (b - (\<Sum>t\<leftarrow>take k ts. at_result (wt_tx t))), at_result (wt_tx (ts ! k)))) [0..<length ts]"
proof (induction ts arbitrary: b)
  case (Cons t ts)
  have "[0..<length (t # ts)] = 0 # map Suc [0..<length ts]" by (simp add: upt_conv_Cons map_Suc_upt del: upt_Suc)
  then show ?case by (simp add: Cons.IH comp_def algebra_simps del: upt_Suc)
qed simp

end
