(* ===== verification/Wallet_Service.thy ===== *)
theory Wallet_Service
  imports Wallet_Info
begin

text \<open>
  \<^verbatim>\<open>lib/wallet/wallet-service.ts\<close>: the requests about a wallet. In \<open>getFullWalletInfo\<close> the loads run at the
  same time: what each does when its answers are there is one step, and a schedule tells in which order
  the steps come. The creations and insertions before them, which it starts at the same time as well, run
  in their order; when one throws the request ends with the same error whatever the others did.
\<close>

section \<open>Requests\<close>

definition internal_error :: exn where "internal_error = Exn ''Internal server error''"

definition newBIP :: "int \<Rightarrow> ('n, 'e) wallet_env_scheme \<Rightarrow> hd_type \<Rightarrow> string \<Rightarrow> ('s tip_state_scheme, unit) act" where
  "newBIP now env scheme xpub = bindA (createHdAccount now env xpub scheme) (\<lambda>_. ret ())"

definition newXpubs :: "int \<Rightarrow> ('n, 'e) wallet_env_scheme \<Rightarrow> entities \<Rightarrow> entities \<Rightarrow> entities \<Rightarrow> ('s tip_state_scheme, unit) act" where
  "newXpubs now env legacy bip49 bip84 =
     bindA (forA (newBIP now env BIP44) (e_xpubs legacy)) (\<lambda>_.
     bindA (forA (newBIP now env BIP49) (e_xpubs bip49)) (\<lambda>_.
       forA (newBIP now env BIP84) (e_xpubs bip84)))"

definition newAddresses :: "entities \<Rightarrow> entities \<Rightarrow> entities \<Rightarrow> entities \<Rightarrow> ('s tip_state_scheme, unit) act" where
  "newAddresses legacy bip49 bip84 pubkeys =
     forA (\<lambda>e. onDb (addAddresses (e_addrs e))) [legacy, bip49, bip84, pubkeys]"

definition forceEnsureAddressesForActivePubkeys :: "entities \<Rightarrow> ('s tip_state_scheme, unit) act" where
  "forceEnsureAddressesForActivePubkeys active =
     onDb (addAddresses (map fst (filter (\<lambda>(_, pubkey). truthy_str pubkey \<noteq> None) (address_pairs active))))"

definition ensureActive :: "('n, 'e) wallet_env_scheme \<Rightarrow> entities \<Rightarrow> ('s tip_state_scheme, unit) act" where
  "ensureActive env active = (if we_local_index env then forceEnsureAddressesForActivePubkeys active else ret ())"

definition without_origin :: "plain_address \<Rightarrow> plain_address" where
  "without_origin a = a\<lparr>pj_derivation := None, pj_created := None\<rparr>"

definition formatGetFullWalletInfoResult :: "wallet_info \<Rightarrow> plain_wallet" where
  "formatGetFullWalletInfoResult w =
     (let p = toPojo w in p\<lparr>pw_n_tx := None, pw_addresses := map without_origin (pw_addresses p)\<rparr>)"

definition formatGetWalletInfoResult :: "wallet_info \<Rightarrow> plain_wallet" where
  "formatGetWalletInfoResult w =
     (let p = toPojo w
      in p\<lparr>pw_n_tx := None, pw_unspent_outputs := None, pw_fees := None, pw_addresses := map without_origin (pw_addresses p)\<rparr>)"

definition postProcess :: "wallet_info \<Rightarrow> wallet_info" where
  "postProcess w = postProcessHdAccounts (postProcessAddresses w)"

text \<open>The steps of the concurrent loads of a wallet.\<close>

datatype load = Load_account string | Load_address string | Load_utxos | Load_txs | Load_fees

definition loads :: "entities \<Rightarrow> load list" where
  "loads e = map Load_account (e_xpubs e) @ [Load_utxos] @ map Load_address (e_addrs e) @ [Load_txs, Load_fees]"

definition do_load :: "('n, 'e) wallet_env_scheme \<Rightarrow> wallet_info \<Rightarrow> load \<Rightarrow> ('s tip_state_scheme, wallet_info) act" where
  "do_load env w l =
     (case l of
        Load_account xpub \<Rightarrow> askDb (\<lambda>d. loadAccountInfo env d xpub w)
      | Load_address address \<Rightarrow> askDb (\<lambda>d. loadAddressInfo d address w)
      | Load_utxos \<Rightarrow> ask (\<lambda>s. loadUtxos (tip_height (w_latest s)) (w_db s) w)
      | Load_txs \<Rightarrow> askDb (\<lambda>d. loadTransactions 0 (we_page env) True d w)
      | Load_fees \<Rightarrow> loadFeesInfo env w)"

definition loadWallet :: "('n, 'e) wallet_env_scheme \<Rightarrow> (load list \<Rightarrow> load list) \<Rightarrow> wallet_info \<Rightarrow> ('s tip_state_scheme, wallet_info) act" where
  "loadWallet env sched w =
     bindA (askDb (\<lambda>d. walletFilterAddresses d w)) (\<lambda>w.
     bindA (foldA (do_load env) w (sched (loads (wl_entities w)))) (\<lambda>w.
       ret (postProcess w)))"

definition prepareWallet :: "int \<Rightarrow> ('n, 'e) wallet_env_scheme \<Rightarrow> nat \<Rightarrow> entities \<Rightarrow> ('s tip_state_scheme, unit) act" where
  "prepareWallet now env fuel active =
     bindA (ensureHdAccounts now env fuel active) (\<lambda>_.
     bindA (ensureAddresses now env active) (\<lambda>_.
       ensureActive env active))"

definition getFullWalletInfo :: "int \<Rightarrow> ('n, 'e) wallet_env_scheme \<Rightarrow> nat \<Rightarrow> (load list \<Rightarrow> load list)
    \<Rightarrow> entities \<Rightarrow> entities \<Rightarrow> entities \<Rightarrow> entities \<Rightarrow> entities \<Rightarrow> ('s tip_state_scheme, plain_wallet) act" where
  "getFullWalletInfo now env fuel sched active legacy bip49 bip84 pubkeys =
     (if \<not> checkEntities active legacy bip49 bip84 pubkeys
      then ask (\<lambda>s. formatGetFullWalletInfoResult (new_wallet_info (w_latest s) no_entities))
      else let active = mergeEntities active legacy bip49 bip84 pubkeys
           in bindA (ask (\<lambda>s. new_wallet_info (w_latest s) active)) (\<lambda>w.
              catchA (bindA (newXpubs now env legacy bip49 bip84) (\<lambda>_.
                bindA (newAddresses legacy bip49 bip84 pubkeys) (\<lambda>_.
                bindA (prepareWallet now env fuel active) (\<lambda>_.
                bindA (loadWallet env sched w) (\<lambda>w.
                  ret (formatGetFullWalletInfoResult w))))))
               (\<lambda>_. throw internal_error)))"

definition getWalletInfo :: "int \<Rightarrow> ('n, 'e) wallet_env_scheme \<Rightarrow> nat
    \<Rightarrow> entities \<Rightarrow> entities \<Rightarrow> entities \<Rightarrow> entities \<Rightarrow> entities \<Rightarrow> ('s tip_state_scheme, plain_wallet) act" where
  "getWalletInfo now env fuel active legacy bip49 bip84 pubkeys =
     (if \<not> checkEntities active legacy bip49 bip84 pubkeys
      then ask (\<lambda>s. formatGetWalletInfoResult (new_wallet_info (w_latest s) no_entities))
      else let active = mergeEntities active legacy bip49 bip84 pubkeys
           in bindA (ask (\<lambda>s. new_wallet_info (w_latest s) active)) (\<lambda>w.
              catchA (bindA (newXpubs now env legacy bip49 bip84) (\<lambda>_.
                bindA (ensureHdAccounts now env fuel active) (\<lambda>_.
                bindA (askDb (\<lambda>d. loadHdAccountsInfo env d w)) (\<lambda>w.
                bindA (newAddresses legacy bip49 bip84 pubkeys) (\<lambda>_.
                bindA (ensureAddresses now env active) (\<lambda>_.
                bindA (ensureActive env active) (\<lambda>_.
                  askDb (\<lambda>d. formatGetWalletInfoResult (postProcess (loadTransactions 0 (we_page env) True d
                    (loadAddressesInfo d (walletFilterAddresses d w))))))))))))
               (\<lambda>_. throw internal_error)))"

definition getWalletUtxos :: "int \<Rightarrow> ('n, 'e) wallet_env_scheme \<Rightarrow> nat
    \<Rightarrow> entities \<Rightarrow> entities \<Rightarrow> entities \<Rightarrow> entities \<Rightarrow> entities \<Rightarrow> ('s tip_state_scheme, wallet_utxo list) act" where
  "getWalletUtxos now env fuel active legacy bip49 bip84 pubkeys =
     (if \<not> checkEntities active legacy bip49 bip84 pubkeys then ret []
      else let active = mergeEntities active legacy bip49 bip84 pubkeys
           in bindA (ask (\<lambda>s. new_wallet_info (w_latest s) active)) (\<lambda>w.
              catchA (bindA (newXpubs now env legacy bip49 bip84) (\<lambda>_.
                bindA (ensureHdAccounts now env fuel active) (\<lambda>_.
                bindA (newAddresses legacy bip49 bip84 pubkeys) (\<lambda>_.
                bindA (ensureAddresses now env active) (\<lambda>_.
                bindA (ensureActive env active) (\<lambda>_.
                  ask (\<lambda>s. wl_utxos (postProcess (loadUtxos (tip_height (w_latest s)) (w_db s)
                    (walletFilterAddresses (w_db s) w))))))))))
               (\<lambda>_. throw internal_error)))"

text \<open>A page of transactions, with the page and the length that were asked for.\<close>

record wallet_page =
  wp_n_tx :: int
  wp_page :: "nat option"
  wp_n_tx_page :: "nat option"
  wp_txs :: "wallet_tx list"

definition getWalletTransactions :: "('n, 'e) wallet_env_scheme \<Rightarrow> entities \<Rightarrow> nat option \<Rightarrow> nat option
    \<Rightarrow> ('s tip_state_scheme, wallet_page) act" where
  "getWalletTransactions env e page cnt =
     (let r = \<lparr>wp_n_tx = 0, wp_page = page, wp_n_tx_page = cnt, wp_txs = []\<rparr>
      in if e_xpubs e = [] \<and> e_addrs e = [] then ret r
         else ask (\<lambda>s.
           let d = w_db s;
               p = (case page of None \<Rightarrow> 0 | Some p \<Rightarrow> p); n = (case cnt of None \<Rightarrow> we_page env | Some n \<Rightarrow> n);
               w = walletFilterAddresses d (new_wallet_info (w_latest s) e);
               w = postProcess (loadTransactions p n False d (loadNbTransactions d w))
           in r\<lparr>wp_n_tx := wl_nTx w, wp_txs := wl_txs w\<rparr>))"

section \<open>The requests keep the schema and return\<close>

lemma keeps_wf_rpc [keeps_intros]: "keeps wf (fetchTransactions env n txids)"
  unfolding fetchTransactions_def by (intro keeps_intros keeps_rpc(5)) simp_all

lemma keeps_wf_scan [keeps_intros]: "keeps wf (xpubScan env x type c G fuel d u txids)"
proof (induction fuel arbitrary: d u txids)
  case (Suc fuel)
  have look: "keeps wf (lookupBatch env addrs u txids)" for addrs u txids
    unfolding lookupBatch_def Let_def by (auto intro!: keeps_intros split: prod.split)
  have "keeps wf (setProgress x c n)" for n
    unfolding setProgress_def by (intro keeps_intros) (auto split: option.split claim.split)
  then show ?case unfolding xpubScan.simps
    by (auto intro!: keeps_intros Suc look split: prod.split option.split)
qed (simp add: keeps_intros)

lemma keeps_wf_importTransactions [keeps_intros]: "keeps wf (importTransactions now addrs txs)"
  unfolding importTransactions_def addTransactions_import_def addOutputs_import_def addInputs_import_def Let_def
  by (intro keeps_intros keeps_askDb) (auto intro: wf_intros)

lemma keeps_wf_account [keeps_intros]:
  "keeps wf (getDb (ensureHDAccountId now xpub type))" "keeps wf (tryDb (addAddressesToHDAccount xpub chunk))"
  "keeps wf (onDb (deleteHDAccount xpub))" "keeps wf (tryDb (setLockHDAccountType xpub lock))" "keeps wf (onDb (addAddresses as))"
  by (intro keeps_intros; auto intro: wf_intros)+

lemma keeps_wf_import [keeps_intros]: "keeps wf (importHDAccount now env fuel xpub type gapLimit startIndex)"
proof -
  have "keeps wf (scanAndStore now env fuel x type gapLimit startIndex)" for x
    unfolding scanAndStore_def Let_def by (auto intro!: keeps_intros split: prod.split)
  then show ?thesis unfolding importHDAccount_def claimImport_def releaseImport_def by (auto intro!: keeps_intros)
qed

lemma keeps_wf_importAddresses [keeps_intros]: "keeps wf (importAddresses now env addrs filterAddr)"
  unfolding importAddresses_def claimAll_def importClaimed_def claimImport_def releaseImport_def
  by (auto intro!: keeps_intros)

lemma keeps_wf_services [keeps_intros]:
  "keeps wf (createHdAccount now env xpub scheme)" "keeps wf (restoreHdAccount now env' fuel xpub scheme force)"
  unfolding createHdAccount_def newHdAccount_def restoreHdAccount_def derivationOverrideCheck_def lockHdAccount_def getAccount_def Let_def
  by (auto intro!: keeps_intros split: option.split)

lemma keeps_wf_prepare [keeps_intros]:
  "keeps wf (newXpubs now env legacy bip49 bip84)" "keeps wf (newAddresses legacy bip49 bip84 pubkeys)"
  "keeps wf (prepareWallet now env fuel active)"
  unfolding newXpubs_def newBIP_def newAddresses_def prepareWallet_def ensureHdAccounts_def ensureHdAccount_def
    ensureAddresses_def restoreAddresses_def ensureActive_def forceEnsureAddressesForActivePubkeys_def
  by (auto intro!: keeps_intros split: sum.split)

text \<open>Imports end when the source reports addresses in use below an index only.\<close>

definition imports_end :: "('n, 'e) wallet_env_scheme \<Rightarrow> nat \<Rightarrow> bool" where
  "imports_end env fuel \<longleftrightarrow>
     faithful_pool (ie_exec env) \<and> 0 \<le> ie_gap_external env \<and> 0 \<le> ie_gap_internal env \<and>
     (\<exists>N. (\<forall>xpub. used_below env xpub BIP44 N) \<and> nat (N + 1) < fuel)"

lemma returns_importHDAccount:
  assumes "imports_end env fuel"
  shows "returns (importHDAccount now env fuel (Some xpub) BIP44 None None :: ('s import_state_scheme, bool) act)"
proof -
  obtain N where "used_below env xpub BIP44 N" "nat (N + 1) < fuel" using assms by (auto simp: imports_end_def)
  then have "returns (scanAndStore now env fuel xpub BIP44 None None :: ('s import_state_scheme, unit) act)"
    using assms by (intro returns_scanAndStore [of env xpub BIP44 N]) (simp_all add: imports_end_def)
  then show ?thesis
    unfolding importHDAccount_def claimImport_def releaseImport_def by (auto intro!: returns_intros)
qed

lemma returns_importAddresses [returns_intros]: "returns (importAddresses now env addrs filterAddr)"
  unfolding importAddresses_def claimAll_def importClaimed_def claimImport_def releaseImport_def
  by (auto intro!: returns_intros)

lemma returns_prepare [returns_intros]:
  "returns (newXpubs now env legacy bip49 bip84)" "returns (newAddresses legacy bip49 bip84 pubkeys)"
  "imports_end env' fuel \<Longrightarrow> returns (prepareWallet now env' fuel active)"
  unfolding newXpubs_def newBIP_def newAddresses_def prepareWallet_def ensureHdAccounts_def ensureHdAccount_def
    ensureAddresses_def restoreAddresses_def ensureActive_def forceEnsureAddressesForActivePubkeys_def restoreHdAccount_def
    derivationOverrideCheck_def lockHdAccount_def getAccount_def Let_def
  by (auto intro!: returns_intros returns_createHdAccount returns_importHDAccount split: sum.split option.split)

section \<open>The loads, in any order\<close>

definition load_balance :: "db \<Rightarrow> load \<Rightarrow> int" where
  "load_balance d l =
     (case l of Load_account x \<Rightarrow> getHDAccountBalance x d | Load_address a \<Rightarrow> the (getAddressBalance (Some a) d) | _ \<Rightarrow> 0)"

definition load_effect :: "('n, 'e) wallet_env_scheme \<Rightarrow> db \<Rightarrow> load list \<Rightarrow> wallet_info \<Rightarrow> wallet_info \<Rightarrow> bool" where
  "load_effect env d ls w w' \<longleftrightarrow>
     wl_entities w' = wl_entities w
     \<and> wl_finalBalance w' = wl_finalBalance w + (\<Sum>l\<leftarrow>ls. load_balance d l)
     \<and> address_total w' = address_total w + (\<Sum>l\<leftarrow>ls. load_balance d l)
     \<and> utxo_total w' = utxo_total w + int (count_list ls Load_utxos) * wallet_balance d (wl_entities w)
     \<and> (Load_txs \<notin> set ls \<longrightarrow> wl_txs w' = wl_txs w)"

lemma getFees_frame: "keeps (\<lambda>s. w_db s = d) (getFees env)" "returns (getFees env)"
  unfolding getFees_def refresh_def on_fees_def catchLog_def
  by (auto intro!: keeps_intros returns_intros keeps_remote)

lemma loadFeesInfo_frame: "keeps (\<lambda>s. w_db s = d) (loadFeesInfo env w)" "returns (loadFeesInfo env w)"
  unfolding loadFeesInfo_def getEstimatorFees_def
  by (auto intro!: keeps_intros returns_intros getFees_frame)

lemma loadFeesInfo_Inr:
  "loadFeesInfo env w s = Some (Inr w', t) \<Longrightarrow> \<exists>fees est. w' = w\<lparr>wl_fees := fees, wl_estimatorFees := est\<rparr>"
  by (auto simp: loadFeesInfo_def bindA_Inr act_defs)

lemma do_load_frame: "keeps (\<lambda>s. w_db s = d) (do_load env w l)" "returns (do_load env w l)"
  unfolding do_load_def by (cases l; simp; auto intro!: keeps_intros returns_intros loadFeesInfo_frame)+

lemma do_load_Inr:
  assumes "do_load env w l s = Some (Inr w', t)" and "wf s" and "distinct (e_addrs (wl_entities w))"
  shows "load_effect env (w_db s) [l] w w'"
proof (cases l)
  case Load_fees
  then show ?thesis using assms(1)
    by (auto simp: do_load_def load_effect_def load_balance_def address_total_def utxo_total_def dest!: loadFeesInfo_Inr)
next
  case Load_utxos
  then show ?thesis using assms loadUtxos_total [OF assms(2,3)]
    by (auto simp: do_load_def load_effect_def load_balance_def loadUtxos_frame address_total_def act_defs)
next
  case Load_txs
  then show ?thesis using assms(1)
    by (auto simp: do_load_def load_effect_def load_balance_def loadTransactions_frame address_total_def utxo_total_def)
qed (use assms in \<open>auto simp: do_load_def load_effect_def load_balance_def loadAccountInfo_frame loadAddressInfo_frame utxo_total_def\<close>)

lemma load_effect_trans: "load_effect env d ls w u \<Longrightarrow> load_effect env d ls' u v \<Longrightarrow> load_effect env d (ls @ ls') w v"
  by (simp add: load_effect_def algebra_simps)

lemma loads_Inr:
  assumes "foldA (do_load env) w ls s = Some (Inr w', t)" and "wf s" and "distinct (e_addrs (wl_entities w))"
  shows "load_effect env (w_db s) ls w w' \<and> w_db t = w_db s"
  using assms
proof (induction ls arbitrary: w s)
  case (Cons l ls)
  obtain u s' where step: "do_load env w l s = Some (Inr u, s')" and rest: "foldA (do_load env) u ls s' = Some (Inr w', t)"
    using Cons.prems(1) by (auto simp: bindA_Inr)
  have one: "load_effect env (w_db s) [l] w u" using do_load_Inr [OF step Cons.prems(2,3)] .
  have same: "w_db s' = w_db s" using keepsD [OF do_load_frame(1) step] by blast
  have "load_effect env (w_db s) ls u w' \<and> w_db t = w_db s"
    using Cons.IH [OF rest] Cons.prems(2,3) one same by (simp add: load_effect_def)
  then show ?case using load_effect_trans [OF one] by simp
qed (simp add: load_effect_def act_defs)

lemma foldA_append: "foldA f a (xs @ ys) = bindA (foldA f a xs) (\<lambda>b. foldA f b ys)"
  by (induction xs arbitrary: a) (simp_all add: fun_eq_iff bindA_def act_defs split: option.split sum.split)

lemma distinct_splice1: "distinct xs \<Longrightarrow> distinct (splice1 i xs)"
  using distinct_append [of "take i xs" "drop i xs"] set_drop_subset_set_drop [of i "Suc i" xs]
  by (auto simp: splice1_def)

lemma filterAddresses_distinct: "distinct (e_addrs e) \<Longrightarrow> distinct (e_addrs (filterAddresses d e))"
  unfolding filterAddresses_def
  by (rule fold_inv [where P = "\<lambda>e. distinct (e_addrs e)"]) (auto simp: distinct_splice1 split: prod.split option.split)

lemma loads_totals:
  assumes "mset ls = mset (loads e)"
  shows "(\<Sum>l\<leftarrow>ls. load_balance d l) = wallet_balance d e" and "count_list ls Load_utxos = 1"
    and "\<exists>pre post. ls = pre @ Load_txs # post \<and> Load_txs \<notin> set pre \<and> Load_txs \<notin> set post"
proof -
  have "(\<Sum>l\<leftarrow>ls. load_balance d l) = (\<Sum>l\<leftarrow>loads e. load_balance d l)"
    using assms by (metis mset_map sum_mset_sum_list)
  then show "(\<Sum>l\<leftarrow>ls. load_balance d l) = wallet_balance d e"
    by (simp add: loads_def load_balance_def wallet_balance_def comp_def)
  have count: "count_list ls l = count_list (loads e) l" for l
    using assms by (metis count_mset)
  have "count_list (map Load_account xs) l = 0" if "\<And>x. l \<noteq> Load_account x" for xs l
    using that by (induction xs) auto
  moreover have "count_list (map Load_address xs) l = 0" if "\<And>x. l \<noteq> Load_address x" for xs l
    using that by (induction xs) auto
  ultimately have one: "count_list ls Load_utxos = 1" "count_list ls Load_txs = 1"
    by (simp_all add: count loads_def)
  show "count_list ls Load_utxos = 1" by (rule one)
  have "Load_txs \<in> set ls" using one(2) by (metis count_notin zero_neq_one)
  then obtain pre post where ls: "ls = pre @ Load_txs # post" "Load_txs \<notin> set pre" by (meson split_list_first)
  then have "count_list post Load_txs = 0" using one(2) by simp
  then show "\<exists>pre post. ls = pre @ Load_txs # post \<and> Load_txs \<notin> set pre \<and> Load_txs \<notin> set post"
    using ls by (auto simp: count_list_0_iff)
qed

lemma running_balances_nth:
  assumes "map (\<lambda>t. (wt_balance t, at_result (wt_tx t))) us = map (\<lambda>t. (wt_balance t, at_result (wt_tx t))) (running_balances b ts)"
    and "k < length us"
  shows "wt_balance (us ! k) = Some (b - (\<Sum>x\<leftarrow>take k us. at_result (wt_tx x)))"
proof -
  note eq = assms(1) [unfolded running_balances_spec]
  have len: "length us = length ts" using arg_cong [OF eq, of length] by simp
  have nth: "wt_balance (us ! j) = Some (b - (\<Sum>t\<leftarrow>take j ts. at_result (wt_tx t))) \<and> at_result (wt_tx (us ! j)) = at_result (wt_tx (ts ! j))"
    if "j < length us" for j
    using arg_cong [OF eq, of "\<lambda>xs. xs ! j"] that len by simp
  have "map (\<lambda>t. at_result (wt_tx t)) us = map (\<lambda>t. at_result (wt_tx t)) ts"
    by (rule nth_equalityI) (simp_all add: len nth)
  then have "(\<Sum>x\<leftarrow>take k us. at_result (wt_tx x)) = (\<Sum>x\<leftarrow>take k ts. at_result (wt_tx x))"
    by (metis take_map)
  then show ?thesis using nth [OF assms(2)] by simp
qed

lemma loadWallet_amounts:
  fixes d :: db
  defines "e \<equiv> \<lambda>w. filterAddresses d (wl_entities w)"
  assumes "loadWallet env sched w s = Some (Inr w', t)" and "wf s" and "w_db s = d" and "distinct (e_addrs (wl_entities w))"
    and "\<And>ls. mset (sched ls) = mset ls" and "wl_finalBalance w = 0" and "wl_utxos w = []" and "wl_addresses w = []"
  shows "w_db t = d \<and> wl_finalBalance w' = wallet_balance d (e w) \<and> utxo_total w' = wallet_balance d (e w)
    \<and> address_total w' = wallet_balance d (e w)
    \<and> (\<exists>pre post. sched (loads (e w)) = pre @ Load_txs # post \<and>
         (\<forall>k<length (wl_txs w'). wt_balance (wl_txs w' ! k) =
            Some ((\<Sum>l\<leftarrow>pre. load_balance d l) - (\<Sum>x\<leftarrow>take k (wl_txs w'). at_result (wt_tx x)))))"
proof -
  let ?w = "walletFilterAddresses d w"
  let ?ls = "sched (loads (e w))"
  have ent: "wl_entities ?w = e w" by (simp add: walletFilterAddresses_def e_def)
  have dist: "distinct (e_addrs (wl_entities ?w))" using assms(5) by (simp add: ent e_def filterAddresses_distinct)
  note tot = loads_totals [OF assms(6) [of "loads (e w)"]]
  obtain u where run: "foldA (do_load env) ?w ?ls s = Some (Inr u, t)" and w': "w' = postProcess u"
    using assms(2,4) by (auto simp: loadWallet_def bindA_Inr ent act_defs)
  have eff: "load_effect env d ?ls ?w u \<and> w_db t = d" using loads_Inr [OF run assms(3) dist] assms(4) by simp
  have am: "amounts w' = amounts u"
    by (simp add: w' postProcess_def amounts_postProcessAddresses amounts_postProcessHdAccounts)
  have totals: "wl_finalBalance u = wallet_balance d (e w)" "utxo_total u = wallet_balance d (e w)" "address_total u = wallet_balance d (e w)"
    using eff tot(1,2) assms(7-9)
    by (simp_all add: load_effect_def ent) (simp_all add: utxo_total_def address_total_def walletFilterAddresses_def e_def)
  obtain pre post where split: "?ls = pre @ Load_txs # post" "Load_txs \<notin> set post" using tot(3) by blast
  then obtain a b s1 s2 where pre: "foldA (do_load env) ?w pre s = Some (Inr a, s1)"
    and mid: "do_load env a Load_txs s1 = Some (Inr b, s2)" and post: "foldA (do_load env) b post s2 = Some (Inr u, t)"
    using run by (auto simp: foldA_append bindA_Inr)
  have a: "load_effect env d pre ?w a" "w_db s1 = d" using loads_Inr [OF pre assms(3) dist] assms(4) by auto
  have b: "b = loadTransactions 0 (we_page env) True d a" "s2 = s1" using mid a(2) by (auto simp: do_load_def)
  have "wl_txs u = wl_txs b"
    using loads_Inr [OF post] a b assms(3,4) dist split(2) by (simp add: load_effect_def loadTransactions_frame)
  then obtain txs where txs: "wl_txs u = running_balances (\<Sum>l\<leftarrow>pre. load_balance d l) txs"
    using a(1) b(1) assms(7) by (auto simp: loadTransactions_def Let_def load_effect_def walletFilterAddresses_def)
  have "wt_balance (wl_txs w' ! k) = Some ((\<Sum>l\<leftarrow>pre. load_balance d l) - (\<Sum>x\<leftarrow>take k (wl_txs w'). at_result (wt_tx x)))"
    if "k < length (wl_txs w')" for k
    using am that by (intro running_balances_nth [of _ _ txs]) (simp_all add: amounts_def txs)
  then show ?thesis
    using eff am totals split(1) by (auto simp: amounts_def utxo_total_def address_total_def)
qed

section \<open>The balance of a wallet\<close>

lemma getFullWalletInfo_Inr:
  fixes active legacy bip49 bip84 pubkeys
  defines "m \<equiv> mergeEntities active legacy bip49 bip84 pubkeys"
  assumes "getFullWalletInfo now env fuel sched active legacy bip49 bip84 pubkeys s = Some (r, t)"
    and "checkEntities active legacy bip49 bip84 pubkeys" and "wf s"
  shows "case r of
      Inl x \<Rightarrow> x = internal_error
    | Inr p \<Rightarrow> \<exists>w s'. loadWallet env sched (new_wallet_info (w_latest s) m) s' = Some (Inr w, t) \<and> wf s'
        \<and> p = formatGetFullWalletInfoResult w"
proof -
  have keep: "wf s4" if "newXpubs now env legacy bip49 bip84 s = Some (r1, s2)" "newAddresses legacy bip49 bip84 pubkeys s2 = Some (r2, s3)"
    "prepareWallet now env fuel m s3 = Some (r3, s4)" for r1 r2 r3 s2 s3 s4
    using that assms(4) by (metis keepsD keeps_wf_prepare)
  note run = assms(2) [unfolded getFullWalletInfo_def m_def [symmetric] Let_def]
  show ?thesis
  proof (cases r)
    case (Inl x)
    then show ?thesis using run assms(3) by (simp add: catchA_Some)
  next
    case (Inr p)
    obtain s2 s3 s4 w where "newXpubs now env legacy bip49 bip84 s = Some (Inr (), s2)"
      "newAddresses legacy bip49 bip84 pubkeys s2 = Some (Inr (), s3)" "prepareWallet now env fuel m s3 = Some (Inr (), s4)"
      and "loadWallet env sched (new_wallet_info (w_latest s) m) s4 = Some (Inr w, t)" "p = formatGetFullWalletInfoResult w"
      using run assms(3) Inr by (auto simp: catchA_Some bindA_Inr act_defs)
    with keep show ?thesis unfolding Inr by (auto intro!: exI [of _ w] exI [of _ s4])
  qed
qed

lemma format_full:
  "pw_final_balance (formatGetFullWalletInfoResult w) = wl_finalBalance w"
  "pw_unspent_outputs (formatGetFullWalletInfoResult w) = Some (wl_utxos w)" "pw_txs (formatGetFullWalletInfoResult w) = wl_txs w"
  "(\<Sum>a\<leftarrow>pw_addresses (formatGetFullWalletInfoResult w). pj_final_balance a) = address_total w"
  by (simp_all add: formatGetFullWalletInfoResult_def toPojo_def without_origin_def hdToPojo_def addrToPojo_def address_total_def
      Let_def comp_def) (intro arg_cong [where f = sum_list] map_cong refl, simp add: hdToPojo_def addrToPojo_def split: wallet_address.split)

lemma returns_getFullWalletInfo:
  assumes "imports_end env fuel"
  shows "returns (getFullWalletInfo now env fuel sched active legacy bip49 bip84 pubkeys)"
  unfolding getFullWalletInfo_def loadWallet_def Let_def
  by (auto intro!: returns_intros do_load_frame assms)

text \<open>C6. The balance of a wallet. A request for the full information of a wallet returns, with the internal error or with
  the wallet. Then, in whatever order the concurrent loads end, the final balance is the sum of the unspent
  outputs it lists and the sum of the balances of the accounts and addresses it lists, and both are those
  of the database. The balances shown after the transactions go down from one transaction to the next by its result;
  they start from what was loaded before the transactions were, which is the final balance only if
  the accounts and addresses all were.\<close>

theorem getFullWalletInfo_balance:
  fixes active legacy bip49 bip84 pubkeys :: entities
  defines "e \<equiv> \<lambda>d. filterAddresses d (mergeEntities active legacy bip49 bip84 pubkeys)"
  assumes "wf s" and "aligned active" and "distinct (e_addrs active)" and "\<And>ls. mset (sched ls) = mset ls"
    and "imports_end env fuel" and "checkEntities active legacy bip49 bip84 pubkeys"
  shows "\<exists>r t. getFullWalletInfo now env fuel sched active legacy bip49 bip84 pubkeys s = Some (r, t) \<and> (case r of
      Inl x \<Rightarrow> x = internal_error
    | Inr p \<Rightarrow> pw_final_balance p = wallet_balance (w_db t) (e (w_db t))
      \<and> (\<exists>utxos. pw_unspent_outputs p = Some utxos \<and> (\<Sum>u\<leftarrow>utxos. wu_value u) = pw_final_balance p)
      \<and> (\<Sum>a\<leftarrow>pw_addresses p. pj_final_balance a) = pw_final_balance p
      \<and> (\<exists>pre post. sched (loads (e (w_db t))) = pre @ Load_txs # post \<and>
           (\<forall>k<length (pw_txs p). wt_balance (pw_txs p ! k) =
              Some ((\<Sum>l\<leftarrow>pre. load_balance (w_db t) l) - (\<Sum>x\<leftarrow>take k (pw_txs p). at_result (wt_tx x))))))"
proof -
  obtain r t where run: "getFullWalletInfo now env fuel sched active legacy bip49 bip84 pubkeys s = Some (r, t)"
    using returnsD [OF returns_getFullWalletInfo [OF assms(6)]] by blast
  note res = getFullWalletInfo_Inr [OF run assms(7,2)]
  have dist: "distinct (e_addrs (mergeEntities active legacy bip49 bip84 pubkeys))" using mergeEntities_spec(2) [OF assms(3,4)] .
  show ?thesis
  proof (cases r)
    case (Inr p)
    then obtain w s' where w: "loadWallet env sched (new_wallet_info (w_latest s) (mergeEntities active legacy bip49 bip84 pubkeys)) s' = Some (Inr w, t)"
      "wf s'" "p = formatGetFullWalletInfoResult w" using res by auto
    have ent: "wl_entities (new_wallet_info lb m) = m" "wl_finalBalance (new_wallet_info lb m) = 0" "wl_utxos (new_wallet_info lb m) = []"
      "wl_addresses (new_wallet_info lb m) = []" for lb m by (simp_all add: new_wallet_info_def)
    note am = loadWallet_amounts [OF w(1,2) refl, unfolded ent, OF dist assms(5) refl refl refl]
    then have "w_db s' = w_db t" by simp
    then show ?thesis
      using run am by (intro exI [of _ r] exI [of _ t]) (simp add: Inr w(3) format_full e_def utxo_total_def)
  qed (use res run in auto)
qed

section \<open>Witnesses\<close>

definition demo_wallet_env :: "int list wallet_env" where
  "demo_wallet_env = tip_env.extend (demo_fee_node\<lparr>ie_sources := \<lambda>_ _ _. Inr []\<rparr>)
     \<lparr>we_depth = \<lambda>_. 3, we_page = 10, we_local_index = True\<rparr>"

definition demo_request :: entities where
  "demo_request = no_entities\<lparr>e_addrs := [''a''], e_pubkeys := [None]\<rparr>"

definition demo_wallet :: tip_state where
  "demo_wallet = demo_tip\<lparr>w_db := addOutputs [\<lparr>no_txnID = 1, no_addrID = 1, no_outIndex = 0, no_outAmount = 700, no_outScript = ''s''\<rparr>]
     (addTransactions 5 [\<lparr>nt_txid = ''t'', nt_version = 1, nt_locktime = 0, nt_created = Some 5\<rparr>] (addAddresses [''a''] empty_db))\<rparr>"

definition demo_answer :: "(load list \<Rightarrow> load list) \<Rightarrow> (int \<times> int list \<times> int option list) option" where
  "demo_answer sched =
     (case getFullWalletInfo 0 demo_wallet_env 1 sched demo_request no_entities no_entities no_entities no_entities demo_wallet of
        Some (Inr p, _) \<Rightarrow> Some (pw_final_balance p, map wu_value (the (pw_unspent_outputs p)), map wt_balance (pw_txs p))
      | _ \<Rightarrow> None)"

lemma demo_imports_end: "imports_end demo_wallet_env 1"
  by (auto simp: imports_end_def demo_wallet_env_def demo_fee_node_def demo_import_def tip_env.defs import_env.defs faithful_pool_def
      used_below_def intro: exI [of _ "- 1"])

lemma getFullWalletInfo_balance_witness:
  "demo_answer (\<lambda>ls. ls) = Some (700, [700], [Some 700]) \<and>
   (\<exists>p t. getFullWalletInfo 0 demo_wallet_env 1 (\<lambda>ls. ls) demo_request no_entities no_entities no_entities no_entities demo_wallet = Some (Inr p, t)
     \<and> (\<Sum>a\<leftarrow>pw_addresses p. pj_final_balance a) = pw_final_balance p)"
proof -
  have wf: "wf demo_wallet" by (simp add: demo_wallet_def wf_total wf_empty_db)
  have req: "aligned demo_request" "distinct (e_addrs demo_request)"
    by (simp_all add: demo_request_def no_entities_def aligned_def)
  have check: "checkEntities demo_request no_entities no_entities no_entities no_entities"
    by (simp add: checkEntities_def demo_request_def)
  note spec = getFullWalletInfo_balance [OF wf req refl demo_imports_end check, of 0]
  have answer: "demo_answer (\<lambda>ls. ls) = Some (700, [700], [Some 700])" by code_simp
  then obtain p t where run: "getFullWalletInfo 0 demo_wallet_env 1 (\<lambda>ls. ls) demo_request no_entities no_entities no_entities no_entities demo_wallet
      = Some (Inr p, t)"
    unfolding demo_answer_def by (auto split: option.splits prod.splits sum.splits)
  then have "(\<Sum>a\<leftarrow>pw_addresses p. pj_final_balance a) = pw_final_balance p" using spec by (elim exE conjE) auto
  then show ?thesis using answer run by blast
qed

text \<open>
  When the page of transactions is there before the balances, the balances shown start from zero.
\<close>

lemma transactions_first:
  "demo_answer rev = Some (700, [700], [Some 0])"
  by code_simp

end
