(* ===== verification/Import_Sources.thy ===== *)
theory Import_Sources
  imports Remote_Importer Entities
begin

text \<open>
  The sources of the importer: \<^verbatim>\<open>lib/remote-importer/sources.ts\<close>, its choices for mainnet and testnet, and
  the wrappers of the five services that tell which transactions an address has. A request to a service is a
  parameter of the model: a function of the number of calls made before, and of the URI or the arguments
  sent. A client that follows the contract of a source does not depend on the one that is
  configured.
\<close>

section \<open>Services\<close>

datatype tip_answer = Text_tip string | Number_tip int | Other_tip

record source_env =
  se_limit :: int
  se_pay :: "payment \<Rightarrow> script \<Rightarrow> string option result"
  se_hash :: "string \<Rightarrow> string result"
  se_height :: "nat \<Rightarrow> int option"
  se_unspents :: "nat \<Rightarrow> string list \<Rightarrow> (string \<times> string) list result"
  se_batch :: bool
  se_electrum :: "nat \<Rightarrow> string \<Rightarrow> string list result"
  se_electrum_batch :: "nat \<Rightarrow> string list \<Rightarrow> (string \<times> string list) list result"
  se_electrum_tip :: "nat \<Rightarrow> int option result"
  se_history :: "nat \<Rightarrow> string \<Rightarrow> string list result"
  se_histories :: "nat \<Rightarrow> string \<Rightarrow> (string \<times> string list) list result"
  se_rest_tip :: "nat \<Rightarrow> string option result"
  se_oxt :: "nat \<Rightarrow> string \<Rightarrow> (int \<times> string list) result"
  se_oxt_multi :: "nat \<Rightarrow> string \<Rightarrow> (string \<times> string list) list result"
  se_oxt_tip :: "nat \<Rightarrow> string list result"
  se_esplora :: "nat \<Rightarrow> string \<Rightarrow> string list result"
  se_esplora_tip :: "nat \<Rightarrow> tip_answer result"

definition found :: "string \<Rightarrow> string list \<Rightarrow> source_result" where
  "found address txids = \<lparr>sr_address = address, sr_ntx = int (length txids), sr_txids = txids\<rparr>"

definition too_many :: "source_env \<Rightarrow> bool option \<Rightarrow> source_result \<Rightarrow> bool" where
  "too_many env filterAddr r \<longleftrightarrow> filterAddr = Some True \<and> se_limit env < sr_ntx r"

definition unless_too_many :: "source_env \<Rightarrow> bool option \<Rightarrow> source_result \<Rightarrow> source_result" where
  "unless_too_many env filterAddr r = (if too_many env filterAddr r then found (sr_address r) [] else r)"

text \<open>
  \<open>splice\<close> in a loop over the indices of the array: the entry after the one that goes away takes its
  place and is not looked at.
\<close>

primrec splice_loop :: "('a \<Rightarrow> bool) \<Rightarrow> nat \<Rightarrow> nat \<Rightarrow> 'a list \<Rightarrow> 'a list" where
  "splice_loop bad 0 i xs = xs"
| "splice_loop bad (Suc k) i xs = splice_loop bad k (Suc i) (if i < length xs \<and> bad (xs ! i) then splice1 i xs else xs)"

definition splice_bad :: "('a \<Rightarrow> bool) \<Rightarrow> 'a list \<Rightarrow> 'a list" where
  "splice_bad bad xs = splice_loop bad (length xs) 0 xs"

text \<open>\<open>Number.parseInt(t, 10)\<close>; \<open>None\<close> is \<open>NaN\<close>. An address that is \<open>undefined\<close> is written as a property name is.\<close>

definition parseInt :: "string \<Rightarrow> int option" where
  "parseInt t =
     (let t = dropWhile (\<lambda>c. let n = of_char c :: nat in n = 32 \<or> n = 160 \<or> 9 \<le> n \<and> n \<le> 13) t;
          neg = (case t of c # _ \<Rightarrow> c = CHR ''-'' | [] \<Rightarrow> False);
          t = (case t of c # r \<Rightarrow> if c = CHR ''-'' \<or> c = CHR ''+'' then r else t | [] \<Rightarrow> t);
          ds = takeWhile (\<lambda>c. let n = of_char c :: nat in 48 \<le> n \<and> n \<le> 57) t;
          v = foldl (\<lambda>v c. 10 * v + (int (of_char c) - 48)) 0 ds
      in if ds = [] then None else Some (if neg then - v else v))"

definition or_undefined :: "string option \<Rightarrow> string" where
  "or_undefined a = (case a of None \<Rightarrow> ''undefined'' | Some a \<Rightarrow> a)"

fun show_nat :: "nat \<Rightarrow> string" where
  "show_nat n = (if n < 10 then [char_of (48 + n)] else show_nat (n div 10) @ [char_of (48 + n mod 10)])"

definition show_int :: "int \<Rightarrow> string" where
  "show_int i = (if i < 0 then CHR ''-'' # show_nat (nat (- i)) else show_nat (nat i))"

definition join :: "char \<Rightarrow> string list \<Rightarrow> string" where
  "join c xs = (case xs of [] \<Rightarrow> [] | x # r \<Rightarrow> x @ concat (map (\<lambda>y. c # y) r))"

section \<open>bitcoind\<close>

definition descriptor :: "string \<Rightarrow> string" where "descriptor a = ''addr('' @ a @ '')''"

definition xlatScriptPubKey :: "source_env \<Rightarrow> string \<Rightarrow> string option" where
  "xlatScriptPubKey env scriptPubKey = outputScript2Address (se_pay env) (hex_bytes scriptPubKey)"

definition bitcoind_getAddress :: "source_env \<Rightarrow> string \<Rightarrow> bool option \<Rightarrow> ('s clocked_scheme, source_result) act" where
  "bitcoind_getAddress env address filterAddr =
     bindA (remote (\<lambda>k. se_unspents env k [descriptor address])) (\<lambda>unspents.
       ret (unless_too_many env filterAddr (found address (map fst unspents))))"

definition add_unspent :: "source_env \<Rightarrow> string \<times> string \<Rightarrow> (string \<times> string list) list \<Rightarrow> (string \<times> string list) list" where
  "add_unspent env r acc =
     (case truthy_str (xlatScriptPubKey env (snd r)) of None \<Rightarrow> acc | Some addr \<Rightarrow> js_push addr (fst r) acc)"

definition bitcoind_getAddresses :: "source_env \<Rightarrow> string list \<Rightarrow> bool option \<Rightarrow> ('s clocked_scheme, source_result list) act" where
  "bitcoind_getAddresses env addrs filterAddr =
     bindA (remote (\<lambda>k. se_unspents env k (map descriptor addrs))) (\<lambda>unspents.
       ret (splice_bad (too_many env filterAddr)
         (map (\<lambda>(a, txids). found a txids) (fold (add_unspent env) unspents []))))"

section \<open>Local indexer\<close>

text \<open>The requests that are not batched are sent five at a time; here they go out one after another.\<close>

definition electrum_getAddress :: "source_env \<Rightarrow> string \<Rightarrow> bool option \<Rightarrow> ('s clocked_scheme, source_result) act" where
  "electrum_getAddress env address filterAddr =
     bindA (lift (se_hash env address)) (\<lambda>scriptHash.
     bindA (remote (\<lambda>k. se_electrum env k scriptHash)) (\<lambda>results.
       ret (unless_too_many env filterAddr (found address results))))"

text \<open>The map from script hashes to addresses.\<close>

definition hash_map :: "source_env \<Rightarrow> string list \<Rightarrow> (string \<times> string) list result" where
  "hash_map env addrs =
     bindE (mapE (\<lambda>a. bindE (se_hash env a) (\<lambda>h. Inr (h, a))) addrs) (\<lambda>ps.
       Inr (fold (\<lambda>(h, a). js_set h a) ps []))"

definition electrum_getAddresses :: "source_env \<Rightarrow> string list \<Rightarrow> bool option \<Rightarrow> ('s clocked_scheme, source_result list) act" where
  "electrum_getAddresses env addrs filterAddr =
     bindA (lift (hash_map env addrs)) (\<lambda>addrOf.
     let hashes = map fst addrOf; entry = (\<lambda>h txids. found (or_undefined (map_of addrOf h)) txids)
     in bindA (if se_batch env
               then (case splitList hashes 50 of
                       None \<Rightarrow> unending
                     | Some cs \<Rightarrow>
                         bindA (mapA (\<lambda>chunk. remote (\<lambda>k. se_electrum_batch env k chunk)) cs) (\<lambda>rs.
                           ret (map (\<lambda>(h, txids). entry h txids) (concat rs))))
               else mapA (\<lambda>h. bindA (remote (\<lambda>k. se_electrum env k h)) (\<lambda>txids. ret (entry h txids))) hashes) (\<lambda>rs.
        ret (filter (\<lambda>r. \<not> too_many env filterAddr r) rs)))"

section \<open>Local indexer with a REST API\<close>

definition rest_getAddress :: "source_env \<Rightarrow> string \<Rightarrow> bool option \<Rightarrow> ('s clocked_scheme, source_result) act" where
  "rest_getAddress env address filterAddr =
     bindA (lift (se_hash env address)) (\<lambda>scriptHash.
     bindA (remote (\<lambda>k. se_history env k (''/blockchain/scripthash/'' @ scriptHash @ ''/history''))) (\<lambda>results.
       ret (unless_too_many env filterAddr (found address results))))"

definition histories_uri :: "string list \<Rightarrow> string" where
  "histories_uri hashes = ''/blockchain/scripthashes/history?scripthashes='' @ join (CHR '','') hashes"

definition rest_getAddresses :: "source_env \<Rightarrow> string list \<Rightarrow> bool option \<Rightarrow> ('s clocked_scheme, source_result list) act" where
  "rest_getAddresses env addrs filterAddr =
     bindA (lift (mapE (se_hash env) addrs)) (\<lambda>hashes.
     bindA (lift (hash_map env addrs)) (\<lambda>addrOf.
     bindA (remote (\<lambda>k. se_histories env k (histories_uri hashes))) (\<lambda>results.
       ret (splice_bad (too_many env filterAddr) (map (\<lambda>(a, txids). found a txids)
         (fold (\<lambda>(h, txids). js_set (or_undefined (map_of addrOf h)) txids) results []))))))"

section \<open>OXT\<close>

definition oxt_getAddress :: "source_env \<Rightarrow> string \<Rightarrow> bool option \<Rightarrow> ('s clocked_scheme, source_result) act" where
  "oxt_getAddress env address filterAddr =
     bindA (remote (\<lambda>k. se_oxt env k (''/addresses/'' @ address @ ''/txids?count='' @ show_int (se_limit env + 1)))) (\<lambda>(cnt, txids).
       let r = \<lparr>sr_address = address, sr_ntx = cnt, sr_txids = []\<rparr>
       in ret (if too_many env filterAddr r then r else r\<lparr>sr_txids := txids\<rparr>))"

definition oxt_uri :: "source_env \<Rightarrow> string list \<Rightarrow> string" where
  "oxt_uri env addrs = ''/addresses/multi/txids?count='' @ show_int (se_limit env + 1) @ ''&addresses='' @ join (CHR '','') addrs"

definition oxt_getAddresses :: "source_env \<Rightarrow> string list \<Rightarrow> bool option \<Rightarrow> ('s clocked_scheme, source_result list) act" where
  "oxt_getAddresses env addrs filterAddr =
     bindA (remote (\<lambda>k. se_oxt_multi env k (oxt_uri env addrs))) (\<lambda>results.
       ret (map (\<lambda>(a, txids).
         let r = found a txids in if too_many env filterAddr r then r\<lparr>sr_txids := []\<rparr> else r) results))"

section \<open>Esplora\<close>

definition NB_TXS_PER_PAGE :: nat where "NB_TXS_PER_PAGE = 25"

definition getTxsForAddress :: "source_env \<Rightarrow> string \<Rightarrow> string option \<Rightarrow> ('s clocked_scheme, string list) act" where
  "getTxsForAddress env address lastSeenTxid =
     (let uri = ''/api/address/'' @ address @ ''/txs'';
          uri = (case truthy_str lastSeenTxid of None \<Rightarrow> uri | Some t \<Rightarrow> uri @ ''/chain/'' @ t)
      in remote (\<lambda>k. se_esplora env k uri))"

primrec esplora_loop :: "nat \<Rightarrow> source_env \<Rightarrow> string \<Rightarrow> bool option \<Rightarrow> string option \<Rightarrow> string list
    \<Rightarrow> ('s clocked_scheme, source_result) act" where
  "esplora_loop 0 env address filterAddr lastSeenTxid acc = unending"
| "esplora_loop (Suc fuel) env address filterAddr lastSeenTxid acc =
     bindA (getTxsForAddress env address lastSeenTxid) (\<lambda>txids.
       if txids = [] then ret (found address acc)
       else let r = found address (acc @ txids)
            in if length txids < NB_TXS_PER_PAGE then ret r
               else if too_many env filterAddr r then ret (found address [])
               else esplora_loop fuel env address filterAddr (Some (last txids)) (acc @ txids))"

definition esplora_getAddress :: "nat \<Rightarrow> source_env \<Rightarrow> string \<Rightarrow> bool option \<Rightarrow> ('s clocked_scheme, source_result) act" where
  "esplora_getAddress fuel env address filterAddr = esplora_loop fuel env address filterAddr None []"

definition esplora_getAddresses :: "nat \<Rightarrow> source_env \<Rightarrow> string list \<Rightarrow> bool option \<Rightarrow> ('s clocked_scheme, source_result list) act" where
  "esplora_getAddresses fuel env addrs filterAddr = mapA (\<lambda>a. esplora_getAddress fuel env a filterAddr) addrs"

section \<open>The configured source\<close>

datatype source_kind = Bitcoind | Electrum | Rest | Oxt | Esplora

definition initSource_mainnet :: "string \<Rightarrow> source_kind" where
  "initSource_mainnet active =
     (if active = ''local_bitcoind'' then Bitcoind else if active = ''local_indexer'' then Electrum
      else if active = ''local_rest_indexer'' then Rest else Oxt)"

definition initSource_testnet :: "string \<Rightarrow> source_kind" where
  "initSource_testnet active =
     (if active = ''local_bitcoind'' then Bitcoind else if active = ''local_indexer'' then Electrum
      else if active = ''local_rest_indexer'' then Rest else Esplora)"

definition wrapper_getAddress :: "source_kind \<Rightarrow> nat \<Rightarrow> source_env \<Rightarrow> string \<Rightarrow> bool option \<Rightarrow> ('s clocked_scheme, source_result) act" where
  "wrapper_getAddress kind fuel env =
     (case kind of Bitcoind \<Rightarrow> bitcoind_getAddress env | Electrum \<Rightarrow> electrum_getAddress env | Rest \<Rightarrow> rest_getAddress env
      | Oxt \<Rightarrow> oxt_getAddress env | Esplora \<Rightarrow> esplora_getAddress fuel env)"

definition wrapper_getAddresses :: "source_kind \<Rightarrow> nat \<Rightarrow> source_env \<Rightarrow> string list \<Rightarrow> bool option \<Rightarrow> ('s clocked_scheme, source_result list) act" where
  "wrapper_getAddresses kind fuel env =
     (case kind of Bitcoind \<Rightarrow> bitcoind_getAddresses env | Electrum \<Rightarrow> electrum_getAddresses env | Rest \<Rightarrow> rest_getAddresses env
      | Oxt \<Rightarrow> oxt_getAddresses env | Esplora \<Rightarrow> esplora_getAddresses fuel env)"

definition bitcoind_tip :: "source_env \<Rightarrow> ('s clocked_scheme, int option) act" where
  "bitcoind_tip env = ask (\<lambda>s. se_height env (w_clock s))"

definition electrum_tip :: "source_env \<Rightarrow> ('s clocked_scheme, int option) act" where
  "electrum_tip env = remote (se_electrum_tip env)"

definition rest_tip :: "source_env \<Rightarrow> ('s clocked_scheme, int option) act" where
  "rest_tip env = bindA (remote (se_rest_tip env)) (\<lambda>height. ret (Option.bind height parseInt))"

definition oxt_tip :: "source_env \<Rightarrow> ('s clocked_scheme, int option) act" where
  "oxt_tip env = bindA (remote (se_oxt_tip env)) (\<lambda>data. ret (case data of [height] \<Rightarrow> parseInt height | _ \<Rightarrow> None))"

definition esplora_tip :: "source_env \<Rightarrow> ('s clocked_scheme, int option) act" where
  "esplora_tip env =
     bindA (remote (se_esplora_tip env)) (\<lambda>r.
       ret (case r of Text_tip t \<Rightarrow> parseInt t | Number_tip n \<Rightarrow> Some n | Other_tip \<Rightarrow> None))"

definition wrapper_tip :: "source_kind \<Rightarrow> source_env \<Rightarrow> ('s clocked_scheme, int option) act" where
  "wrapper_tip kind env =
     (case kind of Bitcoind \<Rightarrow> bitcoind_tip env | Electrum \<Rightarrow> electrum_tip env | Rest \<Rightarrow> rest_tip env
      | Oxt \<Rightarrow> oxt_tip env | Esplora \<Rightarrow> esplora_tip env)"

definition sources_getAddress :: "source_kind \<Rightarrow> nat \<Rightarrow> source_env \<Rightarrow> string \<Rightarrow> bool option \<Rightarrow> ('s clocked_scheme, source_result) act" where
  "sources_getAddress kind fuel env address filterAddr =
     catchA (bindA (wrapper_getAddress kind fuel env address filterAddr) (\<lambda>r.
         ret \<lparr>sr_address = address, sr_ntx = (if sr_ntx r \<noteq> 0 then sr_ntx r else int (length (sr_txids r))), sr_txids = sr_txids r\<rparr>))
       (\<lambda>_. ret (found address []))"

definition sources_getAddresses :: "source_kind \<Rightarrow> nat \<Rightarrow> source_env \<Rightarrow> string list \<Rightarrow> bool option \<Rightarrow> ('s clocked_scheme, source_result list) act" where
  "sources_getAddresses kind fuel env addrs filterAddr =
     catchA (bindA (wrapper_getAddresses kind fuel env addrs filterAddr) (\<lambda>results.
         ret (filter (\<lambda>r. \<not> too_many env filterAddr r) results)))
       (\<lambda>_. ret [])"

definition sources_tip :: "source_kind \<Rightarrow> source_env \<Rightarrow> ('s clocked_scheme, int option) act" where
  "sources_tip kind env = catchA (wrapper_tip kind env) (\<lambda>_. ret None)"

section \<open>What a source promises\<close>

text \<open>
  The answer to a request, \<open>told\<close> the transactions the source knows of each address: an entry is about an
  address that was asked for and gives these transactions, or is one that the client filters out, or is empty
  because there are too many of them; no address with transactions within the limit is missing.
\<close>

definition answers :: "source_env \<Rightarrow> (string \<Rightarrow> string list) \<Rightarrow> bool option \<Rightarrow> string list \<Rightarrow> source_result list \<Rightarrow> bool" where
  "answers env told filterAddr addrs rs \<longleftrightarrow>
     (\<forall>r\<in>set rs. too_many env filterAddr r \<or> sr_address r \<in> set addrs
        \<and> r = unless_too_many env filterAddr (found (sr_address r) (told (sr_address r)))) \<and>
     (\<forall>a\<in>set addrs. told a \<noteq> [] \<longrightarrow> \<not> too_many env filterAddr (found a (told a)) \<longrightarrow> found a (told a) \<in> set rs)"

locale import_source =
  fixes getAddresses :: "string list \<Rightarrow> bool option \<Rightarrow> ('s clocked_scheme, source_result list) act"
    and env :: source_env
    and serves :: "(string \<Rightarrow> string list) \<Rightarrow> bool option \<Rightarrow> string list \<Rightarrow> bool"
  assumes answered: "serves told filterAddr addrs \<Longrightarrow>
    \<exists>rs k. getAddresses addrs filterAddr s = Some (Inr rs, s\<lparr>w_clock := k\<rparr>) \<and> answers env told filterAddr addrs rs"
begin

lemma client:
  assumes "serves told filterAddr addrs"
  shows "\<exists>rs k. catchA (bindA (getAddresses addrs filterAddr) (\<lambda>results. ret (filter (\<lambda>r. \<not> too_many env filterAddr r) results)))
      (\<lambda>_. ret []) s = Some (Inr rs, s\<lparr>w_clock := k\<rparr>)
    \<and> answers env told filterAddr addrs rs \<and> (\<forall>r\<in>set rs. \<not> too_many env filterAddr r)"
proof -
  obtain rs k where "getAddresses addrs filterAddr s = Some (Inr rs, s\<lparr>w_clock := k\<rparr>)" and a: "answers env told filterAddr addrs rs"
    using answered [OF assms] by blast
  then have "catchA (bindA (getAddresses addrs filterAddr) (\<lambda>results. ret (filter (\<lambda>r. \<not> too_many env filterAddr r) results)))
      (\<lambda>_. ret []) s = Some (Inr (filter (\<lambda>r. \<not> too_many env filterAddr r) rs), s\<lparr>w_clock := k\<rparr>)"
    by (simp add: catchA_Some bindA_Inr ret_def)
  moreover have "answers env told filterAddr addrs (filter (\<lambda>r. \<not> too_many env filterAddr r) rs)"
    using a by (auto simp: answers_def)
  ultimately show ?thesis by auto
qed

end

section \<open>Faithful services\<close>

text \<open>
  A scan of the set of unspent outputs does not give the history of an address: it tells only the transactions
  with an output that the address still controls. Each script it answers is one of an address that
  was asked for, and each transaction is in the history.
\<close>

definition unspent_txids :: "source_env \<Rightarrow> string list \<Rightarrow> string \<Rightarrow> string list" where
  "unspent_txids env addrs a =
     (case se_unspents env 0 (map descriptor addrs) of
        Inl e \<Rightarrow> []
      | Inr us \<Rightarrow> map fst (filter (\<lambda>u. truthy_str (xlatScriptPubKey env (snd u)) = Some a) us))"

definition bitcoind_serves :: "source_env \<Rightarrow> (string \<Rightarrow> string list) \<Rightarrow> bool option \<Rightarrow> string list \<Rightarrow> bool" where
  "bitcoind_serves env told filterAddr addrs \<longleftrightarrow> (\<exists>us. (\<forall>k. se_unspents env k (map descriptor addrs) = Inr us) \<and>
     (\<forall>u\<in>set us. \<exists>a\<in>set addrs. truthy_str (xlatScriptPubKey env (snd u)) = Some a) \<and>
     (\<forall>a\<in>set addrs. told a = unspent_txids env addrs a))"

definition node_serves :: "source_env \<Rightarrow> (string \<Rightarrow> string list) \<Rightarrow> string list \<Rightarrow> bool" where
  "node_serves env hist addrs \<longleftrightarrow> bitcoind_serves env (unspent_txids env addrs) None addrs
     \<and> (\<forall>a\<in>set addrs. set (unspent_txids env addrs a) \<subseteq> set (hist a))"

text \<open>Distinct addresses have distinct hashes.\<close>

definition hashed :: "source_env \<Rightarrow> (string \<Rightarrow> string) \<Rightarrow> string list \<Rightarrow> bool" where
  "hashed env H addrs \<longleftrightarrow> inj_on H (set addrs) \<and> (\<forall>a\<in>set addrs. se_hash env a = Inr (H a))"

definition electrum_serves :: "source_env \<Rightarrow> (string \<Rightarrow> string list) \<Rightarrow> bool option \<Rightarrow> string list \<Rightarrow> bool" where
  "electrum_serves env hist filterAddr addrs \<longleftrightarrow> (\<exists>H. hashed env H addrs \<and>
     (\<forall>k. \<forall>a\<in>set addrs. se_electrum env k (H a) = Inr (hist a)) \<and>
     (\<forall>k as. set as \<subseteq> set addrs \<longrightarrow> se_electrum_batch env k (map H as) = Inr (map (\<lambda>a. (H a, hist a)) as)))"

definition rest_serves :: "source_env \<Rightarrow> (string \<Rightarrow> string list) \<Rightarrow> bool option \<Rightarrow> string list \<Rightarrow> bool" where
  "rest_serves env hist filterAddr addrs \<longleftrightarrow> (\<exists>H. hashed env H addrs \<and>
     (\<forall>k. se_histories env k (histories_uri (map H addrs)) = Inr (map (\<lambda>a. (H a, hist a)) addrs)))"

text \<open>OXT gives at most one more than the limit; a longer history is only known to be too long.\<close>

definition oxt_serves :: "source_env \<Rightarrow> (string \<Rightarrow> string list) \<Rightarrow> bool option \<Rightarrow> string list \<Rightarrow> bool" where
  "oxt_serves env hist filterAddr addrs \<longleftrightarrow>
     (\<forall>k. se_oxt_multi env k (oxt_uri env addrs) = Inr (map (\<lambda>a. (a, take (nat (se_limit env + 1)) (hist a))) addrs)) \<and>
     0 \<le> se_limit env \<and> (filterAddr = Some True \<or> (\<forall>a\<in>set addrs. int (length (hist a)) \<le> se_limit env + 1))"

text \<open>
  The pages of Esplora: the first has the transactions of the mempool (it lists at most 50) and 25 confirmed ones,
  the others have the 25 confirmed ones after the last one of a page; after one that is not confirmed there are none.
\<close>

definition esplora_pages :: "source_env \<Rightarrow> string \<Rightarrow> string list \<Rightarrow> string list \<Rightarrow> bool" where
  "esplora_pages env a pool confirmed \<longleftrightarrow> (\<forall>k.
     se_esplora env k (''/api/address/'' @ a @ ''/txs'') = Inr (pool @ take 25 confirmed) \<and>
     (\<forall>n<length confirmed. se_esplora env k (''/api/address/'' @ a @ ''/txs/chain/'' @ confirmed ! n) = Inr (take 25 (drop (Suc n) confirmed))) \<and>
     (confirmed = [] \<longrightarrow> (\<forall>t\<in>set pool. se_esplora env k (''/api/address/'' @ a @ ''/txs/chain/'' @ t) = Inr [])))"

definition esplora_serves :: "nat \<Rightarrow> source_env \<Rightarrow> (string \<Rightarrow> string list) \<Rightarrow> bool option \<Rightarrow> string list \<Rightarrow> bool" where
  "esplora_serves fuel env hist filterAddr addrs \<longleftrightarrow> (\<forall>a\<in>set addrs. [] \<notin> set (hist a) \<and> length (hist a) < 25 * fuel \<and>
     (\<exists>pool confirmed. hist a = pool @ confirmed \<and> length pool \<le> 50 \<and> esplora_pages env a pool confirmed))"

section \<open>Every wrapper keeps the promise\<close>

lemma found_simps [simp]: "sr_address (found a l) = a" "sr_ntx (found a l) = int (length l)" "sr_txids (found a l) = l"
  by (simp_all add: found_def)

lemma address_unless [simp]: "sr_address (unless_too_many env f r) = sr_address r"
  by (simp add: unless_too_many_def)

lemma answers_exact: "set rs = (\<lambda>a. found a (hist a)) ` set addrs \<Longrightarrow> answers env hist f addrs rs"
  by (auto simp: answers_def unless_too_many_def)

lemma splice_loop_filter: "filter (\<lambda>x. \<not> bad x) (splice_loop bad k i xs) = filter (\<lambda>x. \<not> bad x) xs"
proof (induction k arbitrary: i xs)
  case (Suc k)
  have "filter (\<lambda>x. \<not> bad x) (splice1 i xs) = filter (\<lambda>x. \<not> bad x) xs" if "i < length xs" "bad (xs ! i)"
  proof -
    have "xs = take i xs @ xs ! i # drop (Suc i) xs" using that(1) by (rule id_take_nth_drop)
    then show ?thesis using that(2) unfolding splice1_def by (metis filter_append filter.simps(2))
  qed
  then show ?case by (simp add: Suc.IH)
qed simp

lemma answers_splice: "answers env hist f addrs rs \<Longrightarrow> set (filter (\<lambda>r. \<not> too_many env f r) rs) = set (filter (\<lambda>r. \<not> too_many env f r) rs')
    \<Longrightarrow> answers env hist f addrs rs'"
  unfolding answers_def by (simp add: set_eq_iff) blast

lemma answers_spliced: "answers env hist f addrs rs \<Longrightarrow> answers env hist f addrs (splice_bad (too_many env f) rs)"
  by (erule answers_splice) (simp add: splice_bad_def splice_loop_filter)

lemma mapA_relate:
  fixes s :: "'s clocked_scheme"
  assumes "\<And>x u. x \<in> set xs \<Longrightarrow> \<exists>y k. f x (u :: 's clocked_scheme) = Some (Inr y, u\<lparr>w_clock := k\<rparr>) \<and> P x y"
  shows "\<exists>ys k. mapA f xs s = Some (Inr ys, s\<lparr>w_clock := k\<rparr>) \<and> list_all2 P xs ys"
  using assms
proof (induction xs arbitrary: s)
  case Nil
  show ?case by (auto simp: ret_def intro!: exI [of _ "w_clock s"])
next
  case (Cons x xs)
  obtain y k where y: "f x s = Some (Inr y, s\<lparr>w_clock := k\<rparr>)" "P x y" using Cons.prems [of x s] by auto
  obtain ys l where "mapA f xs (s\<lparr>w_clock := k\<rparr>) = Some (Inr ys, s\<lparr>w_clock := l\<rparr>)" "list_all2 P xs ys"
    using Cons.IH [of "s\<lparr>w_clock := k\<rparr>"] Cons.prems by auto
  then show ?case using y by (auto simp: bindA_eval ret_def)
qed

lemma mapA_answers:
  fixes s :: "'s clocked_scheme"
  assumes "\<And>x u. x \<in> set xs \<Longrightarrow> \<exists>k. f x (u :: 's clocked_scheme) = Some (Inr (g x), u\<lparr>w_clock := k\<rparr>)"
  shows "\<exists>k. mapA f xs s = Some (Inr (map g xs), s\<lparr>w_clock := k\<rparr>)"
proof -
  have eq: "list_all2 (\<lambda>x y. y = g x) xs ys \<longleftrightarrow> ys = map g xs" for ys
    by (auto simp: list_all2_conv_all_nth intro: nth_equalityI)
  show ?thesis using mapA_relate [of xs f "\<lambda>x y. y = g x" s] assms unfolding eq by auto
qed

abbreviation unspent_addr :: "source_env \<Rightarrow> string \<times> string \<Rightarrow> string option" where
  "unspent_addr env u \<equiv> truthy_str (xlatScriptPubKey env (snd u))"

definition listed :: "(string \<times> string list) list \<Rightarrow> string \<Rightarrow> string list" where
  "listed m a = (case map_of m a of None \<Rightarrow> [] | Some l \<Rightarrow> l)"

lemma add_unspent_facts:
  "distinct (map fst m) \<Longrightarrow> distinct (map fst (add_unspent env u m))"
  "listed (add_unspent env u m) a = listed m a @ (if unspent_addr env u = Some a then [fst u] else [])"
  "fst ` set (add_unspent env u m) = fst ` set m \<union> {a. unspent_addr env u = Some a}"
  by (auto simp: add_unspent_def js_push_def listed_def keys_js_set intro!: distinct_js_set split: option.split)

lemma clock_exists [simp]: "\<exists>k. s\<lparr>w_clock := n\<rparr> = s\<lparr>w_clock := k\<rparr>"
  by blast

lemma bitcoind_fold:
  "distinct (map fst m) \<Longrightarrow> distinct (map fst (fold (add_unspent env) us m))"
  "listed (fold (add_unspent env) us m) a = listed m a @ map fst (filter (\<lambda>u. unspent_addr env u = Some a) us)"
  "fst ` set (fold (add_unspent env) us m) = fst ` set m \<union> {a. \<exists>u\<in>set us. unspent_addr env u = Some a}"
  by (induction us arbitrary: m) (auto simp: add_unspent_facts)

lemma bitcoind_answers:
  assumes "bitcoind_serves env hist f addrs"
  shows "\<exists>rs k. bitcoind_getAddresses env addrs f s = Some (Inr rs, s\<lparr>w_clock := k\<rparr>) \<and> answers env hist f addrs rs"
proof -
  obtain us where us: "\<And>k. se_unspents env k (map descriptor addrs) = Inr us" "\<And>u. u \<in> set us \<Longrightarrow> \<exists>a\<in>set addrs. unspent_addr env u = Some a"
    and told: "\<And>a. a \<in> set addrs \<Longrightarrow> hist a = unspent_txids env addrs a"
    using assms unfolding bitcoind_serves_def by blast
  note us = us told [unfolded unspent_txids_def us(1) sum.case]
  define m where "m = fold (add_unspent env) us []"
  have m: "distinct (map fst m)" "fst ` set m = {a. \<exists>u\<in>set us. unspent_addr env u = Some a}"
    "listed m a = map fst (filter (\<lambda>u. unspent_addr env u = Some a) us)" for a
    using bitcoind_fold(1) [of "[]" env us] bitcoind_fold(2) [of env us "[]"] bitcoind_fold(3) [of env us "[]"] by (simp_all add: m_def listed_def)
  have entries: "a \<in> set addrs \<and> l = hist a" if "(a, l) \<in> set m" for a l
  proof -
    have "a \<in> fst ` set m" using that by force
    then have a: "a \<in> set addrs" using us(2) unfolding m(2) by fastforce
    then show ?thesis using m(3) [of a] that us(3) by (simp add: m(1) listed_def)
  qed
  have present: "(a, hist a) \<in> set m" if "a \<in> set addrs" "hist a \<noteq> []" for a
    using m(3) [of a] that us(3) [of a] by (auto simp: listed_def split: option.splits dest: map_of_SomeD)
  have "answers env hist f addrs (map (\<lambda>(a, txids). found a txids) m)"
    using entries present by (fastforce simp: answers_def unless_too_many_def)
  then have "answers env hist f addrs (splice_bad (too_many env f) (map (\<lambda>(a, txids). found a txids) m))" by (rule answers_spliced)
  then show ?thesis by (simp add: bitcoind_getAddresses_def bindA_Inr ret_def us(1) m_def)
qed

lemma hash_map_run:
  assumes "hashed env H addrs"
  obtains addrOf where "hash_map env addrs = Inr addrOf" and "fst ` set addrOf = H ` set addrs"
    and "\<And>a. a \<in> set addrs \<Longrightarrow> map_of addrOf (H a) = Some a"
proof -
  have "mapE (\<lambda>a. bindE (se_hash env a) (\<lambda>h. Inr (h, a))) addrs = Inr (map (\<lambda>a. (H a, a)) addrs)"
    using assms by (intro mapE_total) (simp add: hashed_def)
  then have run: "hash_map env addrs = Inr (fold (\<lambda>(h, a). js_set h a) (map (\<lambda>a. (H a, a)) addrs) [])" by (simp add: hash_map_def)
  have keys: "fst ` set (fold (\<lambda>(h, a). js_set h a) (map (\<lambda>a. (H a, a)) as) m) = fst ` set m \<union> H ` set as" for as m
    by (induction as arbitrary: m) (auto simp: keys_js_set)
  have vals: "map_of (fold (\<lambda>(h, a). js_set h a) (map (\<lambda>a. (H a, a)) as) m) (H a) = Some a"
    if "inj_on H (set addrs)" "set as \<subseteq> set addrs" "a \<in> set addrs" "a \<in> set as \<or> map_of m (H a) = Some a" for as m a
    using that(2,4)
  proof (induction as arbitrary: m)
    case (Cons b as)
    then show ?case using that(1,3) by (auto simp: inj_on_def)
  qed simp
  show thesis using keys [of addrs "[]"] vals [of addrs _ "[]"] assms by (intro that [OF run]) (auto simp: hashed_def)
qed

lemma hashes_of:
  assumes "hashed env H addrs" and "fst ` set addrOf = H ` set addrs"
  obtains as where "map fst addrOf = map H as" and "set as = set addrs"
proof
  have inj: "inj_on H (set addrs)" using assms(1) by (simp add: hashed_def)
  let ?as = "map (the_inv_into (set addrs) H) (map fst addrOf)"
  have "H (the_inv_into (set addrs) H h) = h" if "h \<in> fst ` set addrOf" for h
    using that unfolding assms(2) by (rule f_the_inv_into_f [OF inj])
  then show "map fst addrOf = map H ?as" by simp
  have "set ?as = the_inv_into (set addrs) H ` H ` set addrs" using assms(2) by (metis image_set)
  also have "\<dots> = set addrs" using inj by (simp add: the_inv_into_onto)
  finally show "set ?as = set addrs" .
qed

lemma chunks_map: "chunks n (map f xs) = map (map f) (chunks n xs)"
  by (induction n xs rule: chunks.induct) (simp add: chunks.simps take_map drop_map)

text \<open>The batched and the plain requests of the indexer give the same answer.\<close>

lemma electrum_batch:
  fixes s :: "'s clocked_scheme"
  assumes batch: "\<And>k as. set as \<subseteq> set addrs \<Longrightarrow> se_electrum_batch env k (map H as) = Inr (map (\<lambda>a. (H a, hist a)) as)"
    and "set as \<subseteq> set addrs"
  shows "\<exists>rs k. mapA (\<lambda>chunk. remote (\<lambda>k. se_electrum_batch env k chunk)) (chunks 50 (map H as)) s = Some (Inr rs, s\<lparr>w_clock := k\<rparr>)
    \<and> concat rs = map (\<lambda>a. (H a, hist a)) as"
proof -
  have part: "se_electrum_batch env k (map H c) = Inr (map (\<lambda>a. (H a, hist a)) c)" if "c \<in> set (chunks 50 as)" for c k
  proof (rule batch)
    show "set c \<subseteq> set addrs" using that assms(2) set_chunks [of 50 as] by auto
  qed
  have "\<exists>k. mapA (\<lambda>chunk. remote (\<lambda>k. se_electrum_batch env k chunk)) (chunks 50 (map H as)) s
      = Some (Inr (map (\<lambda>c. projr (se_electrum_batch env 0 c)) (chunks 50 (map H as))), s\<lparr>w_clock := k\<rparr>)"
    by (rule mapA_answers) (auto simp: chunks_map part remote_def)
  moreover have "concat (map (\<lambda>c. projr (se_electrum_batch env 0 c)) (chunks 50 (map H as))) = map (\<lambda>a. (H a, hist a)) as"
    using concat_map_chunks [of 50 "\<lambda>a. (H a, hist a)" as] by (simp add: chunks_map part comp_def cong: map_cong)
  ultimately show ?thesis by blast
qed

lemma electrum_answers:
  fixes s :: "'s clocked_scheme"
  assumes "electrum_serves env hist f addrs"
  shows "\<exists>rs k. electrum_getAddresses env addrs f s = Some (Inr rs, s\<lparr>w_clock := k\<rparr>) \<and> answers env hist f addrs rs"
proof -
  obtain H where H: "hashed env H addrs" "\<And>k a. a \<in> set addrs \<Longrightarrow> se_electrum env k (H a) = Inr (hist a)"
    "\<And>k as. set as \<subseteq> set addrs \<Longrightarrow> se_electrum_batch env k (map H as) = Inr (map (\<lambda>a. (H a, hist a)) as)"
    using assms unfolding electrum_serves_def by blast
  obtain addrOf where addrOf: "hash_map env addrs = Inr addrOf" "fst ` set addrOf = H ` set addrs"
    "\<And>a. a \<in> set addrs \<Longrightarrow> map_of addrOf (H a) = Some a" using hash_map_run [OF H(1)] by blast
  obtain as where as: "map fst addrOf = map H as" "set as = set addrs" using hashes_of [OF H(1) addrOf(2)] by blast
  let ?row = "\<lambda>h txids. found (or_undefined (map_of addrOf h)) txids"
  let ?rows = "map (\<lambda>a. found a (hist a)) as"
  have row: "?row (H a) (hist a) = found a (hist a)" if "a \<in> set addrs" for a
    using addrOf(3) [OF that] by (simp add: or_undefined_def)
  have "\<exists>k. mapA (\<lambda>h. bindA (remote (\<lambda>k. se_electrum env k h)) (\<lambda>txids. ret (?row h txids))) (map H as) s
      = Some (Inr (map (\<lambda>h. ?row h (projr (se_electrum env 0 h))) (map H as)), s\<lparr>w_clock := k\<rparr>)"
    by (rule mapA_answers) (auto simp: as H(2) bindA_Inr ret_def)
  moreover have "map (\<lambda>h. ?row h (projr (se_electrum env 0 h))) (map H as) = ?rows" by (simp add: as H(2) row)
  ultimately obtain k where one: "mapA (\<lambda>h. bindA (remote (\<lambda>k. se_electrum env k h)) (\<lambda>txids. ret (?row h txids))) (map H as) s
      = Some (Inr ?rows, s\<lparr>w_clock := k\<rparr>)" by metis
  obtain rs l where many: "mapA (\<lambda>chunk. remote (\<lambda>k. se_electrum_batch env k chunk)) (chunks 50 (map H as)) s = Some (Inr rs, s\<lparr>w_clock := l\<rparr>)"
    "concat rs = map (\<lambda>a. (H a, hist a)) as" using electrum_batch [of addrs env H hist as s] H(3) as(2) by auto
  have rows: "map (\<lambda>(h, txids). ?row h txids) (concat rs) = ?rows" by (simp add: many(2) as(2) row)
  have "answers env hist f addrs ?rows" by (intro answers_exact) (simp add: as(2))
  then have "answers env hist f addrs (filter (\<lambda>r. \<not> too_many env f r) ?rows)" by (rule answers_splice) simp
  moreover have "\<exists>k. electrum_getAddresses env addrs f s = Some (Inr (filter (\<lambda>r. \<not> too_many env f r) ?rows), s\<lparr>w_clock := k\<rparr>)"
    using splitList_chunks [of 50 "map H as"] one many(1) rows
    by (auto simp: electrum_getAddresses_def addrOf(1) bindA_lift as(1) bindA_eval ret_def Let_def)
  ultimately show ?thesis by blast
qed

lemma fold_js_set_function:
  assumes "\<forall>(a, l)\<in>set m. l = h a"
  shows "set (fold (\<lambda>a. js_set a (h a)) as m) = set m \<union> (\<lambda>a. (a, h a)) ` set as"
  using assms
proof (induction as arbitrary: m)
  case (Cons a as)
  have "set (js_set a (h a) m) = insert (a, h a) (set m)"
    using Cons.prems by (induction a "h a" m rule: js_set.induct) auto
  then show ?case using Cons by auto
qed simp

lemma rest_answers:
  assumes "rest_serves env hist f addrs"
  shows "\<exists>rs k. rest_getAddresses env addrs f s = Some (Inr rs, s\<lparr>w_clock := k\<rparr>) \<and> answers env hist f addrs rs"
proof -
  obtain H where H: "hashed env H addrs" "\<And>k. se_histories env k (histories_uri (map H addrs)) = Inr (map (\<lambda>a. (H a, hist a)) addrs)"
    using assms unfolding rest_serves_def by blast
  obtain addrOf where addrOf: "hash_map env addrs = Inr addrOf" "fst ` set addrOf = H ` set addrs"
    "\<And>a. a \<in> set addrs \<Longrightarrow> map_of addrOf (H a) = Some a" using hash_map_run [OF H(1)] by blast
  have hashes: "mapE (se_hash env) addrs = Inr (map H addrs)"
    using H(1) unfolding hashed_def by (intro mapE_total) blast
  have rows: "fold (\<lambda>(h, txids). js_set (or_undefined (map_of addrOf h)) txids) (map (\<lambda>a. (H a, hist a)) addrs) []
      = fold (\<lambda>a. js_set a (hist a)) addrs []" (is "?rows = _")
    unfolding fold_map by (rule fold_cong) (simp_all add: addrOf(3) or_undefined_def)
  then have "set (map (\<lambda>(a, txids). found a txids) ?rows) = (\<lambda>a. found a (hist a)) ` set addrs"
    using fold_js_set_function [of "[]" hist addrs] by (simp add: image_image)
  then have "answers env hist f addrs (splice_bad (too_many env f) (map (\<lambda>(a, txids). found a txids) ?rows))"
    by (intro answers_spliced answers_exact)
  then show ?thesis by (simp add: rest_getAddresses_def hashes addrOf(1) bindA_lift bindA_Inr ret_def H(2))
qed

lemma oxt_answers:
  assumes "oxt_serves env hist f addrs"
  shows "\<exists>rs k. oxt_getAddresses env addrs f s = Some (Inr rs, s\<lparr>w_clock := k\<rparr>) \<and> answers env hist f addrs rs"
proof -
  let ?cut = "\<lambda>a. found a (take (nat (se_limit env + 1)) (hist a))"
  have serves: "\<And>k. se_oxt_multi env k (oxt_uri env addrs) = Inr (map (\<lambda>a. (a, take (nat (se_limit env + 1)) (hist a))) addrs)"
    and cut: "0 \<le> se_limit env" "f = Some True \<or> (\<forall>a\<in>set addrs. int (length (hist a)) \<le> se_limit env + 1)"
    using assms by (auto simp: oxt_serves_def)
  have same: "?cut a = found a (hist a)" if "a \<in> set addrs" "\<not> too_many env f (?cut a) \<or> \<not> too_many env f (found a (hist a))" for a
    using that cut by (auto simp: too_many_def min_def split: if_splits)
  let ?row = "\<lambda>(a, txids). let r = found a txids in if too_many env f r then r\<lparr>sr_txids := []\<rparr> else r"
  have long: "too_many env f (r\<lparr>sr_txids := []\<rparr>) = too_many env f r" for r by (simp add: too_many_def)
  have "answers env hist f addrs (map ?row (map (\<lambda>a. (a, take (nat (se_limit env + 1)) (hist a))) addrs))"
    unfolding answers_def
  proof (intro conjI ballI impI)
    fix r assume "r \<in> set (map ?row (map (\<lambda>a. (a, take (nat (se_limit env + 1)) (hist a))) addrs))"
    then obtain a where a: "a \<in> set addrs" "r = (if too_many env f (?cut a) then (?cut a)\<lparr>sr_txids := []\<rparr> else ?cut a)"
      by (auto simp: Let_def)
    then show "too_many env f r \<or> sr_address r \<in> set addrs
        \<and> r = unless_too_many env f (found (sr_address r) (hist (sr_address r)))"
      using same [OF a(1)] by (cases "too_many env f (?cut a)") (auto simp: long unless_too_many_def)
  next
    fix a assume "a \<in> set addrs" "\<not> too_many env f (found a (hist a))"
    then show "found a (hist a) \<in> set (map ?row (map (\<lambda>a. (a, take (nat (se_limit env + 1)) (hist a))) addrs))"
      using same [of a] by (force simp: Let_def)
  qed
  then show ?thesis by (simp add: oxt_getAddresses_def bindA_Inr ret_def serves)
qed

text \<open>The pages after the first: what is left of the confirmed transactions is added.\<close>

lemma esplora_chain:
  fixes s :: "'s clocked_scheme"
  assumes pages: "\<And>k n. n < length l \<Longrightarrow> se_esplora env k (''/api/address/'' @ a @ ''/txs/chain/'' @ l ! n) = Inr (take 25 (drop (Suc n) l))"
    and names: "[] \<notin> set l" and "m < length l" "length l - Suc m < 25 * fuel"
  shows "\<exists>r k. esplora_loop fuel env a f (Some (l ! m)) acc s = Some (Inr r, s\<lparr>w_clock := k\<rparr>)
    \<and> (r = found a (acc @ drop (Suc m) l) \<or> r = unless_too_many env f (found a (acc @ drop (Suc m) l)))"
  using assms(3,4)
proof (induction fuel arbitrary: m acc s)
  case (Suc fuel)
  let ?more = "take 25 (drop (Suc m) l)" and ?u = "s\<lparr>w_clock := Suc (w_clock s)\<rparr>"
  have "l ! m \<noteq> []" using names Suc.prems(1) by (metis nth_mem)
  then have "getTxsForAddress env a (Some (l ! m)) s = Some (Inr ?more, ?u)"
    using pages [OF Suc.prems(1), of "w_clock s"] by (simp add: getTxsForAddress_def truthy_str_def remote_def)
  note run = bindA_eval(1) [where m = "getTxsForAddress env a (Some (l ! m))", OF this]
  show ?case
  proof (cases "length ?more < 25")
    case True
    then have whole: "?more = drop (Suc m) l" by simp
    have "esplora_loop (Suc fuel) env a f (Some (l ! m)) acc s = Some (Inr (found a (acc @ drop (Suc m) l)), ?u)"
      unfolding esplora_loop.simps run whole using True unfolding whole by (simp add: ret_def Let_def NB_TXS_PER_PAGE_def)
    then show ?thesis by blast
  next
    case full: False
    then have step: "esplora_loop (Suc fuel) env a f (Some (l ! m)) acc s =
        (if too_many env f (found a (acc @ ?more)) then Some (Inr (found a []), ?u)
         else esplora_loop fuel env a f (Some (last ?more)) (acc @ ?more) ?u)"
      unfolding esplora_loop.simps run by (auto simp: ret_def Let_def NB_TXS_PER_PAGE_def)
    show ?thesis
    proof (cases "too_many env f (found a (acc @ ?more))")
      case True
      then have "too_many env f (found a (acc @ drop (Suc m) l))" by (auto simp: too_many_def found_def)
      then show ?thesis unfolding step using True by (auto simp: unless_too_many_def found_def)
    next
      case False
      have m: "m + 25 < length l" and "length l - Suc (m + 25) < 25 * fuel" using full Suc.prems by auto
      moreover have "last ?more = l ! (m + 25)" using m by (simp add: last_conv_nth add.commute)
      moreover have "drop (Suc m) l = ?more @ drop (Suc (m + 25)) l"
        using append_take_drop_id [of 25 "drop (Suc m) l"] by (simp add: add.commute)
      ultimately show ?thesis unfolding step using False Suc.IH [of "m + 25" "acc @ ?more" ?u] by auto
    qed
  qed
qed simp

lemma esplora_answer:
  fixes s :: "'s clocked_scheme"
  assumes "esplora_pages env a pool l" and "[] \<notin> set (pool @ l)" and "length (pool @ l) < 25 * fuel"
  shows "\<exists>r k. esplora_getAddress fuel env a f s = Some (Inr r, s\<lparr>w_clock := k\<rparr>)
    \<and> (r = found a (pool @ l) \<or> r = unless_too_many env f (found a (pool @ l)))"
proof -
  let ?u = "s\<lparr>w_clock := Suc (w_clock s)\<rparr>" and ?p = "pool @ take 25 l"
  obtain n where n: "fuel = Suc n" using assms(3) by (cases fuel) auto
  have first: "getTxsForAddress env a None s = Some (Inr ?p, ?u)"
    using assms(1) by (simp add: esplora_pages_def getTxsForAddress_def truthy_str_def remote_def)
  note run = bindA_eval(1) [where m = "getTxsForAddress env a None", OF first]
  show ?thesis
  proof (cases "length ?p < 25")
    case True
    then have "?p = pool @ l" by simp
    then have "esplora_getAddress fuel env a f s = Some (Inr (found a (pool @ l)), ?u)"
      unfolding esplora_getAddress_def n esplora_loop.simps run using True by (simp add: ret_def Let_def NB_TXS_PER_PAGE_def)
    then show ?thesis by blast
  next
    case full: False
    then have step: "esplora_getAddress fuel env a f s = (if too_many env f (found a ?p) then Some (Inr (found a []), ?u)
         else esplora_loop n env a f (Some (last ?p)) ?p ?u)"
      unfolding esplora_getAddress_def n esplora_loop.simps run by (auto simp: ret_def Let_def NB_TXS_PER_PAGE_def)
    have more: "\<exists>r k. esplora_loop n env a f (Some (last ?p)) ?p ?u = Some (Inr r, s\<lparr>w_clock := k\<rparr>)
        \<and> (r = found a (pool @ l) \<or> r = unless_too_many env f (found a (pool @ l)))"
    proof (cases "l = []")
      case True
      then have "last pool \<in> set pool" "last pool \<noteq> []" using full assms(2) last_in_set [of pool] by (cases "pool = []"; force)+
      then have "getTxsForAddress env a (Some (last pool)) ?u = Some (Inr [], ?u\<lparr>w_clock := Suc (w_clock ?u)\<rparr>)"
        using assms(1) True by (simp add: esplora_pages_def getTxsForAddress_def truthy_str_def remote_def)
      note last = bindA_eval(1) [where m = "getTxsForAddress env a (Some (last pool))", OF this]
      obtain n' where "n = Suc n'" using full assms(3) True n by (cases n) auto
      have "esplora_loop n env a f (Some (last pool)) pool ?u = Some (Inr (found a pool), ?u\<lparr>w_clock := Suc (w_clock ?u)\<rparr>)"
        unfolding \<open>n = Suc n'\<close> esplora_loop.simps last by (simp add: ret_def)
      then show ?thesis using True by auto
    next
      case False
      let ?m = "min 25 (length l) - 1"
      have m: "?m < length l" "take 25 l = take (Suc ?m) l" using False by (auto simp: min_def)
      have "last ?p = last (take (Suc ?m) l)" using False m(2) by simp
      also have "\<dots> = l ! ?m" using m(1) by (simp only: take_Suc_conv_app_nth last_snoc)
      finally have "last ?p = l ! ?m" .
      moreover have "length l - Suc ?m < 25 * n" using full assms(3) n by (auto simp: min_def)
      moreover have "?p @ drop (Suc ?m) l = pool @ l" by (simp add: m(2))
      ultimately show ?thesis
        using esplora_chain [where l = l and env = env and a = a and m = ?m and fuel = n and f = f and acc = ?p and s = ?u] assms(1,2) m(1)
        by (auto simp: esplora_pages_def)
    qed
    show ?thesis
    proof (cases "too_many env f (found a ?p)")
      case True
      then have "too_many env f (found a (pool @ l))" by (auto simp: too_many_def found_def)
      then show ?thesis unfolding step using True by (auto simp: unless_too_many_def found_def)
    qed (use step more in simp)
  qed
qed

lemma list_all2_members:
  "list_all2 P xs ys \<Longrightarrow> y \<in> set ys \<Longrightarrow> \<exists>x\<in>set xs. P x y"
  "list_all2 P xs ys \<Longrightarrow> x \<in> set xs \<Longrightarrow> \<exists>y\<in>set ys. P x y"
  by (induction rule: list_all2_induct) auto

lemma esplora_answers:
  fixes s :: "'s clocked_scheme"
  assumes "esplora_serves fuel env hist f addrs"
  shows "\<exists>rs k. esplora_getAddresses fuel env addrs f s = Some (Inr rs, s\<lparr>w_clock := k\<rparr>) \<and> answers env hist f addrs rs"
proof -
  have one: "\<exists>r k. esplora_getAddress fuel env a f u = Some (Inr r, u\<lparr>w_clock := k\<rparr>)
      \<and> (r = found a (hist a) \<or> r = unless_too_many env f (found a (hist a)))" if "a \<in> set addrs" for a and u :: "'s clocked_scheme"
    using assms that esplora_answer unfolding esplora_serves_def by metis
  have "\<exists>rs k. esplora_getAddresses fuel env addrs f s = Some (Inr rs, s\<lparr>w_clock := k\<rparr>)
      \<and> list_all2 (\<lambda>a r. r = found a (hist a) \<or> r = unless_too_many env f (found a (hist a))) addrs rs"
    unfolding esplora_getAddresses_def by (rule mapA_relate) (rule one)
  then obtain rs k where rs: "esplora_getAddresses fuel env addrs f s = Some (Inr rs, s\<lparr>w_clock := k\<rparr>)"
    "list_all2 (\<lambda>a r. r = found a (hist a) \<or> r = unless_too_many env f (found a (hist a))) addrs rs" by blast
  have "answers env hist f addrs rs"
    unfolding answers_def
  proof (intro conjI ballI impI)
    fix r assume "r \<in> set rs"
    then obtain a where "a \<in> set addrs" "r = found a (hist a) \<or> r = unless_too_many env f (found a (hist a))"
      using list_all2_members(1) [OF rs(2)] by blast
    then show "too_many env f r \<or> sr_address r \<in> set addrs \<and> r = unless_too_many env f (found (sr_address r) (hist (sr_address r)))"
      by (auto simp: unless_too_many_def)
  next
    fix a assume a: "a \<in> set addrs" "\<not> too_many env f (found a (hist a))"
    then obtain r where r: "r \<in> set rs" "r = found a (hist a) \<or> r = unless_too_many env f (found a (hist a))"
      using list_all2_members(2) [OF rs(2)] by blast
    then show "found a (hist a) \<in> set rs" using a(2) by (auto simp: unless_too_many_def)
  qed
  then show ?thesis using rs(1) by blast
qed

text \<open>A page that is full adds 25 transactions: under a limit the loop ends, whatever the service answers.\<close>

lemma esplora_bounded:
  assumes "se_limit env < int (length acc) + 25 * int fuel" and "0 < fuel"
  shows "\<exists>r t. esplora_loop fuel env a (Some True) seen acc s = Some (r, t) \<and> w_clock t \<le> w_clock s + fuel"
  using assms
proof (induction fuel arbitrary: seen acc s)
  case (Suc fuel)
  obtain txids where txids: "getTxsForAddress env a seen s = Some (txids, s\<lparr>w_clock := Suc (w_clock s)\<rparr>)"
    by (simp add: getTxsForAddress_def remote_def Let_def)
  show ?case
  proof (cases txids)
    case (Inl e)
    then show ?thesis unfolding esplora_loop.simps bindA_eval(2) [where m = "getTxsForAddress env a seen", OF txids [unfolded Inl]] by auto
  next
    case (Inr l)
    let ?u = "s\<lparr>w_clock := Suc (w_clock s)\<rparr>"
    note run = bindA_eval(1) [where m = "getTxsForAddress env a seen", OF txids [unfolded Inr]]
    show ?thesis
    proof (cases "length l < NB_TXS_PER_PAGE \<or> se_limit env < int (length acc + length l)")
      case True
      then show ?thesis unfolding esplora_loop.simps run by (auto simp: ret_def Let_def too_many_def NB_TXS_PER_PAGE_def)
    next
      case False
      then have "0 < fuel" using Suc.prems(1) by (auto simp: NB_TXS_PER_PAGE_def intro!: gr0I)
      moreover have "se_limit env < int (length (acc @ l)) + 25 * int fuel" using False Suc.prems(1) by (simp add: NB_TXS_PER_PAGE_def)
      ultimately obtain r t where "esplora_loop fuel env a (Some True) (Some (last l)) (acc @ l) ?u = Some (r, t)" "w_clock t \<le> w_clock ?u + fuel"
        using Suc.IH by blast
      moreover have "l \<noteq> []" using False by (auto simp: NB_TXS_PER_PAGE_def)
      ultimately show ?thesis using False unfolding esplora_loop.simps run by (simp add: Let_def too_many_def)
    qed
  qed
qed simp

text \<open>Without a limit a service whose pages are always full is asked for ever.\<close>

lemma esplora_unbounded:
  assumes "\<And>k uri. \<exists>l. se_esplora env k uri = Inr l \<and> length l = 25"
  shows "esplora_loop fuel env a None seen acc s = None"
proof (induction fuel arbitrary: seen acc s)
  case (Suc fuel)
  obtain uri where "getTxsForAddress env a seen s = Some (se_esplora env (w_clock s) uri, s\<lparr>w_clock := Suc (w_clock s)\<rparr>)"
    by (rule that) (simp only: getTxsForAddress_def Let_def remote_def)
  moreover obtain l where "se_esplora env (w_clock s) uri = Inr l" and long: "length l = 25" using assms by blast
  ultimately have l: "getTxsForAddress env a seen s = Some (Inr l, s\<lparr>w_clock := Suc (w_clock s)\<rparr>)" by simp
  have "l \<noteq> []" using long by auto
  then show ?case unfolding esplora_loop.simps bindA_eval(1) [where m = "getTxsForAddress env a seen", OF l]
    using long Suc.IH by (simp add: Let_def too_many_def NB_TXS_PER_PAGE_def)
qed (simp add: unending_def)

section \<open>The sources keep the promise\<close>

interpretation bitcoind: import_source "bitcoind_getAddresses env" env "bitcoind_serves env" for env
  by unfold_locales (rule bitcoind_answers)

interpretation electrum: import_source "electrum_getAddresses env" env "electrum_serves env" for env
  by unfold_locales (rule electrum_answers)

interpretation rest: import_source "rest_getAddresses env" env "rest_serves env" for env
  by unfold_locales (rule rest_answers)

interpretation oxt: import_source "oxt_getAddresses env" env "oxt_serves env" for env
  by unfold_locales (rule oxt_answers)

interpretation esplora: import_source "esplora_getAddresses fuel env" env "esplora_serves fuel env" for fuel env
  by unfold_locales (rule esplora_answers)

text \<open>The history \<open>hist\<close> of an address, and what the configured source tells of it.\<close>

definition serves :: "source_kind \<Rightarrow> nat \<Rightarrow> source_env \<Rightarrow> (string \<Rightarrow> string list) \<Rightarrow> bool option \<Rightarrow> string list \<Rightarrow> bool" where
  "serves kind fuel env hist filterAddr addrs =
     (case kind of Bitcoind \<Rightarrow> node_serves env hist addrs | Electrum \<Rightarrow> electrum_serves env hist filterAddr addrs
      | Rest \<Rightarrow> rest_serves env hist filterAddr addrs | Oxt \<Rightarrow> oxt_serves env hist filterAddr addrs
      | Esplora \<Rightarrow> esplora_serves fuel env hist filterAddr addrs)"

definition told_by :: "source_kind \<Rightarrow> source_env \<Rightarrow> (string \<Rightarrow> string list) \<Rightarrow> string list \<Rightarrow> string \<Rightarrow> string list" where
  "told_by kind env hist addrs = (if kind = Bitcoind then unspent_txids env addrs else hist)"

lemma node_serves_filter: "node_serves env hist addrs \<Longrightarrow> bitcoind_serves env (unspent_txids env addrs) f addrs"
  by (simp add: node_serves_def bitcoind_serves_def)

lemma sources_client:
  assumes "serves kind fuel env hist f addrs"
  shows "\<exists>rs k. sources_getAddresses kind fuel env addrs f s = Some (Inr rs, s\<lparr>w_clock := k\<rparr>)
    \<and> answers env (told_by kind env hist addrs) f addrs rs \<and> (\<forall>r\<in>set rs. \<not> too_many env f r)"
  using assms bitcoind.client [OF node_serves_filter] electrum.client rest.client oxt.client esplora.client
  unfolding serves_def told_by_def sources_getAddresses_def wrapper_getAddresses_def by (cases kind) simp_all

text \<open>
  C18. With a service that does what it documents the sources answer a request and change nothing of the
  state. An indexer, whichever of the four is configured, gives of every address that was asked for and has
  transactions exactly its history; the local node, which scans the unspent outputs, gives exactly the transactions
  with an output the address still controls, a part of its history. An address with more than the limit is left
  out, or empty, when addresses are filtered, and nothing is said of another address.
\<close>

theorem sources_answer:
  assumes "serves kind fuel env hist filterAddr addrs"
  defines "told \<equiv> told_by kind env hist addrs"
  shows "\<exists>rs k. sources_getAddresses kind fuel env addrs filterAddr s = Some (Inr rs, s\<lparr>w_clock := k\<rparr>)
    \<and> (\<forall>a\<in>set addrs. set (told a) \<subseteq> set (hist a) \<and> (kind \<noteq> Bitcoind \<longrightarrow> told a = hist a))
    \<and> (\<forall>a\<in>set addrs. told a \<noteq> [] \<and> \<not> (filterAddr = Some True \<and> se_limit env < int (length (told a)))
         \<longrightarrow> \<lparr>sr_address = a, sr_ntx = int (length (told a)), sr_txids = told a\<rparr> \<in> set rs)
    \<and> (\<forall>r\<in>set rs. sr_address r \<in> set addrs \<and> sr_ntx r = int (length (sr_txids r))
         \<and> (sr_txids r = told (sr_address r)
           \<or> sr_txids r = [] \<and> filterAddr = Some True \<and> se_limit env < int (length (told (sr_address r)))))"
proof -
  obtain rs k where rs: "sources_getAddresses kind fuel env addrs filterAddr s = Some (Inr rs, s\<lparr>w_clock := k\<rparr>)"
    "answers env told filterAddr addrs rs" "\<forall>r\<in>set rs. \<not> too_many env filterAddr r"
    using sources_client [OF assms(1)] unfolding told_def by blast
  have c1: "sr_address r \<in> set addrs \<and> sr_ntx r = int (length (sr_txids r))
         \<and> (sr_txids r = told (sr_address r)
           \<or> sr_txids r = [] \<and> filterAddr = Some True \<and> se_limit env < int (length (told (sr_address r))))" if "r \<in> set rs" for r
  proof -
    define a where "a = sr_address r"
    have "a \<in> set addrs" "r = unless_too_many env filterAddr (found a (told a))" using rs(2,3) that by (auto simp: answers_def a_def)
    then show ?thesis by (auto simp: unless_too_many_def too_many_def)
  qed
  have c2: "\<lparr>sr_address = a, sr_ntx = int (length (told a)), sr_txids = told a\<rparr> \<in> set rs" if "a \<in> set addrs" "told a \<noteq> []"
      "\<not> (filterAddr = Some True \<and> se_limit env < int (length (told a)))" for a
    using rs(2) that unfolding answers_def too_many_def by (auto simp: found_def)
  have c3: "set (told a) \<subseteq> set (hist a) \<and> (kind \<noteq> Bitcoind \<longrightarrow> told a = hist a)" if "a \<in> set addrs" for a
    using assms(1) that unfolding told_def told_by_def serves_def node_serves_def by (cases kind) auto
  show ?thesis
    by (rule exI [of _ rs], rule exI [of _ k], intro conjI ballI rs(1)) (use c1 c2 c3 in \<open>(elim conjE | rule impI | simp)+\<close>)
qed

text \<open>
  An address with a limit is read from Esplora in a bounded number of pages, whatever the service
  answers: with the limit \<open>L\<close> at most \<open>L / 25 + 1\<close> requests.
\<close>

theorem esplora_terminates:
  assumes "0 \<le> se_limit env" and "fuel = Suc (nat (se_limit env) div 25)"
  shows "\<exists>r t. esplora_getAddress fuel env address (Some True) s = Some (r, t) \<and> w_clock t \<le> w_clock s + fuel"
proof -
  have "se_limit env < 25 * int fuel" using assms by (simp add: zdiv_int [symmetric])
  then show ?thesis unfolding esplora_getAddress_def using assms(2) by (intro esplora_bounded) auto
qed

text \<open>The services on a demonstration: an address with 26 transactions, one with two.\<close>

definition demo_history :: "string \<Rightarrow> string list" where
  "demo_history a = (if a = ''x'' then map (\<lambda>c. [c]) ''abcdefghijklmnopqrstuvwxyz'' else if a = ''y'' then [''t'', ''u''] else [])"

definition demo_services :: source_env where
  "demo_services = \<lparr>se_limit = 25, se_pay = \<lambda>_ _. Inr None, se_hash = \<lambda>a. Inr (CHR ''h'' # a), se_height = \<lambda>_. Some 7,
     se_unspents = \<lambda>_ _. Inr [], se_batch = True, se_electrum = \<lambda>_ h. Inr (demo_history (tl h)),
     se_electrum_batch = \<lambda>_ hs. Inr (map (\<lambda>h. (h, demo_history (tl h))) hs), se_electrum_tip = \<lambda>_. Inr (Some 7),
     se_history = \<lambda>_ _. Inr [], se_histories = \<lambda>_ _. Inr [(''hx'', demo_history ''x''), (''hy'', demo_history ''y'')],
     se_rest_tip = \<lambda>_. Inr (Some ''7''), se_oxt = \<lambda>_ _. Inr (0, []),
     se_oxt_multi = \<lambda>_ _. Inr [(''x'', demo_history ''x''), (''y'', demo_history ''y'')], se_oxt_tip = \<lambda>_. Inr [''7''],
     se_esplora = \<lambda>_ uri. Inr (if uri = ''/api/address/x/txs'' then take 25 (demo_history ''x'')
       else if take 25 uri = ''/api/address/x/txs/chain/'' then take 25 (tl (dropWhile (\<lambda>t. t \<noteq> drop 25 uri) (demo_history ''x'')))
       else if uri = ''/api/address/y/txs'' then demo_history ''y'' else []),
     se_esplora_tip = \<lambda>_. Inr (Text_tip ''7'')\<rparr>"

lemma demo_lengths: "length (demo_history ''x'') = 26" "length (demo_history ''y'') = 2"
  by (simp_all add: demo_history_def)

lemma tl_dropWhile_nth: "distinct l \<Longrightarrow> n < length l \<Longrightarrow> tl (dropWhile (\<lambda>t. t \<noteq> l ! n) l) = drop (Suc n) l"
proof (induction l arbitrary: n)
  case (Cons x l)
  then show ?case by (cases n) auto
qed simp

text \<open>All transactions of \<open>x\<close> are confirmed, the first one of \<open>y\<close> is not.\<close>

lemma demo_pages: "esplora_pages demo_services ''x'' [] (demo_history ''x'')" "esplora_pages demo_services ''y'' [''t''] [''u'']"
proof -
  have "distinct (demo_history ''x'')" by (simp add: demo_history_def)
  then show "esplora_pages demo_services ''x'' [] (demo_history ''x'')"
    using demo_lengths(1) by (simp add: esplora_pages_def demo_services_def tl_dropWhile_nth)
  show "esplora_pages demo_services ''y'' [''t''] [''u'']"
    by (simp add: esplora_pages_def demo_services_def demo_history_def)
qed

lemma demo_serves:
  "serves Esplora 2 demo_services demo_history f [''x'', ''y'']"
  "serves Electrum 2 demo_services demo_history f [''x'', ''y'']"
  "serves Rest 2 demo_services demo_history f [''x'', ''y'']"
  "serves Oxt 2 demo_services demo_history (Some True) [''x'', ''y'']"
proof -
  have y: "demo_history ''y'' = [''t''] @ [''u'']" by (simp add: demo_history_def)
  have names: "[] \<notin> set (demo_history ''x'')" "[] \<notin> set (demo_history ''y'')" by (simp_all add: demo_history_def)
  show "serves Esplora 2 demo_services demo_history f [''x'', ''y'']"
    unfolding serves_def source_kind.case esplora_serves_def
  proof (intro ballI conjI)
    fix a assume "a \<in> set [''x'', ''y'']"
    then have a: "a = ''x'' \<or> a = ''y''" by simp
    then show "[] \<notin> set (demo_history a)" "length (demo_history a) < 25 * 2" using names demo_lengths by auto
    have "demo_history ''x'' = [] @ demo_history ''x''" by simp
    then show "\<exists>pool confirmed. demo_history a = pool @ confirmed \<and> length pool \<le> 50 \<and> esplora_pages demo_services a pool confirmed"
      using a y demo_pages by (metis le0 list.size(3,4) add_0 One_nat_def Suc_leI zero_less_numeral)
  qed
  have hash: "hashed demo_services (\<lambda>a. CHR ''h'' # a) [''x'', ''y'']" by (simp add: hashed_def demo_services_def)
  then show "serves Electrum 2 demo_services demo_history f [''x'', ''y'']"
    by (auto simp: serves_def electrum_serves_def demo_services_def intro!: exI [of _ "\<lambda>a. CHR ''h'' # a"])
  show "serves Rest 2 demo_services demo_history f [''x'', ''y'']"
    using hash by (auto simp: serves_def rest_serves_def demo_services_def intro!: exI [of _ "\<lambda>a. CHR ''h'' # a"])
  show "serves Oxt 2 demo_services demo_history (Some True) [''x'', ''y'']"
    by (simp add: serves_def oxt_serves_def demo_services_def demo_lengths)
qed

text \<open>The local node: one output to \<open>y\<close> is unspent, the other transaction of its history is not told.\<close>

definition demo_utxo_script :: "byte list" where "demo_utxo_script = template P2TR (replicate 32 7)"

definition demo_node :: source_env where
  "demo_node = demo_services\<lparr>se_pay := \<lambda>_ _. Inr (Some ''y''), se_unspents := \<lambda>_ _. Inr [(''u'', hex_of_bytes demo_utxo_script)]\<rparr>"

lemma demo_utxo_script_address: "truthy_str (xlatScriptPubKey demo_node (hex_of_bytes demo_utxo_script)) = Some ''y''"
proof -
  have "hex_bytes (hex_of_bytes demo_utxo_script) = demo_utxo_script" by (simp add: demo_utxo_script_def) code_simp
  moreover have "outputScript2Address (\<lambda>p s. Inr (Some ''y'')) demo_utxo_script = Some ''y''"
    using outputScript2Address_pays_to [of P2TR "template P2TR (replicate 32 7)"] unfolding demo_utxo_script_def by (force simp: pays_to_def)
  ultimately show ?thesis by (simp add: xlatScriptPubKey_def demo_node_def truthy_str_def)
qed

lemma demo_node_tells: "unspent_txids demo_node [''y''] ''y'' = [''u'']"
proof -
  have "se_unspents demo_node 0 (map descriptor [''y'']) = Inr [(''u'', hex_of_bytes demo_utxo_script)]" by (simp add: demo_node_def)
  then show ?thesis by (simp add: unspent_txids_def demo_utxo_script_address)
qed

lemma demo_node_serves: "serves Bitcoind 2 demo_node demo_history f [''y'']"
proof -
  have "se_unspents demo_node k l = Inr [(''u'', hex_of_bytes demo_utxo_script)]" for k l by (simp add: demo_node_def)
  then show ?thesis
    by (simp add: serves_def node_serves_def bitcoind_serves_def demo_node_tells demo_utxo_script_address) (simp add: demo_history_def)
qed

theorem sources_answer_witness:
  "(\<exists>rs k. sources_getAddresses Esplora 2 demo_services [''x'', ''y''] (Some True) demo_importer = Some (Inr rs, demo_importer\<lparr>w_clock := k\<rparr>)
     \<and> \<lparr>sr_address = ''y'', sr_ntx = 2, sr_txids = [''t'', ''u'']\<rparr> \<in> set rs)
   \<and> (\<exists>rs k. sources_getAddresses Electrum 2 demo_services [''x'', ''y''] None demo_importer = Some (Inr rs, demo_importer\<lparr>w_clock := k\<rparr>)
     \<and> \<lparr>sr_address = ''x'', sr_ntx = 26, sr_txids = demo_history ''x''\<rparr> \<in> set rs)
   \<and> (\<exists>rs k. sources_getAddresses Bitcoind 2 demo_node [''y''] None demo_importer = Some (Inr rs, demo_importer\<lparr>w_clock := k\<rparr>)
     \<and> \<lparr>sr_address = ''y'', sr_ntx = 1, sr_txids = [''u'']\<rparr> \<in> set rs)"
proof (intro conjI)
  have y: "demo_history ''y'' = [''t'', ''u'']" "se_limit demo_services = 25" by (simp_all add: demo_history_def demo_services_def)
  show "\<exists>rs k. sources_getAddresses Esplora 2 demo_services [''x'', ''y''] (Some True) demo_importer = Some (Inr rs, demo_importer\<lparr>w_clock := k\<rparr>)
     \<and> \<lparr>sr_address = ''y'', sr_ntx = 2, sr_txids = [''t'', ''u'']\<rparr> \<in> set rs"
    using sources_answer [OF demo_serves(1) [of "Some True"], of demo_importer] y by (auto simp: told_by_def)
  have "demo_history ''x'' \<noteq> []" using demo_lengths(1) by auto
  then show "\<exists>rs k. sources_getAddresses Electrum 2 demo_services [''x'', ''y''] None demo_importer = Some (Inr rs, demo_importer\<lparr>w_clock := k\<rparr>)
     \<and> \<lparr>sr_address = ''x'', sr_ntx = 26, sr_txids = demo_history ''x''\<rparr> \<in> set rs"
    using sources_answer [OF demo_serves(2) [of None], of demo_importer] demo_lengths(1) by (auto simp: told_by_def)
  show "\<exists>rs k. sources_getAddresses Bitcoind 2 demo_node [''y''] None demo_importer = Some (Inr rs, demo_importer\<lparr>w_clock := k\<rparr>)
     \<and> \<lparr>sr_address = ''y'', sr_ntx = 1, sr_txids = [''u'']\<rparr> \<in> set rs"
    using sources_answer [OF demo_node_serves [of None], of demo_importer] by (auto simp: told_by_def demo_node_tells)
qed

text \<open>A service whose pages never end is left after two of them.\<close>

theorem esplora_terminates_witness:
  "\<exists>r t. esplora_getAddress 2 (demo_services\<lparr>se_esplora := \<lambda>_ _. Inr (replicate 25 ''t'')\<rparr>) ''x'' (Some True) demo_importer = Some (r, t)
     \<and> w_clock t \<le> w_clock demo_importer + 2"
  using esplora_terminates [of "demo_services\<lparr>se_esplora := \<lambda>_ _. Inr (replicate 25 ''t'')\<rparr>" 2 "''x''" demo_importer]
  by (simp add: demo_services_def)

section \<open>Errors\<close>

text \<open>An error of the service is logged: the client gets no entry.\<close>

lemma sources_failure:
  assumes "wrapper_getAddresses kind fuel env addrs filterAddr s = Some (Inl e, t)"
  shows "sources_getAddresses kind fuel env addrs filterAddr s = Some (Inr [], t)"
  unfolding sources_getAddresses_def catchA_def bindA_eval(2) [where m = "wrapper_getAddresses kind fuel env addrs filterAddr", OF assms]
  by (simp add: ret_def)

text \<open>A scan cannot tell this from unused addresses: it ends there, as at the end of the account.\<close>

lemma failed_source_ends_scan:
  assumes "\<not> u + G < d + 1"
    and "deriveAddresses (ie_lib env) (ie_parallel env) (ie_threshold env) (ie_exec env) (Some xpub) c
      (range (d + 1) (u + G + 1)) (Some type) = Inr addrs"
    and "ie_sources env (w_clock s) (map d_address addrs) None = Inr []"
  shows "\<exists>txs t. xpubScan env xpub type c G (Suc fuel) d u txids s = Some (Inr (addrs, txs), t)"
proof -
  have "highestUsed addrs u (filter (\<lambda>r. 0 < sr_ntx r) []) = Inr u" by (simp add: highestUsed_def)
  from lookupBatch_answers [OF assms(3) this, of txids] obtain txs txids' t
    where "lookupBatch env addrs u txids s = Some (Inr (u, txs, txids', False), t)" by auto
  then show ?thesis using xpubScan_batch(1) [OF assms(1,2)] by blast
qed

text \<open>The loop of a wrapper that filters leaves the entry that follows one it removed.\<close>

lemma rest_filter_skips:
  "rest_getAddresses (demo_services\<lparr>se_limit := 1\<rparr>) [''x'', ''y''] (Some True) demo_importer
   = Some (Inr [found ''y'' [''t'', ''u'']], demo_importer\<lparr>w_clock := Suc (w_clock demo_importer)\<rparr>)
   \<and> too_many (demo_services\<lparr>se_limit := 1\<rparr>) (Some True) (found ''y'' [''t'', ''u''])"
proof
  let ?env = "demo_services\<lparr>se_limit := 1\<rparr>"
  show y: "too_many ?env (Some True) (found ''y'' [''t'', ''u''])"
    by (simp add: too_many_def demo_services_def)
  have x: "too_many ?env (Some True) (found ''x'' (demo_history ''x''))"
    by (simp add: too_many_def demo_services_def demo_lengths)
  have "hash_map ?env [''x'', ''y''] = Inr [(''hx'', ''x''), (''hy'', ''y'')]" "mapE (se_hash ?env) [''x'', ''y''] = Inr [''hx'', ''hy'']"
    "se_histories ?env k uri = Inr [(''hx'', demo_history ''x''), (''hy'', [''t'', ''u''])]" for k uri
    by (simp_all add: hash_map_def demo_services_def demo_history_def)
  note run = this
  have "splice_bad (too_many ?env (Some True)) [found ''x'' (demo_history ''x''), found ''y'' [''t'', ''u'']] = [found ''y'' [''t'', ''u'']]"
    by (simp add: splice_bad_def splice1_def numeral_2_eq_2 x)
  then show "rest_getAddresses ?env [''x'', ''y''] (Some True) demo_importer
   = Some (Inr [found ''y'' [''t'', ''u'']], demo_importer\<lparr>w_clock := Suc (w_clock demo_importer)\<rparr>)"
    unfolding rest_getAddresses_def run bindA_lift by (simp add: bindA_def ret_def remote_def run or_undefined_def)
qed

end
