(* ===== verification/Rest_Http.thy ===== *)
theory Rest_Http
  imports Auth Effects
begin

text \<open>
  \<^verbatim>\<open>lib/http-server/http-server.ts\<close>: the answers to a request, and the chain of middlewares before a
  handler. A form is the dictionary of its fields; a field of a JSON body that is no string only has its
  truth value.
\<close>

section \<open>Answers\<close>

text \<open>An error that is answered has a message of the dictionary or of its own, or is an object (\<open>Fail_data\<close>).\<close>

datatype 'd reply = Status_ok | Ok_data 'd | Plain 'd | Fail exn | Fail_data 'd | Server_error

record 'd response =
  rs_code :: nat
  rs_body :: "'d reply"

definition ok_response :: "'d response" where "ok_response = \<lparr>rs_code = 200, rs_body = Status_ok\<rparr>"

definition sendOk :: "('s, 'd response) act" where "sendOk = ret ok_response"

definition sendOkData :: "'d \<Rightarrow> ('s, 'd response) act" where
  "sendOkData d = ret \<lparr>rs_code = 200, rs_body = Ok_data d\<rparr>"

definition sendOkDataOnly :: "'d \<Rightarrow> ('s, 'd response) act" where
  "sendOkDataOnly d = ret \<lparr>rs_code = 200, rs_body = Plain d\<rparr>"

definition sendRawData :: "'d \<Rightarrow> ('s, 'd response) act" where
  "sendRawData d = ret \<lparr>rs_code = 200, rs_body = Plain d\<rparr>"

text \<open>An \<open>Error\<close> is logged and answered as the general error; the entries of the dictionary are strings.\<close>

definition shown :: "exn \<Rightarrow> exn" where
  "shown e = (case e of Err c \<Rightarrow> e | Str t \<Rightarrow> e | Faults l \<Rightarrow> e | _ \<Rightarrow> Err Generic_GEN)"

definition error_response :: "exn \<Rightarrow> nat \<Rightarrow> 'd response" where
  "error_response e code = \<lparr>rs_code = code, rs_body = Fail (shown e)\<rparr>"

definition sendError :: "exn \<Rightarrow> nat \<Rightarrow> ('s, 'd response) act" where
  "sendError e code = ret (error_response e code)"

section \<open>Middlewares\<close>

definition auth_errors :: "string list" where
  "auth_errors = map err_msg [Auth_INVALID_CONF, Auth_INVALID_JWT, Auth_INVALID_PRF, Auth_MISSING_JWT, Auth_TECH_ISSUE, Auth_INVALID_API_KEY]"

definition onError :: "exn \<Rightarrow> 'd response" where
  "onError e =
     (case e of
        Exn m \<Rightarrow> if m \<in> set auth_errors then error_response (Str m) 401 else \<lparr>rs_code = 500, rs_body = Server_error\<rparr>
      | _ \<Rightarrow> \<lparr>rs_code = 500, rs_body = Server_error\<rparr>)"

text \<open>The check of the credentials, the validation of the arguments, then the handler.\<close>

definition route :: "ctx result \<Rightarrow> bool \<Rightarrow> ('s, 'd response) act \<Rightarrow> ('s, 'd response) act" where
  "route auth valid handler =
     (case auth of
        Inl e \<Rightarrow> ret (onError e)
      | Inr _ \<Rightarrow> if valid then handler else sendError (Err Body_INVDATA) 400)"

section \<open>Arguments\<close>

datatype field = A_text string | A_value bool

type_synonym body = "string \<rightharpoonup> field"

definition stringField :: "field option \<Rightarrow> string option" where
  "stringField f = (case f of Some (A_text t) \<Rightarrow> Some t | _ \<Rightarrow> None)"

definition truthy_field :: "field option \<Rightarrow> bool" where
  "truthy_field f = (case f of None \<Rightarrow> False | Some (A_text t) \<Rightarrow> t \<noteq> '''' | Some (A_value b) \<Rightarrow> b)"

text \<open>The package \<^verbatim>\<open>validator\<close>, as the routes use it.\<close>

record validator =
  va_alphanumeric :: "string \<Rightarrow> bool"
  va_base64 :: "string \<Rightarrow> bool"
  va_int :: "string \<Rightarrow> bool"
  va_sha256 :: "string \<Rightarrow> bool"
  va_hexadecimal :: "string \<Rightarrow> bool"

definition given :: "(string \<Rightarrow> bool) \<Rightarrow> string option \<Rightarrow> bool" where
  "given valid x = (case x of None \<Rightarrow> False | Some t \<Rightarrow> valid t)"

definition absent_or :: "(string \<Rightarrow> bool) \<Rightarrow> string option \<Rightarrow> bool" where
  "absent_or valid x = (case x of None \<Rightarrow> True | Some t \<Rightarrow> valid t)"

definition falsy_or :: "(string \<Rightarrow> bool) \<Rightarrow> string option \<Rightarrow> bool" where
  "falsy_or valid x = absent_or valid (truthy_str x)"

section \<open>Reasoning about answers\<close>

text \<open>The handler answers, and the answer and the state it leaves have a property.\<close>

definition gives :: "('s, 'd response) act \<Rightarrow> 's \<Rightarrow> ('d response \<Rightarrow> 's \<Rightarrow> bool) \<Rightarrow> bool" where
  "gives m s Q \<longleftrightarrow> (\<exists>resp t. m s = Some (Inr resp, t) \<and> Q resp t)"

lemma givesD: "gives m s Q \<Longrightarrow> \<exists>resp t. m s = Some (Inr resp, t) \<and> Q resp t"
  by (simp add: gives_def)

named_theorems gives_intros

lemma gives_send [gives_intros]:
  "Q ok_response s \<Longrightarrow> gives sendOk s Q"
  "Q \<lparr>rs_code = 200, rs_body = Ok_data d\<rparr> s \<Longrightarrow> gives (sendOkData d) s Q"
  "Q \<lparr>rs_code = 200, rs_body = Plain d\<rparr> s \<Longrightarrow> gives (sendOkDataOnly d) s Q"
  "Q \<lparr>rs_code = 200, rs_body = Plain d\<rparr> s \<Longrightarrow> gives (sendRawData d) s Q"
  "Q (error_response e code) s \<Longrightarrow> gives (sendError e code) s Q"
  by (simp_all add: gives_def sendOk_def sendOkData_def sendOkDataOnly_def sendRawData_def sendError_def ret_def)

lemma gives_cases [gives_intros]:
  "\<lbrakk>b \<Longrightarrow> gives m s Q; \<not> b \<Longrightarrow> gives n s Q\<rbrakk> \<Longrightarrow> gives (if b then m else n) s Q"
  "\<lbrakk>x = None \<Longrightarrow> gives m s Q; \<And>a. x = Some a \<Longrightarrow> gives (f a) s Q\<rbrakk> \<Longrightarrow> gives (case x of None \<Rightarrow> m | Some a \<Rightarrow> f a) s Q"
  "\<lbrakk>\<And>e. y = Inl e \<Longrightarrow> gives (g e) s Q; \<And>a. y = Inr a \<Longrightarrow> gives (h a) s Q\<rbrakk> \<Longrightarrow> gives (case y of Inl e \<Rightarrow> g e | Inr a \<Rightarrow> h a) s Q"
  "(\<And>a b. z = (a, b) \<Longrightarrow> gives (k a b) s Q) \<Longrightarrow> gives (case z of (a, b) \<Rightarrow> k a b) s Q"
  by (auto split: option.split sum.split prod.split)

lemma gives_bind: "m s = Some (Inr a, t) \<Longrightarrow> gives (f a) t Q \<Longrightarrow> gives (bindA m f) s Q"
  by (simp add: gives_def bindA_def)

text \<open>A call of a service whose error is answered by another handler.\<close>

lemma gives_try [gives_intros]:
  assumes "m s = Some (r, t)" and "\<And>e. r = Inl e \<Longrightarrow> gives (h e) t Q" and "\<And>a. r = Inr a \<Longrightarrow> gives (catchA (f a) h) t Q"
  shows "gives (catchA (bindA m f) h) s Q"
  using assms by (cases r) (auto simp: gives_def catchA_def bindA_def)

lemma gives_catch: "gives m s Q \<Longrightarrow> gives (catchA m h) s Q"
  by (auto simp: gives_def catchA_def)

lemma gives_catch_send [gives_intros]:
  "gives sendOk s Q \<Longrightarrow> gives (catchA sendOk h) s Q" "gives (sendOkData d) s Q \<Longrightarrow> gives (catchA (sendOkData d) h) s Q"
  by (rule gives_catch, assumption)+

lemma gives_route [gives_intros]:
  "\<lbrakk>\<And>e. auth = Inl e \<Longrightarrow> Q (onError e) s; \<And>c. \<lbrakk>auth = Inr c; \<not> valid\<rbrakk> \<Longrightarrow> Q (error_response (Err Body_INVDATA) 400) s;
    \<And>c. \<lbrakk>auth = Inr c; valid\<rbrakk> \<Longrightarrow> gives m s Q\<rbrakk> \<Longrightarrow> gives (route auth valid m) s Q"
  by (auto simp: route_def gives_def ret_def sendError_def split: sum.split)

lemma gives_mono: "\<lbrakk>gives m s P; \<And>resp t. P resp t \<Longrightarrow> Q resp t\<rbrakk> \<Longrightarrow> gives m s Q"
  by (auto simp: gives_def)

lemma code_error [simp]: "rs_code (error_response e c) = c"
  by (simp add: error_response_def)

lemma code_onError: "rs_code (onError e) \<in> {401, 500}"
  by (simp add: onError_def split: exn.split)

lemma stringField_iff: "stringField f = Some t \<longleftrightarrow> f = Some (A_text t)"
  by (auto simp: stringField_def split: option.splits field.splits)

end
