(* ===== verification/Rest_Xpub.thy ===== *)
theory Rest_Xpub
  imports Rest_Http Wallet_Info
begin

text \<open>
  \<^verbatim>\<open>accounts/xpub-rest-api.ts\<close>: the endpoints of the HD accounts. A request is deleted or locked
  on a signature of the owner; what is answered and what changes is stated of the whole route, from the check of
  the credentials on.
\<close>

section \<open>Handlers\<close>

definition xlatHdAccount :: "'n hd_lib \<Rightarrow> string \<Rightarrow> (string \<times> hd_type) result" where
  "xlatHdAccount lib origXpub =
     (let isY = isYpub (Some origXpub); isZ = isZpub (Some origXpub);
          translated = (if isY \<or> isZ
            then bindE (xlatXPUB lib (Some origXpub)) (\<lambda>xpub. Inr (xpub, if isY then BIP49 else BIP84))
            else Inr (origXpub, BIP44));
          r = bindE translated (\<lambda>(xpub, scheme).
            bindE (validXpub lib (Some xpub)) (\<lambda>valid. if valid then Inr (xpub, scheme) else Inl (Err Xpub_INVALID)))
      in case r of Inl e \<Rightarrow> Inl (if e = Err Xpub_PRIVKEY then e else Err Xpub_INVALID) | Inr x \<Rightarrow> Inr x)"

definition segwit_scheme :: "string option \<Rightarrow> hd_type option" where
  "segwit_scheme argumentSegwit =
     (case truthy_str argumentSegwit of
        None \<Rightarrow> Some BIP44
      | Some t \<Rightarrow> (let segwit = toLowerCase t
                  in if segwit = ''bip49'' then Some BIP49 else if segwit = ''bip84'' then Some BIP84 else None))"

definition postXpub :: "int \<Rightarrow> ('n, 'e) import_env_scheme \<Rightarrow> nat \<Rightarrow> body option \<Rightarrow> ('s import_state_scheme, unit response) act" where
  "postXpub now env fuel body =
     (case body of
        None \<Rightarrow> sendError (Err Body_NODATA) 400
      | Some b \<Rightarrow>
          if \<not> truthy_field (b ''xpub'') then sendError (Err Body_NOXPUB) 400
          else if \<not> truthy_field (b ''type'') then sendError (Err Body_NOTYPE) 400
          else (case (stringField (b ''xpub''), stringField (b ''type'')) of
            (Some argumentXpub, Some action) \<Rightarrow>
              (case xlatHdAccount (ie_lib env) argumentXpub of
                 Inl e \<Rightarrow> sendError e 400
               | Inr (xpub, _) \<Rightarrow>
                   (case segwit_scheme (stringField (b ''segwit'')) of
                      None \<Rightarrow> sendError (Err Xpub_SEGWIT) 400
                    | Some scheme \<Rightarrow>
                        let forceOverride = (b ''force'' = Some (A_text ''true''))
                        in if action = ''new''
                           then catchA (bindA (createHdAccount now env xpub scheme) (\<lambda>_. sendOk)) (\<lambda>e. sendError e 400)
                           else if action = ''restore''
                           then catchA (bindA (restoreHdAccount now env fuel xpub scheme forceOverride) (\<lambda>_. sendOk)) (\<lambda>e. sendError e 400)
                           else sendError (Err Body_INVTYPE) 400))
          | _ \<Rightarrow> sendError (Err Body_INVDATA) 400))"

record xpub_answer =
  xr_balance :: int
  xr_external :: int
  xr_internal :: int
  xr_derivation :: "string option"
  xr_created :: "int option"

text \<open>\<open>loadInfo\<close> gives \<open>false\<close> when the account or its node is missing.\<close>

definition info_loaded :: "('n, 'e) wallet_env_scheme \<Rightarrow> db \<Rightarrow> string \<Rightarrow> bool" where
  "info_loaded env d xpub =
     (case getHDAccount xpub d of
        Inl _ \<Rightarrow> False
      | Inr _ \<Rightarrow> (case fresh_node (ie_lib env) (Some xpub) of Inr (Some _) \<Rightarrow> True | _ \<Rightarrow> False))"

definition getXpub :: "('n, 'e) wallet_env_scheme \<Rightarrow> string \<Rightarrow> ('s import_state_scheme, xpub_answer response) act" where
  "getXpub env argumentXpub =
     (case xlatHdAccount (ie_lib env) argumentXpub of
        Inl e \<Rightarrow> sendError e 400
      | Inr (xpub, _) \<Rightarrow>
          catchA (bindA (askDb (\<lambda>d. (info_loaded env d xpub, loadInfo env d (new_hd_info xpub)))) (\<lambda>(loaded, info).
              if \<not> loaded then throw (Str ''Unable to load Xpub info'')
              else sendOkData \<lparr>xr_balance = hi_finalBalance info, xr_external = hi_accountIndex info,
                     xr_internal = hi_changeIndex info, xr_derivation = hi_derivation info, xr_created = hi_created info\<rparr>))
            (\<lambda>e. sendError e 400))"

record import_status =
  is_in_progress :: bool
  is_status :: "string option"
  is_hits :: "int option"

definition no_import :: import_status where
  "no_import = \<lparr>is_in_progress = False, is_status = None, is_hits = None\<rparr>"

definition import_status_of :: "claim option \<Rightarrow> import_status" where
  "import_status_of c =
     (case c of
        None \<Rightarrow> no_import
      | Some Flag \<Rightarrow> no_import\<lparr>is_in_progress := True\<rparr>
      | Some (Info i) \<Rightarrow> \<lparr>is_in_progress = True, is_status = Some (im_status i),
          is_hits = Some (let n = (\<lambda>x. case x of None \<Rightarrow> 0 | Some k \<Rightarrow> k)
            in if im_status i = ''rescan'' then n (im_txs_int i) + n (im_txs_ext i) else n (im_txs i))\<rparr>)"

definition getXpubImportStatus :: "('n, 'e) import_env_scheme \<Rightarrow> string \<Rightarrow> ('s import_state_scheme, import_status response) act" where
  "getXpubImportStatus env argumentXpub =
     (case xlatHdAccount (ie_lib env) argumentXpub of
        Inl e \<Rightarrow> sendError e 400
      | Inr (xpub, _) \<Rightarrow> bindA (ask (importInProgress (Some xpub))) (\<lambda>status. sendOkData (import_status_of status)))"

definition postLockXpub :: "('n, 'e) import_env_scheme \<Rightarrow> (string \<Rightarrow> string \<Rightarrow> string \<Rightarrow> bool result) \<Rightarrow> body option \<Rightarrow> string
    \<Rightarrow> ('s world_scheme, string response) act" where
  "postLockXpub env verify body argumentXpub =
     (case body of
        None \<Rightarrow> sendError (Err Body_NODATA) 400
      | Some b \<Rightarrow>
          if \<not> truthy_field (b ''address'') then sendError (Err Body_NOADDR) 400
          else if \<not> truthy_field (b ''signature'') then sendError (Err Body_NOSIG) 400
          else if \<not> truthy_field (b ''message'') then sendError (Err Body_NOMSG) 400
          else if \<not> (b ''message'' = Some (A_text ''lock'') \<or> b ''message'' = Some (A_text ''unlock'')) then sendError (Err Sig_INVMSG) 400
          else (case (stringField (b ''address''), stringField (b ''signature''), stringField (b ''message'')) of
            (Some addr, Some sig, Some msg) \<Rightarrow>
              (case xlatHdAccount (ie_lib env) argumentXpub of
                 Inl e \<Rightarrow> sendError e 400
               | Inr (xpub, scheme) \<Rightarrow>
                   catchA (bindA (verifyXpubSignature env verify xpub addr sig msg scheme) (\<lambda>_.
                           bindA (lockHdAccount xpub (msg \<noteq> ''unlock'')) (\<lambda>derivation. sendOkData derivation)))
                     (\<lambda>_. sendError (Err Generic_GEN) 400))
          | _ \<Rightarrow> sendError (Err Body_INVDATA) 400))"

definition deleteXpub :: "('n, 'e) import_env_scheme \<Rightarrow> (string \<Rightarrow> string \<Rightarrow> string \<Rightarrow> bool result) \<Rightarrow> body option \<Rightarrow> string
    \<Rightarrow> ('s world_scheme, unit response) act" where
  "deleteXpub env verify body argumentXpub =
     (case body of
        None \<Rightarrow> sendError (Err Body_NODATA) 400
      | Some b \<Rightarrow>
          if \<not> truthy_field (b ''address'') then sendError (Err Body_NOADDR) 400
          else if \<not> truthy_field (b ''signature'') then sendError (Err Body_NOSIG) 400
          else (case (stringField (b ''address''), stringField (b ''signature'')) of
            (Some addr, Some sig) \<Rightarrow>
              (case xlatHdAccount (ie_lib env) argumentXpub of
                 Inl e \<Rightarrow> sendError e 400
               | Inr (xpub, scheme) \<Rightarrow>
                   catchA (bindA (verifyXpubSignature env verify xpub addr sig argumentXpub scheme) (\<lambda>_.
                           bindA (deleteHdAccount xpub) (\<lambda>_. sendOk)))
                     (\<lambda>e. sendError e 400))
          | _ \<Rightarrow> sendError (Err Body_INVDATA) 400))"

section \<open>Validation and routes\<close>

definition validateArgsPostXpub :: "validator \<Rightarrow> body \<Rightarrow> bool" where
  "validateArgsPostXpub v b \<longleftrightarrow>
     given (va_alphanumeric v) (stringField (b ''xpub'')) \<and> absent_or (va_alphanumeric v) (stringField (b ''segwit'')) \<and>
     absent_or (va_alphanumeric v) (stringField (b ''type'')) \<and> absent_or (va_alphanumeric v) (stringField (b ''force''))"

definition validateArgsGetXpub :: "validator \<Rightarrow> string \<Rightarrow> bool" where
  "validateArgsGetXpub v xpub \<longleftrightarrow> va_alphanumeric v xpub"

definition validateArgsPostLockXpub :: "validator \<Rightarrow> body \<Rightarrow> string \<Rightarrow> bool" where
  "validateArgsPostLockXpub v b xpub \<longleftrightarrow>
     va_alphanumeric v xpub \<and> given (va_alphanumeric v) (stringField (b ''address'')) \<and>
     given (va_base64 v) (stringField (b ''signature'')) \<and> given (va_alphanumeric v) (stringField (b ''message''))"

definition validateArgsDeleteXpub :: "validator \<Rightarrow> body \<Rightarrow> string \<Rightarrow> bool" where
  "validateArgsDeleteXpub v b xpub \<longleftrightarrow>
     va_alphanumeric v xpub \<and> given (va_alphanumeric v) (stringField (b ''address'')) \<and> given (va_base64 v) (stringField (b ''signature''))"

text \<open>The credentials of a request, the configuration and the clock give the outcome of the check.\<close>

definition post_xpub :: "ctx result \<Rightarrow> validator \<Rightarrow> int \<Rightarrow> ('n, 'e) import_env_scheme \<Rightarrow> nat \<Rightarrow> body
    \<Rightarrow> ('s import_state_scheme, unit response) act" where
  "post_xpub auth v now env fuel b = route auth (validateArgsPostXpub v b) (postXpub now env fuel (Some b))"

definition get_xpub :: "ctx result \<Rightarrow> validator \<Rightarrow> ('n, 'e) wallet_env_scheme \<Rightarrow> string \<Rightarrow> ('s import_state_scheme, xpub_answer response) act" where
  "get_xpub auth v env xpub = route auth (validateArgsGetXpub v xpub) (getXpub env xpub)"

definition get_import_status :: "ctx result \<Rightarrow> validator \<Rightarrow> ('n, 'e) import_env_scheme \<Rightarrow> string \<Rightarrow> ('s import_state_scheme, import_status response) act" where
  "get_import_status auth v env xpub = route auth (validateArgsGetXpub v xpub) (getXpubImportStatus env xpub)"

definition post_lock_xpub :: "ctx result \<Rightarrow> validator \<Rightarrow> ('n, 'e) import_env_scheme \<Rightarrow> (string \<Rightarrow> string \<Rightarrow> string \<Rightarrow> bool result) \<Rightarrow> body
    \<Rightarrow> string \<Rightarrow> ('s world_scheme, string response) act" where
  "post_lock_xpub auth v env verify b xpub = route auth (validateArgsPostLockXpub v b xpub) (postLockXpub env verify (Some b) xpub)"

definition delete_xpub :: "ctx result \<Rightarrow> validator \<Rightarrow> ('n, 'e) import_env_scheme \<Rightarrow> (string \<Rightarrow> string \<Rightarrow> string \<Rightarrow> bool result) \<Rightarrow> body
    \<Rightarrow> string \<Rightarrow> ('s world_scheme, unit response) act" where
  "delete_xpub auth v env verify b xpub = route auth (validateArgsDeleteXpub v b xpub) (deleteXpub env verify (Some b) xpub)"

section \<open>Signed requests\<close>

definition first_internal :: "('n, 'e) import_env_scheme \<Rightarrow> string \<Rightarrow> hd_type \<Rightarrow> string result" where
  "first_internal env xpub type =
     bindE (deriveAddresses (ie_lib env) (ie_parallel env) (ie_threshold env) (ie_exec env) (Some xpub) 1 [0] (Some type)) first_address"

text \<open>
  The message is signed with the key of the first internal address, the request names this address in
  the given scheme, and the account is tracked.
\<close>

definition signed :: "('n, 'e) import_env_scheme \<Rightarrow> (string \<Rightarrow> string \<Rightarrow> string \<Rightarrow> bool result) \<Rightarrow> string \<Rightarrow> string \<Rightarrow> string
    \<Rightarrow> string \<Rightarrow> hd_type \<Rightarrow> db \<Rightarrow> bool" where
  "signed env verify xpub addr sig msg scheme d \<longleftrightarrow>
     (\<exists>sigAddress. first_internal env xpub BIP44 = Inr sigAddress \<and> verify msg sigAddress sig = Inr True) \<and>
     first_internal env xpub scheme = Inr addr \<and> hd_account xpub d \<noteq> None"

text \<open>
  The body of a request carries such a signature for the account \<open>x\<close>. The scheme is the one of the prefix of the key in the
  request, whatever the scheme of the account: \<open>xpub\<close> asks for the P2PKH address, \<open>ypub\<close> and \<open>zpub\<close> for theirs.
\<close>

definition owner_asks :: "('n, 'e) import_env_scheme \<Rightarrow> (string \<Rightarrow> string \<Rightarrow> string \<Rightarrow> bool result) \<Rightarrow> body \<Rightarrow> string \<Rightarrow> string
    \<Rightarrow> db \<Rightarrow> string \<Rightarrow> bool" where
  "owner_asks env verify b arg msg d x \<longleftrightarrow> (\<exists>addr sig scheme.
     b ''address'' = Some (A_text addr) \<and> addr \<noteq> [] \<and> b ''signature'' = Some (A_text sig) \<and> sig \<noteq> [] \<and>
     xlatHdAccount (ie_lib env) arg = Inr (x, scheme) \<and> signed env verify x addr sig msg scheme d)"

lemma owner_unique: "owner_asks env verify b arg msg d x \<Longrightarrow> owner_asks env verify b arg msg d y \<Longrightarrow> y = x"
  by (auto simp: owner_asks_def)

lemma verifySignature_iff: "verifySignature verify msg a sig \<longleftrightarrow> verify msg a sig = Inr True"
  by (auto simp: verifySignature_def split: sum.split)

lemma verifyXpubSignature_run:
  "\<exists>r. verifyXpubSignature env verify xpub addr sig msg scheme s = Some (r, s)
    \<and> ((\<exists>x. r = Inr x) \<longleftrightarrow> signed env verify xpub addr sig msg scheme (w_db s))"
proof (cases "first_internal env xpub BIP44")
  case (Inl e)
  then show ?thesis by (simp add: verifyXpubSignature_def Let_def first_internal_def [symmetric] bindA_lift throw_def signed_def)
next
  case (Inr sigAddress)
  show ?thesis
  proof (cases "first_internal env xpub scheme")
    case (Inl e)
    then show ?thesis using Inr by (simp add: verifyXpubSignature_def Let_def first_internal_def [symmetric] bindA_lift throw_def signed_def)
  next
    case first: (Inr expected)
    then show ?thesis using Inr
      by (auto simp: verifyXpubSignature_def Let_def first_internal_def [symmetric] bindA_lift getHDAccountId_def
          catchA_def bindA_def askDb_def act_defs signed_def verifySignature_iff split: option.split)
  qed
qed

text \<open>Every answer of the handlers is sent, and an error of a service changes nothing here.\<close>

lemma deleteHdAccount_run: "deleteHdAccount xpub s = Some (Inr (), s\<lparr>w_db := deleteHDAccount xpub (w_db s)\<rparr>)"
  by (simp add: deleteHdAccount_def catchA_def onDb_def modify_def)

lemma lockHdAccount_run:
  assumes "hd_account xpub (w_db s) \<noteq> None"
  shows "\<exists>d t. lockHdAccount xpub lock s = Some (Inr d, t)"
  using assms by (auto simp: lockHdAccount_def catchA_def bindA_def getAccount_def getHDAccount_def setLockHDAccountType_def
      askDb_def tryDb_def tryModify_def Let_def act_defs bindE_def split: option.split sum.split)

lemma truthy_text: "truthy_field (Some (A_text t)) \<longleftrightarrow> t \<noteq> []" "stringField (Some (A_text t)) = Some t"
  by (simp_all add: truthy_field_def stringField_def)

text \<open>A request that its owner did not sign.\<close>

lemma deleteXpub_refused:
  assumes "\<nexists>x. owner_asks env verify b xpub xpub (w_db s) x"
  shows "gives (deleteXpub env verify (Some b) xpub) s (\<lambda>resp t. t = s \<and> rs_code resp = 400)" (is "gives _ _ ?Q")
proof -
  have unsigned: "gives (catchA (bindA (verifyXpubSignature env verify x addr sig xpub scheme) (\<lambda>_. bindA (deleteHdAccount x) (\<lambda>_. sendOk)))
      (\<lambda>e. sendError e 400)) s ?Q"
    if "truthy_field (b ''address'')" "truthy_field (b ''signature'')" "stringField (b ''address'') = Some addr"
      "stringField (b ''signature'') = Some sig" "xlatHdAccount (ie_lib env) xpub = Inr (x, scheme)" for x scheme addr sig
  proof -
    obtain v where v: "verifyXpubSignature env verify x addr sig xpub scheme s = Some (v, s)"
      "(\<exists>y. v = Inr y) \<longleftrightarrow> signed env verify x addr sig xpub scheme (w_db s)"
      using verifyXpubSignature_run by blast
    have "\<not> signed env verify x addr sig xpub scheme (w_db s)"
      using assms that by (auto simp: owner_asks_def stringField_iff truthy_text)
    then show ?thesis by - (rule gives_try, rule v(1), use v(2) in \<open>auto intro!: gives_intros\<close>)
  qed
  show ?thesis unfolding deleteXpub_def option.case
    by (intro gives_intros unsigned conjI refl code_error) simp_all
qed

lemma deleteXpub_deletes:
  assumes "owner_asks env verify b xpub xpub (w_db s) x"
  shows "deleteXpub env verify (Some b) xpub s = Some (Inr ok_response, s\<lparr>w_db := deleteHDAccount x (w_db s)\<rparr>)"
proof -
  obtain addr sig scheme where o: "b ''address'' = Some (A_text addr)" "addr \<noteq> []" "b ''signature'' = Some (A_text sig)" "sig \<noteq> []"
    "xlatHdAccount (ie_lib env) xpub = Inr (x, scheme)" "signed env verify x addr sig xpub scheme (w_db s)"
    using assms by (auto simp: owner_asks_def)
  obtain y where "verifyXpubSignature env verify x addr sig xpub scheme s = Some (Inr y, s)"
    using verifyXpubSignature_run [of env verify x addr sig xpub scheme s] o(6) by auto
  then show ?thesis using o(1-5)
    by (simp add: deleteXpub_def truthy_text catchA_def bindA_def deleteHdAccount_run sendOk_def ret_def)
qed

text \<open>What a lock leaves: the account, with its scheme and the lock asked for.\<close>

definition relocked :: "string \<Rightarrow> bool \<Rightarrow> 's world_scheme \<Rightarrow> 's world_scheme \<Rightarrow> bool" where
  "relocked x lock s t \<longleftrightarrow> (\<forall>a scheme. hd_account x (w_db s) = Some a \<longrightarrow> ty_type (classify (h_hdType a)) = Some scheme \<longrightarrow>
     (\<exists>b. hd_account x (w_db t) = Some b \<and> classify (h_hdType b) = \<lparr>ty_type = Some scheme, ty_locked = lock\<rparr>))"

definition lock_message :: "body \<Rightarrow> string \<Rightarrow> bool" where
  "lock_message b msg \<longleftrightarrow> b ''message'' = Some (A_text msg) \<and> msg \<in> {''lock'', ''unlock''}"

lemma postLockXpub_refused:
  assumes "\<nexists>x msg. lock_message b msg \<and> owner_asks env verify b xpub msg (w_db s) x"
  shows "gives (postLockXpub env verify (Some b) xpub) s (\<lambda>resp t. t = s \<and> rs_code resp = 400)" (is "gives _ _ ?Q")
proof -
  have unsigned: "gives (catchA (bindA (verifyXpubSignature env verify x addr sig msg scheme) (\<lambda>_.
        bindA (lockHdAccount x (msg \<noteq> ''unlock'')) (\<lambda>derivation. sendOkData derivation))) (\<lambda>_. sendError (Err Generic_GEN) 400)) s ?Q"
    if "truthy_field (b ''address'')" "truthy_field (b ''signature'')" "stringField (b ''address'') = Some addr"
      "stringField (b ''signature'') = Some sig" "stringField (b ''message'') = Some msg"
      "\<not> \<not> (b ''message'' = Some (A_text ''lock'') \<or> b ''message'' = Some (A_text ''unlock''))"
      "xlatHdAccount (ie_lib env) xpub = Inr (x, scheme)" for x scheme addr sig msg
  proof -
    obtain v where v: "verifyXpubSignature env verify x addr sig msg scheme s = Some (v, s)"
      "(\<exists>y. v = Inr y) \<longleftrightarrow> signed env verify x addr sig msg scheme (w_db s)"
      using verifyXpubSignature_run by blast
    have "lock_message b msg" using that(5,6) by (auto simp: lock_message_def stringField_iff)
    then have "\<not> owner_asks env verify b xpub msg (w_db s) x" using assms by blast
    then have "\<not> signed env verify x addr sig msg scheme (w_db s)"
      using that by (auto simp: owner_asks_def stringField_iff truthy_text)
    then show ?thesis by - (rule gives_try, rule v(1), use v(2) in \<open>auto intro!: gives_intros\<close>)
  qed
  show ?thesis unfolding postLockXpub_def option.case
    by (intro gives_intros unsigned conjI refl code_error) simp_all
qed

lemma postLockXpub_locks:
  assumes "lock_message b msg" and "owner_asks env verify b xpub msg (w_db s) x"
  shows "\<exists>d t. postLockXpub env verify (Some b) xpub s = Some (Inr \<lparr>rs_code = 200, rs_body = Ok_data d\<rparr>, t) \<and> relocked x (msg = ''lock'') s t"
proof -
  obtain addr sig scheme where o: "b ''address'' = Some (A_text addr)" "addr \<noteq> []" "b ''signature'' = Some (A_text sig)" "sig \<noteq> []"
    "xlatHdAccount (ie_lib env) xpub = Inr (x, scheme)" "signed env verify x addr sig msg scheme (w_db s)"
    using assms(2) by (auto simp: owner_asks_def)
  have m: "b ''message'' = Some (A_text msg)" "msg = ''lock'' \<or> msg = ''unlock''" using assms(1) by (auto simp: lock_message_def)
  obtain y where y: "verifyXpubSignature env verify x addr sig msg scheme s = Some (Inr y, s)"
    using verifyXpubSignature_run [of env verify x addr sig msg scheme s] o(6) by auto
  obtain d t where r: "lockHdAccount x (msg \<noteq> ''unlock'') s = Some (Inr d, t)"
    using lockHdAccount_run [of x s "msg \<noteq> ''unlock''"] o(6) by (auto simp: signed_def)
  have same: "(msg \<noteq> ''unlock'') = (msg = ''lock'')" using m(2) by auto
  have "relocked x (msg = ''lock'') s t" using lockHdAccount_locks [OF r] unfolding relocked_def same by blast
  moreover have "postLockXpub env verify (Some b) xpub s = Some (Inr \<lparr>rs_code = 200, rs_body = Ok_data d\<rparr>, t)"
    using o(1-5) m y r by (auto simp: postLockXpub_def truthy_text catchA_def bindA_def sendOkData_def ret_def)
  ultimately show ?thesis by blast
qed

text \<open>A route whose handler is decided by a condition.\<close>

lemma route_decides:
  assumes "P \<Longrightarrow> gives m s Q" and "\<not> P \<Longrightarrow> gives m s (\<lambda>resp t. t = s \<and> rs_code resp = 400)"
  shows "\<exists>resp t. route auth valid m s = Some (Inr resp, t)
    \<and> (if (\<exists>c. auth = Inr c) \<and> valid \<and> P then Q resp t else t = s \<and> rs_code resp \<in> {400, 401, 500})"
proof (cases auth)
  case (Inl e)
  then show ?thesis using code_onError [of e] by (auto simp: route_def ret_def)
next
  case (Inr c)
  then show ?thesis using assms by (cases "valid \<and> P") (auto simp: route_def gives_def sendError_def ret_def)
qed

text \<open>
  C21. An account is deleted by DELETE /xpub/:xpub exactly on the request of its owner. The request is
  always answered. It deletes the account, and the answer is ok, if and only if its credentials and arguments are
  accepted and its body carries a signature of the key, as it is written in the path, with the first internal key
  of a tracked account, and names this key's address in the scheme of the prefix of the key; otherwise nothing
  changes and the answer is an error. The documentation of this endpoint asks for less in one point and passes the
  parameters elsewhere: a request in its form, with the parameters in the query or with the P2PKH address of a \<open>ypub\<close> or \<open>zpub\<close>, is
  among those that are refused.
\<close>

theorem delete_xpub_authorised:
  "\<exists>resp t. delete_xpub (checkAuthentication conf jwt now c) v env verify b xpub s = Some (Inr resp, t) \<and>
     (if (\<exists>c'. checkAuthentication conf jwt now c = Inr c') \<and> validateArgsDeleteXpub v b xpub
        \<and> (\<exists>x. owner_asks env verify b xpub xpub (w_db s) x)
      then resp = ok_response \<and> (\<exists>x. owner_asks env verify b xpub xpub (w_db s) x
        \<and> w_db t = deleteHDAccount x (w_db s) \<and> hd_account x (w_db t) = None)
      else t = s \<and> rs_code resp \<in> {400, 401, 500})"
  unfolding delete_xpub_def
proof (rule route_decides)
  assume "\<exists>x. owner_asks env verify b xpub xpub (w_db s) x"
  then obtain x where x: "owner_asks env verify b xpub xpub (w_db s) x" by blast
  show "gives (deleteXpub env verify (Some b) xpub) s (\<lambda>resp t. resp = ok_response \<and>
      (\<exists>x. owner_asks env verify b xpub xpub (w_db s) x \<and> w_db t = deleteHDAccount x (w_db s) \<and> hd_account x (w_db t) = None))"
    unfolding gives_def deleteXpub_deletes [OF x] using x by (auto simp: deleteHDAccount_gone)
qed (rule deleteXpub_refused)

text \<open>
  C25. POST /xpub/:xpub/lock locks and unlocks an account exactly on the request of its owner. The
  request is always answered; with credentials and arguments that are accepted and a body with the message
  \<open>lock\<close> or \<open>unlock\<close>, signed as above, the account keeps its scheme and has the lock asked for, and otherwise nothing changes and
  the answer is an error. This is about this endpoint only: a restoration with \<open>force\<close> replaces a locked account without a
  signature, and the lock is lost when its import fails.
\<close>

theorem lock_xpub_authorised:
  "\<exists>resp t. post_lock_xpub (checkAuthentication conf jwt now c) v env verify b xpub s = Some (Inr resp, t) \<and>
     (if (\<exists>c'. checkAuthentication conf jwt now c = Inr c') \<and> validateArgsPostLockXpub v b xpub
        \<and> (\<exists>x msg. lock_message b msg \<and> owner_asks env verify b xpub msg (w_db s) x)
      then rs_code resp = 200 \<and> (\<exists>x msg. lock_message b msg \<and> owner_asks env verify b xpub msg (w_db s) x
        \<and> relocked x (msg = ''lock'') s t)
      else t = s \<and> rs_code resp \<in> {400, 401, 500})"
  unfolding post_lock_xpub_def
proof (rule route_decides)
  assume "\<exists>x msg. lock_message b msg \<and> owner_asks env verify b xpub msg (w_db s) x"
  then obtain x msg where x: "lock_message b msg" "owner_asks env verify b xpub msg (w_db s) x" by blast
  show "gives (postLockXpub env verify (Some b) xpub) s (\<lambda>resp t. rs_code resp = 200 \<and>
      (\<exists>x msg. lock_message b msg \<and> owner_asks env verify b xpub msg (w_db s) x \<and> relocked x (msg = ''lock'') s t))"
    using postLockXpub_locks [OF x] x by (force simp: gives_def)
qed (rule postLockXpub_refused)

section \<open>Locked accounts\<close>

lemma xlatHdAccount_Inr:
  assumes "xlatHdAccount lib arg = Inr (x, scheme)"
  shows "\<exists>ns. fresh_node lib (Some x) = Inr (Some ns)" and "arg \<noteq> []"
proof -
  have valid: "validXpub lib (Some x) = Inr True"
    using assms by (auto simp: xlatHdAccount_def Let_def bindE_Inr_iff split: sum.splits if_splits)
  then show "\<exists>ns. fresh_node lib (Some x) = Inr (Some ns)" by (auto simp: validXpub_def split: sum.splits)
  show "arg \<noteq> []"
  proof
    assume "arg = []"
    then have "x = []" using assms
      by (auto simp: xlatHdAccount_def Let_def bindE_Inr_iff isYpub_def isZpub_def starts_with_def split: sum.splits if_splits)
    then show False using valid
      by (simp add: validXpub_def fresh_node_def parse_node_def isXpub_def isYpub_def isZpub_def starts_with_def)
  qed
qed

lemma createHdAccount_locked:
  assumes "hd_account x (w_db s) = Some a" and "ty_locked (classify (h_hdType a))" and "ty_type (classify (h_hdType a)) \<noteq> Some scheme"
    and "fresh_node (ie_lib env) (Some x) = Inr (Some ns)"
  shows "createHdAccount now env x scheme s = Some (Inl (Err Xpub_LOCKED), s)"
proof -
  have "newHdAccount now env x scheme s = Some (Inl (Err Xpub_LOCKED), s)"
    unfolding newHdAccount_def assms(4) bindA_lift sum.case option.case
    using derivationOverrideCheck_known [OF assms(1), of scheme False] assms(2,3) by (simp add: bindA_def)
  then show ?thesis by (simp add: createHdAccount_def catchA_def bindA_def throw_def)
qed

lemma restore_locked:
  assumes "hd_account x (w_db s) = Some a" and "ty_locked (classify (h_hdType a))" and "ty_type (classify (h_hdType a)) \<noteq> Some scheme"
  shows "restoreHdAccount now env fuel x scheme False s = Some (Inl (Err Xpub_LOCKED), s)"
  unfolding restoreHdAccount_check [OF assms(1,2)]
  using derivationOverrideCheck_known [OF assms(1), of scheme False] assms(2,3) by (simp add: bindA_def)

text \<open>
  The scheme of a locked account cannot be changed through POST /xpub: a request to create the account
  with another scheme, or to restore it with another scheme and without \<open>force\<close>, leaves everything as it was; once
  the credentials and the arguments are accepted, the answer says that the account is locked.
\<close>

theorem post_xpub_locked:
  assumes account: "hd_account x (w_db s) = Some a" "ty_locked (classify (h_hdType a))" "ty_type (classify (h_hdType a)) \<noteq> Some scheme"
    and "xlatHdAccount (ie_lib env) arg = Inr (x, sch)" and "segwit_scheme (stringField (b ''segwit'')) = Some scheme"
    and "b ''xpub'' = Some (A_text arg)" and "b ''type'' = Some (A_text action)"
    and "action = ''new'' \<or> action = ''restore'' \<and> b ''force'' \<noteq> Some (A_text ''true'')"
  shows "post_xpub (checkAuthentication conf jwt now c) v tnow env fuel b s =
    Some (Inr (case checkAuthentication conf jwt now c of
        Inl e \<Rightarrow> onError e
      | Inr _ \<Rightarrow> error_response (Err (if validateArgsPostXpub v b then Xpub_LOCKED else Body_INVDATA)) 400), s)"
proof -
  obtain ns where "fresh_node (ie_lib env) (Some x) = Inr (Some ns)" using xlatHdAccount_Inr(1) [OF assms(4)] by blast
  note locked = createHdAccount_locked [OF account this] restore_locked [OF account]
  have "truthy_field (b ''xpub'')" "truthy_field (b ''type'')" "stringField (b ''xpub'') = Some arg" "stringField (b ''type'') = Some action"
    using assms(6-8) xlatHdAccount_Inr(2) [OF assms(4)] by (auto simp: truthy_field_def stringField_def)
  then have "postXpub tnow env fuel (Some b) s = Some (Inr (error_response (Err Xpub_LOCKED) 400), s)"
    unfolding postXpub_def using assms(4,5,8)
    by (auto simp: Let_def catchA_def bindA_def locked sendError_def ret_def)
  then show ?thesis by (auto simp: post_xpub_def route_def ret_def sendError_def split: sum.split)
qed

section \<open>Witness\<close>

definition demo_owned :: import_state where
  "demo_owned = demo_importer\<lparr>w_db := snd (ensure_hd 1000 (makeType BIP84 True) demo_xpub empty_db)\<rparr>"

definition demo_form :: body where
  "demo_form = [''xpub'' \<mapsto> A_text demo_zpub, ''type'' \<mapsto> A_text ''restore'', ''segwit'' \<mapsto> A_text ''bip49'']"

definition demo_validator :: validator where
  "demo_validator = \<lparr>va_alphanumeric = \<lambda>t. t \<noteq> [], va_base64 = \<lambda>_. True, va_int = \<lambda>_. True, va_sha256 = \<lambda>_. True, va_hexadecimal = \<lambda>_. True\<rparr>"

theorem post_xpub_locked_witness:
  "post_xpub (checkAuthentication (demo_auth\<lparr>au_active := False\<rparr>) demo_jwt 0 (demo_ctx None None)) demo_validator 0 (demo_import ''b00'') 0 demo_form demo_owned
   = Some (Inr (error_response (Err Xpub_LOCKED) 400), demo_owned)"
proof -
  have a: "hd_account demo_xpub (w_db demo_owned) = Some (new_hd demo_xpub 1000 130 1)"
    by (simp add: demo_owned_def ensure_hd_def ensureHDAccountId_def makeType_def hd_types classify_def tbl_add_def hd_account_def
        empty_db_def empty_table_def new_hd_def)
  have node: "fresh_node (demo_lib 0) (Some demo_xpub) = Inr (Some ([0], [1], []))"
    by (simp add: fresh_node_def parse_node_def isXpub_def starts_with_def demo_xlat_xpub)
      (simp add: demo_lib_def demo_xpub_def isXpub_def starts_with_def)
  have x: "xlatHdAccount (ie_lib (demo_import ''b00'')) demo_zpub = Inr (demo_xpub, BIP84)"
    using demo_xlat [of 0] node
    by (simp add: xlatHdAccount_def demo_import_def validXpub_def isYpub_def isZpub_def starts_with_def demo_zpub_def)
  have f: "demo_form ''xpub'' = Some (A_text demo_zpub)" "demo_form ''type'' = Some (A_text ''restore'')" "demo_form ''segwit'' = Some (A_text ''bip49'')"
    "demo_form ''force'' = None" by (simp_all add: demo_form_def)
  have sch: "segwit_scheme (stringField (demo_form ''segwit'')) = Some BIP49"
    by (simp add: f segwit_scheme_def stringField_def truthy_str_def toLowerCase_def)
  have ok: "validateArgsPostXpub demo_validator demo_form"
    by (simp add: validateArgsPostXpub_def demo_validator_def f given_def absent_or_def stringField_def demo_zpub_def)
  have c: "ty_locked (classify (h_hdType (new_hd demo_xpub 1000 130 1)))" "ty_type (classify (h_hdType (new_hd demo_xpub 1000 130 1))) \<noteq> Some BIP49"
    by (simp_all add: new_hd_def classify_def hd_types)
  have auth: "checkAuthentication (demo_auth\<lparr>au_active := False\<rparr>) demo_jwt 0 (demo_ctx None None) = Inr (demo_ctx None None)"
    by (simp add: checkAuthentication_def)
  show ?thesis
    using post_xpub_locked [OF a c x sch f(1,2), where conf = "demo_auth\<lparr>au_active := False\<rparr>" and jwt = demo_jwt and now = 0
        and c = "demo_ctx None None" and v = demo_validator and tnow = 0 and fuel = 0] ok
    by (simp add: auth f(4))
qed

end
