(* ===== verification/Rest_Support.thy ===== *)
theory Rest_Support
  imports Rest_Xpub Wallet_Service Import_Sources
begin

text \<open>
  \<^verbatim>\<open>accounts/support-rest-api.ts\<close>: the endpoints of the administrator. They look into the accounts and
  addresses, scan them again, delete accounts, and manage the API keys that a login accepts.
\<close>

section \<open>Addresses and accounts\<close>

datatype support_data =
    Address_data extended_address
  | Account_data extended_account
  | Status_data string
  | Keys_data "api_key_row list"

definition getAddressInfo :: "('n, 'e) wallet_env_scheme \<Rightarrow> ('n, 'l) entity_lib_scheme \<Rightarrow> string \<Rightarrow> ('s import_state_scheme, support_data response) act" where
  "getAddressInfo env lib addr =
     (case e_addrs (parseEntities lib (Some addr)) of
        [] \<Rightarrow> sendError (Err Address_INVALID) 400
      | address # _ \<Rightarrow>
          bindA (askDb (\<lambda>d. addrLoadUtxos d (addrLoadTransactions (we_page env) d (addrLoadInfoExtended d (new_address_info address))))) (\<lambda>info.
            sendRawData (Address_data (addrToPojoExtended info))))"

definition getAddressRescan :: "int \<Rightarrow> ('n, 'e) wallet_env_scheme \<Rightarrow> ('n, 'l) entity_lib_scheme \<Rightarrow> string
    \<Rightarrow> ('s import_state_scheme, support_data response) act" where
  "getAddressRescan now env lib addr =
     (case e_addrs (parseEntities lib (Some addr)) of
        [] \<Rightarrow> sendError (Err Address_INVALID) 400
      | address # _ \<Rightarrow>
          catchA (bindA (rescanAddress now env address) (\<lambda>_. sendRawData (Status_data ''Rescan complete'')))
            (\<lambda>_. sendError (Err Generic_GEN) 400))"

definition getXpubInfo :: "('n, 'e) wallet_env_scheme \<Rightarrow> ('n, 'l) entity_lib_scheme \<Rightarrow> string \<Rightarrow> ('s import_state_scheme, support_data response) act" where
  "getXpubInfo env lib arg =
     (case e_xpubs (parseEntities lib (Some arg)) of
        [] \<Rightarrow> sendError (Err Xpub_INVALID) 400
      | xpub # _ \<Rightarrow>
          bindA (askDb (\<lambda>d. loadInfo env d (new_hd_info xpub))) (\<lambda>info. sendRawData (Account_data (hdToPojoExtended info))))"

text \<open>
  The query of a rescan: a gap that is no number counts for no gap. A start index that is no number is
  \<open>NaN\<close> in the code, which scans nothing: such a query is outside the model.
\<close>

definition query_int :: "string option \<Rightarrow> int option" where
  "query_int q = (case q of None \<Rightarrow> Some 0 | Some t \<Rightarrow> parseInt t)"

definition rescan_error :: "exn \<Rightarrow> ('s, support_data response) act" where
  "rescan_error e =
     (if e = Err Db_NO_HD_ACCOUNT then sendRawData (Status_data ''Error: Not tracking xpub'')
      else if e = Err Xpub_OVERLAP then sendRawData (Status_data ''Error: Rescan in progress'')
      else sendError (Str ''Rescan Error'') 400)"

definition getXpubRescan :: "int \<Rightarrow> ('n, 'e) wallet_env_scheme \<Rightarrow> nat \<Rightarrow> ('n, 'l) entity_lib_scheme \<Rightarrow> string \<Rightarrow> string option \<Rightarrow> int
    \<Rightarrow> ('s import_state_scheme, support_data response) act" where
  "getXpubRescan now env fuel lib arg gap startIndex =
     (case e_xpubs (parseEntities lib (Some arg)) of
        [] \<Rightarrow> sendError (Err Xpub_INVALID) 400
      | xpub # _ \<Rightarrow>
          catchA (bindA (rescan now env fuel xpub (query_int gap) (Some startIndex)) (\<lambda>_. sendRawData (Status_data ''Rescan complete'')))
            rescan_error)"

definition getXpubDelete :: "('n, 'l) entity_lib_scheme \<Rightarrow> string \<Rightarrow> ('s world_scheme, support_data response) act" where
  "getXpubDelete lib arg =
     (case e_xpubs (parseEntities lib (Some arg)) of
        [] \<Rightarrow> sendError (Err Xpub_INVALID) 400
      | xpub # _ \<Rightarrow> catchA (bindA (deleteHdAccount xpub) (\<lambda>_. sendOk)) (\<lambda>e. sendError e 400))"

section \<open>API keys\<close>

text \<open>
  The body of a request about a key: the label if it is a string, the date as it was given and the flag.
  \<open>Date.parse\<close> is a parameter: whether the text of a value is a date, and the time it is.
\<close>

record key_body =
  kb_label :: "string option"
  kb_expires :: "field option"
  kb_active :: "bool option"

record dates =
  dt_valid :: "field \<Rightarrow> bool"
  dt_time :: "field \<Rightarrow> int"

definition is_space :: "char \<Rightarrow> bool" where
  "is_space c = (let n = of_char c :: nat in n = 32 \<or> n = 160 \<or> 9 \<le> n \<and> n \<le> 13)"

definition trim :: "string \<Rightarrow> string" where
  "trim t = rev (dropWhile is_space (rev (dropWhile is_space t)))"

definition key_label :: "key_body \<Rightarrow> string result" where
  "key_label b =
     (case kb_label b of
        None \<Rightarrow> Inl (Str ''Invalid label'')
      | Some label \<Rightarrow> if length (trim label) = 0 \<or> 30 < length (trim label) then Inl (Str ''Invalid label'') else Inr (trim label))"

definition key_expiry :: "dates \<Rightarrow> key_body \<Rightarrow> int result" where
  "key_expiry dates b =
     (case kb_expires b of
        None \<Rightarrow> Inl (Str ''Invalid expiration date'')
      | Some e \<Rightarrow> if \<not> truthy_field (Some e) \<or> \<not> dt_valid dates e then Inl (Str ''Invalid expiration date'') else Inr (dt_time dates e))"

definition getApiKeys_rest :: "('s world_scheme, support_data response) act" where
  "getApiKeys_rest = bindA (askDb getApiKeys) (\<lambda>tokens. sendOkDataOnly (Keys_data tokens))"

definition createApiKey_rest :: "dates \<Rightarrow> string \<Rightarrow> key_body \<Rightarrow> ('s world_scheme, support_data response) act" where
  "createApiKey_rest dates random b =
     catchA (bindA (lift (key_label b)) (\<lambda>label.
             bindA (lift (key_expiry dates b)) (\<lambda>expiresAt.
             bindA (tryDb (createApiKey label random expiresAt)) (\<lambda>_. sendOk))))
       (\<lambda>e. sendError e 400)"

definition updateApiKey_rest :: "dates \<Rightarrow> string \<Rightarrow> key_body \<Rightarrow> ('s world_scheme, support_data response) act" where
  "updateApiKey_rest dates apikey b =
     catchA (if apikey = [] then throw (Str ''Invalid API key'')
             else bindA (lift (key_label b)) (\<lambda>label.
                  bindA (lift (key_expiry dates b)) (\<lambda>expiresAt.
                  case kb_active b of
                    None \<Rightarrow> throw (Str ''Invalid active status'')
                  | Some active \<Rightarrow>
                      bindA (askDb (getApiKeyID apikey)) (\<lambda>apikeyID. case apikeyID of
                        None \<Rightarrow> throw (Str ''API key not found'')
                      | Some i \<Rightarrow> bindA (onDb (updateApiKey i label active expiresAt)) (\<lambda>_. sendOk)))))
       (\<lambda>e. sendError e 400)"

definition deleteApiKey_rest :: "string \<Rightarrow> ('s world_scheme, support_data response) act" where
  "deleteApiKey_rest apikey =
     catchA (if apikey = [] then throw (Str ''Invalid API key'')
             else bindA (onDb (deleteApiKey apikey)) (\<lambda>_. sendOk))
       (\<lambda>e. sendError e 400)"

section \<open>Services\<close>

record service =
  sv_type :: string
  sv_kind :: "string option"
  sv_url :: "string option"
  sv_announce :: "string option"
  sv_auth47 :: "string option"

record services_conf =
  sc_explorer :: "string option"
  sc_explorer_uri :: string
  sc_indexer :: string
  sc_indexer_type :: string
  sc_indexer_uri :: "string option"
  sc_soroban_rpc :: "string option"
  sc_announce :: string
  sc_auth47 :: string

definition getServices :: "services_conf \<Rightarrow> ('s, service list response) act" where
  "getServices k = sendOkDataOnly
     ((case sc_explorer k of
         None \<Rightarrow> []
       | Some e \<Rightarrow> [\<lparr>sv_type = ''explorer'', sv_kind = Some e, sv_url = Some (sc_explorer_uri k), sv_announce = None, sv_auth47 = None\<rparr>]) @
      (case sc_indexer_uri k of
         None \<Rightarrow> []
       | Some uri \<Rightarrow> if sc_indexer k = ''local_indexer''
           then [\<lparr>sv_type = ''indexer'', sv_kind = Some (sc_indexer_type k), sv_url = Some uri, sv_announce = None, sv_auth47 = None\<rparr>] else []) @
      (case sc_soroban_rpc k of
         None \<Rightarrow> []
       | Some url \<Rightarrow> [\<lparr>sv_type = ''soroban'', sv_kind = Some ''rpc'', sv_url = Some url,
           sv_announce = Some (sc_announce k), sv_auth47 = Some (sc_auth47 k)\<rparr>]))"

section \<open>Routes\<close>

datatype support_request =
    Address_info string
  | Address_rescan string
  | Xpub_info string
  | Xpub_rescan string "string option" int
  | Xpub_delete string
  | Api_keys
  | Create_key string key_body
  | Update_key string key_body
  | Delete_key string

definition validateAddress :: "validator \<Rightarrow> string \<Rightarrow> bool" where "validateAddress v addr \<longleftrightarrow> va_alphanumeric v addr"

definition validateArgsGetXpubInfo :: "validator \<Rightarrow> string \<Rightarrow> bool" where "validateArgsGetXpubInfo v xpub \<longleftrightarrow> va_alphanumeric v xpub"

definition validateArgsGetXpubRescan :: "validator \<Rightarrow> string \<Rightarrow> string option \<Rightarrow> bool" where
  "validateArgsGetXpubRescan v xpub gap \<longleftrightarrow> va_alphanumeric v xpub \<and> falsy_or (va_int v) gap"

definition validateArgsGetXpubDelete :: "validator \<Rightarrow> string \<Rightarrow> bool" where "validateArgsGetXpubDelete v xpub \<longleftrightarrow> va_alphanumeric v xpub"

definition support_valid :: "validator \<Rightarrow> support_request \<Rightarrow> bool" where
  "support_valid v req =
     (case req of
        Address_info a \<Rightarrow> validateAddress v a
      | Address_rescan a \<Rightarrow> validateAddress v a
      | Xpub_info x \<Rightarrow> validateArgsGetXpubInfo v x
      | Xpub_rescan x gap _ \<Rightarrow> validateArgsGetXpubRescan v x gap
      | Xpub_delete x \<Rightarrow> validateArgsGetXpubDelete v x
      | _ \<Rightarrow> True)"

definition support_handler :: "int \<Rightarrow> ('n, 'e) wallet_env_scheme \<Rightarrow> nat \<Rightarrow> ('n, 'l) entity_lib_scheme \<Rightarrow> dates \<Rightarrow> support_request
    \<Rightarrow> ('s import_state_scheme, support_data response) act" where
  "support_handler now env fuel lib dates req =
     (case req of
        Address_info a \<Rightarrow> getAddressInfo env lib a
      | Address_rescan a \<Rightarrow> getAddressRescan now env lib a
      | Xpub_info x \<Rightarrow> getXpubInfo env lib x
      | Xpub_rescan x gap start \<Rightarrow> getXpubRescan now env fuel lib x gap start
      | Xpub_delete x \<Rightarrow> getXpubDelete lib x
      | Api_keys \<Rightarrow> getApiKeys_rest
      | Create_key random b \<Rightarrow> createApiKey_rest dates random b
      | Update_key k b \<Rightarrow> updateApiKey_rest dates k b
      | Delete_key k \<Rightarrow> deleteApiKey_rest k)"

definition support :: "ctx result \<Rightarrow> validator \<Rightarrow> int \<Rightarrow> ('n, 'e) wallet_env_scheme \<Rightarrow> nat \<Rightarrow> ('n, 'l) entity_lib_scheme \<Rightarrow> dates
    \<Rightarrow> support_request \<Rightarrow> ('s import_state_scheme, support_data response) act" where
  "support auth v now env fuel lib dates req = route auth (support_valid v req) (support_handler now env fuel lib dates req)"

section \<open>The life of a key\<close>

lemma support_admin: "checkHasAdminProfile conf jwt now c = Inr c' \<Longrightarrow> support_valid v req \<Longrightarrow>
    support (checkHasAdminProfile conf jwt now c) v tnow env fuel lib dates req s = support_handler tnow env fuel lib dates req s"
  by (simp add: support_def route_def)

text \<open>The key a login presents, and what it needs to be accepted.\<close>

definition presents :: "string \<Rightarrow> ctx \<Rightarrow> bool" where
  "presents key c \<longleftrightarrow> or_else (truthy_str (cx_key_body c)) (cx_key_query c) = Some key"

definition accepted :: "auth_conf \<Rightarrow> (string \<Rightarrow> string \<Rightarrow> bool) \<Rightarrow> db \<Rightarrow> int \<Rightarrow> ctx \<Rightarrow> bool" where
  "accepted conf same d now c \<longleftrightarrow> (\<exists>c'. authenticate conf (\<lambda>k. isApiKeyActive same now k d) c = Inr c')"

lemma accepted_iff:
  assumes "presents key c" and "key \<noteq> au_adminKey conf" and "key \<notin> set (au_apiKeys conf)"
  shows "accepted conf same d now c \<longleftrightarrow> isApiKeyActive same now (Some key) d"
  using assms by (auto simp: accepted_def authenticate_def presents_def)

lemma active_last:
  assumes "rows (api_keys d) = pre @ [r]" and "\<forall>q\<in>set pre. \<not> same (k_apikey q) key" and "k_apikey r = key" and "same key key" and "key \<noteq> []"
  shows "isApiKeyActive same now (Some key) d \<longleftrightarrow> k_active r \<and> now < k_expiresAt r"
proof -
  have "filter (\<lambda>q. same (k_apikey q) key \<and> k_active q \<and> now < k_expiresAt q) pre = []"
    using assms(2) by (auto simp: filter_empty_conv)
  then show ?thesis using assms by (simp add: isApiKeyActive_def)
qed

lemma inactive_absent: "\<forall>q\<in>set (rows (api_keys d)). \<not> same (k_apikey q) key \<Longrightarrow> \<not> isApiKeyActive same now (Some key) d"
  by (auto simp: isApiKeyActive_def filter_empty_conv take_Suc split: list.splits dest!: arg_cong [where f = set])

text \<open>The three operations on a table whose last row is the one of the key.\<close>

definition key_row :: "nat \<Rightarrow> string \<Rightarrow> string \<Rightarrow> bool \<Rightarrow> int \<Rightarrow> api_key_row" where
  "key_row i label key active e = \<lparr>k_apikeyID = i, k_label = label, k_apikey = key, k_active = active, k_expiresAt = e\<rparr>"

lemma create_run:
  assumes "key_label b = Inr label" and "key_expiry dates b = Inr e" and "find_by k_apikey key (rows (api_keys (w_db s))) = None"
  shows "\<exists>t. createApiKey_rest dates key b s = Some (Inr ok_response, t)
    \<and> rows (api_keys (w_db t)) = rows (api_keys (w_db s)) @ [key_row (next_id (api_keys (w_db s))) label key True e]"
  unfolding createApiKey_rest_def assms(1,2) bindA_lift
  using assms(3) by (simp add: catchA_def bindA_def tryDb_def tryModify_def createApiKey_def tbl_insert_def tbl_add_def
      sendOk_def ret_def key_row_def)

lemma update_run:
  assumes "key_label b = Inr label" and "key_expiry dates b = Inr e" and "kb_active b = Some active" and "key \<noteq> []"
    and "rows (api_keys (w_db s)) = pre @ [key_row i l key a e0]" and "find_by k_apikey key pre = None"
  shows "\<exists>t pre'. updateApiKey_rest dates key b s = Some (Inr ok_response, t)
    \<and> rows (api_keys (w_db t)) = pre' @ [key_row i label key active e] \<and> map k_apikey pre' = map k_apikey pre"
  unfolding updateApiKey_rest_def assms(1-3) bindA_lift option.case
  using assms(4-6) by (auto simp: catchA_def bindA_def askDb_def ask_def onDb_def modify_def updateApiKey_def tbl_update_def
      getApiKeyID_def find_by_append sendOk_def ret_def key_row_def)

lemma delete_run:
  assumes "key \<noteq> []"
  shows "deleteApiKey_rest key s = Some (Inr ok_response, s\<lparr>w_db := deleteApiKey key (w_db s)\<rparr>)"
  using assms by (simp add: deleteApiKey_rest_def catchA_def bindA_def onDb_def modify_def sendOk_def ret_def)

text \<open>
  C22. An API key made by the administrator lets its bearers log in, from its creation until the
  date it was given and no longer. A change of its date or of its flag takes effect at once, and after it is
  deleted no login with it is accepted. Each of the three requests of the administrator is answered with ok.
\<close>

theorem api_key_life:
  assumes admin: "checkHasAdminProfile conf jwt now0 c0 = Inr c1"
    and fresh: "\<forall>r\<in>set (rows (api_keys (w_db s))). \<not> same (k_apikey r) key" "same key key" "key \<noteq> []"
    and other: "key \<noteq> au_adminKey conf" "key \<notin> set (au_apiKeys conf)"
    and body: "key_label b = Inr label" "key_expiry dates b = Inr e"
  shows "\<exists>t. support (checkHasAdminProfile conf jwt now0 c0) v tnow env fuel lib dates (Create_key key b) s = Some (Inr ok_response, t)
    \<and> (\<forall>c now. presents key c \<longrightarrow> (accepted conf same (w_db t) now c \<longleftrightarrow> now < e))
    \<and> (\<forall>b2 label2 e2 active. key_label b2 = Inr label2 \<longrightarrow> key_expiry dates b2 = Inr e2 \<longrightarrow> kb_active b2 = Some active \<longrightarrow>
        (\<exists>u. support (checkHasAdminProfile conf jwt now0 c0) v tnow env fuel lib dates (Update_key key b2) t = Some (Inr ok_response, u)
          \<and> (\<forall>c now. presents key c \<longrightarrow> (accepted conf same (w_db u) now c \<longleftrightarrow> active \<and> now < e2))))
    \<and> (\<exists>u. support (checkHasAdminProfile conf jwt now0 c0) v tnow env fuel lib dates (Delete_key key) t = Some (Inr ok_response, u)
          \<and> (\<forall>c now. presents key c \<longrightarrow> \<not> accepted conf same (w_db u) now c))"
proof -
  let ?pre = "rows (api_keys (w_db s))"
  have none: "find_by k_apikey key ?pre = None" using fresh by (auto simp: find_by_None_iff)
  note run = support_admin [OF admin]
  have login: "presents key c \<Longrightarrow> accepted conf same d now c \<longleftrightarrow> isApiKeyActive same now (Some key) d" for d c now
    by (rule accepted_iff [OF _ other])
  obtain t i where t: "createApiKey_rest dates key b s = Some (Inr ok_response, t)"
    "rows (api_keys (w_db t)) = ?pre @ [key_row i label key True e]" using create_run [OF body none] by blast
  have alive: "isApiKeyActive same now (Some key) (w_db t) \<longleftrightarrow> now < e" for now
    using active_last [where same = same, OF t(2) fresh(1) _ fresh(2,3)] by (simp add: key_row_def)
  have changed: "\<exists>u. updateApiKey_rest dates key b2 t = Some (Inr ok_response, u)
      \<and> (\<forall>now. isApiKeyActive same now (Some key) (w_db u) \<longleftrightarrow> active \<and> now < e2)"
    if b2: "key_label b2 = Inr label2" "key_expiry dates b2 = Inr e2" "kb_active b2 = Some active" for b2 label2 e2 active
  proof -
    obtain u pre' where u: "updateApiKey_rest dates key b2 t = Some (Inr ok_response, u)"
      "rows (api_keys (w_db u)) = pre' @ [key_row i label2 key active e2]" "map k_apikey pre' = map k_apikey ?pre"
      using update_run [OF b2 fresh(3) t(2) none] by blast
    have "k_apikey ` set pre' = k_apikey ` set ?pre" using u(3) by (metis list.set_map)
    then have "\<forall>q\<in>set pre'. \<not> same (k_apikey q) key" using fresh(1) by (metis imageE imageI)
    then show ?thesis using u(1) active_last [where same = same, OF u(2) _ _ fresh(2,3)] by (auto simp: key_row_def)
  qed
  have gone: "\<not> isApiKeyActive same now (Some key) (deleteApiKey key (w_db t))" for now
    by (rule inactive_absent) (use fresh(1) t(2) in \<open>auto simp: deleteApiKey_def tbl_delete_def key_row_def\<close>)
  have routes: "support (checkHasAdminProfile conf jwt now0 c0) v tnow env fuel lib dates (Create_key key b') u = createApiKey_rest dates key b' u"
    "support (checkHasAdminProfile conf jwt now0 c0) v tnow env fuel lib dates (Update_key key b') u = updateApiKey_rest dates key b' u"
    "support (checkHasAdminProfile conf jwt now0 c0) v tnow env fuel lib dates (Delete_key key) u = deleteApiKey_rest key u" for b' u
    by (simp_all add: run support_valid_def support_handler_def)
  show ?thesis unfolding routes
  proof (rule exI [of _ t], intro conjI allI impI t(1))
    show "accepted conf same (w_db t) now c \<longleftrightarrow> now < e" if "presents key c" for c now using login [OF that] alive by simp
    show "\<exists>u. updateApiKey_rest dates key b2 t = Some (Inr ok_response, u)
        \<and> (\<forall>c now. presents key c \<longrightarrow> (accepted conf same (w_db u) now c \<longleftrightarrow> active \<and> now < e2))"
      if "key_label b2 = Inr label2" "key_expiry dates b2 = Inr e2" "kb_active b2 = Some active" for b2 label2 e2 active
      using changed [OF that] login by blast
    show "\<exists>u. deleteApiKey_rest key t = Some (Inr ok_response, u) \<and> (\<forall>c now. presents key c \<longrightarrow> \<not> accepted conf same (w_db u) now c)"
      using delete_run [OF fresh(3), of t] login gone by simp
  qed
qed

section \<open>Witness\<close>

definition demo_admin :: auth_conf where
  "demo_admin = demo_auth\<lparr>au_active := False\<rparr>"

definition demo_entity_lib :: "int list entity_lib" where
  "demo_entity_lib = hd_lib.extend (demo_lib 0) \<lparr>el_pubkey = \<lambda>_. False, el_address = \<lambda>_. True, el_bech32 = \<lambda>_. None\<rparr>"

definition demo_body :: key_body where
  "demo_body = \<lparr>kb_label = Some '' phone '', kb_expires = Some (A_text ''2030''), kb_active = Some False\<rparr>"

definition demo_dates :: dates where
  "demo_dates = \<lparr>dt_valid = \<lambda>_. True, dt_time = \<lambda>_. 1900\<rparr>"

theorem api_key_life_witness:
  "\<exists>t. support (checkHasAdminProfile demo_admin demo_jwt 0 (demo_ctx None None)) demo_validator 0 demo_wallet_env 0 demo_entity_lib demo_dates
      (Create_key ''k1'' demo_body) demo_importer = Some (Inr ok_response, t)
    \<and> accepted demo_admin (\<lambda>a b. a = b) (w_db t) 1899 (demo_ctx None (Some ''k1''))
    \<and> \<not> accepted demo_admin (\<lambda>a b. a = b) (w_db t) 1900 (demo_ctx None (Some ''k1''))"
proof -
  have admin: "checkHasAdminProfile demo_admin demo_jwt 0 (demo_ctx None None) = Inr (demo_ctx None None)"
    by (simp add: checkHasAdminProfile_def demo_admin_def)
  have fresh: "\<forall>r\<in>set (rows (api_keys (w_db demo_importer))). \<not> k_apikey r = ''k1''"
    by (simp add: demo_importer_def empty_db_def empty_table_def)
  have other: "''k1'' \<noteq> au_adminKey demo_admin" "''k1'' \<notin> set (au_apiKeys demo_admin)"
    by (simp_all add: demo_admin_def demo_auth_def)
  have body: "key_label demo_body = Inr ''phone''" "key_expiry demo_dates demo_body = Inr 1900"
    by (simp_all add: key_label_def key_expiry_def demo_body_def demo_dates_def truthy_field_def trim_def is_space_def)
  have key: "presents ''k1'' (demo_ctx None (Some ''k1''))"
    by (simp add: presents_def demo_ctx_def or_else_def truthy_str_def)
  show ?thesis
    using api_key_life [where same = "\<lambda>a b. a = b" and v = demo_validator and env = demo_wallet_env and lib = demo_entity_lib and fuel = 0
        and tnow = 0, OF admin fresh _ _ other body] key by auto
qed

end
