(* ===== verification/Rest_Accounts.thy ===== *)
theory Rest_Accounts
  imports Rest_Xpub Wallet_Service Import_Sources
begin

text \<open>
  The endpoints the wallets read: \<^verbatim>\<open>accounts/wallet-rest-api.ts\<close>, \<^verbatim>\<open>multiaddr-rest-api.ts\<close>,
  \<^verbatim>\<open>unspent-rest-api.ts\<close>, \<^verbatim>\<open>transactions-rest-api.ts\<close>, \<^verbatim>\<open>fees-rest-api.ts\<close>, \<^verbatim>\<open>headers-rest-api.ts\<close>,
  \<^verbatim>\<open>latest-block-rest-api.ts\<close> and \<^verbatim>\<open>seen-rest-api.ts\<close>. An answer in JSON stands for its data.
\<close>

section \<open>Wallets\<close>

definition fullWallet :: "int \<Rightarrow> ('n, 'e) wallet_env_scheme \<Rightarrow> nat \<Rightarrow> (load list \<Rightarrow> load list) \<Rightarrow> ('n, 'l) entity_lib_scheme
    \<Rightarrow> entity_params \<Rightarrow> bool \<Rightarrow> ('s tip_state_scheme, plain_wallet) act" where
  "fullWallet now env fuel sched lib p importPostmix =
     (let e = parseEntitiesParams lib p
      in bindA (if importPostmix then importPostmixLikeTypeChange env (e_xpubs (pp_active e)) else ret ()) (\<lambda>_.
           getFullWalletInfo now env fuel sched (pp_active e) (pp_legacy e) (pp_bip49 e) (pp_bip84 e) (pp_pubkey e)))"

definition getWallet :: "int \<Rightarrow> ('n, 'e) wallet_env_scheme \<Rightarrow> nat \<Rightarrow> (load list \<Rightarrow> load list) \<Rightarrow> ('n, 'l) entity_lib_scheme
    \<Rightarrow> entity_params \<Rightarrow> bool \<Rightarrow> ('s tip_state_scheme, plain_wallet response) act" where
  "getWallet now env fuel sched lib params importPostmix =
     (if \<not> checkEntitiesParams params then sendError (Err Multiaddr_NOACT) 400
      else catchA (bindA (fullWallet now env fuel sched lib params importPostmix) sendRawData) (\<lambda>e. sendError e 400))"

definition postWallet :: "int \<Rightarrow> ('n, 'e) wallet_env_scheme \<Rightarrow> nat \<Rightarrow> (load list \<Rightarrow> load list) \<Rightarrow> ('n, 'l) entity_lib_scheme
    \<Rightarrow> entity_params \<Rightarrow> bool \<Rightarrow> ('s tip_state_scheme, plain_wallet response) act" where
  "postWallet now env fuel sched lib body importPostmix =
     (if \<not> checkEntitiesParams body then sendError (Err Multiaddr_NOACT) 400
      else catchA (bindA (fullWallet now env fuel sched lib body importPostmix) sendOkDataOnly) (\<lambda>e. sendError e 400))"

definition walletInfo :: "int \<Rightarrow> ('n, 'e) wallet_env_scheme \<Rightarrow> nat \<Rightarrow> parsed_params \<Rightarrow> ('s tip_state_scheme, plain_wallet) act" where
  "walletInfo now env fuel e = getWalletInfo now env fuel (pp_active e) (pp_legacy e) (pp_bip49 e) (pp_bip84 e) (pp_pubkey e)"

text \<open>A GET with one account, or with one or two addresses, is refused with an empty message.\<close>

definition getMultiaddr :: "int \<Rightarrow> ('n, 'e) wallet_env_scheme \<Rightarrow> nat \<Rightarrow> ('n, 'l) entity_lib_scheme \<Rightarrow> entity_params
    \<Rightarrow> ('s tip_state_scheme, plain_wallet response) act" where
  "getMultiaddr now env fuel lib params =
     (if \<not> checkEntitiesParams params then sendError (Err Multiaddr_NOACT) 400
      else let e = parseEntitiesParams lib params
           in if length (e_addrs (pp_active e)) = 1 \<or> length (e_addrs (pp_active e)) = 2 \<or> length (e_xpubs (pp_active e)) = 1
              then sendError (Str []) 400
              else catchA (bindA (walletInfo now env fuel e) sendRawData) (\<lambda>e. sendError e 400))"

definition postMultiaddr :: "int \<Rightarrow> ('n, 'e) wallet_env_scheme \<Rightarrow> nat \<Rightarrow> ('n, 'l) entity_lib_scheme \<Rightarrow> entity_params
    \<Rightarrow> ('s tip_state_scheme, plain_wallet response) act" where
  "postMultiaddr now env fuel lib body =
     (if \<not> checkEntitiesParams body then sendError (Err Multiaddr_NOACT) 400
      else catchA (bindA (walletInfo now env fuel (parseEntitiesParams lib body)) sendOkDataOnly) (\<lambda>e. sendError e 400))"

definition walletUtxos :: "int \<Rightarrow> ('n, 'e) wallet_env_scheme \<Rightarrow> nat \<Rightarrow> parsed_params \<Rightarrow> ('s tip_state_scheme, wallet_utxo list) act" where
  "walletUtxos now env fuel e = getWalletUtxos now env fuel (pp_active e) (pp_legacy e) (pp_bip49 e) (pp_bip84 e) (pp_pubkey e)"

definition getUnspent :: "int \<Rightarrow> ('n, 'e) wallet_env_scheme \<Rightarrow> nat \<Rightarrow> ('n, 'l) entity_lib_scheme \<Rightarrow> entity_params
    \<Rightarrow> ('s tip_state_scheme, wallet_utxo list response) act" where
  "getUnspent now env fuel lib params =
     (if \<not> checkEntitiesParams params then sendError (Err Multiaddr_NOACT) 400
      else catchA (bindA (walletUtxos now env fuel (parseEntitiesParams lib params)) sendRawData) (\<lambda>e. sendError e 400))"

definition postUnspent :: "int \<Rightarrow> ('n, 'e) wallet_env_scheme \<Rightarrow> nat \<Rightarrow> ('n, 'l) entity_lib_scheme \<Rightarrow> entity_params
    \<Rightarrow> ('s tip_state_scheme, wallet_utxo list response) act" where
  "postUnspent now env fuel lib body =
     (if \<not> checkEntitiesParams body then sendError (Err Multiaddr_NOACT) 400
      else catchA (bindA (walletUtxos now env fuel (parseEntitiesParams lib body)) sendOkDataOnly) (\<lambda>e. sendError e 400))"

section \<open>Transactions\<close>

definition getTransaction_rest :: "'e rpc_env_scheme \<Rightarrow> string \<Rightarrow> string option \<Rightarrow> string option \<Rightarrow> ('s rpc_state_scheme, prepared_tx response) act" where
  "getTransaction_rest env txid fees rawHex =
     catchA (bindA (getTransaction_rpc env (Some txid) (fees \<noteq> None) (rawHex \<noteq> None)) sendRawData) (\<lambda>e. sendError e 400)"

definition getTransactionHex_rest :: "'e rpc_env_scheme \<Rightarrow> string \<Rightarrow> ('s rpc_state_scheme, string response) act" where
  "getTransactionHex_rest env txid = catchA (bindA (getTransactionHex env (Some txid)) sendOkData) (\<lambda>e. sendError e 400)"

text \<open>\<open>gettxout\<close> of the node gives the output, or \<open>null\<close>. The answer to its errors has no message.\<close>

definition getTxOut :: "(nat \<Rightarrow> string \<Rightarrow> int \<Rightarrow> 'o option result) \<Rightarrow> string \<Rightarrow> string \<Rightarrow> ('s clocked_scheme, 'o option response) act" where
  "getTxOut gettxout txid index =
     (if txid = [] \<or> index = [] then sendError (Err Params_INVALID) 400
      else case parseInt index of
        None \<Rightarrow> sendError (Err Params_INVALID) 400
      | Some n \<Rightarrow> catchA (bindA (remote (\<lambda>k. gettxout k txid n)) sendOkDataOnly)
                   (\<lambda>_. ret \<lparr>rs_code = 404, rs_body = Fail (Str ''null'')\<rparr>))"

definition validateArgsGetTransaction :: "validator \<Rightarrow> string \<Rightarrow> string option \<Rightarrow> bool" where
  "validateArgsGetTransaction v txid fees \<longleftrightarrow> va_sha256 v txid \<and> falsy_or (va_alphanumeric v) fees"

definition validateArgsGetTransactionHex :: "validator \<Rightarrow> string \<Rightarrow> bool" where
  "validateArgsGetTransactionHex v txid \<longleftrightarrow> va_sha256 v txid"

definition validateArgsGetTransactions :: "validator \<Rightarrow> string option \<Rightarrow> string option \<Rightarrow> string option \<Rightarrow> bool" where
  "validateArgsGetTransactions v page cnt excludeNullXfer \<longleftrightarrow>
     falsy_or (va_int v) page \<and> falsy_or (va_int v) cnt \<and> falsy_or (va_alphanumeric v) excludeNullXfer"

section \<open>Fees, headers, latest block\<close>

definition getFees_rest :: "('n, 'e) tip_env_scheme \<Rightarrow> ('s tip_state_scheme, fee_map response) act" where
  "getFees_rest env = catchA (bindA (getFees env) sendOkDataOnly) (\<lambda>e. sendError e 400)"

definition getEstimatorFees_rest :: "('s tip_state_scheme, fee_map response) act" where
  "getEstimatorFees_rest = catchA (bindA getEstimatorFees sendOkDataOnly) (\<lambda>e. sendError e 503)"

definition getHeader_rest :: "('n, 'e) tip_env_scheme \<Rightarrow> string \<Rightarrow> ('s tip_state_scheme, string response) act" where
  "getHeader_rest env hash = catchA (bindA (getHeader env (Some hash)) sendRawData) (\<lambda>e. sendError e 400)"

definition validateArgsGetHeader :: "validator \<Rightarrow> string \<Rightarrow> bool" where "validateArgsGetHeader v hash \<longleftrightarrow> va_sha256 v hash"

definition getLatestBlock :: "('s tip_state_scheme, (int option \<times> string option \<times> int option) response) act" where
  "getLatestBlock = bindA (ask (\<lambda>s. (lb_height (w_latest s), lb_hash (w_latest s), lb_time (w_latest s)))) sendOkDataOnly"

section \<open>Addresses that were seen\<close>

definition getSeen :: "source_kind \<Rightarrow> nat \<Rightarrow> source_env \<Rightarrow> string \<Rightarrow> ('s clocked_scheme, (string \<times> bool) list response) act" where
  "getSeen kind fuel env arg =
     catchA (bindA (sources_getAddresses kind fuel env (split_on (CHR ''|'') arg) (Some False)) (\<lambda>addrResult.
         sendOkDataOnly (fold (\<lambda>r. js_set (sr_address r) (0 < sr_ntx r)) addrResult [])))
       (\<lambda>e. sendError e 400)"

definition validateArgsGetSeen :: "source_kind \<Rightarrow> string option \<Rightarrow> exn option" where
  "validateArgsGetSeen kind arg =
     (if kind = Bitcoind then Some (Err Multiaddr_NO_IMPORTER)
      else if truthy_str arg = None then Some (Err Multiaddr_INVALID) else None)"

definition get_seen :: "ctx result \<Rightarrow> source_kind \<Rightarrow> nat \<Rightarrow> source_env \<Rightarrow> string option \<Rightarrow> ('s clocked_scheme, (string \<times> bool) list response) act" where
  "get_seen auth kind fuel env arg =
     route auth True (case validateArgsGetSeen kind arg of
         Some e \<Rightarrow> sendError e 400
       | None \<Rightarrow> getSeen kind fuel env (case arg of None \<Rightarrow> [] | Some t \<Rightarrow> t))"

text \<open>
  C24. GET /seen says of an address that was asked for that it was seen exactly if it has transactions,
  whichever indexer is configured: with a service that does what it documents the request is answered and its
  dictionary maps the addresses with transactions, and no other, to true.
\<close>

theorem seen_spec:
  assumes "checkAuthentication conf jwt now c = Inr c'" and "kind \<noteq> Bitcoind" and "arg \<noteq> []"
    and "serves kind fuel env hist (Some False) (split_on (CHR ''|'') arg)"
  shows "\<exists>m t. get_seen (checkAuthentication conf jwt now c) kind fuel env (Some arg) s = Some (Inr \<lparr>rs_code = 200, rs_body = Plain m\<rparr>, t)
    \<and> (\<forall>a. map_of m a = Some True \<longleftrightarrow> a \<in> set (split_on (CHR ''|'') arg) \<and> hist a \<noteq> [])"
proof -
  let ?addrs = "split_on (CHR ''|'') arg"
  have told: "told_by kind env hist ?addrs = hist" using assms(2) by (simp add: told_by_def)
  obtain rs k where rs: "sources_getAddresses kind fuel env ?addrs (Some False) s = Some (Inr rs, s\<lparr>w_clock := k\<rparr>)"
    "answers env hist (Some False) ?addrs rs" "\<forall>r\<in>set rs. \<not> too_many env (Some False) r"
    using sources_client [OF assms(4)] unfolding told by blast
  have row: "sr_address r \<in> set ?addrs \<and> r = found (sr_address r) (hist (sr_address r))" if "r \<in> set rs" for r
    using rs(2,3) that by (auto simp: answers_def unless_too_many_def too_many_def)
  let ?m = "fold (\<lambda>r. js_set (sr_address r) (0 < sr_ntx r)) rs []"
  have "map_of (fold (\<lambda>r. js_set (sr_address r) (0 < sr_ntx r)) l m) a =
      (if a \<in> sr_address ` set l then Some (hist a \<noteq> []) else map_of m a)"
    if "\<forall>r\<in>set l. r = found (sr_address r) (hist (sr_address r))" for l m a
    using that
  proof (induction l arbitrary: m)
    case (Cons r l)
    then have "0 < sr_ntx r \<longleftrightarrow> hist (sr_address r) \<noteq> []"
      by (metis found_simps(2) length_0_conv list.set_intros(1) of_nat_0_less_iff length_greater_0_conv)
    then show ?case using Cons by auto
  qed simp
  then have m: "map_of ?m a = Some True \<longleftrightarrow> a \<in> sr_address ` set rs \<and> hist a \<noteq> []" for a
    using row by auto
  have "a \<in> sr_address ` set rs \<longleftrightarrow> a \<in> set ?addrs" if "hist a \<noteq> []" for a
  proof
    show "a \<in> set ?addrs" if "a \<in> sr_address ` set rs" using that row by auto
    assume "a \<in> set ?addrs"
    then have "found a (hist a) \<in> set rs" using rs(2) that by (auto simp: answers_def too_many_def)
    then show "a \<in> sr_address ` set rs" by (metis found_simps(1) imageI)
  qed
  moreover have "get_seen (checkAuthentication conf jwt now c) kind fuel env (Some arg) s =
      Some (Inr \<lparr>rs_code = 200, rs_body = Plain ?m\<rparr>, s\<lparr>w_clock := k\<rparr>)"
    using assms(1-3) rs(1)
    by (simp add: get_seen_def route_def validateArgsGetSeen_def truthy_str_def getSeen_def catchA_def bindA_def sendOkDataOnly_def ret_def)
  ultimately show ?thesis using m by blast
qed

theorem seen_spec_witness:
  "\<exists>m t. get_seen (checkAuthentication (demo_auth\<lparr>au_active := False\<rparr>) demo_jwt 0 (demo_ctx None None)) Electrum 2 demo_services (Some ''x|y'') demo_importer
     = Some (Inr \<lparr>rs_code = 200, rs_body = Plain m\<rparr>, t) \<and> map_of m ''y'' = Some True"
proof -
  have "checkAuthentication (demo_auth\<lparr>au_active := False\<rparr>) demo_jwt 0 (demo_ctx None None) = Inr (demo_ctx None None)"
    by (simp add: checkAuthentication_def)
  moreover have "split_on (CHR ''|'') ''x|y'' = [''x'', ''y'']" by simp
  moreover have "demo_history ''y'' \<noteq> []" by (simp add: demo_history_def)
  ultimately show ?thesis
    using seen_spec [where kind = Electrum and fuel = 2 and env = demo_services and hist = demo_history and arg = "''x|y''" and s = demo_importer]
      demo_serves(2) [of "Some False"] by fastforce
qed

end
