(* ===== verification/Rest_Push.thy ===== *)
theory Rest_Push
  imports Rest_Http Import_Sources Push_Scheduler
begin

text \<open>
  \<^verbatim>\<open>pushtx/pushtx-rest-api.ts\<close>: the endpoints that push a transaction and schedule a script. A form is given
  by its fields \<open>tx\<close> and \<open>strict_mode_vouts\<close>, the body of a script is JSON whose numbers are integers.
\<close>

section \<open>JSON\<close>

datatype (plugins only: code size) json =
  J_null | J_bool bool | J_number int | J_string string | J_array "json list" | J_object "(string \<times> json) list"

definition json_get :: "string \<Rightarrow> json \<Rightarrow> json option" where
  "json_get k j = (case j of J_object members \<Rightarrow> map_of members k | _ \<Rightarrow> None)"

definition truthy_json :: "json option \<Rightarrow> bool" where
  "truthy_json j =
     (case j of None \<Rightarrow> False | Some J_null \<Rightarrow> False | Some (J_bool b) \<Rightarrow> b | Some (J_number n) \<Rightarrow> n \<noteq> 0
      | Some (J_string t) \<Rightarrow> t \<noteq> '''' | Some _ \<Rightarrow> True)"

definition isRecord :: "json \<Rightarrow> bool" where "isRecord j = (case j of J_object _ \<Rightarrow> True | _ \<Rightarrow> False)"

definition json_number :: "json option \<Rightarrow> int option" where
  "json_number j = (case j of Some (J_number n) \<Rightarrow> Some n | _ \<Rightarrow> None)"

definition json_string :: "json option \<Rightarrow> string option" where
  "json_string j = (case j of Some (J_string t) \<Rightarrow> Some t | _ \<Rightarrow> None)"

definition json_array :: "json option \<Rightarrow> json list option" where
  "json_array j = (case j of Some (J_array l) \<Rightarrow> Some l | _ \<Rightarrow> None)"

definition isScheduledTxScriptEntry :: "json \<Rightarrow> bool" where
  "isScheduledTxScriptEntry j \<longleftrightarrow>
     (if \<not> isRecord j then False
      else let vouts = json_get ''strict_mode_vouts'' j
           in json_string (json_get ''tx'' j) \<noteq> None \<and> json_number (json_get ''hop'' j) \<noteq> None
             \<and> json_number (json_get ''nlocktime'' j) \<noteq> None
             \<and> (vouts = None
                \<or> (case json_array vouts of None \<Rightarrow> False | Some l \<Rightarrow> list_all (\<lambda>v. json_number (Some v) \<noteq> None) l)))"

definition isScheduledTxScript :: "json option \<Rightarrow> bool" where
  "isScheduledTxScript j = (case json_array j of None \<Rightarrow> False | Some l \<Rightarrow> list_all isScheduledTxScriptEntry l)"

text \<open>The entry that the scheduler reads in a value of this type; it sets \<open>delta\<close> itself.\<close>

definition entry_of :: "json \<Rightarrow> script_entry" where
  "entry_of j =
     \<lparr>se_tx = the (json_string (json_get ''tx'' j)), se_hop = the (json_number (json_get ''hop'' j)),
      se_nlocktime = the (json_number (json_get ''nlocktime'' j)),
      se_vouts = map_option (map (\<lambda>v. json_number (Some v))) (json_array (json_get ''strict_mode_vouts'' j)), se_delta = 0\<rparr>"

section \<open>Errors\<close>

text \<open>
  The message of an error raised by a third party, and what \<open>JSON.parse\<close> makes of a message if it is
  an object with a code and a message.
\<close>

record trace_lib =
  tl_message :: "exn \<Rightarrow> string"
  tl_payload :: "string \<Rightarrow> string option"

definition traced :: "trace_lib \<Rightarrow> exn \<Rightarrow> exn" where
  "traced lib e =
     (case e of
        Err c \<Rightarrow> e | Str t \<Rightarrow> e | Faults l \<Rightarrow> e
      | _ \<Rightarrow> let m = (case e of Exn m \<Rightarrow> m | _ \<Rightarrow> tl_message lib e)
             in Str (case tl_payload lib m of Some p \<Rightarrow> p | None \<Rightarrow> m))"

definition traceError :: "trace_lib \<Rightarrow> exn \<Rightarrow> nat \<Rightarrow> ('s, 'd response) act" where
  "traceError lib e code = sendError (traced lib e) code"

section \<open>Handlers\<close>

text \<open>The data of an answer: the transaction, or the error with the outputs refused in strict mode.\<close>

datatype pushed = Txid string | Refused_vouts "int list"

definition parseVouts :: "string \<Rightarrow> int list option" where
  "parseVouts t =
     (let vouts = map parseInt (split_on (CHR ''|'') t)
      in if None \<in> set vouts then None else Some (map the vouts))"

definition strictFaults :: "'e push_env_scheme \<Rightarrow> string \<Rightarrow> string option \<Rightarrow> ('s push_state_scheme, int list) act" where
  "strictFaults env tx strictModeVouts =
     (case strictModeVouts of
        None \<Rightarrow> ret []
      | Some t \<Rightarrow> (case parseVouts t of
            None \<Rightarrow> throw (Err Txout_VOUT)
          | Some vouts \<Rightarrow> if vouts = [] then ret [] else enforceStrictModeVouts env tx vouts))"

definition postPushTx :: "validator \<Rightarrow> trace_lib \<Rightarrow> 'e push_env_scheme \<Rightarrow> string option \<Rightarrow> string option
    \<Rightarrow> ('s push_state_scheme, pushed response) act" where
  "postPushTx v lib env tx strictModeVouts =
     (case tx of
        None \<Rightarrow> traceError lib (Err Body_NOTX) 400
      | Some tx \<Rightarrow>
          if \<not> va_hexadecimal v tx then traceError lib (Err Body_INVDATA) 400
          else bindA (catchA (bindA (strictFaults env tx strictModeVouts) (\<lambda>faults. ret (Inr faults))) (\<lambda>e. ret (Inl e))) (\<lambda>checked.
            case checked of
              Inl e \<Rightarrow> traceError lib e 400
            | Inr faults \<Rightarrow>
                if faults \<noteq> [] then ret \<lparr>rs_code = 200, rs_body = Fail_data (Refused_vouts faults)\<rparr>
                else catchA (bindA (pushTx env tx False) (\<lambda>txid. sendOkData (Txid txid))) (\<lambda>e. traceError lib e 400)))"

definition postScheduleTxs :: "trace_lib \<Rightarrow> 'e sched_env_scheme \<Rightarrow> int \<Rightarrow> json option
    \<Rightarrow> ('s push_state_scheme, unit response) act" where
  "postScheduleTxs lib env now body =
     (if \<not> truthy_json body then traceError lib (Err Body_NODATA) 400
      else let script = json_get ''script'' (the body)
        in if \<not> truthy_json script then traceError lib (Err Body_NOSCRIPT) 400
           else if \<not> isScheduledTxScript script then traceError lib (Err Body_INVDATA) 400
           else catchA (bindA (schedule env now (map entry_of (the (json_array script)))) (\<lambda>_. sendOk))
                  (\<lambda>e. traceError lib e (case e of Faults _ \<Rightarrow> 200 | _ \<Rightarrow> 400)))"

definition getPushTx :: "('s, pushed response) act" where
  "getPushTx = sendError (Err Get_DISALLOWED) 405"

section \<open>Routes\<close>

definition post_pushtx :: "ctx result \<Rightarrow> validator \<Rightarrow> trace_lib \<Rightarrow> 'e push_env_scheme \<Rightarrow> string option \<Rightarrow> string option
    \<Rightarrow> ('s push_state_scheme, pushed response) act" where
  "post_pushtx auth v lib env tx strictModeVouts = route auth True (postPushTx v lib env tx strictModeVouts)"

definition post_schedule :: "ctx result \<Rightarrow> trace_lib \<Rightarrow> 'e sched_env_scheme \<Rightarrow> int \<Rightarrow> json option
    \<Rightarrow> ('s push_state_scheme, unit response) act" where
  "post_schedule auth lib env now body = route auth True (postScheduleTxs lib env now body)"

section \<open>What a POST does\<close>

lemma split_on_not_Nil [simp]: "split_on c t \<noteq> []"
  by (cases t) (auto split: list.split)

lemma returns_strictFaults: "returns (strictFaults env tx strict)"
  unfolding strictFaults_def by (auto intro!: returns_intros split: option.split)

lemma keeps_strictFaults: "keeps (same_but_clock s) (strictFaults env tx strict)"
  unfolding strictFaults_def by (auto intro!: keeps_intros split: option.split)

text \<open>The outcome of a POST of one transaction: nothing was done, or the check passed and the push ran.\<close>

definition pushed_or_not :: "validator \<Rightarrow> trace_lib \<Rightarrow> 'e push_env_scheme \<Rightarrow> string option \<Rightarrow> string option
    \<Rightarrow> 's push_state_scheme \<Rightarrow> pushed response \<Rightarrow> 's push_state_scheme \<Rightarrow> bool" where
  "pushed_or_not v lib env tx strict s resp t \<longleftrightarrow>
     same_but_clock s t \<and> (\<forall>d. rs_body resp \<noteq> Ok_data d)
   \<or> (\<exists>raw u r. tx = Some raw \<and> va_hexadecimal v raw
        \<and> strictFaults env raw strict s = Some (Inr [], u) \<and> same_but_clock s u
        \<and> pushTx env raw False u = Some (r, t)
        \<and> resp = (case r of Inr txid \<Rightarrow> \<lparr>rs_code = 200, rs_body = Ok_data (Txid txid)\<rparr> | Inl e \<Rightarrow> error_response (traced lib e) 400))"

lemma not_pushed [simp]:
  "same_but_clock s t \<Longrightarrow> pushed_or_not v lib env tx strict s (error_response e c) t"
  "same_but_clock s t \<Longrightarrow> pushed_or_not v lib env tx strict s \<lparr>rs_code = c, rs_body = Fail_data d\<rparr> t"
  "same_but_clock s t \<Longrightarrow> pushed_or_not v lib env tx strict s (onError e) t"
  by (simp_all add: pushed_or_not_def error_response_def onError_def split: exn.split)

lemma postPushTx_gives: "gives (postPushTx v lib env tx strict) s (pushed_or_not v lib env tx strict s)"
proof (cases "\<exists>raw. tx = Some raw \<and> va_hexadecimal v raw")
  case False
  then show ?thesis by (cases tx) (auto simp: postPushTx_def traceError_def intro: gives_intros)
next
  case True
  then obtain raw where raw: "tx = Some raw" "va_hexadecimal v raw" by blast
  obtain r u where c: "strictFaults env raw strict s = Some (r, u)"
    using returnsD [OF returns_strictFaults [of env raw strict], of s] by blast
  have same: "same_but_clock s u" using keepsD [OF keeps_strictFaults c] by simp
  obtain q t where p: "pushTx env raw False u = Some (q, t)"
    using returnsD [OF returns_pushTx [of env raw False], of u] by blast
  consider (error) e where "r = Inl e" | (faults) f fs where "r = Inr (f # fs)" | (checked) "r = Inr []"
    by (metis list.exhaust sum.exhaust)
  then show ?thesis
  proof cases
    case error
    then show ?thesis using raw c same
      by (simp add: postPushTx_def gives_def bindA_def catchA_def traceError_def sendError_def ret_def)
  next
    case faults
    then show ?thesis using raw c same by (simp add: postPushTx_def gives_def bindA_def catchA_def ret_def)
  next
    case checked
    then have "pushed_or_not v lib env tx strict s
        (case q of Inr txid \<Rightarrow> \<lparr>rs_code = 200, rs_body = Ok_data (Txid txid)\<rparr> | Inl e \<Rightarrow> error_response (traced lib e) 400) t"
      using raw c same p unfolding pushed_or_not_def by blast
    then show ?thesis using raw c p checked
      by (cases q) (simp_all add: postPushTx_def gives_def bindA_def catchA_def ret_def traceError_def sendError_def sendOkData_def)
  qed
qed

text \<open>
  C23. A POST of a transaction is always answered. Unless the credentials hold, the transaction is hexadecimal and
  the outputs named for the strict mode were read as numbers and checked without a fault, nothing is handed over, announced,
  counted or stored and no success is answered; otherwise exactly this transaction goes to \<open>pushTx\<close> after
  the check, and the answer is the identifier it gives or, with code 400, its error.
\<close>

theorem post_pushtx_checked:
  "\<exists>resp t. post_pushtx auth v lib env tx strict s = Some (Inr resp, t)
     \<and> (same_but_clock s t \<and> (\<forall>d. rs_body resp \<noteq> Ok_data d)
      \<or> (\<exists>c raw u r. auth = Inr c \<and> tx = Some raw \<and> va_hexadecimal v raw
           \<and> (case strict of None \<Rightarrow> u = s
              | Some l \<Rightarrow> \<exists>vouts. parseVouts l = Some vouts \<and> vouts \<noteq> []
                  \<and> enforceStrictModeVouts env raw vouts s = Some (Inr [], u) \<and> same_but_clock s u)
           \<and> pushTx env raw False u = Some (r, t) \<and> push_grows {raw} u t
           \<and> resp = (case r of Inr txid \<Rightarrow> \<lparr>rs_code = 200, rs_body = Ok_data (Txid txid)\<rparr>
                     | Inl e \<Rightarrow> error_response (traced lib e) 400)))"
proof (cases auth)
  case (Inl e)
  then show ?thesis by (auto simp: post_pushtx_def route_def ret_def onError_def error_response_def split: exn.split)
next
  case (Inr c)
  have named: "\<exists>vouts. parseVouts l = Some vouts \<and> vouts \<noteq> []" if "strictFaults env raw (Some l) s = Some (Inr x, u)" for raw l x u
    using that by (auto simp: strictFaults_def parseVouts_def Let_def throw_def split: if_splits)
  obtain resp t where r: "post_pushtx auth v lib env tx strict s = Some (Inr resp, t)" "pushed_or_not v lib env tx strict s resp t"
    using givesD [OF postPushTx_gives] Inr by (fastforce simp: post_pushtx_def route_def)
  show ?thesis
  proof (cases "same_but_clock s t \<and> (\<forall>d. rs_body resp \<noteq> Ok_data d)")
    case False
    then obtain raw u q where q: "tx = Some raw" "va_hexadecimal v raw" "strictFaults env raw strict s = Some (Inr [], u)"
      "same_but_clock s u" "pushTx env raw False u = Some (q, t)"
      "resp = (case q of Inr txid \<Rightarrow> \<lparr>rs_code = 200, rs_body = Ok_data (Txid txid)\<rparr> | Inl e \<Rightarrow> error_response (traced lib e) 400)"
      using r(2) by (auto simp: pushed_or_not_def)
    have "push_grows {raw} u t" using keepsD [OF pushTx_grows q(5)] by simp
    moreover have "case strict of None \<Rightarrow> u = s
              | Some l \<Rightarrow> \<exists>vouts. parseVouts l = Some vouts \<and> vouts \<noteq> []
                  \<and> enforceStrictModeVouts env raw vouts s = Some (Inr [], u) \<and> same_but_clock s u"
      using q(3,4) named by (cases strict) (fastforce simp: strictFaults_def ret_def)+
    ultimately show ?thesis using r(1) q Inr by blast
  qed (use r(1) in blast)
qed

end
