(* ===== verification/Rest_Tracker.thy ===== *)
theory Rest_Tracker
  imports Rest_Http Import_Sources Blockchain
begin

text \<open>
  \<^verbatim>\<open>tracker/tracker-rest-api.ts\<close>: the administrator's rescan of a range of blocks.
\<close>

record blocks_rescan =
  br_fromHeight :: int
  br_toHeight :: int

text \<open>The heights of a request; an argument that passes \<open>isInt\<close> is a number to \<open>parseInt\<close>.\<close>

definition rescan_heights :: "validator \<Rightarrow> string option \<Rightarrow> string option \<Rightarrow> (int \<times> int) option" where
  "rescan_heights v fromArg toArg =
     (if \<not> given (va_int v) (truthy_str fromArg) then None
      else if \<not> falsy_or (va_int v) toArg then None
      else case Option.bind fromArg parseInt of
        None \<Rightarrow> None
      | Some fromHeight \<Rightarrow>
          (case truthy_str toArg of
             None \<Rightarrow> Some (fromHeight, fromHeight)
           | Some t \<Rightarrow> (case parseInt t of
                 None \<Rightarrow> None
               | Some toHeight \<Rightarrow> if toHeight < fromHeight then None else Some (fromHeight, toHeight))))"

definition getBlocksRescan :: "validator \<Rightarrow> int \<Rightarrow> 'n tracker \<Rightarrow> nat \<Rightarrow> node \<Rightarrow> string option \<Rightarrow> string option
    \<Rightarrow> ('s chain_state_scheme, blocks_rescan response) act" where
  "getBlocksRescan v now cfg fuel node fromArg toArg =
     (case rescan_heights v fromArg toArg of
        None \<Rightarrow> sendError (Err Body_INVDATA) 400
      | Some (fromHeight, toHeight) \<Rightarrow>
          catchA (bindA (rescanBlocks now cfg fuel node fromHeight (Some toHeight)) (\<lambda>_.
              sendRawData \<lparr>br_fromHeight = fromHeight, br_toHeight = toHeight\<rparr>))
            (\<lambda>e. sendError e 400))"

definition get_blocks_rescan :: "ctx result \<Rightarrow> validator \<Rightarrow> int \<Rightarrow> 'n tracker \<Rightarrow> nat \<Rightarrow> node \<Rightarrow> string option \<Rightarrow> string option
    \<Rightarrow> ('s chain_state_scheme, blocks_rescan response) act" where
  "get_blocks_rescan auth v now cfg fuel node fromArg toArg = route auth True (getBlocksRescan v now cfg fuel node fromArg toArg)"

lemma rescan_heights_ordered: "rescan_heights v fromArg toArg = Some (a, b) \<Longrightarrow> a \<le> b"
  by (auto simp: rescan_heights_def split: if_splits option.splits)

lemma getBlocksRescan_refuses:
  "auth = Inl e \<or> rescan_heights v fromArg toArg = None \<Longrightarrow>
   \<exists>resp. get_blocks_rescan auth v now cfg fuel node fromArg toArg s = Some (Inr resp, s) \<and> rs_code resp \<in> {400, 401, 500}"
  using code_onError by (auto simp: get_blocks_rescan_def route_def getBlocksRescan_def sendError_def ret_def split: sum.split)

end
