(* ===== verification/Spec2Isabelle.thy ===== *)
theory Spec2Isabelle
  imports Errors Util Fifo_Queue Address_Scripts Db_Scheduled Db_History Db_Batch Mempool Push_Orchestrator Notifications Wallet_Service Import_Sources
    Rest_Support Rest_Accounts Rest_Push Rest_Tracker
begin

text \<open>
  Samourai Dojo is the backend of a Bitcoin wallet. It keeps in a MySQL database the HD accounts
  (extended public keys), the addresses and the transactions of the wallets it serves. Three processes
  share the database: the \<^emph>\<open>tracker\<close> follows the blocks and the mempool of a Bitcoin node and
  records the transactions that concern the wallets, \<^emph>\<open>pushtx\<close> pushes transactions at once or when
  the chain reaches a height, and the \<^emph>\<open>accounts\<close> process answers the wallets, imports the accounts it
  does not know and notifies its clients over web sockets. This development models the services of the
  three processes and the operations of the database wrapper they call, one theory per part.

  \<^bold>\<open>Conventions.\<close> An operation that throws gives a sum: \<open>Inl\<close> the error, \<open>Inr\<close> the value. The errors of
  \<^verbatim>\<open>lib/errors.ts\<close> are the datatype of \<^verbatim>\<open>Errors\<close>; \<open>Exn\<close> is any other error and \<open>Exit\<close> the end of the
  process. A method that reads and writes state is an \<open>act\<close> (\<^verbatim>\<open>Effects\<close>): from a state it gives \<open>None\<close>
  when it does not return, otherwise the value or the error and the state it leaves; what was written
  before an error stays written. The states are records that extend one another: the database
  (\<open>world\<close>), a count of the calls to third parties (\<open>clocked\<close>), and what each service keeps. A third
  party (the Bitcoin node, an indexer, PandoTx, the libraries bitcoinjs-lib, jose and quick-lru) is a
  record of functions; where its answers may change they depend on the count of the calls made before. Loops
  that may run on have fuel, and a theorem says how much is enough. Strings are lists of characters,
  amounts are in satoshis, bytes are words of 8 bits, the 32-bit values of a key are words.

  \<^bold>\<open>Theories.\<close>
  \<^item> \<^verbatim>\<open>Prelude\<close>: the theorem collections, lemmas on lists, maps and folds, the locale of step relations
    with an invariant, the locale of tables that give an id to each key.
  \<^item> \<^verbatim>\<open>Errors\<close>, \<^verbatim>\<open>Effects\<close>, \<^verbatim>\<open>Util\<close>: errors, handlers with their rules (what they keep, that they
    return), the helpers of \<^verbatim>\<open>lib/util.ts\<close> that the services use.
  \<^item> \<^verbatim>\<open>Fifo_Queue\<close> (\<^verbatim>\<open>lib/queue.ts\<close>): the work queue as a step relation over interleaved pushes,
    completions and waits; order, rest, and what a rejection does.
  \<^item> \<^verbatim>\<open>Schema\<close> (\<^verbatim>\<open>db-scripts/1_db.sql\<close>): tables with their keys, foreign keys and cascades; \<open>wf_db\<close> is
    the invariant that the schema enforces. \<^verbatim>\<open>Db_Accounts\<close>, \<^verbatim>\<open>Db_Transactions\<close>, \<^verbatim>\<open>Db_Scheduled\<close> and
    \<^verbatim>\<open>Db_History\<close> are the operations and queries of \<^verbatim>\<open>lib/db/mysql-db-wrapper.ts\<close>; a join is a list
    comprehension over the rows. \<^verbatim>\<open>Db_Batch\<close> has its retries and the cutting into batches.
  \<^item> \<^verbatim>\<open>Hd_Accounts_Helper\<close>, \<^verbatim>\<open>Address_Scripts\<close>: versions of extended keys, account types, derivation of
    addresses in the process and by the copy of the code that the worker has
    (\<^verbatim>\<open>lib/bitcoin/parallel-address-derivation.ts\<close>), and the addresses of output scripts.
  \<^item> \<^verbatim>\<open>Tracker_Transaction\<close> with \<^verbatim>\<open>Tracker_Inputs\<close>, \<^verbatim>\<open>Tracker_Outputs\<close> and \<^verbatim>\<open>Tracker_Check\<close>
    (\<^verbatim>\<open>tracker/transaction.ts\<close>), \<^verbatim>\<open>Tracker_Bundle\<close>, \<^verbatim>\<open>Tracker_Block\<close>, \<^verbatim>\<open>Blockchain\<close> and \<^verbatim>\<open>Mempool\<close>: what
    the tracker does with a transaction, a set of them, a block, a notification of the node.
  \<^item> \<^verbatim>\<open>Push_Tx\<close>, \<^verbatim>\<open>Push_Scheduler\<close>, \<^verbatim>\<open>Push_Orchestrator\<close> (\<^verbatim>\<open>pushtx/\<close>): pushing, the check and
    storage of a script of delayed transactions, and their push when a block arrives.
  \<^item> \<^verbatim>\<open>Rpc_Transactions\<close>, \<^verbatim>\<open>Rpc_Chain\<close> (\<^verbatim>\<open>lib/bitcoind-rpc/\<close>): transactions, chain tip, fee rates and
    headers as the node tells them, with their caches.
  \<^item> \<^verbatim>\<open>Remote_Importer\<close>, \<^verbatim>\<open>Hd_Accounts_Service\<close>: the scan of an unknown account up to its gap limit, the
    claims that keep two imports of a key apart, creation, restoration and locks of accounts.
  \<^item> \<^verbatim>\<open>Import_Sources\<close> (\<^verbatim>\<open>lib/remote-importer/\<close>): the five services an import can ask, behind one locale
    that says what a source promises; the importer's client is proved once and holds for each of them. The four
    indexers tell the history of an address, the local node only the transactions with an output it still controls.
  \<^item> \<^verbatim>\<open>Auth_Nonces\<close>, \<^verbatim>\<open>Auth\<close> (\<^verbatim>\<open>lib/auth/\<close>): API keys, tokens and Auth47 challenges.
  \<^item> \<^verbatim>\<open>Entities\<close>, \<^verbatim>\<open>Wallet_Info\<close>, \<^verbatim>\<open>Wallet_Service\<close> (\<^verbatim>\<open>accounts/api-helper.ts\<close>, \<^verbatim>\<open>lib/wallet/\<close>): what a
    request names, and the balances, unspent outputs and transactions it is answered with.
  \<^item> \<^verbatim>\<open>Notifications\<close> (\<^verbatim>\<open>accounts/notifications-service.ts\<close>, \<^verbatim>\<open>notifications-server.ts\<close>): connections,
    subscriptions, and the share of a transaction each client is sent.
  \<^item> \<^verbatim>\<open>Rest_Http\<close> (\<^verbatim>\<open>lib/http-server/\<close>), \<^verbatim>\<open>Rest_Xpub\<close>, \<^verbatim>\<open>Rest_Support\<close>, \<^verbatim>\<open>Rest_Accounts\<close>,
    \<^verbatim>\<open>Rest_Push\<close>, \<^verbatim>\<open>Rest_Tracker\<close> (the files \<^verbatim>\<open>*-rest-api.ts\<close>): the endpoints, from the check of the
    credentials to the answer. \<open>gives\<close> says that a handler answers, and what holds of the answer and the state.

  \<^bold>\<open>How the parts interact.\<close> Every service goes through the wrapper. The unique and foreign keys of the schema
  are enforced by the tables of the model, as the engine of the database does, so every operation of the wrapper keeps
  \<open>wf_db\<close>, and lemmas on \<open>keeps wf\<close> carry that to the handlers. A
  notification of a block makes the tracker rewind the database to the common ancestor and process the
  blocks of the new branch; each block filters its transactions, records their outputs and inputs, and
  confirms them. A transaction that pays a tracked account derives the addresses that keep its gap.
  The scheduler and the orchestrator meet in the table of scheduled transactions. A request about a wallet creates or imports its accounts,
  then reads the database while the tracker fills it.

  \<^bold>\<open>Fuel.\<close> The scan of an account needs more steps than there are indices below the last used one
  (\<open>used_below\<close>); deriving addresses needs one step per output of the transaction; the backtrace of a
  block notification as many as there are unknown blocks; a history read from Esplora one step per page; the orchestrator one more than the ids ever given to scheduled
  transactions. The theorems on these handlers state the bound and prove that the handler returns.

  \<^bold>\<open>Concurrency.\<close> Interleavings are explicit where the outcome rests on them: the queue (any order of
  pushes and completions), the web sockets (any sequence of events), the challenges (any sequence of
  calls), and the loads of a wallet (any order of their ends, as a schedule). Elsewhere concurrent calls
  of one handler run one after another, which each theory says where it does so.

  \<^bold>\<open>Not modelled.\<close> The paged list of transactions, the reports of status and the pairing payloads of the web
  server, its headers and static files; the validator library and \<open>Date.parse\<close>, which the routes use, are
  parameters, and a query whose start index is no number is outside the model. The
  administration pages, the scripts, the log, the sockets and timers that call the handlers, the
  transport of the requests to indexers, and the client of Soroban, whose answers are parameters. Floating-point sums of amounts
  are exact here. The connection pool of the wrapper and its transactions are left out: a statement
  of SQL takes effect at once.
\<close>

end
